(* ===== verification/Prelude.thy ===== *)
theory Prelude
  imports Complex_Main "HOL-Library.List_Lexorder"
begin

section \<open>Prelude: collections, errors as values, strings\<close>

text \<open>
  What every component of the development shares: the hint collections, the values that
  stand for thrown JavaScript exceptions, reads of an array by index, decimal printing of
  numbers, and the representation of strings.

  A JavaScript string is represented by its UTF-8 encoding, a list of characters (bytes). So
  \<open>length\<close> is \<open>Buffer.byteLength(s, 'utf8')\<close>, and the order of \<open>Array.prototype.sort\<close> (by
  UTF-16 code units) is recovered by \<open>utf16_of\<close>. Lone surrogates have no such encoding and are
  outside the model.
\<close>

named_theorems core_simps \<open>unfolding rules of the pure core (events, replay)\<close>
named_theorems db_simps \<open>unfolding rules of the database operations\<close>
named_theorems inv_intros \<open>preservation of the database invariants\<close>

subsection \<open>Lists read by index\<close>

text \<open>Reading a JavaScript array at an index: \<open>undefined\<close> (\<open>None\<close>) past the end.\<close>

fun js_at :: "'a list \<Rightarrow> nat \<Rightarrow> 'a option" where
  "js_at [] i = None"
| "js_at (x # xs) 0 = Some x"
| "js_at (x # xs) (Suc i) = js_at xs i"

lemma js_at_conv: "js_at xs i = (if i < length xs then Some (xs ! i) else None)"
  by (induction xs i rule: js_at.induct) auto

lemma js_at_append: "js_at (xs @ ys) i = (if i < length xs then js_at xs i else js_at ys (i - length xs))"
  by (auto simp: js_at_conv nth_append)

lemma js_at_None_iff: "js_at xs i = None \<longleftrightarrow> length xs \<le> i"
  by (auto simp: js_at_conv)

lemma js_at_SomeD: "js_at xs i = Some x \<Longrightarrow> x \<in> set xs"
  by (auto simp: js_at_conv split: if_splits)

lemma find_append: "find P (xs @ ys) = (case find P xs of None \<Rightarrow> find P ys | Some x \<Rightarrow> Some x)"
  by (induction xs) auto

lemma find_SomeD: "find P xs = Some x \<Longrightarrow> x \<in> set xs \<and> P x"
  by (induction xs) (auto split: if_splits)

lemma find_NoneD: "find P xs = None \<Longrightarrow> x \<in> set xs \<Longrightarrow> \<not> P x"
  by (induction xs) (auto split: if_splits)

subsection \<open>Decimal numbers\<close>

definition digit :: "nat \<Rightarrow> char" where
  "digit d = char_of (48 + d)"

fun show_nat :: "nat \<Rightarrow> string" where
  "show_nat n = (if n < 10 then [digit n] else show_nat (n div 10) @ [digit (n mod 10)])"

declare show_nat.simps [simp del]

definition read_nat :: "string \<Rightarrow> nat" where
  "read_nat s = foldl (\<lambda>a c. 10 * a + (of_char c - 48)) 0 s"

lemma of_char_digit: "d < 10 \<Longrightarrow> (of_char (digit d) :: nat) = 48 + d"
  by (simp add: digit_def)

lemma read_nat_snoc: "read_nat (s @ [c]) = 10 * read_nat s + (of_char c - 48)"
  by (simp add: read_nat_def)

lemma read_show_nat [simp]: "read_nat (show_nat n) = n"
proof (induction n rule: show_nat.induct)
  case (1 n)
  show ?case
  proof (cases "n < 10")
    case True
    then show ?thesis by (simp add: show_nat.simps [of n] read_nat_def of_char_digit)
  next
    case False
    with 1 show ?thesis
      by (simp add: show_nat.simps [of n] read_nat_snoc of_char_digit)
  qed
qed

lemma show_nat_inject [simp]: "show_nat m = show_nat n \<longleftrightarrow> m = n"
  by (metis read_show_nat)

subsection \<open>Strings\<close>

definition quoted :: "string \<Rightarrow> string" where
  "quoted s = [CHR 0x22] @ s @ [CHR 0x22]"

text \<open>The em dash of the source's messages, in UTF-8.\<close>

definition em_dash :: string where
  "em_dash = [CHR 0xE2, CHR 0x80, CHR 0x94]"

subsection \<open>Exceptions as values\<close>

text \<open>
  What the code throws. \<open>Err\<close> is a plain \<open>Error\<close>, \<open>TypeErr\<close> and \<open>RangeErr\<close> the built-in errors,
  \<open>PgErr\<close> an error reported by Postgres; the others are the source's own error classes:
  \<open>NonDeterminismError\<close> and \<open>StepRequestMismatchError\<close> (core/replay.ts), \<open>LeaseLostError\<close>
  (worker-sdk/fencing.ts), \<open>LlmProviderError\<close> (llm/errors.ts), \<open>ToolError\<close> (worker-sdk/tools.ts).
\<close>

datatype step_kind = KLlm | KTool

datatype js_error =
    Err string
  | TypeErr string
  | RangeErr string
  | PgErr string
  | NonDeterminismError nat string string
  | StepRequestMismatchError string nat string string step_kind
  | LeaseLostError nat
  | LlmProviderError string bool string "rat option"
  | ToolError string bool string "rat option"

definition step_mismatch_message :: "string \<Rightarrow> string \<Rightarrow> string \<Rightarrow> step_kind \<Rightarrow> string" where
  "step_mismatch_message stepId expectedHash actualHash kind =
     (case kind of
        KLlm \<Rightarrow> ''Non-deterministic workflow: step '' @ quoted stepId
          @ '' was recorded with request hash '' @ take 12 expectedHash
          @ '', but the running code now produces '' @ take 12 actualHash
          @ ''. The model, prompt, params or tool definitions changed since this step was requested; ''
          @ ''refusing to silently re-call the provider.''
      | KTool \<Rightarrow> ''Non-deterministic workflow: step '' @ quoted stepId
          @ '' was recorded with arguments hash '' @ take 12 expectedHash
          @ '', but the running code now produces '' @ take 12 actualHash
          @ ''. The tool name or its arguments changed since this step was requested; ''
          @ ''refusing to silently re-execute the tool.'')"

definition non_determinism_message :: "nat \<Rightarrow> string \<Rightarrow> string \<Rightarrow> string" where
  "non_determinism_message callIndex expected actual =
     ''Non-deterministic workflow: history has call '' @ show_nat callIndex @ '' scheduling ''
     @ quoted expected @ '', but the running code's call '' @ show_nat callIndex
     @ '' asked for '' @ quoted actual @ '' instead.''"

definition lease_lost_message :: "nat \<Rightarrow> string" where
  "lease_lost_message taskId =
     ''task '' @ show_nat taskId @ '': lease lost '' @ em_dash
     @ '' discarding result instead of writing it''"

text \<open>The \<open>message\<close> property of a thrown error.\<close>

fun error_message :: "js_error \<Rightarrow> string" where
  "error_message (Err m) = m"
| "error_message (TypeErr m) = m"
| "error_message (RangeErr m) = m"
| "error_message (PgErr m) = m"
| "error_message (NonDeterminismError i e a) = non_determinism_message i e a"
| "error_message (StepRequestMismatchError s i e a k) = step_mismatch_message s e a k"
| "error_message (LeaseLostError t) = lease_lost_message t"
| "error_message (LlmProviderError m r c a) = m"
| "error_message (ToolError m r c a) = m"

text \<open>
  Times are rational numbers of milliseconds; \<open>LEASE\<close>-style intervals given in seconds are
  multiplied by 1000 where they are added to a time.
\<close>

type_synonym time = rat

lemma sum_case_Inr: "(case x of Inl e \<Rightarrow> Inl e | Inr y \<Rightarrow> f y) = Inr z \<longleftrightarrow> (\<exists>y. x = Inr y \<and> f y = Inr z)"
  by (cases x) auto

end
