(* ===== verification/Unicode.thy ===== *)
theory Unicode
  imports Prelude
begin

section \<open>UTF-8 and UTF-16\<close>

text \<open>
  Strings are UTF-8 byte lists (Prelude). This theory relates them to code points and to the
  UTF-16 code units that \<open>Array.prototype.sort\<close>, \<open>length\<close> and \<open>slice\<close> count: \<open>utf8_encode\<close> is
  \<open>Buffer.from\<close> on a list of code points, \<open>utf16_of\<close> the code units of a string. Both are
  injective on well-formed text, which is what makes sorting by UTF-16 units a total order on
  keys.
\<close>

text \<open>UTF-8 bytes to code points, and code points to UTF-16 code units.\<close>

fun utf8_points :: "nat list \<Rightarrow> nat list" where
  "utf8_points [] = []"
| "utf8_points (b # bs) =
     (if b < 0x80 then b # utf8_points bs
      else if b < 0xE0 then (case bs of
          c # r \<Rightarrow> ((b - 0xC0) * 0x40 + (c - 0x80)) # utf8_points r | _ \<Rightarrow> [0xFFFD])
      else if b < 0xF0 then (case bs of
          c # d # r \<Rightarrow> ((b - 0xE0) * 0x1000 + (c - 0x80) * 0x40 + (d - 0x80)) # utf8_points r
        | _ \<Rightarrow> [0xFFFD])
      else (case bs of
          c # d # e # r \<Rightarrow>
            ((b - 0xF0) * 0x40000 + (c - 0x80) * 0x1000 + (d - 0x80) * 0x40 + (e - 0x80)) # utf8_points r
        | _ \<Rightarrow> [0xFFFD]))"

definition utf16_units :: "nat \<Rightarrow> nat list" where
  "utf16_units p = (if p < 0x10000 then [p]
     else [0xD800 + (p - 0x10000) div 0x400, 0xDC00 + (p - 0x10000) mod 0x400])"

definition utf16_of :: "string \<Rightarrow> nat list" where
  "utf16_of s = concat (map utf16_units (utf8_points (map of_char s)))"


subsection \<open>Encoding\<close>

definition utf8_char :: "nat \<Rightarrow> nat list" where
  "utf8_char p =
     (if p < 0x80 then [p]
      else if p < 0x800 then [0xC0 + p div 0x40, 0x80 + p mod 0x40]
      else if p < 0x10000 then [0xE0 + p div 0x1000, 0x80 + p div 0x40 mod 0x40, 0x80 + p mod 0x40]
      else [0xF0 + p div 0x40000, 0x80 + p div 0x1000 mod 0x40, 0x80 + p div 0x40 mod 0x40, 0x80 + p mod 0x40])"

definition utf8_bytes :: "nat list \<Rightarrow> nat list" where
  "utf8_bytes ps = concat (map utf8_char ps)"

definition utf8_encode :: "nat list \<Rightarrow> string" where
  "utf8_encode ps = map char_of (utf8_bytes ps)"

text \<open>Unicode scalar values, and the strings that are the UTF-8 encoding of some.\<close>

definition scalar :: "nat \<Rightarrow> bool" where
  "scalar p = (p < 0xD800 \<or> 0xE000 \<le> p \<and> p < 0x110000)"

definition valid_utf8 :: "string \<Rightarrow> bool" where
  "valid_utf8 s = (list_all scalar (utf8_points (map of_char s))
     \<and> utf8_encode (utf8_points (map of_char s)) = s)"

lemma scalar_bound: "scalar p \<Longrightarrow> p < 0x110000"
  by (auto simp: scalar_def)

lemma utf8_char_lt: "p < 0x110000 \<Longrightarrow> b \<in> set (utf8_char p) \<Longrightarrow> b < 256"
  by (auto simp: utf8_char_def split: if_splits)

lemma utf8_char_nonempty [simp]: "utf8_char p \<noteq> []"
  by (simp add: utf8_char_def)

lemma split_base64: "p div 0x1000 * 0x1000 + p div 0x40 mod 0x40 * 0x40 + p mod 0x40 = (p::nat)"
proof -
  have "p div 0x1000 = p div 0x40 div 0x40" by (simp add: div_mult2_eq [symmetric])
  moreover have "p div 0x40 div 0x40 * 0x40 + p div 0x40 mod 0x40 = p div 0x40" by simp
  moreover have "p div 0x40 * 0x40 + p mod 0x40 = p" by simp
  ultimately show ?thesis by linarith
qed

lemma split_base64_3: "p div 0x40000 * 0x40000 + p div 0x1000 mod 0x40 * 0x1000
    + p div 0x40 mod 0x40 * 0x40 + p mod 0x40 = (p::nat)"
proof -
  have "p div 0x40000 = p div 0x1000 div 0x40" by (simp add: div_mult2_eq [symmetric])
  moreover have "p div 0x1000 div 0x40 * 0x40 + p div 0x1000 mod 0x40 = p div 0x1000" by simp
  ultimately show ?thesis using split_base64 [of p] by linarith
qed

lemma utf8_points_char:
  assumes "p < 0x110000"
  shows "utf8_points (utf8_char p @ bs) = p # utf8_points bs"
proof -
  consider "p < 0x80" | "0x80 \<le> p" "p < 0x800" | "0x800 \<le> p" "p < 0x10000" | "0x10000 \<le> p"
    by linarith
  then show ?thesis
  proof cases
    case 1
    then show ?thesis by (simp add: utf8_char_def)
  next
    case 2
    then show ?thesis by (simp add: utf8_char_def less_mult_imp_div_less)
  next
    case 3
    with split_base64 [of p] show ?thesis by (simp add: utf8_char_def less_mult_imp_div_less)
  next
    case 4
    with assms split_base64_3 [of p] show ?thesis by (simp add: utf8_char_def)
  qed
qed

lemma utf8_points_bytes: "list_all (\<lambda>p. p < 0x110000) ps \<Longrightarrow> utf8_points (utf8_bytes ps) = ps"
  by (induction ps) (auto simp: utf8_bytes_def utf8_points_char)

lemma of_char_of_bytes:
  assumes "list_all (\<lambda>p. p < 0x110000) ps"
  shows "map of_char (utf8_encode ps) = utf8_bytes ps"
proof -
  have "b < 256" if "b \<in> set (utf8_bytes ps)" for b
    using that assms utf8_char_lt by (fastforce simp: utf8_bytes_def list_all_iff)
  then show ?thesis
    by (auto simp: utf8_encode_def comp_def intro!: map_idI)
qed

lemma scalar_list_bound: "list_all scalar ps \<Longrightarrow> list_all (\<lambda>p. p < 0x110000) ps"
  by (auto simp: list_all_iff dest: scalar_bound)

lemma utf8_points_encode: "list_all scalar ps \<Longrightarrow> utf8_points (map of_char (utf8_encode ps)) = ps"
  by (simp add: of_char_of_bytes utf8_points_bytes scalar_list_bound)

lemma valid_utf8_encode: "list_all scalar ps \<Longrightarrow> valid_utf8 (utf8_encode ps)"
  by (simp add: valid_utf8_def utf8_points_encode)

subsection \<open>UTF-16\<close>

fun utf16_points :: "nat list \<Rightarrow> nat list" where
  "utf16_points [] = []"
| "utf16_points [u] = [u]"
| "utf16_points (u # v # us) =
     (if 0xD800 \<le> u \<and> u < 0xDC00 then (0x10000 + (u - 0xD800) * 0x400 + (v - 0xDC00)) # utf16_points us
      else u # utf16_points (v # us))"

lemma utf16_points_unit:
  assumes "scalar p"
  shows "utf16_points (utf16_units p @ us) = p # utf16_points us"
proof (cases "p < 0x10000")
  case True
  with assms show ?thesis by (cases us) (auto simp: utf16_units_def scalar_def)
next
  case False
  with assms have "(p - 0x10000) div 0x400 < 0x400"
    by (auto simp: scalar_def less_mult_imp_div_less)
  moreover have "(p - 0x10000) div 0x400 * 0x400 + (p - 0x10000) mod 0x400 = p - 0x10000"
    by simp
  ultimately show ?thesis using False by (simp add: utf16_units_def)
qed

lemma utf16_points_units: "list_all scalar ps \<Longrightarrow> utf16_points (concat (map utf16_units ps)) = ps"
  by (induction ps) (auto simp: utf16_points_unit)

text \<open>Two valid strings with the same code units are the same string.\<close>

lemma utf16_of_inject:
  assumes "valid_utf8 s" "valid_utf8 t" "utf16_of s = utf16_of t"
  shows "s = t"
proof -
  from assms have "utf8_points (map of_char s) = utf8_points (map of_char t)"
    by (metis utf16_of_def utf16_points_units valid_utf8_def)
  with assms(1,2) show ?thesis by (metis valid_utf8_def)
qed

text \<open>Plain ASCII text is valid.\<close>

lemma utf8_points_ascii: "list_all (\<lambda>b. b < 0x80) bs \<Longrightarrow> utf8_points bs = bs"
  by (induction bs) auto

lemma utf8_bytes_ascii: "list_all (\<lambda>b. b < 0x80) ps \<Longrightarrow> utf8_bytes ps = ps"
  by (induction ps) (auto simp: utf8_bytes_def utf8_char_def)

lemma valid_ascii:
  assumes "list_all (\<lambda>c. (of_char c :: nat) < 0x80) s"
  shows "valid_utf8 s"
proof -
  have *: "list_all (\<lambda>b. b < 0x80) (map of_char s :: nat list)"
    using assms by (simp add: list_all_iff)
  then have "list_all scalar (map of_char s)"
    by (auto simp: list_all_iff scalar_def)
  with * show ?thesis
    by (simp add: valid_utf8_def utf8_points_ascii utf8_encode_def utf8_bytes_ascii comp_def)
qed

end
