(* ===== verification/JsValue.thy ===== *)
theory JsValue
  imports Unicode
begin

section \<open>JavaScript values, \<open>JSON.stringify\<close> and the canonical JSON\<close>

text \<open>
  The values that cross the engine's interfaces with the TypeScript type \<open>unknown\<close>, the
  standard library's \<open>JSON.stringify\<close> on them, and \<open>canonicalize\<close> / \<open>canonicalJson\<close> of
  packages/core/src/llm.ts, the function whose output every request hash is computed over.

  A number is represented by its ECMAScript decimal text (\<open>JNum ''0.5''\<close>): the engine never
  computes with a number inside an \<open>unknown\<close> value. \<open>JObj\<close> is an object with its own
  enumerable properties in insertion order, \<open>JToJson v\<close> an object (such as a \<open>Date\<close>) that has
  no own enumerable property and whose \<open>toJSON()\<close> returns \<open>v\<close>. Functions, symbols and bigints
  are outside the model.
\<close>

datatype jsval =
    JUndef
  | JNull
  | JBool bool
  | JNum string
  | JStr string
  | JArr "jsval list"
  | JObj "(string \<times> jsval) list"
  | JToJson jsval

text \<open>Sizes of the values stored in an object are smaller than the object: for termination.\<close>

lemma size_obj_value [termination_simp]:
  "(k, v) \<in> set kvs \<Longrightarrow> size v < Suc (size_list (size_prod (\<lambda>_. 0) size) kvs)"
  by (induction kvs) auto

subsection \<open>Ordinary objects\<close>

text \<open>
  Assignment \<open>out[k] = v\<close> on an ordinary object. The key \<open>__proto__\<close> reaches the setter of
  \<open>Object.prototype\<close> and creates no own property.
\<close>

definition proto_key :: string where
  "proto_key = ''__proto__''"

fun obj_put :: "(string \<times> jsval) list \<Rightarrow> string \<Rightarrow> jsval \<Rightarrow> (string \<times> jsval) list" where
  "obj_put [] k v = [(k, v)]"
| "obj_put ((k', v') # kvs) k v = (if k' = k then (k, v) # kvs else (k', v') # obj_put kvs k v)"

definition obj_assign :: "(string \<times> jsval) list \<Rightarrow> string \<times> jsval \<Rightarrow> (string \<times> jsval) list" where
  "obj_assign kvs kv = (if fst kv = proto_key then kvs else obj_put kvs (fst kv) (snd kv))"

text \<open>
  Enumeration order (\<open>OrdinaryOwnPropertyKeys\<close>): array-index keys in ascending numeric
  order, then the other string keys in insertion order.
\<close>

definition is_digit :: "char \<Rightarrow> bool" where
  "is_digit c = (48 \<le> (of_char c :: nat) \<and> (of_char c :: nat) \<le> 57)"

definition is_index :: "string \<Rightarrow> bool" where
  "is_index s = (s \<noteq> [] \<and> list_all is_digit s \<and> (hd s = CHR ''0'' \<longrightarrow> tl s = [])
     \<and> read_nat s < 2 ^ 32 - 1)"

definition obj_order :: "(string \<times> 'a) list \<Rightarrow> (string \<times> 'a) list" where
  "obj_order kvs = sort_key (read_nat \<circ> fst) (filter (is_index \<circ> fst) kvs)
     @ filter (Not \<circ> is_index \<circ> fst) kvs"

subsection \<open>\<open>JSON.stringify\<close> and \<open>JSON.parse\<close>\<close>

definition hex_digit :: "nat \<Rightarrow> char" where
  "hex_digit d = (if d < 10 then char_of (48 + d) else char_of (87 + d))"

definition escape_char :: "char \<Rightarrow> string" where
  "escape_char c =
     (if c = CHR 0x22 then [CHR 0x5C, CHR 0x22]
      else if c = CHR 0x5C then [CHR 0x5C, CHR 0x5C]
      else if c = CHR 0x08 then [CHR 0x5C, CHR ''b'']
      else if c = CHR 0x0C then [CHR 0x5C, CHR ''f'']
      else if c = CHR 0x0A then [CHR 0x5C, CHR ''n'']
      else if c = CHR 0x0D then [CHR 0x5C, CHR ''r'']
      else if c = CHR 0x09 then [CHR 0x5C, CHR ''t'']
      else if (of_char c :: nat) < 0x20 then
        [CHR 0x5C, CHR ''u'', CHR ''0'', CHR ''0'',
         hex_digit (of_char c div 16), hex_digit (of_char c mod 16)]
      else [c])"

definition json_string :: "string \<Rightarrow> string" where
  "json_string s = [CHR 0x22] @ concat (map escape_char s) @ [CHR 0x22]"

fun comma_sep :: "string list \<Rightarrow> string" where
  "comma_sep [] = ''''"
| "comma_sep [x] = x"
| "comma_sep (x # y # xs) = x @ '','' @ comma_sep (y # xs)"

definition json_number :: "string \<Rightarrow> string" where
  "json_number t = (if t \<in> {''NaN'', ''Infinity'', ''-Infinity''} then ''null'' else t)"

definition json_member :: "string \<times> string option \<Rightarrow> string option" where
  "json_member kv = map_option (\<lambda>t. json_string (fst kv) @ '':'' @ t) (snd kv)"

text \<open>
  \<open>JSON.stringify(value)\<close>, \<open>None\<close> for \<open>undefined\<close>: a property whose value is \<open>undefined\<close> is
  left out, an array element that is \<open>undefined\<close> is printed as \<open>null\<close>, \<open>toJSON\<close> is called once.
\<close>

fun stringify :: "jsval \<Rightarrow> string option" where
  "stringify JUndef = None"
| "stringify JNull = Some ''null''"
| "stringify (JBool b) = Some (if b then ''true'' else ''false'')"
| "stringify (JNum t) = Some (json_number t)"
| "stringify (JStr s) = Some (json_string s)"
| "stringify (JArr vs) =
     Some (''['' @ comma_sep (map (\<lambda>v. case stringify v of None \<Rightarrow> ''null'' | Some t \<Rightarrow> t) vs) @ '']'')"
| "stringify (JObj kvs) =
     Some (''{'' @ comma_sep (List.map_filter json_member
                      (obj_order (map (\<lambda>(k, v). (k, stringify v)) kvs))) @ ''}'')"
| "stringify (JToJson v) = (case v of JToJson w \<Rightarrow> Some ''{}'' | _ \<Rightarrow> stringify v)"

text \<open>
  \<open>JSON.parse(JSON.stringify(value))\<close>: what a value stored in a \<open>jsonb\<close> column reads back as.
  (Postgres also reorders the keys of an object, which nothing in the engine depends on.)
\<close>

definition null_if_undef :: "jsval \<Rightarrow> jsval" where
  "null_if_undef v = (if v = JUndef then JNull else v)"

fun json_trip :: "jsval \<Rightarrow> jsval" where
  "json_trip JUndef = JUndef"
| "json_trip JNull = JNull"
| "json_trip (JBool b) = JBool b"
| "json_trip (JNum t) = (if t \<in> {''NaN'', ''Infinity'', ''-Infinity''} then JNull else JNum t)"
| "json_trip (JStr s) = JStr s"
| "json_trip (JArr vs) = JArr (map (\<lambda>v. null_if_undef (json_trip v)) vs)"
| "json_trip (JObj kvs) = JObj (filter (\<lambda>kv. snd kv \<noteq> JUndef) (map (\<lambda>(k, v). (k, json_trip v)) kvs))"
| "json_trip (JToJson v) = (case v of JToJson w \<Rightarrow> JObj [] | _ \<Rightarrow> json_trip v)"

subsection \<open>\<open>canonicalize\<close> and \<open>canonicalJson\<close>\<close>

text \<open>
  One iteration of the loop over the sorted keys assigns \<open>out[key]\<close>; a key whose value is
  \<open>undefined\<close> is skipped. \<open>build_sorted\<close> is that loop, over the pairs of the source value and
  its canonical form.
\<close>

definition build_sorted :: "(string \<times> jsval \<times> jsval) list \<Rightarrow> (string \<times> jsval) list" where
  "build_sorted kvs = foldl obj_assign []
     (map (\<lambda>(k, item, c). (k, c))
       (filter (\<lambda>(k, item, c). item \<noteq> JUndef) (sort_key (utf16_of \<circ> fst) kvs)))"

fun canonicalize :: "jsval \<Rightarrow> jsval" where
  "canonicalize (JToJson v) = canonicalize v"
| "canonicalize (JArr vs) = JArr (map (\<lambda>v. if v = JUndef then JNull else canonicalize v) vs)"
| "canonicalize (JObj kvs) = JObj (build_sorted (map (\<lambda>(k, v). (k, v, canonicalize v)) kvs))"
| "canonicalize v = v"

definition canonicalJson :: "jsval \<Rightarrow> string option" where
  "canonicalJson v = stringify (canonicalize v)"

end
