(* ===== verification/Canonical.thy ===== *)
theory Canonical
  imports JsValue "HOL-Library.Multiset"
begin

section \<open>The canonical JSON: independence of key order and of the round trip\<close>

text \<open>
  Lemmas on \<open>canonicalJson\<close>. Its value on an object is computed from the canonical texts of the
  values alone (\<open>render_obj\<close>); from that follow the two facts the engine relies on: logically
  equal values have one canonical text, whatever the insertion order of their keys, and a value
  that went through a \<open>jsonb\<close> column has the canonical text it had before.
\<close>

subsection \<open>Well-formed values\<close>

text \<open>
  An object has each key once and every key is well-formed text; \<open>toJSON\<close> does not return
  another object with a \<open>toJSON\<close>.
\<close>

fun wf_js :: "jsval \<Rightarrow> bool" where
  "wf_js (JArr vs) = list_all wf_js vs"
| "wf_js (JObj kvs) = (distinct (map fst kvs) \<and> list_all valid_utf8 (map fst kvs)
     \<and> list_all (\<lambda>(k, v). wf_js v) kvs)"
| "wf_js (JToJson v) = (case v of JToJson w \<Rightarrow> False | _ \<Rightarrow> wf_js v)"
| "wf_js v = True"

lemma wf_js_toJSON: "wf_js (JToJson v) \<Longrightarrow> wf_js v \<and> (\<forall>w. v \<noteq> JToJson w)"
  by (cases v) auto

subsection \<open>What the canonical text of an object is computed from\<close>

definition render_obj :: "(string \<times> string option) list \<Rightarrow> string" where
  "render_obj kts = ''{'' @ comma_sep (List.map_filter json_member (obj_order
     (filter (\<lambda>kt. snd kt \<noteq> None \<and> fst kt \<noteq> proto_key) (sort_key (utf16_of \<circ> fst) kts)))) @ ''}''"

lemma obj_put_new: "k \<notin> fst ` set kvs \<Longrightarrow> obj_put kvs k v = kvs @ [(k, v)]"
  by (induction kvs k v rule: obj_put.induct) auto

lemma foldl_obj_assign:
  assumes "distinct (map fst kvs)" "fst ` set kvs \<inter> fst ` set acc = {}"
  shows "foldl obj_assign acc kvs = acc @ filter (\<lambda>kv. fst kv \<noteq> proto_key) kvs"
  using assms
proof (induction kvs arbitrary: acc)
  case Nil
  then show ?case by simp
next
  case (Cons kv kvs)
  show ?case
  proof (cases "fst kv = proto_key")
    case True
    with Cons.IH [of acc] Cons.prems show ?thesis by (simp add: obj_assign_def)
  next
    case False
    with Cons.prems have "obj_assign acc kv = acc @ [kv]"
      by (simp add: obj_assign_def obj_put_new)
    moreover have "foldl obj_assign (acc @ [kv]) kvs = (acc @ [kv]) @ filter (\<lambda>kv. fst kv \<noteq> proto_key) kvs"
      by (rule Cons.IH) (use Cons.prems in auto)
    ultimately show ?thesis using False by simp
  qed
qed

lemma sort_key_map_pair:
  "sort_key (f \<circ> fst) (map (\<lambda>(k, v). (k, g k v)) kvs) = map (\<lambda>(k, v). (k, g k v)) (sort_key (f \<circ> fst) kvs)"
proof -
  have "insort_key (f \<circ> fst) (k, g k v) (map (\<lambda>(k, v). (k, g k v)) ys)
      = map (\<lambda>(k, v). (k, g k v)) (insort_key (f \<circ> fst) (k, v) ys)" for k v ys
    by (induction ys) auto
  then show ?thesis by (induction kvs) auto
qed

lemma filter_map_pair:
  "filter P (map (\<lambda>(k, v). (k, g k v)) kvs) = map (\<lambda>(k, v). (k, g k v)) (filter (\<lambda>(k, v). P (k, g k v)) kvs)"
  by (induction kvs) auto

lemma distinct_fst_filter_sort:
  "distinct (map fst kvs) \<Longrightarrow> distinct (map fst (filter P (sort_key f kvs)))"
proof -
  assume "distinct (map fst kvs)"
  moreover have "mset (map fst (sort_key f kvs)) = mset (map fst kvs)" by simp
  ultimately have "distinct (map fst (sort_key f kvs))" by (metis mset_eq_imp_distinct_iff)
  then show ?thesis by (simp add: distinct_map_filter)
qed

lemma build_sorted_eq:
  assumes "distinct (map fst kvs)"
  shows "build_sorted kvs = map (\<lambda>(k, item, c). (k, c))
     (filter (\<lambda>(k, item, c). item \<noteq> JUndef \<and> k \<noteq> proto_key) (sort_key (utf16_of \<circ> fst) kvs))"
proof -
  let ?ys = "filter (\<lambda>(k, item, c). item \<noteq> JUndef) (sort_key (utf16_of \<circ> fst) kvs)"
  have "distinct (map fst (map (\<lambda>(k, item, c). (k, c)) ?ys))"
    using distinct_fst_filter_sort [OF assms] by (simp add: comp_def case_prod_beta)
  then have "build_sorted kvs = filter (\<lambda>kv. fst kv \<noteq> proto_key) (map (\<lambda>(k, item, c). (k, c)) ?ys)"
    by (simp add: build_sorted_def foldl_obj_assign)
  also have "\<dots> = map (\<lambda>(k, item, c). (k, c))
     (filter (\<lambda>(k, item, c). item \<noteq> JUndef \<and> k \<noteq> proto_key) (sort_key (utf16_of \<circ> fst) kvs))"
    by (simp add: filter_map comp_def case_prod_unfold conj_commute)
  finally show ?thesis .
qed

lemma map_filter_member_drop:
  "List.map_filter json_member (obj_order kts)
   = List.map_filter json_member (obj_order (filter (\<lambda>kt. snd kt \<noteq> None) kts))"
proof -
  have *: "List.map_filter json_member xs = List.map_filter json_member (filter (\<lambda>kt. snd kt \<noteq> None) xs)" for xs
    by (induction xs) (auto simp: List.map_filter_simps json_member_def)
  have "filter (\<lambda>kt. snd kt \<noteq> None) (obj_order kts) = obj_order (filter (\<lambda>kt. snd kt \<noteq> None) kts)"
    by (simp add: obj_order_def filter_sort conj_commute)
  with * [of "obj_order kts"] show ?thesis by simp
qed

lemma canonicalJson_JUndef [simp]: "canonicalJson JUndef = None"
  by (simp add: canonicalJson_def)

lemma canonicalJson_toJSON: "canonicalJson (JToJson v) = canonicalJson v"
  by (simp add: canonicalJson_def)

lemma canonicalJson_JArr:
  "canonicalJson (JArr vs) = Some (''['' @ comma_sep
     (map (\<lambda>v. case canonicalJson v of None \<Rightarrow> ''null'' | Some t \<Rightarrow> t) vs) @ '']'')"
  by (auto simp: canonicalJson_def comp_def intro!: arg_cong [where f = comma_sep])

lemma canonicalJson_JObj:
  assumes "distinct (map fst kvs)"
  shows "canonicalJson (JObj kvs) = Some (render_obj (map (\<lambda>(k, v). (k, canonicalJson v)) kvs))"
proof -
  let ?S = "sort_key (utf16_of \<circ> fst) kvs"
  have sorted: "sort_key (utf16_of \<circ> fst) (map (\<lambda>(k, v). (k, v, canonicalize v)) kvs)
      = map (\<lambda>(k, v). (k, v, canonicalize v)) ?S"
    by (rule sort_key_map_pair)
  have "build_sorted (map (\<lambda>(k, v). (k, v, canonicalize v)) kvs)
      = map (\<lambda>(k, v). (k, canonicalize v)) (filter (\<lambda>(k, v). v \<noteq> JUndef \<and> k \<noteq> proto_key) ?S)"
    using sorted by (simp add: build_sorted_eq assms comp_def case_prod_unfold filter_map)
  then have "stringify (canonicalize (JObj kvs)) = Some (''{'' @ comma_sep (List.map_filter json_member (obj_order
      (map (\<lambda>(k, v). (k, canonicalJson v)) (filter (\<lambda>(k, v). v \<noteq> JUndef \<and> k \<noteq> proto_key) ?S)))) @ ''}'')"
    by (simp add: comp_def case_prod_unfold canonicalJson_def)
  also have "List.map_filter json_member (obj_order
      (map (\<lambda>(k, v). (k, canonicalJson v)) (filter (\<lambda>(k, v). v \<noteq> JUndef \<and> k \<noteq> proto_key) ?S)))
    = List.map_filter json_member (obj_order
      (map (\<lambda>(k, v). (k, canonicalJson v)) (filter (\<lambda>(k, v). canonicalJson v \<noteq> None \<and> k \<noteq> proto_key) ?S)))"
    by (subst map_filter_member_drop, simp add: filter_map_pair case_prod_beta, rule arg_cong [where f = "\<lambda>x. List.map_filter json_member (obj_order (map _ x))"]) (auto intro!: filter_cong)
  also have "''{'' @ comma_sep (List.map_filter json_member (obj_order
      (map (\<lambda>(k, v). (k, canonicalJson v)) (filter (\<lambda>(k, v). canonicalJson v \<noteq> None \<and> k \<noteq> proto_key) ?S)))) @ ''}''
    = render_obj (map (\<lambda>(k, v). (k, canonicalJson v)) kvs)"
    unfolding render_obj_def sort_key_map_pair filter_map_pair by (simp add: case_prod_unfold)
  finally show ?thesis by (simp only: canonicalJson_def [of "JObj kvs"])
qed

lemma render_obj_drop:
  "render_obj kts = render_obj (filter (\<lambda>kt. snd kt \<noteq> None) kts)"
  by (simp add: render_obj_def filter_sort conj_commute conj_left_commute)

lemma render_obj_permute:
  assumes "mset (filter (\<lambda>kt. snd kt \<noteq> None) xs) = mset (filter (\<lambda>kt. snd kt \<noteq> None) ys)"
    and "distinct (map fst xs)" "list_all valid_utf8 (map fst xs)"
  shows "render_obj xs = render_obj ys"
proof -
  let ?xs = "filter (\<lambda>kt. snd kt \<noteq> None) xs" and ?ys = "filter (\<lambda>kt. snd kt \<noteq> None) ys"
  have "inj_on fst (set xs)" using assms(2) by (simp add: distinct_map)
  moreover have "inj_on utf16_of (fst ` set xs)"
    using assms(3) by (auto simp: list_all_iff intro!: inj_onI dest: utf16_of_inject)
  ultimately have "inj_on (utf16_of \<circ> fst) (set ?xs)"
    by (auto intro: comp_inj_on inj_on_subset)
  with assms(1) have "sort_key (utf16_of \<circ> fst) ?xs = sort_key (utf16_of \<circ> fst) ?ys"
    by (intro sort_key_inj_key_eq) auto
  then have "render_obj ?xs = render_obj ?ys" by (simp add: render_obj_def)
  then show ?thesis by (metis render_obj_drop)
qed

subsection \<open>The round trip through a \<open>jsonb\<close> column\<close>

lemma json_trip_undef_canonical: "json_trip v = JUndef \<Longrightarrow> canonicalJson v = None"
  by (induction v) (auto simp: canonicalJson_toJSON split: if_splits jsval.splits)

lemma json_trip_members:
  assumes "\<And>k v. (k, v) \<in> set kvs \<Longrightarrow> canonicalJson (json_trip v) = canonicalJson v"
  shows "filter (\<lambda>kt. snd kt \<noteq> None) (map (\<lambda>(k, v). (k, canonicalJson v))
      (filter (\<lambda>kv. snd kv \<noteq> JUndef) (map (\<lambda>(k, v). (k, json_trip v)) kvs)))
    = filter (\<lambda>kt. snd kt \<noteq> None) (map (\<lambda>(k, v). (k, canonicalJson v)) kvs)"
  using assms
proof (induction kvs)
  case (Cons kv kvs)
  have "canonicalJson (json_trip (snd kv)) = canonicalJson (snd kv)"
    using Cons.prems [of "fst kv" "snd kv"] by simp
  with Cons json_trip_undef_canonical [of "snd kv"] show ?case
    by (cases kv) auto
qed simp

lemma canonicalJson_json_trip: "wf_js v \<Longrightarrow> canonicalJson (json_trip v) = canonicalJson v"
proof (induction v rule: json_trip.induct)
  case (6 vs)
  let ?t = "\<lambda>v. case canonicalJson v of None \<Rightarrow> ''null'' | Some t \<Rightarrow> t"
  have "?t (null_if_undef (json_trip x)) = ?t x" if "x \<in> set vs" for x
    using 6 that json_trip_undef_canonical [of x]
    by (auto simp: null_if_undef_def list_all_iff canonicalJson_def [of JNull])
  then have "map ?t (map (\<lambda>v. null_if_undef (json_trip v)) vs) = map ?t vs" by simp
  then show ?case by (simp only: json_trip.simps canonicalJson_JArr)
next
  case (7 kvs)
  let ?K = "\<lambda>(k, v). (k, canonicalJson v)"
  have d: "distinct (map fst kvs)" using 7 by simp
  have d': "distinct (map fst (filter (\<lambda>kv. snd kv \<noteq> JUndef) (map (\<lambda>(k, v). (k, json_trip v)) kvs)))"
    using d by (intro distinct_map_filter) (simp add: comp_def case_prod_unfold)
  have "filter (\<lambda>kt. snd kt \<noteq> None) (map ?K (filter (\<lambda>kv. snd kv \<noteq> JUndef) (map (\<lambda>(k, v). (k, json_trip v)) kvs)))
      = filter (\<lambda>kt. snd kt \<noteq> None) (map ?K kvs)"
    by (rule json_trip_members) (use 7 in \<open>auto simp: list_all_iff\<close>)
  then have "render_obj (map ?K (filter (\<lambda>kv. snd kv \<noteq> JUndef) (map (\<lambda>(k, v). (k, json_trip v)) kvs)))
      = render_obj (map ?K kvs)"
    by (metis render_obj_drop)
  then show ?case
    by (simp only: json_trip.simps canonicalJson_JObj [OF d] canonicalJson_JObj [OF d'])
next
  case (8 v)
  then show ?case by (cases v) (auto simp: canonicalJson_toJSON)
qed (auto simp: canonicalJson_def json_number_def)

subsection \<open>Logically equal values\<close>

text \<open>
  Two values are logically equal when they agree up to the order of object keys and up to
  properties that are \<open>undefined\<close>, at every level.
\<close>

definition obj_get :: "(string \<times> jsval) list \<Rightarrow> string \<Rightarrow> jsval option" where
  "obj_get kvs k = (case map_of kvs k of Some v \<Rightarrow> if v = JUndef then None else Some v | None \<Rightarrow> None)"

inductive js_same :: "jsval \<Rightarrow> jsval \<Rightarrow> bool" where
  same_refl: "js_same v v"
| same_arr: "list_all2 js_same xs ys \<Longrightarrow> js_same (JArr xs) (JArr ys)"
| same_obj: "(\<And>k. rel_option js_same (obj_get xs k) (obj_get ys k)) \<Longrightarrow> js_same (JObj xs) (JObj ys)"

lemma members_mset:
  assumes d: "distinct (map fst xs)" "distinct (map fst ys)"
    and same: "\<And>k. rel_option (\<lambda>v w. canonicalJson v = canonicalJson w) (obj_get xs k) (obj_get ys k)"
  shows "mset (filter (\<lambda>kt. snd kt \<noteq> None) (map (\<lambda>(k, v). (k, canonicalJson v)) xs))
       = mset (filter (\<lambda>kt. snd kt \<noteq> None) (map (\<lambda>(k, v). (k, canonicalJson v)) ys))"
proof -
  let ?M = "\<lambda>zs. filter (\<lambda>kt. snd kt \<noteq> None) (map (\<lambda>(k, v). (k, canonicalJson v)) zs)"
  have mem: "(k, t) \<in> set (?M zs) \<longleftrightarrow> t \<noteq> None \<and> (\<exists>v. obj_get zs k = Some v \<and> canonicalJson v = t)"
    if d: "distinct (map fst zs)" for zs k t
  proof -
    have m: "(k, v) \<in> set zs \<longleftrightarrow> map_of zs k = Some v" for v
      using d by simp
    have "(k, t) \<in> set (?M zs) \<longleftrightarrow> t \<noteq> None \<and> (\<exists>v. (k, v) \<in> set zs \<and> canonicalJson v = t)"
      by (force simp: image_iff)
    then show ?thesis
      unfolding m by (auto simp: obj_get_def split: option.splits if_splits)
  qed
  have dist: "distinct (?M zs)" if "distinct (map fst zs)" for zs
  proof -
    have "distinct (map fst (map (\<lambda>(k, v). (k, canonicalJson v)) zs))"
      using that by (simp add: comp_def case_prod_unfold)
    then show ?thesis by (simp only: distinct_map distinct_filter)
  qed
  have "set (?M xs) = set (?M ys)"
  proof (rule set_eqI)
    fix kt :: "string \<times> string option"
    obtain k t where kt: "kt = (k, t)" by (cases kt)
    show "kt \<in> set (?M xs) \<longleftrightarrow> kt \<in> set (?M ys)"
      using same [of k] unfolding kt mem [OF d(1)] mem [OF d(2)]
      by (cases "obj_get xs k"; cases "obj_get ys k") auto
  qed
  then show ?thesis
    using set_eq_iff_mset_eq_distinct [OF dist [OF d(1)] dist [OF d(2)]] by (rule iffD1 [rotated])
qed

lemma obj_get_wf: "wf_js (JObj kvs) \<Longrightarrow> obj_get kvs k = Some v \<Longrightarrow> wf_js v"
  by (auto simp: obj_get_def list_all_iff split: option.splits if_splits dest!: map_of_SomeD)

lemma canonicalJson_js_same:
  "js_same a b \<Longrightarrow> wf_js a \<Longrightarrow> wf_js b \<Longrightarrow> canonicalJson a = canonicalJson b"
proof (induction rule: js_same.induct)
  case (same_refl v)
  then show ?case by simp
next
  case (same_arr xs ys)
  have "list_all2 (\<lambda>v w. canonicalJson v = canonicalJson w) xs ys"
    using same_arr by (auto simp: list_all2_conv_all_nth list_all_length)
  then have "map (\<lambda>v. case canonicalJson v of None \<Rightarrow> ''null'' | Some t \<Rightarrow> t) xs
      = map (\<lambda>v. case canonicalJson v of None \<Rightarrow> ''null'' | Some t \<Rightarrow> t) ys"
    by (induction xs ys rule: list_all2_induct) auto
  then show ?case by (simp add: canonicalJson_JArr)
next
  case (same_obj xs ys)
  have "rel_option (\<lambda>v w. canonicalJson v = canonicalJson w) (obj_get xs k) (obj_get ys k)" for k
    using same_obj.IH [of k] obj_get_wf [OF same_obj.prems(1)] obj_get_wf [OF same_obj.prems(2)]
    by (cases "obj_get xs k"; cases "obj_get ys k") auto
  then have "mset (filter (\<lambda>kt. snd kt \<noteq> None) (map (\<lambda>(k, v). (k, canonicalJson v)) xs))
       = mset (filter (\<lambda>kt. snd kt \<noteq> None) (map (\<lambda>(k, v). (k, canonicalJson v)) ys))"
    using same_obj.prems by (intro members_mset) auto
  then have "render_obj (map (\<lambda>(k, v). (k, canonicalJson v)) xs) = render_obj (map (\<lambda>(k, v). (k, canonicalJson v)) ys)"
    using same_obj.prems
    by (intro render_obj_permute) (simp_all add: comp_def case_prod_unfold)
  then show ?case using same_obj.prems by (simp add: canonicalJson_JObj)
qed

end
