(* ===== verification/Llm.thy ===== *)
theory Llm
  imports Canonical
begin

section \<open>LLM and tool requests (packages/core/src/llm.ts)\<close>

text \<open>
  The request types, \<open>normalizeLlmRequest\<close>, and the texts that the request hash
  (\<open>canonicalLlmRequest\<close>) and the tool arguments hash (\<open>canonicalToolCall\<close>) are computed over.
  The interfaces are records; \<open>normalized_js\<close> and its helpers give the object that a record is at
  run time, with its properties in the order the code writes them. The role of a message is its text.
\<close>

subsection \<open>Data\<close>

record llm_message =
  m_role :: string
  m_content :: string

record llm_tool_definition =
  td_name :: string
  td_description :: "string option"
  td_inputSchema :: "(string \<times> jsval) list"

record llm_request =
  rq_model :: string
  rq_messages :: "llm_message list"
  rq_params :: "(string \<times> jsval) list option"
  rq_tools :: "llm_tool_definition list option"

record llm_tool_call =
  tc_id :: string
  tc_name :: string
  tc_arguments :: jsval

record llm_call_result =
  cr_text :: string
  cr_toolCalls :: "llm_tool_call list"
  cr_model :: string
  cr_tokensIn :: nat
  cr_tokensOut :: nat
  cr_truncated :: bool

record normalized_llm_request =
  nq_model :: string
  nq_messages :: "llm_message list"
  nq_params :: "(string \<times> jsval) list"
  nq_tools :: "llm_tool_definition list"

definition normalizeLlmRequest :: "llm_request \<Rightarrow> normalized_llm_request" where
  "normalizeLlmRequest request =
     \<lparr> nq_model = rq_model request,
       nq_messages = rq_messages request,
       nq_params = (case rq_params request of Some ps \<Rightarrow> ps | None \<Rightarrow> []),
       nq_tools = (case rq_tools request of Some ts \<Rightarrow> ts | None \<Rightarrow> []) \<rparr>"

subsection \<open>The objects behind the records\<close>

definition message_js :: "llm_message \<Rightarrow> jsval" where
  "message_js m = JObj [(''role'', JStr (m_role m)), (''content'', JStr (m_content m))]"

definition tool_js :: "llm_tool_definition \<Rightarrow> jsval" where
  "tool_js t = JObj
     [(''name'', JStr (td_name t)),
      (''description'', case td_description t of Some d \<Rightarrow> JStr d | None \<Rightarrow> JUndef),
      (''inputSchema'', JObj (td_inputSchema t))]"

definition normalized_js :: "normalized_llm_request \<Rightarrow> jsval" where
  "normalized_js n = JObj
     [(''model'', JStr (nq_model n)),
      (''messages'', JArr (map message_js (nq_messages n))),
      (''params'', JObj (nq_params n)),
      (''tools'', JArr (map tool_js (nq_tools n)))]"

definition tool_call_js :: "llm_tool_call \<Rightarrow> jsval" where
  "tool_call_js c = JObj
     [(''id'', JStr (tc_id c)), (''name'', JStr (tc_name c)), (''arguments'', tc_arguments c)]"

definition call_result_js :: "llm_call_result \<Rightarrow> jsval" where
  "call_result_js r = JObj
     [(''text'', JStr (cr_text r)),
      (''toolCalls'', JArr (map tool_call_js (cr_toolCalls r))),
      (''model'', JStr (cr_model r)),
      (''tokensIn'', JNum (show_nat (cr_tokensIn r))),
      (''tokensOut'', JNum (show_nat (cr_tokensOut r))),
      (''truncated'', JBool (cr_truncated r))]"

subsection \<open>The hashed texts\<close>

text \<open>
  The value handed to \<open>canonicalJson\<close> is an object, so \<open>JSON.stringify\<close> never returns
  \<open>undefined\<close> (\<open>canonicalJson_JObj\<close>) and the text is always defined.
\<close>

definition canonicalLlmRequest :: "llm_request \<Rightarrow> string" where
  "canonicalLlmRequest request = the (canonicalJson (normalized_js (normalizeLlmRequest request)))"

definition nullish :: "jsval \<Rightarrow> jsval \<Rightarrow> jsval" where
  "nullish v d = (if v = JUndef \<or> v = JNull then d else v)"

definition canonicalToolCall :: "string \<Rightarrow> jsval \<Rightarrow> string" where
  "canonicalToolCall tool args =
     the (canonicalJson (JObj [(''tool'', JStr tool), (''args'', nullish args JNull)]))"

subsection \<open>The round trip through the event store\<close>

text \<open>What a request is after it was written to and read from a \<open>jsonb\<close> column.\<close>

definition members_trip :: "(string \<times> jsval) list \<Rightarrow> (string \<times> jsval) list" where
  "members_trip kvs = filter (\<lambda>kv. snd kv \<noteq> JUndef) (map (\<lambda>(k, v). (k, json_trip v)) kvs)"

definition tool_trip :: "llm_tool_definition \<Rightarrow> llm_tool_definition" where
  "tool_trip t = t\<lparr>td_inputSchema := members_trip (td_inputSchema t)\<rparr>"

definition request_trip :: "llm_request \<Rightarrow> llm_request" where
  "request_trip r = r\<lparr>rq_params := map_option members_trip (rq_params r),
                      rq_tools := map_option (map tool_trip) (rq_tools r)\<rparr>"

definition tool_call_trip :: "llm_tool_call \<Rightarrow> llm_tool_call" where
  "tool_call_trip c = c\<lparr>tc_arguments := json_trip (tc_arguments c)\<rparr>"

text \<open>The request is text throughout: every key of an object once, every key well formed.\<close>

definition wf_request :: "llm_request \<Rightarrow> bool" where
  "wf_request r \<longleftrightarrow>
     (case rq_params r of Some ps \<Rightarrow> wf_js (JObj ps) | None \<Rightarrow> True) \<and>
     (case rq_tools r of Some ts \<Rightarrow> list_all (\<lambda>t. wf_js (JObj (td_inputSchema t))) ts | None \<Rightarrow> True)"

lemma json_trip_messages: "json_trip (message_js m) = message_js m"
  by (simp add: message_js_def)

lemma canonicalJson_drop_undef:
  assumes "distinct (map fst kvs)"
  shows "canonicalJson (JObj (filter (\<lambda>kv. snd kv \<noteq> JUndef) kvs)) = canonicalJson (JObj kvs)"
proof -
  let ?K = "\<lambda>(k, v). (k, canonicalJson v)"
  have "filter (\<lambda>kt. snd kt \<noteq> None) (map ?K (filter (\<lambda>kv. snd kv \<noteq> JUndef) kvs))
      = filter (\<lambda>kt. snd kt \<noteq> None) (map ?K kvs)"
    by (induction kvs) auto
  then have "render_obj (map ?K (filter (\<lambda>kv. snd kv \<noteq> JUndef) kvs)) = render_obj (map ?K kvs)"
    by (metis render_obj_drop)
  then show ?thesis
    by (simp add: canonicalJson_JObj assms distinct_map_filter)
qed

lemma json_trip_tool: "canonicalJson (tool_js (tool_trip t)) = canonicalJson (json_trip (tool_js t))"
proof -
  have "json_trip (tool_js t) = JObj (filter (\<lambda>kv. snd kv \<noteq> JUndef)
      [(''name'', JStr (td_name t)),
       (''description'', case td_description t of Some d \<Rightarrow> JStr d | None \<Rightarrow> JUndef),
       (''inputSchema'', JObj (members_trip (td_inputSchema t)))])"
    by (cases "td_description t") (simp_all add: tool_js_def members_trip_def)
  then have "canonicalJson (json_trip (tool_js t)) = canonicalJson (JObj
      [(''name'', JStr (td_name t)),
       (''description'', case td_description t of Some d \<Rightarrow> JStr d | None \<Rightarrow> JUndef),
       (''inputSchema'', JObj (members_trip (td_inputSchema t)))])"
    by (simp only:) (rule canonicalJson_drop_undef, simp)
  then show ?thesis by (simp add: tool_js_def tool_trip_def)
qed

lemma wf_normalized:
  "wf_request r \<Longrightarrow> wf_js (normalized_js (normalizeLlmRequest r))"
  by (auto simp: wf_request_def normalized_js_def normalizeLlmRequest_def tool_js_def message_js_def
      valid_ascii list_all_iff split: option.splits)

lemma canonicalJson_JObj4:
  assumes "distinct [a, b, c, d]" "canonicalJson w = canonicalJson w'" "canonicalJson x = canonicalJson x'"
    "canonicalJson y = canonicalJson y'" "canonicalJson z = canonicalJson z'"
  shows "canonicalJson (JObj [(a, w), (b, x), (c, y), (d, z)])
       = canonicalJson (JObj [(a, w'), (b, x'), (c, y'), (d, z')])"
  using assms by (simp add: canonicalJson_JObj)

lemma canonicalJson_JArr_cong:
  "(\<And>x. x \<in> set xs \<Longrightarrow> canonicalJson (f x) = canonicalJson (g x)) \<Longrightarrow>
   canonicalJson (JArr (map f xs)) = canonicalJson (JArr (map g xs))"
  by (simp add: canonicalJson_JArr comp_def cong: map_cong)

lemma json_trip_tools:
  assumes "list_all (\<lambda>t. wf_js (JObj (td_inputSchema t))) ts"
  shows "canonicalJson (JArr (map tool_js (map tool_trip ts))) = canonicalJson (JArr (map tool_js ts))"
proof -
  have "canonicalJson (tool_js (tool_trip t)) = canonicalJson (tool_js t)" if "t \<in> set ts" for t
  proof -
    have "wf_js (tool_js t)"
      using assms that by (auto simp: tool_js_def list_all_iff valid_ascii split: option.splits)
    then show ?thesis by (simp add: json_trip_tool canonicalJson_json_trip)
  qed
  then show ?thesis
    unfolding map_map by (intro canonicalJson_JArr_cong) simp
qed

lemma canonical_normalized_trip:
  assumes "wf_request r"
  shows "canonicalJson (normalized_js (normalizeLlmRequest (request_trip r)))
       = canonicalJson (normalized_js (normalizeLlmRequest r))"
proof -
  have params: "canonicalJson (JObj (members_trip ps)) = canonicalJson (JObj ps)" if "wf_js (JObj ps)" for ps
    using canonicalJson_json_trip [OF that] by (simp add: members_trip_def)
  show ?thesis
    using assms unfolding normalized_js_def
    by (intro canonicalJson_JObj4)
       (simp_all add: normalizeLlmRequest_def request_trip_def wf_request_def params
          json_trip_tools del: map_map wf_js.simps split: option.splits)
qed

subsection \<open>Properties\<close>

lemma canonicalToolCall_eq:
  assumes "canonicalJson (nullish a JNull) = canonicalJson (nullish b JNull)"
  shows "canonicalToolCall tool a = canonicalToolCall tool b"
  using assms by (simp add: canonicalToolCall_def canonicalJson_JObj)

lemma canonicalJson_nullish: "v \<noteq> JUndef \<Longrightarrow> canonicalJson (nullish v JNull) = canonicalJson v"
  by (simp add: nullish_def)

text \<open>
  C17: A request that was written to the event store and read back hashes to the text it was
  recorded with: \<open>canonicalLlmRequest\<close> is invariant under the \<open>jsonb\<close> round trip of the params and
  of the tool schemas, so the executing worker's integrity check accepts every request stored in
  full.
\<close>

theorem request_text_survives_storage:
  assumes "wf_request r"
  shows "canonicalLlmRequest (request_trip r) = canonicalLlmRequest r"
  using canonical_normalized_trip [OF assms] by (simp add: canonicalLlmRequest_def)

definition sample_request :: llm_request where
  "sample_request =
     \<lparr> rq_model = ''default'',
       rq_messages = [\<lparr>m_role = ''user'', m_content = ''hi''\<rparr>],
       rq_params = Some [(''temperature'', JNum ''0.5''), (''stop'', JUndef), (''b'', JArr [JUndef])],
       rq_tools = Some [\<lparr>td_name = ''refund'', td_description = None,
                          td_inputSchema = [(''type'', JStr ''object'')]\<rparr>] \<rparr>"

theorem request_text_survives_storage_witness:
  "canonicalLlmRequest (request_trip sample_request) = canonicalLlmRequest sample_request"
  by (rule request_text_survives_storage)
     (simp add: wf_request_def sample_request_def valid_ascii)

definition tool_same :: "llm_tool_definition \<Rightarrow> llm_tool_definition \<Rightarrow> bool" where
  "tool_same t u \<longleftrightarrow> td_name t = td_name u \<and> td_description t = td_description u
     \<and> js_same (JObj (td_inputSchema t)) (JObj (td_inputSchema u))"

lemma tool_same_canonical:
  assumes "tool_same t u" "wf_js (JObj (td_inputSchema t))" "wf_js (JObj (td_inputSchema u))"
  shows "canonicalJson (tool_js t) = canonicalJson (tool_js u)"
  using canonicalJson_js_same [OF _ assms(2,3)] assms(1)
  by (simp add: tool_same_def tool_js_def canonicalJson_JObj [of "[_, _, _]"])


definition request_same :: "llm_request \<Rightarrow> llm_request \<Rightarrow> bool" where
  "request_same a b \<longleftrightarrow> rq_model a = rq_model b \<and> rq_messages a = rq_messages b
     \<and> js_same (JObj (nq_params (normalizeLlmRequest a))) (JObj (nq_params (normalizeLlmRequest b)))
     \<and> list_all2 tool_same (nq_tools (normalizeLlmRequest a)) (nq_tools (normalizeLlmRequest b))"

lemma wf_request_params: "wf_request r \<Longrightarrow> wf_js (JObj (nq_params (normalizeLlmRequest r)))"
  by (auto simp: wf_request_def normalizeLlmRequest_def split: option.splits)

lemma wf_request_tools:
  "wf_request r \<Longrightarrow> t \<in> set (nq_tools (normalizeLlmRequest r)) \<Longrightarrow> wf_js (JObj (td_inputSchema t))"
  by (auto simp: wf_request_def normalizeLlmRequest_def list_all_iff split: option.splits)

lemma canonicalJson_JArr_eq:
  "list_all2 (\<lambda>v w. canonicalJson v = canonicalJson w) vs ws \<Longrightarrow> canonicalJson (JArr vs) = canonicalJson (JArr ws)"
proof -
  assume "list_all2 (\<lambda>v w. canonicalJson v = canonicalJson w) vs ws"
  then have "map (\<lambda>v. case canonicalJson v of None \<Rightarrow> ''null'' | Some t \<Rightarrow> t) vs
      = map (\<lambda>v. case canonicalJson v of None \<Rightarrow> ''null'' | Some t \<Rightarrow> t) ws"
    by (induction rule: list_all2_induct) auto
  then show ?thesis by (simp add: canonicalJson_JArr)
qed

text \<open>
  C18: Two requests with the same model and messages, whose params and tool schemas are logically
  equal (keys in any order, properties that are \<open>undefined\<close> present or not, an absent \<open>params\<close>
  or \<open>tools\<close> standing for the empty one) are hashed over the same text.
\<close>

theorem request_text_key_order:
  assumes wf: "wf_request a" "wf_request b" and same: "request_same a b"
  shows "canonicalLlmRequest a = canonicalLlmRequest b"
proof -
  let ?a = "normalizeLlmRequest a" and ?b = "normalizeLlmRequest b"
  have eqs: "nq_model ?a = nq_model ?b" "nq_messages ?a = nq_messages ?b"
    using same by (simp_all add: request_same_def normalizeLlmRequest_def)
  have params: "canonicalJson (JObj (nq_params ?a)) = canonicalJson (JObj (nq_params ?b))"
    using same wf by (intro canonicalJson_js_same wf_request_params) (simp_all add: request_same_def)
  have "list_all2 (\<lambda>t u. canonicalJson (tool_js t) = canonicalJson (tool_js u)) (nq_tools ?a) (nq_tools ?b)"
    using same wf_request_tools [OF wf(1)] wf_request_tools [OF wf(2)] unfolding request_same_def
    by (auto intro!: tool_same_canonical elim!: list.rel_mono_strong simp del: wf_js.simps)
  then have tools: "canonicalJson (JArr (map tool_js (nq_tools ?a))) = canonicalJson (JArr (map tool_js (nq_tools ?b)))"
    by (intro canonicalJson_JArr_eq) (simp add: list.rel_map)
  have "canonicalJson (normalized_js ?a) = canonicalJson (normalized_js ?b)"
    unfolding normalized_js_def by (intro canonicalJson_JObj4) (simp_all add: eqs params tools)
  then show ?thesis by (simp add: canonicalLlmRequest_def)
qed

definition reordered_request :: llm_request where
  "reordered_request = sample_request
     \<lparr> rq_params := Some [(''b'', JArr [JUndef]), (''temperature'', JNum ''0.5'')] \<rparr>"

theorem request_text_key_order_witness:
  "canonicalLlmRequest sample_request = canonicalLlmRequest reordered_request"
proof (rule request_text_key_order)
  have "js_same (JObj [(''temperature'', JNum ''0.5''), (''stop'', JUndef), (''b'', JArr [JUndef])])
     (JObj [(''b'', JArr [JUndef]), (''temperature'', JNum ''0.5'')])"
    by (rule same_obj) (simp add: obj_get_def same_refl)
  then show "request_same sample_request reordered_request"
    by (simp add: request_same_def reordered_request_def sample_request_def normalizeLlmRequest_def
        tool_same_def same_refl)
qed (simp_all add: wf_request_def reordered_request_def sample_request_def valid_ascii)

text \<open>
  The arguments of a tool call hash to the same text before and after they were stored, and an
  absent argument, \<open>null\<close> and \<open>undefined\<close> are the same call. (The premise excludes an object whose
  \<open>toJSON\<close> returns \<open>undefined\<close>: it is stored as nothing, but hashed as an object without \<open>args\<close>.)
\<close>

theorem tool_call_text_survives_storage:
  assumes "wf_js args" "json_trip args = JUndef \<longrightarrow> args = JUndef"
  shows "canonicalToolCall tool (json_trip args) = canonicalToolCall tool args
       \<and> canonicalToolCall tool JUndef = canonicalToolCall tool JNull"
proof -
  have "canonicalToolCall tool (json_trip args) = canonicalToolCall tool args"
  proof (cases "args = JUndef")
    case False
    with assms(2) have "json_trip args \<noteq> JUndef" by blast
    with False show ?thesis
      by (intro canonicalToolCall_eq) (simp add: canonicalJson_nullish canonicalJson_json_trip assms(1))
  qed simp
  then show ?thesis by (simp add: canonicalToolCall_def nullish_def)
qed

theorem tool_call_text_survives_storage_witness:
  "canonicalToolCall ''refund'' (json_trip (JObj [(''b'', JNum ''NaN''), (''a'', JUndef)]))
     = canonicalToolCall ''refund'' (JObj [(''b'', JNum ''NaN''), (''a'', JUndef)])"
  using tool_call_text_survives_storage [of "JObj [(''b'', JNum ''NaN''), (''a'', JUndef)]" "''refund''"]
  by (simp add: valid_ascii)

end
