(* ===== verification/Workflow.thy ===== *)
theory Workflow
  imports Llm
begin

section \<open>The workflow state machine (packages/core/src/workflow.ts)\<close>

text \<open>
  The event payloads, the state they fold to, the reducer \<open>applyEvent\<close> and \<open>foldEvents\<close>.

  A \<open>Record<number, T>\<close> is a map from sequence numbers, an optional property an \<open>option\<close> (or
  \<open>JUndef\<close> for a property of type \<open>unknown\<close>), an ISO timestamp the instant it denotes, in
  milliseconds. The reducer returns an error where the code throws: \<open>state.signals[name]\<close> is a
  lookup on an ordinary object, so a signal named like a property of \<open>Object.prototype\<close> finds a
  function or an object there, which the array spread rejects with a \<open>TypeError\<close>.
\<close>

subsection \<open>Events\<close>

datatype js_num = JFin rat | JNaN

datatype llm_request_storage = StFull | StRedacted | StTruncated | StNone

datatype wf_event =
    WorkflowStarted string jsval
  | ActivityScheduled string jsval
  | ActivityCompleted nat jsval
  | ActivityFailed nat string
  | WorkflowCompleted jsval
  | WorkflowFailed string
  | TimerScheduled int
  | TimerFired nat
  | SignalReceived string jsval
  | CancellationRequested "string option"
  | WorkflowCanceled "string option"
  | LLM_REQUESTED (lq_stepId: string) (lq_requestHash: string) (lq_requestStorage: llm_request_storage)
      (lq_request: "llm_request option") (lq_maxAttempts: nat)
  | LLM_COMPLETED (lc_stepId: string) (lc_scheduledEventSeq: nat) (lc_requestHash: string)
      (lc_text: string) (lc_toolCalls: "llm_tool_call list") (lc_truncated: bool) (lc_model: string)
      (lc_tokensIn: nat) (lc_tokensOut: nat) (lc_latencyMs: int)
      (lc_estimatedCostUsd: "js_num option") (lc_attempt: nat)
  | LLM_FAILED (lf_stepId: string) (lf_scheduledEventSeq: nat) (lf_error: string) (lf_code: string)
      (lf_retryable: bool) (lf_attempts: nat)
  | TOOL_REQUESTED (tq_stepId: string) (tq_tool: string) (tq_args: jsval) (tq_argsHash: string)
      (tq_maxAttempts: nat)
  | TOOL_COMPLETED (tr_stepId: string) (tr_scheduledEventSeq: nat) (tr_tool: string)
      (tr_result: jsval) (tr_latencyMs: int) (tr_attempt: nat)
  | TOOL_FAILED (tf_stepId: string) (tf_scheduledEventSeq: nat) (tf_tool: string) (tf_error: string)
      (tf_code: string) (tf_retryable: bool) (tf_attempts: nat)

text \<open>The \<open>type\<close> property of a payload, and \<open>scheduledEventSeq\<close> of the outcomes, which have one.\<close>

fun event_type :: "wf_event \<Rightarrow> string" where
  "event_type (WorkflowStarted t i) = ''WorkflowStarted''"
| "event_type (ActivityScheduled t i) = ''ActivityScheduled''"
| "event_type (ActivityCompleted n r) = ''ActivityCompleted''"
| "event_type (ActivityFailed n e) = ''ActivityFailed''"
| "event_type (WorkflowCompleted r) = ''WorkflowCompleted''"
| "event_type (WorkflowFailed e) = ''WorkflowFailed''"
| "event_type (TimerScheduled f) = ''TimerScheduled''"
| "event_type (TimerFired n) = ''TimerFired''"
| "event_type (SignalReceived n p) = ''SignalReceived''"
| "event_type (CancellationRequested r) = ''CancellationRequested''"
| "event_type (WorkflowCanceled r) = ''WorkflowCanceled''"
| "event_type (LLM_REQUESTED a b c d e) = ''LLM_REQUESTED''"
| "event_type (LLM_COMPLETED a n b c d e f g h i j k) = ''LLM_COMPLETED''"
| "event_type (LLM_FAILED a n b c d e) = ''LLM_FAILED''"
| "event_type (TOOL_REQUESTED a b c d e) = ''TOOL_REQUESTED''"
| "event_type (TOOL_COMPLETED a n b c d e) = ''TOOL_COMPLETED''"
| "event_type (TOOL_FAILED a n b c d e f) = ''TOOL_FAILED''"

fun event_ref :: "wf_event \<Rightarrow> nat option" where
  "event_ref (ActivityCompleted n r) = Some n"
| "event_ref (ActivityFailed n e) = Some n"
| "event_ref (TimerFired n) = Some n"
| "event_ref (LLM_COMPLETED a n b c d e f g h i j k) = Some n"
| "event_ref (LLM_FAILED a n b c d e) = Some n"
| "event_ref (TOOL_COMPLETED a n b c d e) = Some n"
| "event_ref (TOOL_FAILED a n b c d e f) = Some n"
| "event_ref _ = None"

record stored_event =
  seq :: nat
  event :: wf_event

subsection \<open>The state\<close>

datatype activity_status = ActSCHEDULED | ActCOMPLETED | ActFAILED

record activity_state =
  as_activityType :: string
  as_status :: activity_status
  as_result :: jsval
  as_error :: "string option"

datatype timer_status = TmSCHEDULED | TmFIRED

record timer_state =
  tm_fireAt :: int
  tm_status :: timer_status

datatype call_status = CallREQUESTED | CallCOMPLETED | CallFAILED

record llm_call_state =
  ls_stepId :: string
  ls_status :: call_status
  ls_requestHash :: string
  ls_model :: "string option"
  ls_tokensIn :: "nat option"
  ls_tokensOut :: "nat option"
  ls_latencyMs :: "int option"
  ls_estimatedCostUsd :: "js_num option option"
  ls_text :: "string option"
  ls_truncated :: "bool option"
  ls_error :: "string option"

record tool_call_state =
  ts_stepId :: string
  ts_tool :: string
  ts_status :: call_status
  ts_argsHash :: string
  ts_result :: jsval
  ts_latencyMs :: "int option"
  ts_error :: "string option"

datatype workflow_status = RUNNING | COMPLETED | FAILED | CANCELED

record wf_state =
  st_status :: workflow_status
  st_workflowType :: "string option"
  st_input :: jsval
  st_activities :: "nat \<rightharpoonup> activity_state"
  st_timers :: "nat \<rightharpoonup> timer_state"
  st_llmCalls :: "nat \<rightharpoonup> llm_call_state"
  st_toolCalls :: "nat \<rightharpoonup> tool_call_state"
  st_signals :: "string \<rightharpoonup> jsval list"
  st_result :: jsval
  st_error :: "string option"

definition initialState :: wf_state where
  "initialState =
     \<lparr> st_status = RUNNING, st_workflowType = None, st_input = JUndef,
       st_activities = Map.empty, st_timers = Map.empty, st_llmCalls = Map.empty,
       st_toolCalls = Map.empty, st_signals = Map.empty, st_result = JUndef, st_error = None \<rparr>"

subsection \<open>The reducer\<close>

text \<open>The properties every ordinary object inherits; none of them is nullish or iterable.\<close>

definition object_prototype_names :: "string list" where
  "object_prototype_names =
     [''constructor'', ''__defineGetter__'', ''__defineSetter__'', ''hasOwnProperty'',
      ''__lookupGetter__'', ''__lookupSetter__'', ''isPrototypeOf'', ''propertyIsEnumerable'',
      ''toString'', ''valueOf'', ''__proto__'', ''toLocaleString'']"

definition not_iterable :: js_error where
  "not_iterable = TypeErr ''Spread syntax requires ...iterable[Symbol.iterator] to be a function''"

text \<open>\<open>[...(signals[name] ?? []), payload]\<close>\<close>

definition signal_payloads :: "(string \<rightharpoonup> jsval list) \<Rightarrow> string \<Rightarrow> js_error + jsval list" where
  "signal_payloads sigs name = (case sigs name of
     Some ps \<Rightarrow> Inr ps
   | None \<Rightarrow> if name \<in> set object_prototype_names then Inl not_iterable else Inr [])"

text \<open>
  One equation per case of the switch. The update of an entry that exists keeps its other
  properties (\<open>{ ...existing, ... }\<close>); a reference to no entry returns the state as it was.
\<close>

definition update_entry :: "('k \<rightharpoonup> 'a) \<Rightarrow> 'k \<Rightarrow> ('a \<Rightarrow> 'a) \<Rightarrow> ('k \<rightharpoonup> 'a)" where
  "update_entry m k f = (case m k of None \<Rightarrow> m | Some existing \<Rightarrow> m(k \<mapsto> f existing))"

fun applyEvent :: "wf_state \<Rightarrow> stored_event \<Rightarrow> js_error + wf_state" where
  "applyEvent state stored = (case event stored of
     WorkflowStarted workflowType input \<Rightarrow>
       Inr (state\<lparr>st_workflowType := Some workflowType, st_input := input\<rparr>)
   | ActivityScheduled activityType input \<Rightarrow>
       Inr (state\<lparr>st_activities := (st_activities state)(seq stored \<mapsto>
         \<lparr>as_activityType = activityType, as_status = ActSCHEDULED, as_result = JUndef, as_error = None\<rparr>)\<rparr>)
   | ActivityCompleted ref result \<Rightarrow>
       Inr (state\<lparr>st_activities := update_entry (st_activities state) ref
         (\<lambda>a. a\<lparr>as_status := ActCOMPLETED, as_result := result\<rparr>)\<rparr>)
   | ActivityFailed ref error \<Rightarrow>
       Inr (state\<lparr>st_activities := update_entry (st_activities state) ref
         (\<lambda>a. a\<lparr>as_status := ActFAILED, as_error := Some error\<rparr>)\<rparr>)
   | WorkflowCompleted result \<Rightarrow> Inr (state\<lparr>st_status := COMPLETED, st_result := result\<rparr>)
   | WorkflowFailed error \<Rightarrow> Inr (state\<lparr>st_status := FAILED, st_error := Some error\<rparr>)
   | TimerScheduled fireAt \<Rightarrow>
       Inr (state\<lparr>st_timers := (st_timers state)(seq stored \<mapsto> \<lparr>tm_fireAt = fireAt, tm_status = TmSCHEDULED\<rparr>)\<rparr>)
   | TimerFired ref \<Rightarrow>
       Inr (state\<lparr>st_timers := update_entry (st_timers state) ref (\<lambda>t. t\<lparr>tm_status := TmFIRED\<rparr>)\<rparr>)
   | SignalReceived signalName payload \<Rightarrow>
       (case signal_payloads (st_signals state) signalName of
          Inl e \<Rightarrow> Inl e
        | Inr ps \<Rightarrow> Inr (state\<lparr>st_signals := (st_signals state)(signalName \<mapsto> ps @ [payload])\<rparr>))
   | CancellationRequested reason \<Rightarrow> Inr state
   | WorkflowCanceled reason \<Rightarrow> Inr (state\<lparr>st_status := CANCELED, st_error := reason\<rparr>)
   | LLM_REQUESTED stepId requestHash storage request maxAttempts \<Rightarrow>
       Inr (state\<lparr>st_llmCalls := (st_llmCalls state)(seq stored \<mapsto>
         \<lparr>ls_stepId = stepId, ls_status = CallREQUESTED, ls_requestHash = requestHash, ls_model = None,
          ls_tokensIn = None, ls_tokensOut = None, ls_latencyMs = None, ls_estimatedCostUsd = None,
          ls_text = None, ls_truncated = None, ls_error = None\<rparr>)\<rparr>)
   | LLM_COMPLETED stepId ref hash txt calls truncated model tin tout latency cost attempt \<Rightarrow>
       Inr (state\<lparr>st_llmCalls := update_entry (st_llmCalls state) ref
         (\<lambda>c. c\<lparr>ls_status := CallCOMPLETED, ls_model := Some model, ls_tokensIn := Some tin,
               ls_tokensOut := Some tout, ls_latencyMs := Some latency, ls_estimatedCostUsd := Some cost,
               ls_text := Some txt, ls_truncated := Some truncated\<rparr>)\<rparr>)
   | LLM_FAILED stepId ref error code retryable attempts \<Rightarrow>
       Inr (state\<lparr>st_llmCalls := update_entry (st_llmCalls state) ref
         (\<lambda>c. c\<lparr>ls_status := CallFAILED, ls_error := Some error\<rparr>)\<rparr>)
   | TOOL_REQUESTED stepId tool args argsHash maxAttempts \<Rightarrow>
       Inr (state\<lparr>st_toolCalls := (st_toolCalls state)(seq stored \<mapsto>
         \<lparr>ts_stepId = stepId, ts_tool = tool, ts_status = CallREQUESTED, ts_argsHash = argsHash,
          ts_result = JUndef, ts_latencyMs = None, ts_error = None\<rparr>)\<rparr>)
   | TOOL_COMPLETED stepId ref tool result latency attempt \<Rightarrow>
       Inr (state\<lparr>st_toolCalls := update_entry (st_toolCalls state) ref
         (\<lambda>c. c\<lparr>ts_status := CallCOMPLETED, ts_result := result, ts_latencyMs := Some latency\<rparr>)\<rparr>)
   | TOOL_FAILED stepId ref tool error code retryable attempts \<Rightarrow>
       Inr (state\<lparr>st_toolCalls := update_entry (st_toolCalls state) ref
         (\<lambda>c. c\<lparr>ts_status := CallFAILED, ts_error := Some error\<rparr>)\<rparr>))"

declare applyEvent.simps [simp del]

text \<open>\<open>events.reduce(applyEvent, state)\<close>: the first exception ends the fold.\<close>

fun fold_from :: "wf_state \<Rightarrow> stored_event list \<Rightarrow> js_error + wf_state" where
  "fold_from state [] = Inr state"
| "fold_from state (e # es) = (case applyEvent state e of Inl err \<Rightarrow> Inl err | Inr s \<Rightarrow> fold_from s es)"

definition foldEvents :: "stored_event list \<Rightarrow> js_error + wf_state" where
  "foldEvents events = fold_from initialState events"

subsection \<open>The fold as a whole\<close>

lemma fold_from_append:
  "fold_from s (xs @ ys) = (case fold_from s xs of Inl e \<Rightarrow> Inl e | Inr t \<Rightarrow> fold_from t ys)"
  by (induction xs arbitrary: s) (auto split: sum.splits)

text \<open>What the code throws on: a signal whose name an ordinary object inherits.\<close>

fun proto_signal :: "stored_event \<Rightarrow> bool" where
  "proto_signal e = (case event e of SignalReceived n p \<Rightarrow> n \<in> set object_prototype_names | _ \<Rightarrow> False)"

definition no_proto_entry :: "wf_state \<Rightarrow> bool" where
  "no_proto_entry s \<longleftrightarrow> (\<forall>n \<in> set object_prototype_names. st_signals s n = None)"

lemma no_proto_initial: "no_proto_entry initialState"
  by (simp add: no_proto_entry_def initialState_def)

lemma signals_frame:
  "applyEvent s e = Inr t \<Longrightarrow> (\<And>n p. event e \<noteq> SignalReceived n p) \<Longrightarrow> st_signals t = st_signals s"
  by (auto simp: applyEvent.simps split: wf_event.splits)

lemma applyEvent_signal:
  assumes "event e = SignalReceived n p" "no_proto_entry s"
  shows "applyEvent s e = (if n \<in> set object_prototype_names then Inl not_iterable
     else Inr (s\<lparr>st_signals := (st_signals s)(n \<mapsto> (case st_signals s n of None \<Rightarrow> [] | Some ps \<Rightarrow> ps) @ [p])\<rparr>))"
  using assms by (auto simp: applyEvent.simps signal_payloads_def no_proto_entry_def split: option.splits)

lemma applyEvent_total:
  assumes "no_proto_entry s"
  shows "(\<exists>t. applyEvent s e = Inr t) \<longleftrightarrow> \<not> proto_signal e"
  by (cases "event e") (use assms in \<open>auto simp: applyEvent.simps signal_payloads_def no_proto_entry_def split: option.splits\<close>)

lemma applyEvent_no_proto:
  assumes "no_proto_entry s" "applyEvent s e = Inr t"
  shows "no_proto_entry t"
proof (cases "\<exists>n p. event e = SignalReceived n p")
  case True
  then show ?thesis
    using assms by (auto simp: applyEvent_signal no_proto_entry_def split: if_splits option.splits)
next
  case False
  then show ?thesis using assms signals_frame [OF assms(2)] by (auto simp: no_proto_entry_def)
qed

lemma fold_from_total:
  "no_proto_entry s \<Longrightarrow> (\<exists>t. fold_from s es = Inr t) \<longleftrightarrow> list_all (Not \<circ> proto_signal) es"
proof (induction es arbitrary: s)
  case (Cons e es)
  show ?case
  proof (cases "applyEvent s e")
    case (Inl err)
    then show ?thesis using applyEvent_total [OF Cons.prems, of e] by simp
  next
    case (Inr t)
    moreover from this have "\<not> proto_signal e" using applyEvent_total [OF Cons.prems, of e] by simp
    ultimately show ?thesis using Cons.IH [OF applyEvent_no_proto [OF Cons.prems Inr]] by simp
  qed
qed simp

subsection \<open>The terminal events\<close>

fun terminal_status :: "wf_event \<Rightarrow> workflow_status option" where
  "terminal_status (WorkflowCompleted r) = Some COMPLETED"
| "terminal_status (WorkflowFailed e) = Some FAILED"
| "terminal_status (WorkflowCanceled r) = Some CANCELED"
| "terminal_status _ = None"

definition log_status :: "stored_event list \<Rightarrow> workflow_status" where
  "log_status es = foldl (\<lambda>s e. case terminal_status (event e) of None \<Rightarrow> s | Some t \<Rightarrow> t) RUNNING es"

lemma applyEvent_status:
  "applyEvent s e = Inr t \<Longrightarrow>
   st_status t = (case terminal_status (event e) of None \<Rightarrow> st_status s | Some u \<Rightarrow> u)"
  by (cases "event e") (auto simp: applyEvent.simps split: sum.splits)

lemma fold_from_status:
  "fold_from s es = Inr t \<Longrightarrow>
   st_status t = foldl (\<lambda>s e. case terminal_status (event e) of None \<Rightarrow> s | Some t \<Rightarrow> t) (st_status s) es"
  by (induction es arbitrary: s) (auto split: sum.splits dest: applyEvent_status)

lemma log_status_append:
  "log_status (xs @ ys) = foldl (\<lambda>s e. case terminal_status (event e) of None \<Rightarrow> s | Some t \<Rightarrow> t) (log_status xs) ys"
  by (simp add: log_status_def)

lemma log_status_running:
  "log_status es = RUNNING \<longleftrightarrow> list_all (\<lambda>e. terminal_status (event e) = None) es"
proof (induction es rule: rev_induct)
  case Nil
  then show ?case by (simp add: log_status_def)
next
  case (snoc e es)
  have "terminal_status (event e) \<noteq> Some RUNNING" by (cases "event e") auto
  with snoc show ?case by (auto simp: log_status_def split: option.splits)
qed

subsection \<open>The tables keyed by sequence number\<close>

text \<open>
  Activities, timers, LLM calls and tool calls are four tables with one contract: some events open
  an entry under their own sequence number, others update the entry they refer to, all others
  leave the table alone. What an entry is after a whole log is proved once, from that contract.
\<close>

locale keyed_table =
  fixes table :: "wf_state \<Rightarrow> nat \<rightharpoonup> 'a"
    and opens :: "wf_event \<Rightarrow> 'a option"
    and closes :: "wf_event \<Rightarrow> (nat \<times> ('a \<Rightarrow> 'a)) option"
  assumes table_initial: "table initialState = Map.empty"
    and table_opens: "applyEvent s e = Inr t \<Longrightarrow> opens (event e) = Some a \<Longrightarrow> table t = (table s)(seq e \<mapsto> a)"
    and table_closes: "applyEvent s e = Inr t \<Longrightarrow> opens (event e) = None \<Longrightarrow> closes (event e) = Some (n, f)
      \<Longrightarrow> table t = update_entry (table s) n f"
    and table_frame: "applyEvent s e = Inr t \<Longrightarrow> opens (event e) = None \<Longrightarrow> closes (event e) = None
      \<Longrightarrow> table t = table s"
begin

definition opens_at :: "nat \<Rightarrow> stored_event \<Rightarrow> bool" where
  "opens_at n e \<longleftrightarrow> seq e = n \<and> opens (event e) \<noteq> None"

definition updates :: "nat \<Rightarrow> stored_event \<Rightarrow> 'a \<Rightarrow> 'a" where
  "updates n e = (if opens (event e) = None then
     (case closes (event e) of Some (m, f) \<Rightarrow> if m = n then f else id | None \<Rightarrow> id) else id)"

lemma entry_step:
  assumes "applyEvent s e = Inr t" "\<not> opens_at n e"
  shows "table t n = map_option (updates n e) (table s n)"
proof (cases "opens (event e)")
  case None
  show ?thesis
  proof (cases "closes (event e)")
    case None': None
    with None show ?thesis
      by (simp add: table_frame [OF assms(1)] updates_def option.map_id0)
  next
    case (Some mf)
    with None show ?thesis
      by (cases mf)
         (auto simp: table_closes [OF assms(1)] updates_def update_entry_def option.map_id0 split: option.splits)
  qed
next
  case (Some a)
  then show ?thesis
    using assms by (auto simp: table_opens [OF assms(1)] opens_at_def updates_def option.map_id0)
qed

lemma entry_fold:
  "fold_from s es = Inr t \<Longrightarrow> list_all (\<lambda>e. \<not> opens_at n e) es \<Longrightarrow>
   table t n = map_option (fold (updates n) es) (table s n)"
proof (induction es arbitrary: s)
  case Nil
  then show ?case by (simp add: option.map_ident)
next
  case (Cons e es)
  from Cons.prems(1) obtain u where u: "applyEvent s e = Inr u" "fold_from u es = Inr t"
    by (auto split: sum.splits)
  have "table t n = map_option (fold (updates n) es) (table u n)"
    using Cons.IH [OF u(2)] Cons.prems(2) by simp
  also have "table u n = map_option (updates n e) (table s n)"
    using entry_step [OF u(1)] Cons.prems(2) by simp
  finally show ?case by (simp add: option.map_comp comp_def)
qed

text \<open>The entry of a log in which the event at \<open>n\<close> opens it.\<close>

lemma entry_of_log:
  assumes "foldEvents (pre @ e # post) = Inr t"
    and "opens (event e) = Some a" "list_all (\<lambda>e'. \<not> opens_at (seq e) e') post"
  shows "table t (seq e) = Some (fold (updates (seq e)) post a)"
proof -
  from assms(1) obtain s u where
    s: "applyEvent s e = Inr u" "fold_from u post = Inr t"
    unfolding foldEvents_def fold_from_append by (auto split: sum.splits)
  have "table u (seq e) = Some a" using table_opens [OF s(1) assms(2)] by simp
  with entry_fold [OF s(2) assms(3)] show ?thesis by simp
qed

text \<open>No entry without an event that opens it: dangling references are ignored.\<close>

lemma no_entry:
  assumes "foldEvents es = Inr t" "list_all (\<lambda>e. \<not> opens_at n e) es"
  shows "table t n = None"
  using entry_fold [OF assms(1) [unfolded foldEvents_def] assms(2)] by (simp add: table_initial)

end

subsubsection \<open>The four tables\<close>

fun opens_activity :: "wf_event \<Rightarrow> activity_state option" where
  "opens_activity (ActivityScheduled t i) =
     Some \<lparr>as_activityType = t, as_status = ActSCHEDULED, as_result = JUndef, as_error = None\<rparr>"
| "opens_activity _ = None"

fun closes_activity :: "wf_event \<Rightarrow> (nat \<times> (activity_state \<Rightarrow> activity_state)) option" where
  "closes_activity (ActivityCompleted n r) = Some (n, \<lambda>a. a\<lparr>as_status := ActCOMPLETED, as_result := r\<rparr>)"
| "closes_activity (ActivityFailed n e) = Some (n, \<lambda>a. a\<lparr>as_status := ActFAILED, as_error := Some e\<rparr>)"
| "closes_activity _ = None"

fun opens_timer :: "wf_event \<Rightarrow> timer_state option" where
  "opens_timer (TimerScheduled f) = Some \<lparr>tm_fireAt = f, tm_status = TmSCHEDULED\<rparr>"
| "opens_timer _ = None"

fun closes_timer :: "wf_event \<Rightarrow> (nat \<times> (timer_state \<Rightarrow> timer_state)) option" where
  "closes_timer (TimerFired n) = Some (n, \<lambda>t. t\<lparr>tm_status := TmFIRED\<rparr>)"
| "closes_timer _ = None"

fun opens_llm :: "wf_event \<Rightarrow> llm_call_state option" where
  "opens_llm (LLM_REQUESTED stepId h st rq m) = Some
     \<lparr>ls_stepId = stepId, ls_status = CallREQUESTED, ls_requestHash = h, ls_model = None,
      ls_tokensIn = None, ls_tokensOut = None, ls_latencyMs = None, ls_estimatedCostUsd = None,
      ls_text = None, ls_truncated = None, ls_error = None\<rparr>"
| "opens_llm _ = None"

fun closes_llm :: "wf_event \<Rightarrow> (nat \<times> (llm_call_state \<Rightarrow> llm_call_state)) option" where
  "closes_llm (LLM_COMPLETED stepId n h txt calls tr model tin tout lat cost att) = Some (n,
     \<lambda>c. c\<lparr>ls_status := CallCOMPLETED, ls_model := Some model, ls_tokensIn := Some tin,
           ls_tokensOut := Some tout, ls_latencyMs := Some lat, ls_estimatedCostUsd := Some cost,
           ls_text := Some txt, ls_truncated := Some tr\<rparr>)"
| "closes_llm (LLM_FAILED stepId n e code r att) = Some (n, \<lambda>c. c\<lparr>ls_status := CallFAILED, ls_error := Some e\<rparr>)"
| "closes_llm _ = None"

fun opens_tool :: "wf_event \<Rightarrow> tool_call_state option" where
  "opens_tool (TOOL_REQUESTED stepId tool args h m) = Some
     \<lparr>ts_stepId = stepId, ts_tool = tool, ts_status = CallREQUESTED, ts_argsHash = h,
      ts_result = JUndef, ts_latencyMs = None, ts_error = None\<rparr>"
| "opens_tool _ = None"

fun closes_tool :: "wf_event \<Rightarrow> (nat \<times> (tool_call_state \<Rightarrow> tool_call_state)) option" where
  "closes_tool (TOOL_COMPLETED stepId n tool r lat att) =
     Some (n, \<lambda>c. c\<lparr>ts_status := CallCOMPLETED, ts_result := r, ts_latencyMs := Some lat\<rparr>)"
| "closes_tool (TOOL_FAILED stepId n tool e code r att) =
     Some (n, \<lambda>c. c\<lparr>ts_status := CallFAILED, ts_error := Some e\<rparr>)"
| "closes_tool _ = None"

lemma applyEvent_cases:
  assumes "applyEvent s e = Inr t"
  shows "st_activities t = (case opens_activity (event e) of Some a \<Rightarrow> (st_activities s)(seq e \<mapsto> a)
      | None \<Rightarrow> (case closes_activity (event e) of Some (n, f) \<Rightarrow> update_entry (st_activities s) n f
      | None \<Rightarrow> st_activities s))"
    and "st_timers t = (case opens_timer (event e) of Some a \<Rightarrow> (st_timers s)(seq e \<mapsto> a)
      | None \<Rightarrow> (case closes_timer (event e) of Some (n, f) \<Rightarrow> update_entry (st_timers s) n f
      | None \<Rightarrow> st_timers s))"
    and "st_llmCalls t = (case opens_llm (event e) of Some a \<Rightarrow> (st_llmCalls s)(seq e \<mapsto> a)
      | None \<Rightarrow> (case closes_llm (event e) of Some (n, f) \<Rightarrow> update_entry (st_llmCalls s) n f
      | None \<Rightarrow> st_llmCalls s))"
    and "st_toolCalls t = (case opens_tool (event e) of Some a \<Rightarrow> (st_toolCalls s)(seq e \<mapsto> a)
      | None \<Rightarrow> (case closes_tool (event e) of Some (n, f) \<Rightarrow> update_entry (st_toolCalls s) n f
      | None \<Rightarrow> st_toolCalls s))"
  using assms by (cases "event e"; auto simp: applyEvent.simps split: sum.splits)+

interpretation act: keyed_table st_activities opens_activity closes_activity
  by unfold_locales (simp_all add: applyEvent_cases(1) initialState_def)

interpretation tim: keyed_table st_timers opens_timer closes_timer
  by unfold_locales (simp_all add: applyEvent_cases(2) initialState_def)

interpretation llm: keyed_table st_llmCalls opens_llm closes_llm
  by unfold_locales (simp_all add: applyEvent_cases(3) initialState_def)

interpretation tool: keyed_table st_toolCalls opens_tool closes_tool
  by unfold_locales (simp_all add: applyEvent_cases(4) initialState_def)

lemma opens_activity_iff: "opens_activity ev \<noteq> None \<longleftrightarrow> (\<exists>t i. ev = ActivityScheduled t i)"
  by (cases ev) auto

lemma opens_timer_iff: "opens_timer ev \<noteq> None \<longleftrightarrow> (\<exists>f. ev = TimerScheduled f)"
  by (cases ev) auto

subsection \<open>Properties\<close>

text \<open>The outcomes a log records for the activity at \<open>n\<close>, in order.\<close>

definition act_outcomes :: "nat \<Rightarrow> stored_event list \<Rightarrow> (string + jsval) list" where
  "act_outcomes n es = List.map_filter (\<lambda>e. case event e of
       ActivityCompleted m r \<Rightarrow> if m = n then Some (Inr r) else None
     | ActivityFailed m err \<Rightarrow> if m = n then Some (Inl err) else None
     | _ \<Rightarrow> None) es"

definition act_status_of :: "(string + jsval) list \<Rightarrow> activity_status" where
  "act_status_of os = (if os = [] then ActSCHEDULED else case last os of Inr r \<Rightarrow> ActCOMPLETED | Inl e \<Rightarrow> ActFAILED)"

definition last_result :: "jsval \<Rightarrow> (string + jsval) list \<Rightarrow> jsval" where
  "last_result d os = foldl (\<lambda>r x. case x of Inr v \<Rightarrow> v | Inl e \<Rightarrow> r) d os"

definition last_error :: "string option \<Rightarrow> (string + jsval) list \<Rightarrow> string option" where
  "last_error d os = foldl (\<lambda>r x. case x of Inr v \<Rightarrow> r | Inl e \<Rightarrow> Some e) d os"

lemma act_outcomes_simps [simp]:
  "act_outcomes n [] = []"
  "act_outcomes n (e # es) = (case event e of
       ActivityCompleted m r \<Rightarrow> if m = n then Inr r # act_outcomes n es else act_outcomes n es
     | ActivityFailed m err \<Rightarrow> if m = n then Inl err # act_outcomes n es else act_outcomes n es
     | _ \<Rightarrow> act_outcomes n es)"
  by (simp_all add: act_outcomes_def List.map_filter_simps split: wf_event.splits)

lemma fold_activity_updates:
  assumes "list_all (\<lambda>e. \<not> act.opens_at n e) es"
  shows "fold (act.updates n) es a = a
     \<lparr>as_status := (if act_outcomes n es = [] then as_status a else act_status_of (act_outcomes n es)),
      as_result := last_result (as_result a) (act_outcomes n es),
      as_error := last_error (as_error a) (act_outcomes n es)\<rparr>"
  using assms
proof (induction es arbitrary: a)
  case Nil
  then show ?case by (simp add: last_result_def last_error_def)
next
  case (Cons e es)
  then show ?case
    by (cases "event e")
       (simp_all add: act.updates_def act_status_of_def last_result_def last_error_def)
qed

text \<open>
  What the fold shows for an activity. After a log in which the event \<open>e\<close> schedules an
  activity (its sequence number not scheduled again later), its entry has the type of the
  scheduling event, and status, result and error are those of the outcomes recorded for it
  afterwards: the last outcome decides the status, a result or error once recorded stays until
  another one replaces it.
\<close>

theorem activity_entry_of_log:
  assumes "foldEvents (pre @ e # post) = Inr t"
    and "event e = ActivityScheduled ty inp"
    and "\<forall>e' \<in> set post. seq e' \<noteq> seq e"
  shows "st_activities t (seq e) = Some
     \<lparr>as_activityType = ty, as_status = act_status_of (act_outcomes (seq e) post),
      as_result = last_result JUndef (act_outcomes (seq e) post),
      as_error = last_error None (act_outcomes (seq e) post)\<rparr>"
proof -
  have no: "list_all (\<lambda>e'. \<not> act.opens_at (seq e) e') post"
    using assms(3) by (auto simp: list_all_iff act.opens_at_def)
  show ?thesis
    using act.entry_of_log [OF assms(1) _ no] assms(2)
    by (simp add: fold_activity_updates [OF no] act_status_of_def)
qed

theorem activity_entry_of_log_witness:
  "\<exists>t. foldEvents ([] @ \<lparr>seq = 1, event = ActivityScheduled ''charge'' JNull\<rparr>
         # [\<lparr>seq = 2, event = ActivityFailed 1 ''declined''\<rparr>,
            \<lparr>seq = 3, event = ActivityCompleted 1 (JBool True)\<rparr>]) = Inr t
     \<and> st_activities t 1 = Some \<lparr>as_activityType = ''charge'', as_status = ActCOMPLETED,
          as_result = JBool True, as_error = Some ''declined''\<rparr>"
proof -
  let ?e = "\<lparr>seq = 1, event = ActivityScheduled ''charge'' JNull\<rparr>"
  let ?post = "[\<lparr>seq = 2, event = ActivityFailed 1 ''declined''\<rparr>, \<lparr>seq = 3, event = ActivityCompleted 1 (JBool True)\<rparr>]"
  obtain t where t: "foldEvents ([] @ ?e # ?post) = Inr t"
    by (simp add: foldEvents_def applyEvent.simps)
  from activity_entry_of_log [OF t, of "''charge''" JNull]
  show ?thesis using t by (auto simp: act_status_of_def last_result_def last_error_def)
qed

text \<open>
  The status the fold shows (and \<open>appendEvents\<close> caches) is that of the last terminal event of
  the log, \<open>RUNNING\<close> exactly when there is none: nothing in the reducer keeps the first terminal
  event, so a log that goes on after a terminal event changes the status again.
\<close>

theorem status_of_log:
  assumes "foldEvents es = Inr t"
  shows "st_status t = log_status es
       \<and> (st_status t = RUNNING \<longleftrightarrow> (\<forall>e \<in> set es. terminal_status (event e) = None))"
  using fold_from_status [OF assms [unfolded foldEvents_def]]
  by (simp add: log_status_running [unfolded log_status_def] log_status_def initialState_def list_all_iff)

theorem status_of_log_witness:
  "\<exists>t. foldEvents [\<lparr>seq = 1, event = WorkflowStarted ''w'' JNull\<rparr>,
                   \<lparr>seq = 2, event = WorkflowCanceled None\<rparr>,
                   \<lparr>seq = 3, event = WorkflowCompleted (JBool True)\<rparr>] = Inr t \<and> st_status t = COMPLETED"
proof -
  let ?es = "[\<lparr>seq = 1, event = WorkflowStarted ''w'' JNull\<rparr>, \<lparr>seq = 2, event = WorkflowCanceled None\<rparr>,
     \<lparr>seq = 3, event = WorkflowCompleted (JBool True)\<rparr>]"
  obtain t where t: "foldEvents ?es = Inr t"
    by (simp add: foldEvents_def applyEvent.simps)
  from status_of_log [OF t] t show ?thesis by (auto simp: log_status_def)
qed

text \<open>
  C16: The fold is incremental (folding a longer log is folding its tail from the state of its
  head), it ignores references to sequence numbers that nothing opened, and the one thing it does
  throw on is a signal whose name every object inherits, such as \<open>constructor\<close> or \<open>toString\<close>,
  although the reducer is meant to degrade gracefully.
\<close>

theorem fold_total_and_incremental:
  "foldEvents (xs @ ys) = (case foldEvents xs of Inl e \<Rightarrow> Inl e | Inr t \<Rightarrow> fold_from t ys)
   \<and> ((\<exists>t. foldEvents xs = Inr t) \<longleftrightarrow>
      \<not> (\<exists>e \<in> set xs. \<exists>n p. event e = SignalReceived n p \<and> n \<in> set object_prototype_names))"
proof -
  have "proto_signal e \<longleftrightarrow> (\<exists>n p. event e = SignalReceived n p \<and> n \<in> set object_prototype_names)" for e
    by (auto split: wf_event.splits)
  then show ?thesis
    using fold_from_append [of initialState xs ys] fold_from_total [OF no_proto_initial, of xs]
    by (simp add: foldEvents_def list_all_iff del: proto_signal.simps)
qed

end
