(* ===== verification/Replay.thy ===== *)
theory Replay
  imports Workflow
begin

section \<open>The replay engine (packages/core/src/replay.ts)\<close>

text \<open>
  A workflow function is an \<open>async\<close> function of the user: a parameter of the engine. What the
  engine can observe of it is a tree (\<open>prog\<close>): it calls a method of \<open>ctx\<close> (\<open>Issue\<close>, continuing
  with the promise, named by its position in the list of promises handed out, or with the error
  the method threw), awaits such a promise (\<open>Await\<close>, continuing with the value or the rejection,
  of which only the message is kept), awaits a value that is already there (\<open>Yield\<close>), returns
  (\<open>Ret\<close>) or throws (\<open>Throw\<close>, the message of the error, or the string a non-error converts to).

  Time inside \<open>replay\<close> is counted in microtask ticks. A reaction of the workflow function and a
  turn of the drain loop alternate: awaiting a settled promise costs one tick, the \<open>then\<close> that
  records a result one more, the \<open>catch\<close> that records an exception two. The result is what is
  there when the loop ends. (When the loop stops on its bound the returned \<open>commands\<close> array is
  still the one a running workflow function may push to; the model takes it as it is at that point.)
\<close>

subsection \<open>Calls, commands, results\<close>

datatype wf_call =
    ScheduleActivityCall string jsval
  | SleepCall js_num
  | WaitForSignalCall string
  | LlmCall llm_request
  | ToolCall string jsval

datatype prog =
    Ret jsval
  | Throw string
  | Issue wf_call "string + nat \<Rightarrow> prog"
  | Await nat "string + jsval \<Rightarrow> prog"
  | Yield prog

datatype wf_command =
    ScheduleActivity string jsval
  | CompleteWorkflow jsval
  | FailWorkflow string
  | ScheduleTimer js_num
  | RequestLlmCall string llm_request string
  | RequestToolCall string string jsval string

datatype replay_status = RpRUNNING | RpCOMPLETED | RpFAILED

text \<open>\<open>rr_pendingLlmRequests\<close> is empty where the code leaves the property out.\<close>

record replay_result =
  rr_status :: replay_status
  rr_result :: jsval
  rr_error :: "string option"
  rr_commands :: "wf_command list"
  rr_pendingLlmRequests :: "(string \<times> llm_request) list"

subsection \<open>What is read from the history\<close>

fun isActivityScheduled :: "stored_event \<Rightarrow> bool" where
  "isActivityScheduled e = (case event e of ActivityScheduled t i \<Rightarrow> True | _ \<Rightarrow> False)"

fun isTimerScheduled :: "stored_event \<Rightarrow> bool" where
  "isTimerScheduled e = (case event e of TimerScheduled f \<Rightarrow> True | _ \<Rightarrow> False)"

fun isSignalReceived :: "stored_event \<Rightarrow> bool" where
  "isSignalReceived e = (case event e of SignalReceived n p \<Rightarrow> True | _ \<Rightarrow> False)"

fun isLlmRequested :: "stored_event \<Rightarrow> bool" where
  "isLlmRequested e = (case event e of LLM_REQUESTED a b c d f \<Rightarrow> True | _ \<Rightarrow> False)"

fun isToolRequested :: "stored_event \<Rightarrow> bool" where
  "isToolRequested e = (case event e of TOOL_REQUESTED a b c d f \<Rightarrow> True | _ \<Rightarrow> False)"

text \<open>An outcome: the message of a failure, or what the call resolves with.\<close>

type_synonym outcome = "string + jsval"

definition outcome_step :: "(nat \<rightharpoonup> outcome) \<Rightarrow> stored_event \<Rightarrow> (nat \<rightharpoonup> outcome)" where
  "outcome_step m e = (case event e of
     ActivityCompleted n r \<Rightarrow> m(n \<mapsto> Inr r)
   | ActivityFailed n err \<Rightarrow> m(n \<mapsto> Inl err)
   | _ \<Rightarrow> m)"

definition llm_outcome_step :: "(nat \<rightharpoonup> outcome) \<Rightarrow> stored_event \<Rightarrow> (nat \<rightharpoonup> outcome)" where
  "llm_outcome_step m e = (case event e of
     LLM_COMPLETED stepId n h txt calls truncated model tin tout lat cost att \<Rightarrow>
       m(n \<mapsto> Inr (call_result_js \<lparr>cr_text = txt, cr_toolCalls = calls, cr_model = model,
                     cr_tokensIn = tin, cr_tokensOut = tout, cr_truncated = truncated\<rparr>))
   | LLM_FAILED stepId n err code retryable att \<Rightarrow> m(n \<mapsto> Inl err)
   | _ \<Rightarrow> m)"

definition tool_outcome_step :: "(nat \<rightharpoonup> outcome) \<Rightarrow> stored_event \<Rightarrow> (nat \<rightharpoonup> outcome)" where
  "tool_outcome_step m e = (case event e of
     TOOL_COMPLETED stepId n tool r lat att \<Rightarrow> m(n \<mapsto> Inr r)
   | TOOL_FAILED stepId n tool err code retryable att \<Rightarrow> m(n \<mapsto> Inl err)
   | _ \<Rightarrow> m)"

definition fired_step :: "(nat \<rightharpoonup> outcome) \<Rightarrow> stored_event \<Rightarrow> (nat \<rightharpoonup> outcome)" where
  "fired_step m e = (case event e of TimerFired n \<Rightarrow> m(n \<mapsto> Inr JUndef) | _ \<Rightarrow> m)"

fun signal_payload :: "string \<Rightarrow> stored_event \<Rightarrow> jsval option" where
  "signal_payload name e = (case event e of
     SignalReceived n p \<Rightarrow> if n = name then Some p else None | _ \<Rightarrow> None)"

record replay_index =
  ri_scheduledEvents :: "stored_event list"
  ri_timerEvents :: "stored_event list"
  ri_llmRequestedEvents :: "stored_event list"
  ri_toolRequestedEvents :: "stored_event list"
  ri_signals :: "string \<Rightarrow> jsval list"
  ri_outcomeBySeq :: "nat \<rightharpoonup> outcome"
  ri_llmOutcomeBySeq :: "nat \<rightharpoonup> outcome"
  ri_toolOutcomeBySeq :: "nat \<rightharpoonup> outcome"
  ri_firedTimerSeqs :: "nat \<rightharpoonup> outcome"
  ri_hash :: "(string \<Rightarrow> string) option"

text \<open>
  The lists and maps \<open>replay\<close> builds before it runs the function. The set of fired timers is a map
  to the value a fired \<open>sleep\<close> resolves with.
\<close>

definition index_history :: "(string \<Rightarrow> string) option \<Rightarrow> stored_event list \<Rightarrow> replay_index" where
  "index_history hash history =
     \<lparr> ri_scheduledEvents = filter isActivityScheduled history,
       ri_timerEvents = filter isTimerScheduled history,
       ri_llmRequestedEvents = filter isLlmRequested history,
       ri_toolRequestedEvents = filter isToolRequested history,
       ri_signals = (\<lambda>name. List.map_filter (signal_payload name) history),
       ri_outcomeBySeq = foldl outcome_step Map.empty history,
       ri_llmOutcomeBySeq = foldl llm_outcome_step Map.empty history,
       ri_toolOutcomeBySeq = foldl tool_outcome_step Map.empty history,
       ri_firedTimerSeqs = foldl fired_step Map.empty history,
       ri_hash = hash \<rparr>"

subsection \<open>The state of a pass\<close>

datatype promise = PPending | PSettled outcome

record pass_state =
  ps_callIndex :: nat
  ps_timerCallIndex :: nat
  ps_llmCallIndex :: nat
  ps_toolCallIndex :: nat
  ps_signalCallIndex :: "string \<Rightarrow> nat"
  ps_commands :: "wf_command list"
  ps_nonDeterminismError :: "js_error option"
  ps_pendingLlmRequests :: "(string \<times> llm_request) list"
  ps_promises :: "promise list"

definition initial_pass :: pass_state where
  "initial_pass =
     \<lparr> ps_callIndex = 0, ps_timerCallIndex = 0, ps_llmCallIndex = 0, ps_toolCallIndex = 0,
       ps_signalCallIndex = (\<lambda>_. 0), ps_commands = [], ps_nonDeterminismError = None,
       ps_pendingLlmRequests = [], ps_promises = [] \<rparr>"

text \<open>The promise for a recorded call: settled with its outcome, or pending while in flight.\<close>

definition promise_of :: "outcome option \<Rightarrow> promise" where
  "promise_of r = (case r of Some x \<Rightarrow> PSettled x | None \<Rightarrow> PPending)"

definition push_command :: "wf_command \<Rightarrow> pass_state \<Rightarrow> pass_state" where
  "push_command c s = s\<lparr>ps_commands := ps_commands s @ [c]\<rparr>"

definition llm_step_id :: "nat \<Rightarrow> string" where
  "llm_step_id i = ''llm-'' @ show_nat i"

definition tool_step_id :: "nat \<Rightarrow> string" where
  "tool_step_id i = ''tool-'' @ show_nat i"

fun ctx_scheduleActivity :: "replay_index \<Rightarrow> string \<Rightarrow> jsval \<Rightarrow> pass_state \<Rightarrow> pass_state \<times> promise" where
  "ctx_scheduleActivity ix activityType inp s0 =
     (let index = ps_callIndex s0; s = s0\<lparr>ps_callIndex := Suc index\<rparr> in
      case js_at (ri_scheduledEvents ix) index of
        Some scheduled \<Rightarrow>
          (case event scheduled of
             ActivityScheduled recorded _ \<Rightarrow>
               if recorded \<noteq> activityType
               then (s\<lparr>ps_nonDeterminismError := Some (NonDeterminismError index recorded activityType)\<rparr>, PPending)
               else (s, promise_of (ri_outcomeBySeq ix (seq scheduled)))
           | _ \<Rightarrow> (s, PPending))
      | None \<Rightarrow> (push_command (ScheduleActivity activityType inp) s, PPending))"

fun ctx_sleep :: "replay_index \<Rightarrow> js_num \<Rightarrow> pass_state \<Rightarrow> pass_state \<times> promise" where
  "ctx_sleep ix durationMs s0 =
     (let index = ps_timerCallIndex s0; s = s0\<lparr>ps_timerCallIndex := Suc index\<rparr> in
      case js_at (ri_timerEvents ix) index of
        Some scheduled \<Rightarrow> (s, promise_of (ri_firedTimerSeqs ix (seq scheduled)))
      | None \<Rightarrow> (push_command (ScheduleTimer durationMs) s, PPending))"

text \<open>
  Assigning \<open>pendingLlmRequests[stepId]\<close>: a step id is used once per pass, so the record grows at
  its end.
\<close>

fun ctx_llmCall :: "replay_index \<Rightarrow> (string \<Rightarrow> string) \<Rightarrow> llm_request \<Rightarrow> pass_state \<Rightarrow> pass_state \<times> promise" where
  "ctx_llmCall ix hash request s0 =
     (let index = ps_llmCallIndex s0; s = s0\<lparr>ps_llmCallIndex := Suc index\<rparr>;
          stepId = llm_step_id index; requestHash = hash (canonicalLlmRequest request) in
      case js_at (ri_llmRequestedEvents ix) index of
        Some scheduled \<Rightarrow>
          (case event scheduled of
             LLM_REQUESTED recordedId recordedHash _ _ _ \<Rightarrow>
               if recordedId \<noteq> stepId \<or> recordedHash \<noteq> requestHash
               then (s\<lparr>ps_nonDeterminismError :=
                        Some (StepRequestMismatchError stepId index recordedHash requestHash KLlm)\<rparr>, PPending)
               else (case ri_llmOutcomeBySeq ix (seq scheduled) of
                       Some r \<Rightarrow> (s, PSettled r)
                     | None \<Rightarrow> (s\<lparr>ps_pendingLlmRequests := ps_pendingLlmRequests s @ [(stepId, request)]\<rparr>, PPending))
           | _ \<Rightarrow> (s, PPending))
      | None \<Rightarrow> (push_command (RequestLlmCall stepId request requestHash) s, PPending))"

fun ctx_toolCall :: "replay_index \<Rightarrow> (string \<Rightarrow> string) \<Rightarrow> string \<Rightarrow> jsval \<Rightarrow> pass_state \<Rightarrow> pass_state \<times> promise" where
  "ctx_toolCall ix hash tool args s0 =
     (let index = ps_toolCallIndex s0; s = s0\<lparr>ps_toolCallIndex := Suc index\<rparr>;
          stepId = tool_step_id index; argsHash = hash (canonicalToolCall tool args) in
      case js_at (ri_toolRequestedEvents ix) index of
        Some scheduled \<Rightarrow>
          (case event scheduled of
             TOOL_REQUESTED recordedId _ _ recordedHash _ \<Rightarrow>
               if recordedId \<noteq> stepId \<or> recordedHash \<noteq> argsHash
               then (s\<lparr>ps_nonDeterminismError :=
                        Some (StepRequestMismatchError stepId index recordedHash argsHash KTool)\<rparr>, PPending)
               else (s, promise_of (ri_toolOutcomeBySeq ix (seq scheduled)))
           | _ \<Rightarrow> (s, PPending))
      | None \<Rightarrow> (push_command (RequestToolCall stepId tool args argsHash) s, PPending))"

fun ctx_waitForSignal :: "replay_index \<Rightarrow> string \<Rightarrow> pass_state \<Rightarrow> pass_state \<times> promise" where
  "ctx_waitForSignal ix signalName s0 =
     (let index = ps_signalCallIndex s0 signalName;
          s = s0\<lparr>ps_signalCallIndex := (ps_signalCallIndex s0)(signalName := Suc index)\<rparr> in
      case js_at (ri_signals ix signalName) index of
        Some payload \<Rightarrow> (s, PSettled (Inr payload))
      | None \<Rightarrow> (s, PPending))"

definition hash_required :: "string \<Rightarrow> string" where
  "hash_required method = ''replay: options.hash is required to use ctx.'' @ method"

text \<open>A call of a method of \<open>ctx\<close>: the new state and the promise, or what the method throws.\<close>

fun ctx_call :: "replay_index \<Rightarrow> wf_call \<Rightarrow> pass_state \<Rightarrow> string + pass_state \<times> promise" where
  "ctx_call ix (ScheduleActivityCall t i) s = Inr (ctx_scheduleActivity ix t i s)"
| "ctx_call ix (SleepCall d) s = Inr (ctx_sleep ix d s)"
| "ctx_call ix (WaitForSignalCall n) s = Inr (ctx_waitForSignal ix n s)"
| "ctx_call ix (LlmCall r) s = (case ri_hash ix of
     None \<Rightarrow> Inl (hash_required ''llmCall'') | Some hash \<Rightarrow> Inr (ctx_llmCall ix hash r s))"
| "ctx_call ix (ToolCall t a) s = (case ri_hash ix of
     None \<Rightarrow> Inl (hash_required ''toolCall'') | Some hash \<Rightarrow> Inr (ctx_toolCall ix hash t a s))"

definition issue :: "replay_index \<Rightarrow> wf_call \<Rightarrow> pass_state \<Rightarrow> pass_state \<times> (string + nat)" where
  "issue ix c s = (case ctx_call ix c s of
     Inl e \<Rightarrow> (s, Inl e)
   | Inr (t, p) \<Rightarrow> (t\<lparr>ps_promises := ps_promises t @ [p]\<rparr>, Inr (length (ps_promises t))))"

subsection \<open>Running the function inside the drain loop\<close>

definition MAX_DRAIN_TICKS :: nat where
  "MAX_DRAIN_TICKS = 1000"

text \<open>
  The function runs until it awaits something that is pending (then it never continues in this
  pass) or the ticks are used up; \<open>None\<close> is \<open>box.settled === null\<close> at the end of the loop.
\<close>

primrec drain :: "prog \<Rightarrow> replay_index \<Rightarrow> nat \<Rightarrow> pass_state \<Rightarrow> pass_state \<times> outcome option" where
  "drain (Ret v) ix ticks s = (s, if 1 \<le> ticks then Some (Inr v) else None)"
| "drain (Throw m) ix ticks s = (s, if 2 \<le> ticks then Some (Inl m) else None)"
| "drain (Issue c k) ix ticks s = (case issue ix c s of (t, r) \<Rightarrow> drain (k r) ix ticks t)"
| "drain (Await p k) ix ticks s = (case js_at (ps_promises s) p of
     Some (PSettled r) \<Rightarrow> (case ticks of 0 \<Rightarrow> (s, None) | Suc n \<Rightarrow> drain (k r) ix n s)
   | _ \<Rightarrow> (s, None))"
| "drain (Yield q) ix ticks s = (case ticks of 0 \<Rightarrow> (s, None) | Suc n \<Rightarrow> drain q ix n s)"

definition finish_pass :: "pass_state \<times> outcome option \<Rightarrow> js_error + replay_result" where
  "finish_pass x = (case x of (s, settled) \<Rightarrow>
     (case ps_nonDeterminismError s of
        Some e \<Rightarrow> Inl e
      | None \<Rightarrow> (case settled of
          None \<Rightarrow> Inr \<lparr>rr_status = RpRUNNING, rr_result = JUndef, rr_error = None,
                     rr_commands = ps_commands s, rr_pendingLlmRequests = ps_pendingLlmRequests s\<rparr>
        | Some (Inr v) \<Rightarrow> Inr \<lparr>rr_status = RpCOMPLETED, rr_result = v, rr_error = None,
                     rr_commands = [CompleteWorkflow v], rr_pendingLlmRequests = ps_pendingLlmRequests s\<rparr>
        | Some (Inl m) \<Rightarrow> Inr \<lparr>rr_status = RpFAILED, rr_result = JUndef, rr_error = Some m,
                     rr_commands = [FailWorkflow m], rr_pendingLlmRequests = ps_pendingLlmRequests s\<rparr>)))"

type_synonym workflow_fn = "jsval \<Rightarrow> prog"

definition replay :: "workflow_fn \<Rightarrow> jsval \<Rightarrow> stored_event list \<Rightarrow> (string \<Rightarrow> string) option
    \<Rightarrow> js_error + replay_result" where
  "replay workflowFn inp history hash =
     finish_pass (drain (workflowFn inp) (index_history hash history) MAX_DRAIN_TICKS initial_pass)"

subsection \<open>Awaiting a call in place\<close>

text \<open>\<open>const v = await ctx.method(...)\<close> outside any \<open>try\<close>: what it throws ends the function.\<close>

definition await_call :: "wf_call \<Rightarrow> (jsval \<Rightarrow> prog) \<Rightarrow> prog" where
  "await_call c k = Issue c (\<lambda>r. case r of Inl e \<Rightarrow> Throw e
     | Inr p \<Rightarrow> Await p (\<lambda>r. case r of Inl e \<Rightarrow> Throw e | Inr v \<Rightarrow> k v))"

lemma drain_await_call:
  "drain (await_call c k) ix ticks s = (case issue ix c s of
     (t, Inl e) \<Rightarrow> drain (Throw e) ix ticks t
   | (t, Inr p) \<Rightarrow> (case js_at (ps_promises t) p of
        Some (PSettled r) \<Rightarrow> (case ticks of 0 \<Rightarrow> (t, None)
          | Suc n \<Rightarrow> drain (case r of Inl e \<Rightarrow> Throw e | Inr v \<Rightarrow> k v) ix n t)
      | _ \<Rightarrow> (t, None)))"
  by (auto simp: await_call_def split: prod.splits sum.splits option.splits promise.splits nat.splits)

end
