(* ===== verification/ReplayProps.thy ===== *)
theory ReplayProps
  imports Replay "HOL-Library.Sublist"
begin

section \<open>What a replay pass does\<close>

text \<open>
  A pass is the effect of the calls it makes, in order (\<open>drain_calls\<close>). The four kinds of calls
  with a record in the history have one contract (locale \<open>call_stream\<close>): the \<open>n\<close>-th call of the
  kind is compared with the \<open>n\<close>-th recorded event of the kind, and becomes a command only when
  there is none.
\<close>

subsection \<open>The calls of a pass\<close>

primrec calls_of :: "prog \<Rightarrow> replay_index \<Rightarrow> nat \<Rightarrow> pass_state \<Rightarrow> wf_call list" where
  "calls_of (Ret v) ix ticks s = []"
| "calls_of (Throw m) ix ticks s = []"
| "calls_of (Issue c k) ix ticks s = (case issue ix c s of (t, r) \<Rightarrow>
     (case r of Inl e \<Rightarrow> [] | Inr n \<Rightarrow> [c]) @ calls_of (k r) ix ticks t)"
| "calls_of (Await p k) ix ticks s = (case js_at (ps_promises s) p of
     Some (PSettled r) \<Rightarrow> (case ticks of 0 \<Rightarrow> [] | Suc n \<Rightarrow> calls_of (k r) ix n s)
   | _ \<Rightarrow> [])"
| "calls_of (Yield q) ix ticks s = (case ticks of 0 \<Rightarrow> [] | Suc n \<Rightarrow> calls_of q ix n s)"

text \<open>The calls a workflow function makes during \<open>replay\<close>, in order.\<close>

definition pass_calls :: "workflow_fn \<Rightarrow> jsval \<Rightarrow> stored_event list \<Rightarrow> (string \<Rightarrow> string) option \<Rightarrow> wf_call list" where
  "pass_calls f inp h hash = calls_of (f inp) (index_history hash h) MAX_DRAIN_TICKS initial_pass"

definition issue_all :: "replay_index \<Rightarrow> wf_call list \<Rightarrow> pass_state \<Rightarrow> pass_state" where
  "issue_all ix cs s = fold (\<lambda>c s. fst (issue ix c s)) cs s"

lemma issue_all_simps [simp]:
  "issue_all ix [] s = s"
  "issue_all ix (c # cs) s = issue_all ix cs (fst (issue ix c s))"
  by (simp_all add: issue_all_def)

lemma issue_Inl: "issue ix c s = (t, Inl e) \<Longrightarrow> t = s"
  by (auto simp: issue_def split: sum.splits prod.splits)

lemma drain_calls: "fst (drain p ix ticks s) = issue_all ix (calls_of p ix ticks s) s"
proof (induction p arbitrary: ticks s)
  case (Issue c k)
  obtain t r where tr: "issue ix c s = (t, r)" by fastforce
  have "fst (drain (k r) ix ticks t) = issue_all ix (calls_of (k r) ix ticks t) t"
    by (rule Issue) simp
  then show ?case using tr by (cases r) (auto dest: issue_Inl)
next
  case (Await p k)
  then show ?case by (auto split: option.splits promise.splits nat.splits)
next
  case (Yield q)
  then show ?case by (auto split: nat.splits)
qed auto

text \<open>The calls of a pass are those that did not throw for want of a hash function.\<close>

fun accepted :: "replay_index \<Rightarrow> wf_call \<Rightarrow> bool" where
  "accepted ix (LlmCall r) = (ri_hash ix \<noteq> None)"
| "accepted ix (ToolCall t a) = (ri_hash ix \<noteq> None)"
| "accepted ix _ = True"

lemma issue_accepted: "issue ix c s = (t, Inr n) \<Longrightarrow> accepted ix c"
  by (cases c) (auto simp: issue_def split: sum.splits option.splits)

lemma calls_accepted: "c \<in> set (calls_of p ix ticks s) \<Longrightarrow> accepted ix c"
proof (induction p arbitrary: ticks s)
  case (Issue d k)
  obtain t r where tr: "issue ix d s = (t, r)" by fastforce
  with Issue.IH [OF rangeI [of k r]] Issue.prems show ?case
    by (cases r) (auto dest: issue_accepted)
next
  case (Await p k)
  then show ?case by (auto intro: Await.IH [OF rangeI] split: option.splits promise.splits nat.splits)
next
  case (Yield q)
  then show ?case by (auto split: nat.splits)
qed auto

subsection \<open>One call\<close>

fun set_outcome_promise :: "pass_state \<times> promise \<Rightarrow> pass_state" where
  "set_outcome_promise (t, p) = t\<lparr>ps_promises := ps_promises t @ [p]\<rparr>"

lemma issue_eq:
  "issue ix (ScheduleActivityCall ty i) s = (set_outcome_promise (ctx_scheduleActivity ix ty i s), Inr (length (ps_promises s)))"
  "issue ix (SleepCall d) s = (set_outcome_promise (ctx_sleep ix d s), Inr (length (ps_promises s)))"
  "issue ix (WaitForSignalCall n) s = (set_outcome_promise (ctx_waitForSignal ix n s), Inr (length (ps_promises s)))"
  "ri_hash ix = Some h \<Longrightarrow> issue ix (LlmCall r) s = (set_outcome_promise (ctx_llmCall ix h r s), Inr (length (ps_promises s)))"
  "ri_hash ix = Some h \<Longrightarrow> issue ix (ToolCall tn a) s = (set_outcome_promise (ctx_toolCall ix h tn a s), Inr (length (ps_promises s)))"
  by (auto simp: issue_def Let_def push_command_def split: option.splits wf_event.splits prod.splits)

lemma issue_error_kept:
  "ps_nonDeterminismError s \<noteq> None \<Longrightarrow> ps_nonDeterminismError (fst (issue ix c s)) \<noteq> None"
  by (cases c)
     (auto simp: issue_def Let_def push_command_def split: option.splits wf_event.splits prod.splits sum.splits)

lemma issue_all_error_kept:
  "ps_nonDeterminismError s \<noteq> None \<Longrightarrow> ps_nonDeterminismError (issue_all ix cs s) \<noteq> None"
  by (induction cs arbitrary: s) (simp_all add: issue_error_kept del: not_None_eq)

text \<open>A call appends at most one command.\<close>

lemma issue_commands_grow:
  "\<exists>cs. ps_commands (fst (issue ix c s)) = ps_commands s @ cs"
  by (cases c)
     (auto simp: issue_def Let_def push_command_def split: option.splits wf_event.splits prod.splits sum.splits)

lemma issue_all_commands_grow:
  "\<exists>cs'. ps_commands (issue_all ix cs s) = ps_commands s @ cs'"
proof (induction cs arbitrary: s)
  case (Cons c cs)
  from issue_commands_grow [of ix c s] Cons [of "fst (issue ix c s)"] show ?case by auto
qed simp

subsection \<open>The contract of a kind of call\<close>

locale call_stream =
  fixes request :: "wf_call \<Rightarrow> 'q option"
    and counter :: "pass_state \<Rightarrow> nat"
    and recorded :: "replay_index \<Rightarrow> stored_event list"
    and matches :: "replay_index \<Rightarrow> wf_event \<Rightarrow> nat \<Rightarrow> 'q \<Rightarrow> bool"
    and command :: "replay_index \<Rightarrow> nat \<Rightarrow> 'q \<Rightarrow> wf_command"
    and mine :: "wf_command \<Rightarrow> bool"
    and well_kept :: "replay_index \<Rightarrow> bool"
  assumes request_step: "accepted ix c \<Longrightarrow> request c = Some q \<Longrightarrow>
      counter (fst (issue ix c s)) = Suc (counter s)
    \<and> filter mine (ps_commands (fst (issue ix c s)))
      = filter mine (ps_commands s) @ (if counter s < length (recorded ix) then [] else [command ix (counter s) q])"
    and other_step: "request c = None \<Longrightarrow>
      counter (fst (issue ix c s)) = counter s
    \<and> filter mine (ps_commands (fst (issue ix c s))) = filter mine (ps_commands s)"
    and mismatch_step: "accepted ix c \<Longrightarrow> well_kept ix \<Longrightarrow> request c = Some q \<Longrightarrow> counter s < length (recorded ix)
    \<Longrightarrow> \<not> matches ix (event (recorded ix ! counter s)) (counter s) q
    \<Longrightarrow> ps_nonDeterminismError (fst (issue ix c s)) \<noteq> None"
begin

lemma commands_of_calls:
  assumes "list_all (accepted ix) cs"
  shows "filter mine (ps_commands (issue_all ix cs s)) = filter mine (ps_commands s)
     @ map (\<lambda>(i, q). command ix i q)
         (filter (\<lambda>(i, q). length (recorded ix) \<le> i) (enumerate (counter s) (List.map_filter request cs)))"
  using assms
proof (induction cs arbitrary: s)
  case (Cons c cs)
  then have IH: "filter mine (ps_commands (issue_all ix cs (fst (issue ix c s)))) = filter mine (ps_commands (fst (issue ix c s)))
     @ map (\<lambda>(i, q). command ix i q)
         (filter (\<lambda>(i, q). length (recorded ix) \<le> i) (enumerate (counter (fst (issue ix c s))) (List.map_filter request cs)))"
    by simp
  show ?case
  proof (cases "request c")
    case None
    then show ?thesis using IH other_step [OF None, of ix s] by (simp add: List.map_filter_simps)
  next
    case (Some q)
    have "accepted ix c" using Cons.prems by simp
    then show ?thesis using IH request_step [OF _ Some, of ix s] by (simp add: List.map_filter_simps Some)
  qed
qed (simp add: List.map_filter_simps)

lemma matches_of_calls:
  assumes "list_all (accepted ix) cs" "well_kept ix" "ps_nonDeterminismError (issue_all ix cs s) = None"
    and "(i, q) \<in> set (enumerate (counter s) (List.map_filter request cs))" "i < length (recorded ix)"
  shows "matches ix (event (recorded ix ! i)) i q"
  using assms
proof (induction cs arbitrary: s)
  case (Cons c cs)
  have acc: "accepted ix c" using Cons.prems(1) by simp
  have IH: "(i, q) \<in> set (enumerate (counter (fst (issue ix c s))) (List.map_filter request cs)) \<Longrightarrow> ?case"
    using Cons.IH [of "fst (issue ix c s)"] Cons.prems by simp
  show ?case
  proof (cases "request c")
    case None
    then show ?thesis using IH other_step [OF None, of ix s] Cons.prems(4) by (simp add: List.map_filter_simps)
  next
    case (Some q')
    show ?thesis
    proof (cases "(i, q) \<in> set (enumerate (Suc (counter s)) (List.map_filter request cs))")
      case True
      then show ?thesis using IH request_step [OF acc Some, of s] by simp
    next
      case False
      with Cons.prems(4) Some have eq: "i = counter s" "q = q'" by (auto simp: List.map_filter_simps)
      show ?thesis
      proof (rule ccontr)
        assume "\<not> ?thesis"
        then have "ps_nonDeterminismError (fst (issue ix c s)) \<noteq> None"
          using mismatch_step [OF acc Cons.prems(2) Some, of s] Cons.prems(5) eq by simp
        then show False using Cons.prems(3) issue_all_error_kept by fastforce
      qed
    qed
  qed
qed (simp add: List.map_filter_simps)

lemma keeps_step:
  assumes "length (filter mine (ps_commands s)) = counter s - length (recorded ix)" "issue ix c s = (t, r)"
  shows "length (filter mine (ps_commands t)) = counter t - length (recorded ix)"
proof (cases r)
  case (Inl e)
  then show ?thesis using assms issue_Inl by blast
next
  case (Inr n)
  then have acc: "accepted ix c" using assms(2) issue_accepted by blast
  have t: "t = fst (issue ix c s)" using assms(2) by simp
  show ?thesis
  proof (cases "request c")
    case None
    then show ?thesis using other_step [OF None, of ix s] assms(1) by (simp add: t)
  next
    case (Some q)
    then show ?thesis using request_step [OF acc Some, of s] assms(1) by (auto simp: t)
  qed
qed

lemma counter_of_calls:
  "list_all (accepted ix) cs \<Longrightarrow> counter (issue_all ix cs s) = counter s + length (List.map_filter request cs)"
proof (induction cs arbitrary: s)
  case (Cons c cs)
  then show ?case
    using other_step [of c ix s] request_step [of ix c _ s]
    by (cases "request c") (simp_all add: List.map_filter_simps)
qed (simp add: List.map_filter_simps)

end

subsubsection \<open>Activities, timers, LLM calls, tool calls\<close>

fun activity_request :: "wf_call \<Rightarrow> (string \<times> jsval) option" where
  "activity_request (ScheduleActivityCall t i) = Some (t, i)"
| "activity_request _ = None"

fun timer_request :: "wf_call \<Rightarrow> js_num option" where
  "timer_request (SleepCall d) = Some d"
| "timer_request _ = None"

fun llm_request_of :: "wf_call \<Rightarrow> llm_request option" where
  "llm_request_of (LlmCall r) = Some r"
| "llm_request_of _ = None"

fun tool_request :: "wf_call \<Rightarrow> (string \<times> jsval) option" where
  "tool_request (ToolCall t a) = Some (t, a)"
| "tool_request _ = None"

fun is_activity_command :: "wf_command \<Rightarrow> bool" where
  "is_activity_command (ScheduleActivity t i) = True"
| "is_activity_command _ = False"

fun is_timer_command :: "wf_command \<Rightarrow> bool" where
  "is_timer_command (ScheduleTimer d) = True"
| "is_timer_command _ = False"

fun is_llm_command :: "wf_command \<Rightarrow> bool" where
  "is_llm_command (RequestLlmCall i r h) = True"
| "is_llm_command _ = False"

fun is_tool_command :: "wf_command \<Rightarrow> bool" where
  "is_tool_command (RequestToolCall i t a h) = True"
| "is_tool_command _ = False"

definition the_hash :: "replay_index \<Rightarrow> string \<Rightarrow> string" where
  "the_hash ix = (case ri_hash ix of Some h \<Rightarrow> h | None \<Rightarrow> id)"

fun activity_matches :: "replay_index \<Rightarrow> wf_event \<Rightarrow> nat \<Rightarrow> string \<times> jsval \<Rightarrow> bool" where
  "activity_matches ix ev n q = (case ev of ActivityScheduled t i \<Rightarrow> t = fst q | _ \<Rightarrow> False)"

fun timer_matches :: "replay_index \<Rightarrow> wf_event \<Rightarrow> nat \<Rightarrow> js_num \<Rightarrow> bool" where
  "timer_matches ix ev n q = True"

fun llm_matches :: "replay_index \<Rightarrow> wf_event \<Rightarrow> nat \<Rightarrow> llm_request \<Rightarrow> bool" where
  "llm_matches ix ev n r = (case ev of LLM_REQUESTED i h st rq m \<Rightarrow>
     i = llm_step_id n \<and> h = the_hash ix (canonicalLlmRequest r) | _ \<Rightarrow> False)"

fun tool_matches :: "replay_index \<Rightarrow> wf_event \<Rightarrow> nat \<Rightarrow> string \<times> jsval \<Rightarrow> bool" where
  "tool_matches ix ev n q = (case ev of TOOL_REQUESTED i t a h m \<Rightarrow>
     i = tool_step_id n \<and> h = the_hash ix (canonicalToolCall (fst q) (snd q)) | _ \<Rightarrow> False)"

definition well_indexed :: "replay_index \<Rightarrow> bool" where
  "well_indexed ix \<longleftrightarrow> list_all isActivityScheduled (ri_scheduledEvents ix)
     \<and> list_all isLlmRequested (ri_llmRequestedEvents ix)
     \<and> list_all isToolRequested (ri_toolRequestedEvents ix)"

lemma well_indexed_history [simp]: "well_indexed (index_history hash h)"
  by (auto simp: well_indexed_def index_history_def list_all_iff)

lemma well_indexed_nth:
  assumes "well_indexed ix"
  shows "n < length (ri_scheduledEvents ix) \<Longrightarrow> isActivityScheduled (ri_scheduledEvents ix ! n)"
    and "n < length (ri_llmRequestedEvents ix) \<Longrightarrow> isLlmRequested (ri_llmRequestedEvents ix ! n)"
    and "n < length (ri_toolRequestedEvents ix) \<Longrightarrow> isToolRequested (ri_toolRequestedEvents ix ! n)"
  using assms by (auto simp: well_indexed_def list_all_length simp del: isActivityScheduled.simps
      isLlmRequested.simps isToolRequested.simps)

lemmas issue_unfold = issue_def Let_def push_command_def js_at_conv

interpretation activities: call_stream activity_request ps_callIndex ri_scheduledEvents activity_matches
  "\<lambda>ix n q. ScheduleActivity (fst q) (snd q)" is_activity_command well_indexed
proof (unfold_locales, goal_cases)
  case (1 ix c q s)
  then show ?case
    by (cases c) (auto simp: issue_unfold split: option.splits wf_event.splits)
next
  case (2 c ix s)
  then show ?case
    by (cases c) (auto simp: issue_unfold split: option.splits wf_event.splits sum.splits)
next
  case (3 ix c q s)
  then show ?case using well_indexed_nth(1) [OF 3(2) 3(4)]
    by (cases c) (auto simp: issue_unfold split: option.splits wf_event.splits)
qed

interpretation timers: call_stream timer_request ps_timerCallIndex ri_timerEvents timer_matches
  "\<lambda>ix n d. ScheduleTimer d" is_timer_command well_indexed
proof (unfold_locales, goal_cases)
  case (1 ix c q s)
  then show ?case
    by (cases c) (auto simp: issue_unfold split: option.splits wf_event.splits)
next
  case (2 c ix s)
  then show ?case
    by (cases c) (auto simp: issue_unfold split: option.splits wf_event.splits sum.splits)
next
  case (3 ix c q s)
  then show ?case by simp
qed

interpretation llm_calls: call_stream llm_request_of ps_llmCallIndex ri_llmRequestedEvents llm_matches
  "\<lambda>ix n r. RequestLlmCall (llm_step_id n) r (the_hash ix (canonicalLlmRequest r))" is_llm_command well_indexed
proof (unfold_locales, goal_cases)
  case (1 ix c q s)
  then show ?case
    by (cases c) (auto simp: issue_unfold the_hash_def split: option.splits wf_event.splits)
next
  case (2 c ix s)
  then show ?case
    by (cases c) (auto simp: issue_unfold split: option.splits wf_event.splits sum.splits)
next
  case (3 ix c q s)
  then show ?case using well_indexed_nth(2) [OF 3(2) 3(4)]
    by (cases c) (auto simp: issue_unfold the_hash_def split: option.splits wf_event.splits)
qed

interpretation tool_calls: call_stream tool_request ps_toolCallIndex ri_toolRequestedEvents tool_matches
  "\<lambda>ix n q. RequestToolCall (tool_step_id n) (fst q) (snd q) (the_hash ix (canonicalToolCall (fst q) (snd q)))"
  is_tool_command well_indexed
proof (unfold_locales, goal_cases)
  case (1 ix c q s)
  then show ?case
    by (cases c) (auto simp: issue_unfold the_hash_def split: option.splits wf_event.splits)
next
  case (2 c ix s)
  then show ?case
    by (cases c) (auto simp: issue_unfold split: option.splits wf_event.splits sum.splits)
next
  case (3 ix c q s)
  then show ?case using well_indexed_nth(3) [OF 3(2) 3(4)]
    by (cases c) (auto simp: issue_unfold the_hash_def split: option.splits wf_event.splits)
qed

subsection \<open>From a pass to its result\<close>

definition pass_end :: "workflow_fn \<Rightarrow> jsval \<Rightarrow> stored_event list \<Rightarrow> (string \<Rightarrow> string) option
    \<Rightarrow> pass_state \<times> outcome option" where
  "pass_end f inp h hash = drain (f inp) (index_history hash h) MAX_DRAIN_TICKS initial_pass"

lemma pass_end_state: "fst (pass_end f inp h hash) = issue_all (index_history hash h) (pass_calls f inp h hash) initial_pass"
  by (simp add: pass_end_def pass_calls_def drain_calls)

lemma pass_calls_accepted: "list_all (accepted (index_history hash h)) (pass_calls f inp h hash)"
  by (auto simp: list_all_iff pass_calls_def intro: calls_accepted)

lemma replay_pass_end: "replay f inp h hash = finish_pass (pass_end f inp h hash)"
  by (simp add: replay_def pass_end_def)

lemma replay_Inr:
  assumes "replay f inp h hash = Inr r"
  shows "ps_nonDeterminismError (fst (pass_end f inp h hash)) = None"
    and "rr_status r = RpRUNNING \<longleftrightarrow> snd (pass_end f inp h hash) = None"
    and "rr_status r = RpRUNNING \<Longrightarrow> rr_commands r = ps_commands (fst (pass_end f inp h hash))"
    and "rr_pendingLlmRequests r = ps_pendingLlmRequests (fst (pass_end f inp h hash))"
  using assms by (auto simp: replay_pass_end finish_pass_def split: prod.splits option.splits sum.splits)

lemma enumerate_drop:
  "map snd (filter (\<lambda>(i, q). k \<le> i) (enumerate n xs)) = drop (k - n) xs"
proof (induction xs arbitrary: n)
  case (Cons x xs)
  show ?case
  proof (cases "k \<le> n")
    case True
    then have "filter (\<lambda>(i, q). k \<le> i) (enumerate n (x # xs)) = enumerate n (x # xs)"
      by (auto simp: filter_id_conv in_set_enumerate_eq)
    with True show ?thesis by simp
  next
    case False
    then have "k - n = Suc (k - Suc n)" by simp
    with False Cons show ?thesis by simp
  qed
qed simp

lemma enumerate_drop_map:
  "map (\<lambda>(i, q). g q) (filter (\<lambda>(i, q). k \<le> i) (enumerate 0 xs)) = map g (drop k xs)"
  using enumerate_drop [of k 0 xs] by (metis (mono_tags, lifting) case_prod_beta' diff_zero map_eq_conv map_map comp_apply)

lemma initial_counters [simp]:
  "ps_callIndex initial_pass = 0" "ps_timerCallIndex initial_pass = 0"
  "ps_llmCallIndex initial_pass = 0" "ps_toolCallIndex initial_pass = 0"
  "ps_commands initial_pass = []" "ps_promises initial_pass = []"
  "ps_pendingLlmRequests initial_pass = []" "ps_nonDeterminismError initial_pass = None"
  by (simp_all add: initial_pass_def)

lemma index_fields [simp]:
  "ri_scheduledEvents (index_history hash h) = filter isActivityScheduled h"
  "ri_timerEvents (index_history hash h) = filter isTimerScheduled h"
  "ri_llmRequestedEvents (index_history hash h) = filter isLlmRequested h"
  "ri_toolRequestedEvents (index_history hash h) = filter isToolRequested h"
  "ri_hash (index_history hash h) = hash"
  by (simp_all add: index_history_def)

text \<open>The request of the \<open>i\<close>-th LLM or tool call as the command that asks for it.\<close>

definition llm_command :: "(string \<Rightarrow> string) \<Rightarrow> nat \<times> llm_request \<Rightarrow> wf_command" where
  "llm_command hash ir = RequestLlmCall (llm_step_id (fst ir)) (snd ir) (hash (canonicalLlmRequest (snd ir)))"

definition tool_command :: "(string \<Rightarrow> string) \<Rightarrow> nat \<times> string \<times> jsval \<Rightarrow> wf_command" where
  "tool_command hash ita = RequestToolCall (tool_step_id (fst ita)) (fst (snd ita)) (snd (snd ita))
     (hash (canonicalToolCall (fst (snd ita)) (snd (snd ita))))"

text \<open>
  C13: The commands of a pass that leaves the workflow running are exactly the calls history does not
  have: of every kind, the calls beyond the number of recorded events of that kind, in order and
  with the step id of their position. A call that is recorded is never asked for again, a new call
  is never lost, and waiting for a signal asks for nothing.
\<close>

theorem running_pass_commands:
  assumes "replay f inp h (Some hash) = Inr r" "rr_status r = RpRUNNING"
  shows "filter is_activity_command (rr_commands r)
       = map (\<lambda>(t, i). ScheduleActivity t i)
           (drop (length (filter isActivityScheduled h)) (List.map_filter activity_request (pass_calls f inp h (Some hash))))
     \<and> filter is_timer_command (rr_commands r)
       = map ScheduleTimer
           (drop (length (filter isTimerScheduled h)) (List.map_filter timer_request (pass_calls f inp h (Some hash))))
     \<and> filter is_llm_command (rr_commands r)
       = map (llm_command hash) (filter (\<lambda>(n, q). length (filter isLlmRequested h) \<le> n)
           (enumerate 0 (List.map_filter llm_request_of (pass_calls f inp h (Some hash)))))
     \<and> filter is_tool_command (rr_commands r)
       = map (tool_command hash) (filter (\<lambda>(n, q). length (filter isToolRequested h) \<le> n)
           (enumerate 0 (List.map_filter tool_request (pass_calls f inp h (Some hash)))))
     \<and> (\<forall>c \<in> set (rr_commands r). is_activity_command c \<or> is_timer_command c \<or> is_llm_command c \<or> is_tool_command c)"
proof -
  let ?ix = "index_history (Some hash) h" and ?cs = "pass_calls f inp h (Some hash)"
  note acc = pass_calls_accepted [of "Some hash" h f inp]
  have cmds: "rr_commands r = ps_commands (issue_all ?ix ?cs initial_pass)"
    using replay_Inr(3) [OF assms] by (simp add: pass_end_state)
  have kinds: "\<forall>c \<in> set (ps_commands (issue_all ix cs s)).
      is_activity_command c \<or> is_timer_command c \<or> is_llm_command c \<or> is_tool_command c"
    if "\<forall>c \<in> set (ps_commands s). is_activity_command c \<or> is_timer_command c \<or> is_llm_command c \<or> is_tool_command c"
    for ix cs s
    using that
  proof (induction cs arbitrary: s)
    case (Cons c cs)
    have "\<forall>d \<in> set (ps_commands (fst (issue ix c s))).
      is_activity_command d \<or> is_timer_command d \<or> is_llm_command d \<or> is_tool_command d"
      using Cons.prems
      by (cases c) (auto simp: issue_unfold split: option.splits wf_event.splits sum.splits)
    then show ?case using Cons.IH by simp
  qed simp
  show ?thesis
    unfolding cmds
    using activities.commands_of_calls [OF acc, of initial_pass] timers.commands_of_calls [OF acc, of initial_pass]
      llm_calls.commands_of_calls [OF acc, of initial_pass] tool_calls.commands_of_calls [OF acc, of initial_pass]
      kinds [of initial_pass ?ix ?cs]
    by (simp add: enumerate_drop_map [where g = "\<lambda>q. ScheduleActivity (fst q) (snd q)"]
        enumerate_drop_map [where g = ScheduleTimer] case_prod_beta llm_command_def tool_command_def the_hash_def)
qed

end
