(* ===== verification/ReplayDiverge.thy ===== *)
theory ReplayDiverge
  imports ReplayProps
begin

section \<open>Divergence from history, and what a recorded call resolves with\<close>

text \<open>
  The two guarantees a replay pass gives for the recorded part of history: running code that asks
  for something else is always detected and named, and a recorded call resolves with its recorded
  outcome, never with a new one.
\<close>

subsection \<open>Divergence\<close>

text \<open>
  \<open>mismatch ix cs e\<close>: among the calls \<open>cs\<close> is one that differs from the event recorded at its
  position, and \<open>e\<close> is the error that says so.
\<close>

fun mismatch :: "replay_index \<Rightarrow> wf_call list \<Rightarrow> js_error \<Rightarrow> bool" where
  "mismatch ix cs (NonDeterminismError i recorded actual) =
     (\<exists>e inp. js_at (ri_scheduledEvents ix) i = Some e
        \<and> js_at (List.map_filter activity_request cs) i = Some (actual, inp)
        \<and> \<not> activity_matches ix (event e) i (actual, inp)
        \<and> (\<exists>inp'. event e = ActivityScheduled recorded inp'))"
| "mismatch ix cs (StepRequestMismatchError stepId i recorded actual KLlm) =
     (\<exists>e r. js_at (ri_llmRequestedEvents ix) i = Some e
        \<and> js_at (List.map_filter llm_request_of cs) i = Some r
        \<and> \<not> llm_matches ix (event e) i r
        \<and> stepId = llm_step_id i \<and> recorded = lq_requestHash (event e)
        \<and> actual = the_hash ix (canonicalLlmRequest r))"
| "mismatch ix cs (StepRequestMismatchError stepId i recorded actual KTool) =
     (\<exists>e q. js_at (ri_toolRequestedEvents ix) i = Some e
        \<and> js_at (List.map_filter tool_request cs) i = Some q
        \<and> \<not> tool_matches ix (event e) i q
        \<and> stepId = tool_step_id i \<and> recorded = tq_argsHash (event e)
        \<and> actual = the_hash ix (canonicalToolCall (fst q) (snd q)))"
| "mismatch ix cs _ = False"

lemma js_at_mono: "js_at xs i = Some x \<Longrightarrow> js_at (xs @ ys) i = Some x"
  by (auto simp: js_at_conv nth_append split: if_splits)

lemma map_filter_append: "List.map_filter f (xs @ ys) = List.map_filter f xs @ List.map_filter f ys"
  by (simp add: List.map_filter_def)

lemma mismatch_mono: "mismatch ix cs e \<Longrightarrow> mismatch ix (cs @ ds) e"
  by (cases "(ix, cs, e)" rule: mismatch.cases) (auto simp: map_filter_append intro: js_at_mono)

lemma js_at_snoc: "js_at (xs @ [x]) (length xs) = Some x"
  by (simp add: js_at_append)

lemma issue_new_error:
  assumes "ps_nonDeterminismError (fst (issue ix c s)) = Some e" "ps_nonDeterminismError s \<noteq> Some e"
    and "accepted ix c"
    and "ps_callIndex s = length (List.map_filter activity_request cs)"
    and "ps_llmCallIndex s = length (List.map_filter llm_request_of cs)"
    and "ps_toolCallIndex s = length (List.map_filter tool_request cs)"
  shows "mismatch ix (cs @ [c]) e"
proof (cases c)
  case (ScheduleActivityCall t i)
  then show ?thesis
    using assms
    by (auto simp: issue_def Let_def push_command_def map_filter_append List.map_filter_simps js_at_snoc promise_of_def
        split: option.splits wf_event.splits if_splits)
next
  case (SleepCall d)
  then show ?thesis
    using assms by (auto simp: issue_def Let_def push_command_def split: option.splits)
next
  case (WaitForSignalCall n)
  then show ?thesis
    using assms by (auto simp: issue_def Let_def push_command_def split: option.splits)
next
  case (LlmCall r)
  then show ?thesis
    using assms
    by (auto simp: issue_def Let_def push_command_def map_filter_append List.map_filter_simps js_at_snoc the_hash_def
        split: option.splits wf_event.splits if_splits)
next
  case (ToolCall t a)
  then show ?thesis
    using assms
    by (auto simp: issue_def Let_def push_command_def map_filter_append List.map_filter_simps js_at_snoc the_hash_def
        split: option.splits wf_event.splits if_splits)
qed

lemma issue_all_append: "issue_all ix (xs @ ys) s = issue_all ix ys (issue_all ix xs s)"
  by (simp add: issue_all_def)

lemma error_is_mismatch:
  "list_all (accepted ix) cs \<Longrightarrow> ps_nonDeterminismError (issue_all ix cs initial_pass) = Some e \<Longrightarrow> mismatch ix cs e"
proof (induction cs arbitrary: e rule: rev_induct)
  case Nil
  then show ?case by simp
next
  case (snoc c cs)
  let ?s = "issue_all ix cs initial_pass"
  have acc: "list_all (accepted ix) cs" "accepted ix c" using snoc.prems(1) by auto
  show ?case
  proof (cases "ps_nonDeterminismError ?s = Some e")
    case True
    then show ?thesis using snoc.IH acc by (intro mismatch_mono) simp
  next
    case False
    then show ?thesis
      using snoc.prems(2) acc activities.counter_of_calls [OF acc(1), of initial_pass]
        llm_calls.counter_of_calls [OF acc(1), of initial_pass]
        tool_calls.counter_of_calls [OF acc(1), of initial_pass]
      by (intro issue_new_error [where s = ?s]) (simp_all add: issue_all_append)
  qed
qed

lemma js_at_enumerate: "js_at xs i = Some x \<Longrightarrow> (i, x) \<in> set (enumerate 0 xs)"
  by (auto simp: js_at_conv in_set_enumerate_eq split: if_splits)

lemma mismatch_is_error:
  assumes "list_all (accepted ix) cs" "well_indexed ix" "mismatch ix cs e"
  shows "ps_nonDeterminismError (issue_all ix cs initial_pass) \<noteq> None"
proof
  assume none: "ps_nonDeterminismError (issue_all ix cs initial_pass) = None"
  have a: "activity_matches ix (event x) i q" if "js_at (ri_scheduledEvents ix) i = Some x"
    "js_at (List.map_filter activity_request cs) i = Some q" for i x q
    using activities.matches_of_calls [OF assms(1,2) none, of i q] that(1) js_at_enumerate [OF that(2)]
    by (auto simp: js_at_conv simp del: activity_matches.simps llm_matches.simps tool_matches.simps split: if_splits)
  have l: "llm_matches ix (event x) i q" if "js_at (ri_llmRequestedEvents ix) i = Some x"
    "js_at (List.map_filter llm_request_of cs) i = Some q" for i x q
    using llm_calls.matches_of_calls [OF assms(1,2) none, of i q] that(1) js_at_enumerate [OF that(2)]
    by (auto simp: js_at_conv simp del: activity_matches.simps llm_matches.simps tool_matches.simps split: if_splits)
  have t: "tool_matches ix (event x) i q" if "js_at (ri_toolRequestedEvents ix) i = Some x"
    "js_at (List.map_filter tool_request cs) i = Some q" for i x q
    using tool_calls.matches_of_calls [OF assms(1,2) none, of i q] that(1) js_at_enumerate [OF that(2)]
    by (auto simp: js_at_conv simp del: activity_matches.simps llm_matches.simps tool_matches.simps split: if_splits)
  from assms(3) show False
    by (cases "(ix, cs, e)" rule: mismatch.cases) (auto dest!: a l t simp del: activity_matches.simps llm_matches.simps tool_matches.simps)
qed

text \<open>
  C14: Replay refuses to go on exactly when the running code diverges from its own history: it
  throws if and only if some call of the pass differs from the event recorded at its position
  (another activity type, another request or arguments hash), and the error it throws names such
  a call, with the recorded and the actual value.
\<close>

theorem replay_detects_divergence:
  "((\<exists>e. replay f inp h hash = Inl e) \<longleftrightarrow> (\<exists>e. mismatch (index_history hash h) (pass_calls f inp h hash) e))
   \<and> (\<forall>e. replay f inp h hash = Inl e \<longrightarrow> mismatch (index_history hash h) (pass_calls f inp h hash) e)"
proof -
  let ?ix = "index_history hash h" and ?cs = "pass_calls f inp h hash"
  have eq: "replay f inp h hash = Inl e \<longleftrightarrow> ps_nonDeterminismError (issue_all ?ix ?cs initial_pass) = Some e" for e
    unfolding pass_end_state [symmetric]
    by (auto simp: replay_pass_end finish_pass_def split: prod.splits option.splits sum.splits)
  have "replay f inp h hash = Inl e \<Longrightarrow> mismatch ?ix ?cs e" for e
    using error_is_mismatch [OF pass_calls_accepted] by (simp add: eq)
  moreover have "mismatch ?ix ?cs e \<Longrightarrow> \<exists>e. replay f inp h hash = Inl e" for e
    using mismatch_is_error [OF pass_calls_accepted well_indexed_history] by (auto simp: eq)
  ultimately show ?thesis by blast
qed

subsection \<open>What a recorded call resolves with\<close>

text \<open>
  The promise a call gets when \<open>before\<close> are the calls made before it: the outcome recorded for the
  event at its position, pending when there is no event or no outcome yet.
\<close>

fun recorded_promise :: "replay_index \<Rightarrow> wf_call list \<Rightarrow> wf_call \<Rightarrow> promise" where
  "recorded_promise ix before (ScheduleActivityCall t i) =
     (case js_at (ri_scheduledEvents ix) (length (List.map_filter activity_request before)) of
        Some e \<Rightarrow> promise_of (ri_outcomeBySeq ix (seq e)) | None \<Rightarrow> PPending)"
| "recorded_promise ix before (SleepCall d) =
     (case js_at (ri_timerEvents ix) (length (List.map_filter timer_request before)) of
        Some e \<Rightarrow> promise_of (ri_firedTimerSeqs ix (seq e)) | None \<Rightarrow> PPending)"
| "recorded_promise ix before (LlmCall r) =
     (case js_at (ri_llmRequestedEvents ix) (length (List.map_filter llm_request_of before)) of
        Some e \<Rightarrow> promise_of (ri_llmOutcomeBySeq ix (seq e)) | None \<Rightarrow> PPending)"
| "recorded_promise ix before (ToolCall t a) =
     (case js_at (ri_toolRequestedEvents ix) (length (List.map_filter tool_request before)) of
        Some e \<Rightarrow> promise_of (ri_toolOutcomeBySeq ix (seq e)) | None \<Rightarrow> PPending)"
| "recorded_promise ix before (WaitForSignalCall n) =
     (case js_at (ri_signals ix n) (length (filter (\<lambda>c. c = WaitForSignalCall n) before)) of
        Some v \<Rightarrow> PSettled (Inr v) | None \<Rightarrow> PPending)"

fun recorded_promises :: "replay_index \<Rightarrow> wf_call list \<Rightarrow> wf_call list \<Rightarrow> promise list" where
  "recorded_promises ix before [] = []"
| "recorded_promises ix before (c # cs) = recorded_promise ix before c # recorded_promises ix (before @ [c]) cs"

lemma recorded_promises_append:
  "recorded_promises ix before (cs @ ds) = recorded_promises ix before cs @ recorded_promises ix (before @ cs) ds"
  by (induction cs arbitrary: before) auto

lemma isScheduled_ex:
  "isActivityScheduled e \<Longrightarrow> \<exists>t i. event e = ActivityScheduled t i"
  "isLlmRequested e \<Longrightarrow> \<exists>i h st rq m. event e = LLM_REQUESTED i h st rq m"
  "isToolRequested e \<Longrightarrow> \<exists>i t a h m. event e = TOOL_REQUESTED i t a h m"
  by (auto split: wf_event.splits)

lemma well_indexed_ex:
  assumes "well_indexed ix"
  shows "n < length (ri_scheduledEvents ix) \<Longrightarrow> \<exists>t i. event (ri_scheduledEvents ix ! n) = ActivityScheduled t i"
    and "n < length (ri_llmRequestedEvents ix) \<Longrightarrow>
      \<exists>i h st rq m. event (ri_llmRequestedEvents ix ! n) = LLM_REQUESTED i h st rq m"
    and "n < length (ri_toolRequestedEvents ix) \<Longrightarrow>
      \<exists>i t a h m. event (ri_toolRequestedEvents ix ! n) = TOOL_REQUESTED i t a h m"
  using well_indexed_nth [OF assms] by (blast intro: isScheduled_ex)+

lemma initial_signal_counter [simp]: "ps_signalCallIndex initial_pass n = 0"
  by (simp add: initial_pass_def)

lemma issue_signal_counter:
  "ps_signalCallIndex (fst (issue ix c s)) n = ps_signalCallIndex s n + (if c = WaitForSignalCall n then 1 else 0)"
  by (cases c)
     (auto simp: issue_def Let_def push_command_def split: option.splits wf_event.splits sum.splits)

lemma issue_all_signal_counter:
  "ps_signalCallIndex (issue_all ix cs s) n = ps_signalCallIndex s n + length (filter (\<lambda>c. c = WaitForSignalCall n) cs)"
  by (induction cs arbitrary: s) (simp_all add: issue_signal_counter)

lemma issue_promise:
  assumes acc: "list_all (accepted ix) cs" "accepted ix c" and "well_indexed ix"
    and ok: "ps_nonDeterminismError (issue_all ix (cs @ [c]) initial_pass) = None"
  shows "ps_promises (issue_all ix (cs @ [c]) initial_pass)
       = ps_promises (issue_all ix cs initial_pass) @ [recorded_promise ix cs c]"
proof -
  let ?s = "issue_all ix cs initial_pass"
  note counters = activities.counter_of_calls [OF acc(1), of initial_pass] timers.counter_of_calls [OF acc(1), of initial_pass]
    llm_calls.counter_of_calls [OF acc(1), of initial_pass] tool_calls.counter_of_calls [OF acc(1), of initial_pass]
    issue_all_signal_counter [of ix cs initial_pass]
  have "ps_nonDeterminismError (fst (issue ix c ?s)) = None" using ok by (simp add: issue_all_append)
  with counters acc(2) well_indexed_ex [OF assms(3)] show ?thesis
    by (cases c)
       (force simp: issue_all_append issue_def Let_def push_command_def promise_of_def js_at_conv
         split: option.splits if_splits)+
qed

lemma promises_of_calls:
  assumes "list_all (accepted ix) cs" "well_indexed ix" "ps_nonDeterminismError (issue_all ix cs initial_pass) = None"
  shows "ps_promises (issue_all ix cs initial_pass) = recorded_promises ix [] cs"
  using assms
proof (induction cs rule: rev_induct)
  case (snoc c cs)
  have "ps_nonDeterminismError (issue_all ix cs initial_pass) = None"
    using snoc.prems(3) issue_all_error_kept [of "issue_all ix cs initial_pass" ix "[c]"]
    by (fastforce simp: issue_all_append)
  with snoc show ?case
    by (simp add: issue_promise recorded_promises_append)
qed simp

text \<open>The outcome maps hold the last recorded outcome.\<close>

lemma outcome_map: "foldl outcome_step m h n = (if act_outcomes n h = [] then m n else Some (last (act_outcomes n h)))"
  by (induction h arbitrary: m) (auto simp: outcome_step_def split: wf_event.splits)

text \<open>
  Whatever the engine decides anew, a recorded call is answered from the record: in a pass that
  does not diverge, the promise of every call of the pass, in call order, is the one history
  determines (\<open>recorded_promises\<close>), and for an activity that is the last outcome recorded for it.
\<close>

theorem replay_serves_recorded_outcomes:
  assumes "replay f inp h hash = Inr r"
  shows "ps_promises (fst (pass_end f inp h hash))
       = recorded_promises (index_history hash h) [] (pass_calls f inp h hash)
     \<and> ri_outcomeBySeq (index_history hash h) n
       = (if act_outcomes n h = [] then None else Some (last (act_outcomes n h)))"
  using promises_of_calls [OF pass_calls_accepted well_indexed_history] replay_Inr(1) [OF assms]
  by (simp add: pass_end_state) (simp add: index_history_def outcome_map)

subsection \<open>Witnesses\<close>

text \<open>Reserve, then charge: the second activity is asked for once the first has an outcome.\<close>

definition two_steps :: workflow_fn where
  "two_steps inp =
     await_call (ScheduleActivityCall ''reserve'' inp) (\<lambda>r1.
     await_call (ScheduleActivityCall ''charge'' JNull) (\<lambda>r2. Ret r2))"

definition two_steps_log :: "stored_event list" where
  "two_steps_log =
     [\<lparr>seq = 1, event = WorkflowStarted ''two'' JNull\<rparr>,
      \<lparr>seq = 2, event = ActivityScheduled ''reserve'' JNull\<rparr>,
      \<lparr>seq = 3, event = ActivityCompleted 2 (JStr ''ok'')\<rparr>]"

lemmas replay_eval = replay_def two_steps_def drain_await_call index_history_def
  issue_def Let_def push_command_def promise_of_def MAX_DRAIN_TICKS_def initial_pass_def finish_pass_def
  outcome_step_def llm_outcome_step_def tool_outcome_step_def fired_step_def List.map_filter_simps

lemma two_steps_replay:
  "replay two_steps JNull two_steps_log (Some id) = Inr
     \<lparr>rr_status = RpRUNNING, rr_result = JUndef, rr_error = None,
      rr_commands = [ScheduleActivity ''charge'' JNull], rr_pendingLlmRequests = []\<rparr>"
  by (simp add: replay_eval two_steps_log_def)

theorem running_pass_commands_witness:
  "[ScheduleActivity ''charge'' JNull]
     = map (\<lambda>(t, i). ScheduleActivity t i) (drop 1 (List.map_filter activity_request
         (pass_calls two_steps JNull two_steps_log (Some id))))"
  using conjunct1 [OF running_pass_commands [OF two_steps_replay]] by (simp add: two_steps_log_def)

text \<open>The deployed code asks for \<open>refund\<close> where history has \<open>reserve\<close>.\<close>

definition two_steps_changed :: workflow_fn where
  "two_steps_changed inp = await_call (ScheduleActivityCall ''refund'' inp) Ret"

lemma two_steps_changed_replay:
  "replay two_steps_changed JNull two_steps_log (Some id) = Inl (NonDeterminismError 0 ''reserve'' ''refund'')"
  by (simp add: replay_eval two_steps_log_def two_steps_changed_def)

theorem replay_detects_divergence_witness:
  "mismatch (index_history (Some id) two_steps_log) (pass_calls two_steps_changed JNull two_steps_log (Some id))
     (NonDeterminismError 0 ''reserve'' ''refund'')"
  using replay_detects_divergence [of two_steps_changed JNull two_steps_log "Some id"] two_steps_changed_replay
  by blast

theorem replay_serves_recorded_outcomes_witness:
  "ri_outcomeBySeq (index_history (Some id) two_steps_log) 2 = Some (Inr (JStr ''ok''))"
  using conjunct2 [OF replay_serves_recorded_outcomes [OF two_steps_replay, of 2]]
  by (simp add: two_steps_log_def)

end
