(* ===== verification/ReplayRecord.thy ===== *)
theory ReplayRecord
  imports ReplayDiverge
begin

section \<open>Recording the commands of a pass\<close>

text \<open>
  After the commands of a pass have been written to the history as events, another pass makes the
  same calls, asks for nothing, and hands out the requests of the LLM steps it just recorded: the
  fact that makes it safe to replay a workflow any number of times between two outcomes, and the
  one the LLM worker uses to recover a request the store only kept a hash of.
\<close>

fun records :: "wf_command \<Rightarrow> wf_event \<Rightarrow> bool" where
  "records (ScheduleActivity t i) ev = (case ev of ActivityScheduled t' i' \<Rightarrow> t' = t | _ \<Rightarrow> False)"
| "records (ScheduleTimer d) ev = (case ev of TimerScheduled f \<Rightarrow> True | _ \<Rightarrow> False)"
| "records (RequestLlmCall stepId r h) ev =
     (case ev of LLM_REQUESTED stepId' h' st r' m \<Rightarrow> stepId' = stepId \<and> h' = h | _ \<Rightarrow> False)"
| "records (RequestToolCall stepId t a h) ev =
     (case ev of TOOL_REQUESTED stepId' t' a' h' m \<Rightarrow> stepId' = stepId \<and> h' = h | _ \<Rightarrow> False)"
| "records _ ev = False"

fun pending_of :: "wf_command \<Rightarrow> (string \<times> llm_request) option" where
  "pending_of (RequestLlmCall stepId r h) = Some (stepId, r)"
| "pending_of _ = None"

definition kept_streams :: "replay_index \<Rightarrow> replay_index \<Rightarrow> wf_command list \<Rightarrow> bool" where
  "kept_streams ix ix' F \<longleftrightarrow>
     (\<exists>A B C D.
        ri_scheduledEvents ix' = ri_scheduledEvents ix @ A
      \<and> list_all2 (\<lambda>c e. records c (event e) \<and> ri_outcomeBySeq ix' (seq e) = None) (filter is_activity_command F) A
      \<and> ri_timerEvents ix' = ri_timerEvents ix @ B
      \<and> list_all2 (\<lambda>c e. records c (event e) \<and> ri_firedTimerSeqs ix' (seq e) = None) (filter is_timer_command F) B
      \<and> ri_llmRequestedEvents ix' = ri_llmRequestedEvents ix @ C
      \<and> list_all2 (\<lambda>c e. records c (event e) \<and> ri_llmOutcomeBySeq ix' (seq e) = None) (filter is_llm_command F) C
      \<and> ri_toolRequestedEvents ix' = ri_toolRequestedEvents ix @ D
      \<and> list_all2 (\<lambda>c e. records c (event e) \<and> ri_toolOutcomeBySeq ix' (seq e) = None) (filter is_tool_command F) D)"

definition recorded_index :: "replay_index \<Rightarrow> replay_index \<Rightarrow> wf_command list \<Rightarrow> bool" where
  "recorded_index ix ix' F \<longleftrightarrow>
     ri_hash ix' = ri_hash ix \<and> ri_signals ix' = ri_signals ix
   \<and> ri_outcomeBySeq ix' = ri_outcomeBySeq ix \<and> ri_firedTimerSeqs ix' = ri_firedTimerSeqs ix
   \<and> ri_llmOutcomeBySeq ix' = ri_llmOutcomeBySeq ix \<and> ri_toolOutcomeBySeq ix' = ri_toolOutcomeBySeq ix
   \<and> kept_streams ix ix' F"

text \<open>The state of the second pass where the first one is in state \<open>s\<close>.\<close>

definition shadow :: "pass_state \<Rightarrow> pass_state" where
  "shadow s = s\<lparr>ps_commands := [],
     ps_pendingLlmRequests := ps_pendingLlmRequests s @ List.map_filter pending_of (ps_commands s)\<rparr>"

definition in_step :: "replay_index \<Rightarrow> pass_state \<Rightarrow> bool" where
  "in_step ix s \<longleftrightarrow>
     length (filter is_activity_command (ps_commands s)) = ps_callIndex s - length (ri_scheduledEvents ix)
   \<and> length (filter is_timer_command (ps_commands s)) = ps_timerCallIndex s - length (ri_timerEvents ix)
   \<and> length (filter is_llm_command (ps_commands s)) = ps_llmCallIndex s - length (ri_llmRequestedEvents ix)
   \<and> length (filter is_tool_command (ps_commands s)) = ps_toolCallIndex s - length (ri_toolRequestedEvents ix)"

lemma next_command:
  assumes "prefix (cs @ [c]) F" "mine c"
  shows "js_at (filter mine F) (length (filter mine cs)) = Some c"
  using assms by (auto simp: prefix_def js_at_append)

lemma js_at_list_all2:
  "list_all2 P xs ys \<Longrightarrow> js_at xs k = Some x \<Longrightarrow> \<exists>y. js_at ys k = Some y \<and> P x y"
  by (auto simp: js_at_conv list_all2_conv_all_nth split: if_splits)

lemma pending_of_no_llm: "filter is_llm_command cs = [] \<Longrightarrow> List.map_filter pending_of cs = []"
proof (induction cs)
  case (Cons c cs)
  then show ?case by (cases c) (auto simp: List.map_filter_simps)
qed (simp add: List.map_filter_simps)

lemma issue_in_step:
  "in_step ix s \<Longrightarrow> issue ix c s = (t, r) \<Longrightarrow> in_step ix t"
  unfolding in_step_def
  by (blast intro: activities.keeps_step timers.keeps_step llm_calls.keeps_step tool_calls.keeps_step)

lemma next_recorded:
  assumes "rec' = rec @ A" "list_all2 P (filter mine F) A" "prefix (cs @ [c]) F" "mine c"
    and "length (filter mine cs) = k - length rec" "\<not> k < length rec"
  shows "\<exists>e. js_at rec' k = Some e \<and> P c e"
proof -
  from js_at_list_all2 [OF assms(2) next_command [where mine = mine, OF assms(3,4)]]
  obtain e where "js_at A (k - length rec) = Some e" "P c e" unfolding assms(5) by blast
  then show ?thesis using assms(6) by (intro exI [of _ e]) (simp add: assms(1) js_at_append)
qed

lemma js_at_beyond: "\<not> k < length xs \<Longrightarrow> js_at xs k = None"
  by (simp add: js_at_conv)

lemma js_at_nth: "k < length xs \<Longrightarrow> js_at xs k = Some (xs ! k)"
  by (simp add: js_at_conv)

lemma js_at_prefix: "k < length xs \<Longrightarrow> js_at (xs @ ys) k = js_at xs k"
  by (simp add: js_at_append)

lemma shadow_update:
  "shadow (s\<lparr>ps_callIndex := n\<rparr>) = (shadow s)\<lparr>ps_callIndex := n\<rparr>"
  "shadow (s\<lparr>ps_timerCallIndex := n\<rparr>) = (shadow s)\<lparr>ps_timerCallIndex := n\<rparr>"
  "shadow (s\<lparr>ps_llmCallIndex := n\<rparr>) = (shadow s)\<lparr>ps_llmCallIndex := n\<rparr>"
  "shadow (s\<lparr>ps_toolCallIndex := n\<rparr>) = (shadow s)\<lparr>ps_toolCallIndex := n\<rparr>"
  "shadow (s\<lparr>ps_signalCallIndex := g\<rparr>) = (shadow s)\<lparr>ps_signalCallIndex := g\<rparr>"
  "shadow (s\<lparr>ps_promises := q\<rparr>) = (shadow s)\<lparr>ps_promises := q\<rparr>"
  by (simp_all add: shadow_def)

lemma shadow_fields [simp]:
  "ps_callIndex (shadow s) = ps_callIndex s" "ps_timerCallIndex (shadow s) = ps_timerCallIndex s"
  "ps_llmCallIndex (shadow s) = ps_llmCallIndex s" "ps_toolCallIndex (shadow s) = ps_toolCallIndex s"
  "ps_signalCallIndex (shadow s) = ps_signalCallIndex s" "ps_promises (shadow s) = ps_promises s"
  "ps_commands (shadow s) = []" "ps_nonDeterminismError (shadow s) = ps_nonDeterminismError s"
  by (simp_all add: shadow_def)

lemma shadow_push: "pending_of c = None \<Longrightarrow> shadow (push_command c s) = shadow s"
  by (simp add: shadow_def push_command_def map_filter_append List.map_filter_simps)

lemma push_command_fields [simp]:
  "ps_promises (push_command c s) = ps_promises s"
  "ps_nonDeterminismError (push_command c s) = ps_nonDeterminismError s"
  "ps_commands (push_command c s) = ps_commands s @ [c]"
  by (simp_all add: push_command_def)

lemma issue_shadow_activity:
  assumes ix: "recorded_index ix ix' F" "well_indexed ix" and s: "in_step ix s"
    and t: "issue ix (ScheduleActivityCall ty i) s = (t, r)" "ps_nonDeterminismError t = None" "prefix (ps_commands t) F"
  shows "issue ix' (ScheduleActivityCall ty i) (shadow s) = (shadow t, r)"
proof -
  let ?k = "ps_callIndex s" and ?c = "ScheduleActivity ty i"
  obtain A where A: "ri_scheduledEvents ix' = ri_scheduledEvents ix @ A"
    "list_all2 (\<lambda>c e. records c (event e) \<and> ri_outcomeBySeq ix' (seq e) = None) (filter is_activity_command F) A"
    using ix by (auto simp: recorded_index_def kept_streams_def)
  have o: "ri_outcomeBySeq ix' = ri_outcomeBySeq ix" using ix by (simp add: recorded_index_def)
  show ?thesis
  proof (cases "?k < length (ri_scheduledEvents ix)")
    case True
    moreover from well_indexed_ex(1) [OF ix(2) True] obtain a b where
      "event (ri_scheduledEvents ix ! ?k) = ActivityScheduled a b" by blast
    ultimately show ?thesis using t o
      by (auto simp: issue_eq Let_def A(1) js_at_nth nth_append shadow_update split: if_splits)
  next
    case False
    then have "prefix (ps_commands s @ [?c]) F" using t by (auto simp: issue_eq js_at_beyond Let_def)
    from next_recorded [OF A this, of ?k] False s obtain e where
      "js_at (ri_scheduledEvents ix') ?k = Some e" "records ?c (event e)" "ri_outcomeBySeq ix' (seq e) = None"
      by (auto simp: in_step_def simp del: records.simps)
    moreover from this(2) obtain b where "event e = ActivityScheduled ty b"
      by (auto split: wf_event.splits)
    ultimately show ?thesis using t(1) False
      by (auto simp: issue_eq Let_def js_at_beyond shadow_push shadow_update promise_of_def)
  qed
qed

lemma issue_shadow_timer:
  assumes ix: "recorded_index ix ix' F" and s: "in_step ix s"
    and t: "issue ix (SleepCall d) s = (t, r)" "prefix (ps_commands t) F"
  shows "issue ix' (SleepCall d) (shadow s) = (shadow t, r)"
proof -
  let ?k = "ps_timerCallIndex s" and ?c = "ScheduleTimer d"
  obtain A where A: "ri_timerEvents ix' = ri_timerEvents ix @ A"
    "list_all2 (\<lambda>c e. records c (event e) \<and> ri_firedTimerSeqs ix' (seq e) = None) (filter is_timer_command F) A"
    using ix by (auto simp: recorded_index_def kept_streams_def)
  have o: "ri_firedTimerSeqs ix' = ri_firedTimerSeqs ix" using ix by (simp add: recorded_index_def)
  show ?thesis
  proof (cases "?k < length (ri_timerEvents ix)")
    case True
    then show ?thesis using t o
      by (auto simp: issue_eq Let_def A(1) js_at_nth nth_append shadow_update)
  next
    case False
    then have "prefix (ps_commands s @ [?c]) F" using t by (auto simp: issue_eq js_at_beyond Let_def)
    from next_recorded [OF A this, of ?k] False s obtain e where
      "js_at (ri_timerEvents ix') ?k = Some e" "ri_firedTimerSeqs ix' (seq e) = None"
      by (auto simp: in_step_def simp del: records.simps)
    then show ?thesis using t(1) False
      by (auto simp: issue_eq Let_def js_at_beyond shadow_push shadow_update promise_of_def)
  qed
qed

lemma issue_shadow_llm:
  assumes ix: "recorded_index ix ix' F" "well_indexed ix" and s: "in_step ix s" and h: "ri_hash ix = Some hf"
    and t: "issue ix (LlmCall q) s = (t, r)" "ps_nonDeterminismError t = None" "prefix (ps_commands t) F"
  shows "issue ix' (LlmCall q) (shadow s) = (shadow t, r)"
proof -
  let ?k = "ps_llmCallIndex s" and ?c = "RequestLlmCall (llm_step_id (ps_llmCallIndex s)) q (hf (canonicalLlmRequest q))"
  obtain A where A: "ri_llmRequestedEvents ix' = ri_llmRequestedEvents ix @ A"
    "list_all2 (\<lambda>c e. records c (event e) \<and> ri_llmOutcomeBySeq ix' (seq e) = None) (filter is_llm_command F) A"
    using ix by (auto simp: recorded_index_def kept_streams_def)
  have o: "ri_llmOutcomeBySeq ix' = ri_llmOutcomeBySeq ix" "ri_hash ix' = Some hf"
    using ix h by (simp_all add: recorded_index_def)
  show ?thesis
  proof (cases "?k < length (ri_llmRequestedEvents ix)")
    case True
    then have "filter is_llm_command (ps_commands s) = []" using s by (simp add: in_step_def)
    then have "List.map_filter pending_of (ps_commands s) = []" by (rule pending_of_no_llm)
    moreover from well_indexed_ex(2) [OF ix(2) True] obtain i h st rq m where
      "event (ri_llmRequestedEvents ix ! ?k) = LLM_REQUESTED i h st rq m" by blast
    ultimately show ?thesis using t o True h
      by (auto simp: issue_eq Let_def A(1) js_at_nth nth_append shadow_def split: if_splits option.splits)
  next
    case False
    then have "prefix (ps_commands s @ [?c]) F" using t h by (auto simp: issue_eq js_at_beyond Let_def)
    from next_recorded [OF A this, of ?k] False s obtain e where
      "js_at (ri_llmRequestedEvents ix') ?k = Some e" "records ?c (event e)" "ri_llmOutcomeBySeq ix' (seq e) = None"
      by (auto simp: in_step_def simp del: records.simps)
    moreover from this(2) obtain st rq m where
      "event e = LLM_REQUESTED (llm_step_id ?k) (hf (canonicalLlmRequest q)) st rq m"
      by (auto split: wf_event.splits)
    ultimately show ?thesis using t(1) False h o
      by (auto simp: issue_eq Let_def js_at_beyond shadow_def push_command_def map_filter_append List.map_filter_simps)
  qed
qed

lemma issue_shadow_tool:
  assumes ix: "recorded_index ix ix' F" "well_indexed ix" and s: "in_step ix s" and h: "ri_hash ix = Some hf"
    and t: "issue ix (ToolCall tn a) s = (t, r)" "ps_nonDeterminismError t = None" "prefix (ps_commands t) F"
  shows "issue ix' (ToolCall tn a) (shadow s) = (shadow t, r)"
proof -
  let ?k = "ps_toolCallIndex s" and ?c = "RequestToolCall (tool_step_id (ps_toolCallIndex s)) tn a (hf (canonicalToolCall tn a))"
  obtain A where A: "ri_toolRequestedEvents ix' = ri_toolRequestedEvents ix @ A"
    "list_all2 (\<lambda>c e. records c (event e) \<and> ri_toolOutcomeBySeq ix' (seq e) = None) (filter is_tool_command F) A"
    using ix by (auto simp: recorded_index_def kept_streams_def)
  have o: "ri_toolOutcomeBySeq ix' = ri_toolOutcomeBySeq ix" "ri_hash ix' = Some hf"
    using ix h by (simp_all add: recorded_index_def)
  show ?thesis
  proof (cases "?k < length (ri_toolRequestedEvents ix)")
    case True
    moreover from well_indexed_ex(3) [OF ix(2) True] obtain i n x h m where
      "event (ri_toolRequestedEvents ix ! ?k) = TOOL_REQUESTED i n x h m" by blast
    ultimately show ?thesis using t o h
      by (auto simp: issue_eq Let_def A(1) js_at_nth nth_append shadow_update split: if_splits)
  next
    case False
    then have "prefix (ps_commands s @ [?c]) F" using t h by (auto simp: issue_eq js_at_beyond Let_def)
    from next_recorded [OF A this, of ?k] False s obtain e where
      "js_at (ri_toolRequestedEvents ix') ?k = Some e" "records ?c (event e)" "ri_toolOutcomeBySeq ix' (seq e) = None"
      by (auto simp: in_step_def simp del: records.simps)
    moreover from this(2) obtain n x m where
      "event e = TOOL_REQUESTED (tool_step_id ?k) n x (hf (canonicalToolCall tn a)) m"
      by (auto split: wf_event.splits)
    ultimately show ?thesis using t(1) False h o
      by (auto simp: issue_eq Let_def js_at_beyond shadow_push shadow_update promise_of_def)
  qed
qed

lemma issue_shadow:
  assumes ix: "recorded_index ix ix' F" "well_indexed ix" and s: "in_step ix s"
    and t: "issue ix c s = (t, r)" "ps_nonDeterminismError t = None" "prefix (ps_commands t) F"
  shows "issue ix' c (shadow s) = (shadow t, r)"
proof -
  have ix': "ri_signals ix' = ri_signals ix" "ri_hash ix' = ri_hash ix" using ix by (auto simp: recorded_index_def)
  show ?thesis
  proof (cases c)
    case (ScheduleActivityCall ty i)
    then show ?thesis using issue_shadow_activity [OF ix s] t by blast
  next
    case (SleepCall d)
    then show ?thesis using issue_shadow_timer [OF ix(1) s] t by blast
  next
    case (WaitForSignalCall n)
    then show ?thesis using t(1) ix' by (auto simp: issue_eq Let_def shadow_update split: option.splits)
  next
    case (LlmCall q)
    then show ?thesis using t ix' issue_shadow_llm [OF ix s _ _ t(2,3)]
      by (cases "ri_hash ix") (auto simp: issue_def)
  next
    case (ToolCall n a)
    then show ?thesis using t ix' issue_shadow_tool [OF ix s _ _ t(2,3)]
      by (cases "ri_hash ix") (auto simp: issue_def)
  qed
qed

lemma drain_shadow_calls:
  assumes "recorded_index ix ix' F" "well_indexed ix"
    and "in_step ix s" "drain p ix n s = (t, out)" "ps_nonDeterminismError t = None" "prefix (ps_commands t) F"
  shows "drain p ix' n (shadow s) = (shadow t, out) \<and> calls_of p ix' n (shadow s) = calls_of p ix n s"
  using assms(3-6)
proof (induction p arbitrary: n s)
  case (Issue c k)
  obtain u r where u: "issue ix c s = (u, r)" by fastforce
  then have d: "drain (k r) ix n u = (t, out)" using Issue.prems(2) by simp
  then have t: "t = issue_all ix (calls_of (k r) ix n u) u" using drain_calls [of "k r" ix n u] by simp
  have "ps_nonDeterminismError u = None"
    using Issue.prems(3) issue_all_error_kept unfolding t by blast
  moreover have "prefix (ps_commands u) F"
    using issue_all_commands_grow [of ix "calls_of (k r) ix n u" u] Issue.prems(4) t
    by (metis prefixI prefix_order.trans)
  ultimately have "issue ix' c (shadow s) = (shadow u, r)"
    using issue_shadow [OF assms(1,2) Issue.prems(1) u] by blast
  moreover have "drain (k r) ix' n (shadow u) = (shadow t, out) \<and> calls_of (k r) ix' n (shadow u) = calls_of (k r) ix n u"
    by (rule Issue.IH [OF rangeI issue_in_step [OF Issue.prems(1) u] d Issue.prems(3,4)])
  ultimately show ?case using u by simp
next
  case (Await q k)
  then show ?case
    by (auto dest: Await.IH [OF rangeI] split: option.splits promise.splits nat.splits)
next
  case (Yield q)
  then show ?case by (auto split: nat.splits)
qed auto

lemmas drain_shadow = drain_shadow_calls [THEN conjunct1]

subsection \<open>The index of a history with the commands appended\<close>

lemma records_streams:
  assumes "list_all2 (\<lambda>c e. records c (event e)) F evs"
  shows "list_all2 (\<lambda>c e. records c (event e)) (filter is_activity_command F) (filter isActivityScheduled evs)"
    and "list_all2 (\<lambda>c e. records c (event e)) (filter is_timer_command F) (filter isTimerScheduled evs)"
    and "list_all2 (\<lambda>c e. records c (event e)) (filter is_llm_command F) (filter isLlmRequested evs)"
    and "list_all2 (\<lambda>c e. records c (event e)) (filter is_tool_command F) (filter isToolRequested evs)"
proof -
  have same: "is_activity_command c = isActivityScheduled e \<and> is_timer_command c = isTimerScheduled e
     \<and> is_llm_command c = isLlmRequested e \<and> is_tool_command c = isToolRequested e"
    if "records c (event e)" for c e
    using that by (cases c) (auto split: wf_event.splits)
  show "list_all2 (\<lambda>c e. records c (event e)) (filter is_activity_command F) (filter isActivityScheduled evs)"
    and "list_all2 (\<lambda>c e. records c (event e)) (filter is_timer_command F) (filter isTimerScheduled evs)"
    and "list_all2 (\<lambda>c e. records c (event e)) (filter is_llm_command F) (filter isLlmRequested evs)"
    and "list_all2 (\<lambda>c e. records c (event e)) (filter is_tool_command F) (filter isToolRequested evs)"
    using assms
    by (induction rule: list_all2_induct) (simp_all add: same del: isActivityScheduled.simps
        isTimerScheduled.simps isLlmRequested.simps isToolRequested.simps)
qed

lemma recorded_outcomes:
  assumes "records c (event e)"
  shows "outcome_step m e = m" "fired_step m e = m" "llm_outcome_step m e = m" "tool_outcome_step m e = m"
    "signal_payload n e = None"
  using assms
  by (cases c; simp add: outcome_step_def fired_step_def llm_outcome_step_def tool_outcome_step_def split: wf_event.splits)+

lemma recorded_outcomes_all:
  assumes "list_all2 (\<lambda>c e. records c (event e)) F evs"
  shows "foldl outcome_step m evs = m" "foldl fired_step m evs = m"
    "foldl llm_outcome_step m evs = m" "foldl tool_outcome_step m evs = m"
    "List.map_filter (signal_payload n) evs = []"
  using assms
  by (induction rule: list_all2_induct) (simp_all add: recorded_outcomes List.map_filter_simps del: signal_payload.simps)

lemma no_outcome_step:
  assumes "event_ref (event e) \<noteq> Some n"
  shows "outcome_step m e n = m n" "fired_step m e n = m n"
    "llm_outcome_step m e n = m n" "tool_outcome_step m e n = m n"
  using assms
  by (cases "event e"; simp add: outcome_step_def fired_step_def llm_outcome_step_def tool_outcome_step_def)+

lemma no_outcome:
  assumes "\<forall>x \<in> set h. event_ref (event x) \<noteq> Some n"
  shows "foldl outcome_step m h n = m n" "foldl fired_step m h n = m n"
    "foldl llm_outcome_step m h n = m n" "foldl tool_outcome_step m h n = m n"
  using assms by (induction h arbitrary: m) (simp_all add: no_outcome_step)

lemma recorded_index_append:
  assumes rec: "list_all2 (\<lambda>c e. records c (event e)) F evs"
    and fresh: "\<forall>e \<in> set evs. \<forall>x \<in> set h. event_ref (event x) \<noteq> Some (seq e)"
  shows "recorded_index (index_history hash h) (index_history hash (h @ evs)) F"
proof -
  note unchanged = recorded_outcomes_all [OF rec]
  have strengthen: "list_all2 (\<lambda>c e. records c (event e) \<and> P e) xs ys"
    if "list_all2 (\<lambda>c e. records c (event e)) xs ys" "set ys \<subseteq> set evs" "\<And>e. e \<in> set evs \<Longrightarrow> P e" for P xs ys
    using that by (auto simp: list_all2_conv_all_nth subset_eq)
  have "kept_streams (index_history hash h) (index_history hash (h @ evs)) F"
    unfolding kept_streams_def
    by (intro exI [of _ "filter isActivityScheduled evs"] exI [of _ "filter isTimerScheduled evs"]
         exI [of _ "filter isLlmRequested evs"] exI [of _ "filter isToolRequested evs"] conjI
         strengthen records_streams [OF rec])
       (auto simp: index_history_def unchanged no_outcome fresh simp del: isActivityScheduled.simps
         isTimerScheduled.simps isLlmRequested.simps isToolRequested.simps)
  then show ?thesis
    by (simp add: recorded_index_def index_history_def unchanged map_filter_append del: signal_payload.simps)
qed

lemma in_step_initial: "in_step ix initial_pass"
  by (simp add: in_step_def)

lemma replay_recorded:
  assumes "replay f inp h hash = Inr r" "rr_status r = RpRUNNING"
    and "list_all2 (\<lambda>c e. records c (event e)) (rr_commands r) evs"
    and "\<forall>e \<in> set evs. \<forall>x \<in> set h. event_ref (event x) \<noteq> Some (seq e)"
  shows "replay f inp (h @ evs) hash = Inr
     \<lparr>rr_status = RpRUNNING, rr_result = JUndef, rr_error = None, rr_commands = [],
      rr_pendingLlmRequests = rr_pendingLlmRequests r @ List.map_filter pending_of (rr_commands r)\<rparr>"
proof -
  obtain t where t: "pass_end f inp h hash = (t, None)"
    using replay_Inr(2) [OF assms(1)] assms(2) by (cases "pass_end f inp h hash") auto
  note facts = replay_Inr [OF assms(1), unfolded t, simplified]
  have "shadow initial_pass = initial_pass" by (simp add: shadow_def List.map_filter_simps initial_pass_def)
  then have "pass_end f inp (h @ evs) hash = (shadow t, None)"
    using drain_shadow [OF recorded_index_append [OF assms(3,4)] well_indexed_history in_step_initial
        t [unfolded pass_end_def]] facts assms(2)
    by (simp add: pass_end_def)
  then show ?thesis
    using facts assms(2) by (simp add: replay_pass_end finish_pass_def) (simp add: shadow_def)
qed

text \<open>
  C12: Replay is idempotent. When a pass leaves the workflow running and each of its commands has
  been written to the history as the event that records it (under sequence numbers nothing refers
  to yet), the next pass finds nothing new to ask for: it leaves the workflow running with no
  command, and it hands out, besides the requests already in flight, the request of every LLM step
  just recorded, under its step id.
\<close>

theorem replay_idempotent:
  assumes "replay f inp h hash = Inr r" "rr_status r = RpRUNNING"
    and "list_all2 (\<lambda>c e. records c (event e)) (rr_commands r) evs"
    and "\<forall>e \<in> set evs. \<forall>x \<in> set h. event_ref (event x) \<noteq> Some (seq e)"
  shows "replay f inp (h @ evs) hash = Inr
     \<lparr>rr_status = RpRUNNING, rr_result = JUndef, rr_error = None, rr_commands = [],
      rr_pendingLlmRequests = rr_pendingLlmRequests r @ List.map_filter pending_of (rr_commands r)\<rparr>"
  using assms by (rule replay_recorded)

theorem replay_idempotent_witness:
  "replay two_steps JNull (two_steps_log @ [\<lparr>seq = 4, event = ActivityScheduled ''charge'' JNull\<rparr>]) (Some id)
     = Inr \<lparr>rr_status = RpRUNNING, rr_result = JUndef, rr_error = None, rr_commands = [], rr_pendingLlmRequests = []\<rparr>"
  using replay_idempotent [OF two_steps_replay, of "[\<lparr>seq = 4, event = ActivityScheduled ''charge'' JNull\<rparr>]"]
  by (simp add: two_steps_log_def List.map_filter_simps)

end
