(* ===== verification/ReplayBound.thy ===== *)
theory ReplayBound
  imports ReplayRecord
begin

section \<open>The bound on the drain loop\<close>

text \<open>
  The loop that lets the workflow function run is bounded by \<open>MAX_DRAIN_TICKS\<close>. A bound that is
  reached is not reported: the pass looks like one that waits for something.
\<close>

text \<open>More ticks never change what a pass that settled does.\<close>

lemma drain_more_ticks:
  "drain p ix n s = (t, Some out) \<Longrightarrow> n \<le> m \<Longrightarrow> drain p ix m s = (t, Some out)"
proof (induction p arbitrary: n m s)
  case (Issue c k)
  obtain u r where "issue ix c s = (u, r)" by fastforce
  with Issue.prems Issue.IH [OF rangeI [of k r], of n u m] show ?case by simp
next
  case (Await q k)
  from Await.prems(1) obtain r n' where r: "js_at (ps_promises s) q = Some (PSettled r)" "n = Suc n'"
    "drain (k r) ix n' s = (t, Some out)"
    by (auto split: option.splits promise.splits nat.splits)
  with Await.prems(2) obtain m' where "m = Suc m'" "n' \<le> m'" by (cases m) auto
  with Await.IH [OF rangeI [of k r] r(3)] r show ?case by simp
next
  case (Yield q)
  from Yield.prems(1) obtain n' where r: "n = Suc n'" "drain q ix n' s = (t, Some out)"
    by (auto split: nat.splits)
  with Yield.prems(2) obtain m' where "m = Suc m'" "n' \<le> m'" by (cases m) auto
  with Yield.IH [OF r(2)] show ?case by simp
qed (auto split: if_splits)

subsection \<open>A workflow of \<open>n\<close> activities in a row\<close>

primrec chain :: "nat \<Rightarrow> prog" where
  "chain 0 = Ret JNull"
| "chain (Suc n) = await_call (ScheduleActivityCall ''step'' JNull) (\<lambda>_. chain n)"

definition step_events :: "nat \<Rightarrow> stored_event list" where
  "step_events i = [\<lparr>seq = 2 * i + 1, event = ActivityScheduled ''step'' JNull\<rparr>,
                    \<lparr>seq = 2 * i + 2, event = ActivityCompleted (2 * i + 1) JNull\<rparr>]"

primrec chain_log :: "nat \<Rightarrow> stored_event list" where
  "chain_log 0 = []"
| "chain_log (Suc n) = chain_log n @ step_events n"

lemma chain_log_scheduled:
  "filter isActivityScheduled (chain_log n) = map (\<lambda>i. \<lparr>seq = 2 * i + 1, event = ActivityScheduled ''step'' JNull\<rparr>) [0..<n]"
  by (induction n) (simp_all add: step_events_def)

lemma chain_log_outcomes:
  "i < n \<Longrightarrow> foldl outcome_step Map.empty (chain_log n) (2 * i + 1) = Some (Inr JNull)"
proof (induction n)
  case (Suc n)
  then show ?case by (cases "i = n") (auto simp: step_events_def outcome_step_def)
qed simp

lemma drain_chain:
  assumes "\<And>i. i < N \<Longrightarrow> \<exists>e inp. js_at (ri_scheduledEvents ix) i = Some e
      \<and> event e = ActivityScheduled ''step'' inp \<and> ri_outcomeBySeq ix (seq e) = Some (Inr JNull)"
    and "ps_callIndex s + n = N" "ps_nonDeterminismError s = None"
  shows "\<exists>t. drain (chain n) ix ticks s = (t, if n < ticks then Some (Inr JNull) else None)
     \<and> ps_nonDeterminismError t = None \<and> ps_commands t = ps_commands s
     \<and> ps_pendingLlmRequests t = ps_pendingLlmRequests s"
  using assms(2,3)
proof (induction n arbitrary: ticks s)
  case (Suc n)
  from assms(1) [of "ps_callIndex s"] Suc.prems(1) obtain e inp where e:
    "js_at (ri_scheduledEvents ix) (ps_callIndex s) = Some e" "event e = ActivityScheduled ''step'' inp"
    "ri_outcomeBySeq ix (seq e) = Some (Inr JNull)" by auto
  let ?u = "s\<lparr>ps_callIndex := Suc (ps_callIndex s), ps_promises := ps_promises s @ [PSettled (Inr JNull)]\<rparr>"
  have u: "issue ix (ScheduleActivityCall ''step'' JNull) s = (?u, Inr (length (ps_promises s)))"
    using e by (simp add: issue_eq Let_def promise_of_def)
  show ?case
  proof (cases ticks)
    case 0
    then show ?thesis using u Suc.prems(2) by (simp add: drain_await_call js_at_snoc)
  next
    case (Suc m)
    with Suc.IH [of ?u m] Suc.prems u show ?thesis by (simp add: drain_await_call js_at_snoc)
  qed
qed simp

text \<open>
  C15: The bound of the drain loop is a bound on workflows. A workflow whose history holds the
  outcomes of its \<open>n\<close> sequential activities is completed by the next pass when \<open>n\<close> is below 1000;
  from 1000 on every pass reports it as running, with no command and no error, although nothing is
  in flight: such a workflow never ends.
\<close>

theorem drain_bound:
  "replay (\<lambda>_. chain n) inp (chain_log n) hash = Inr
     (if n < 1000
      then \<lparr>rr_status = RpCOMPLETED, rr_result = JNull, rr_error = None,
            rr_commands = [CompleteWorkflow JNull], rr_pendingLlmRequests = []\<rparr>
      else \<lparr>rr_status = RpRUNNING, rr_result = JUndef, rr_error = None,
            rr_commands = [], rr_pendingLlmRequests = []\<rparr>)"
proof -
  let ?ix = "index_history hash (chain_log n)"
  have "\<exists>e inp. js_at (ri_scheduledEvents ?ix) i = Some e \<and> event e = ActivityScheduled ''step'' inp
      \<and> ri_outcomeBySeq ?ix (seq e) = Some (Inr JNull)" if "i < n" for i
    using that chain_log_outcomes [OF that]
    by (auto simp: index_history_def chain_log_scheduled js_at_conv)
  then obtain t where
    "drain (chain n) ?ix MAX_DRAIN_TICKS initial_pass = (t, if n < MAX_DRAIN_TICKS then Some (Inr JNull) else None)"
    "ps_nonDeterminismError t = None" "ps_commands t = []" "ps_pendingLlmRequests t = []"
    using drain_chain [where ix = ?ix and N = n and n = n and ticks = MAX_DRAIN_TICKS and s = initial_pass] by auto
  then show ?thesis by (simp add: replay_def finish_pass_def MAX_DRAIN_TICKS_def)
qed

end
