(* ===== verification/ReplayStable.thy ===== *)
theory ReplayStable
  imports ReplayRecord
begin

section \<open>Replays of a growing history\<close>

text \<open>
  A history grows by the commands a pass asked for, by outcomes of recorded calls and by signals. A
  pass over the grown history repeats the calls of the earlier pass, one by one, with at least as many
  of them settled, and then goes on: nothing recorded can differ from what the code asks for.
\<close>

subsection \<open>More answers\<close>

definition answered_more :: "replay_index \<Rightarrow> replay_index \<Rightarrow> bool" where
  "answered_more ix ix' \<longleftrightarrow>
     ri_scheduledEvents ix' = ri_scheduledEvents ix \<and> ri_timerEvents ix' = ri_timerEvents ix
   \<and> ri_llmRequestedEvents ix' = ri_llmRequestedEvents ix \<and> ri_toolRequestedEvents ix' = ri_toolRequestedEvents ix
   \<and> ri_hash ix' = ri_hash ix \<and> (\<forall>n. prefix (ri_signals ix n) (ri_signals ix' n))
   \<and> ri_outcomeBySeq ix \<subseteq>\<^sub>m ri_outcomeBySeq ix' \<and> ri_firedTimerSeqs ix \<subseteq>\<^sub>m ri_firedTimerSeqs ix'
   \<and> ri_llmOutcomeBySeq ix \<subseteq>\<^sub>m ri_llmOutcomeBySeq ix' \<and> ri_toolOutcomeBySeq ix \<subseteq>\<^sub>m ri_toolOutcomeBySeq ix'"

definition settles :: "promise \<Rightarrow> promise \<Rightarrow> bool" where
  "settles p q \<longleftrightarrow> p = PPending \<or> q = p"

text \<open>The state of a pass with more answers after the same calls.\<close>

definition ahead :: "pass_state \<Rightarrow> pass_state \<Rightarrow> bool" where
  "ahead s s' \<longleftrightarrow>
     ps_callIndex s' = ps_callIndex s \<and> ps_timerCallIndex s' = ps_timerCallIndex s
   \<and> ps_llmCallIndex s' = ps_llmCallIndex s \<and> ps_toolCallIndex s' = ps_toolCallIndex s
   \<and> ps_signalCallIndex s' = ps_signalCallIndex s \<and> ps_commands s' = ps_commands s
   \<and> ps_nonDeterminismError s' = ps_nonDeterminismError s \<and> list_all2 settles (ps_promises s) (ps_promises s')"

lemma settles_refl [simp]: "settles p p"
  by (simp add: settles_def)

lemma settles_pending [simp]: "settles PPending p"
  by (simp add: settles_def)

lemma ahead_refl: "ahead s s"
  by (simp add: ahead_def list_all2_refl)

lemma promise_of_more: "m \<subseteq>\<^sub>m m' \<Longrightarrow> settles (promise_of (m n)) (promise_of (m' n))"
  by (auto simp: settles_def promise_of_def map_le_def dom_def split: option.splits)

lemma js_at_prefix_more: "prefix xs ys \<Longrightarrow> js_at xs i = Some x \<Longrightarrow> js_at ys i = Some x"
  by (auto simp: prefix_def intro: js_at_mono)

lemma js_at_settled:
  assumes "list_all2 settles ps qs" "js_at ps i = Some (PSettled r)"
  shows "js_at qs i = Some (PSettled r)"
  using js_at_list_all2 [OF assms] by (auto simp: settles_def)

text \<open>The methods of \<open>ctx\<close>, on states one of which is ahead.\<close>

definition both_ahead :: "pass_state \<times> promise \<Rightarrow> pass_state \<times> promise \<Rightarrow> bool" where
  "both_ahead x y \<longleftrightarrow> ahead (fst x) (fst y) \<and> settles (snd x) (snd y)"

lemma activity_ahead:
  assumes "answered_more ix ix'" "ahead s s'"
  shows "both_ahead (ctx_scheduleActivity ix ty i s) (ctx_scheduleActivity ix' ty i s')"
proof (cases "js_at (ri_scheduledEvents ix) (ps_callIndex s)")
  case (Some e)
  with assms show ?thesis
    by (cases "event e") (simp_all add: answered_more_def ahead_def both_ahead_def promise_of_more Let_def)
qed (use assms in \<open>simp add: answered_more_def ahead_def both_ahead_def push_command_def Let_def\<close>)

lemma sleep_ahead:
  assumes "answered_more ix ix'" "ahead s s'"
  shows "both_ahead (ctx_sleep ix d s) (ctx_sleep ix' d s')"
  using assms by (cases "js_at (ri_timerEvents ix) (ps_timerCallIndex s)")
    (simp_all add: answered_more_def ahead_def both_ahead_def promise_of_more push_command_def Let_def)

lemma llm_ahead:
  assumes "answered_more ix ix'" "ahead s s'"
  shows "both_ahead (ctx_llmCall ix h q s) (ctx_llmCall ix' h q s')"
proof (cases "js_at (ri_llmRequestedEvents ix) (ps_llmCallIndex s)")
  case (Some e)
  have "ri_llmOutcomeBySeq ix n = Some v \<Longrightarrow> ri_llmOutcomeBySeq ix' n = Some v" for n v
    using assms(1) by (auto simp: answered_more_def map_le_def dom_def)
  with Some assms show ?thesis
    by (cases "event e") (auto simp: answered_more_def ahead_def both_ahead_def Let_def split: option.split)
qed (use assms in \<open>simp add: answered_more_def ahead_def both_ahead_def push_command_def Let_def\<close>)

lemma tool_ahead:
  assumes "answered_more ix ix'" "ahead s s'"
  shows "both_ahead (ctx_toolCall ix h tn a s) (ctx_toolCall ix' h tn a s')"
proof (cases "js_at (ri_toolRequestedEvents ix) (ps_toolCallIndex s)")
  case (Some e)
  with assms show ?thesis
    by (cases "event e") (simp_all add: answered_more_def ahead_def both_ahead_def promise_of_more Let_def)
qed (use assms in \<open>simp add: answered_more_def ahead_def both_ahead_def push_command_def Let_def\<close>)

lemma signal_ahead:
  assumes "answered_more ix ix'" "ahead s s'"
  shows "both_ahead (ctx_waitForSignal ix n s) (ctx_waitForSignal ix' n s')"
proof (cases "js_at (ri_signals ix n) (ps_signalCallIndex s n)")
  case (Some v)
  have "prefix (ri_signals ix n) (ri_signals ix' n)" using assms(1) by (simp add: answered_more_def)
  from js_at_prefix_more [OF this Some] Some show ?thesis using assms(2) by (simp add: ahead_def both_ahead_def Let_def)
next
  case None
  with assms(2) show ?thesis by (simp add: ahead_def both_ahead_def Let_def split: option.split)
qed

lemma push_promise_ahead:
  assumes "both_ahead x y"
  shows "ahead (set_outcome_promise x) (set_outcome_promise y)"
  using assms by (cases x; cases y) (simp add: both_ahead_def ahead_def list_all2_appendI)

lemma issue_no_hash:
  "ri_hash ix = None \<Longrightarrow> issue ix (LlmCall q) s = (s, Inl (hash_required ''llmCall''))"
  "ri_hash ix = None \<Longrightarrow> issue ix (ToolCall n a) s = (s, Inl (hash_required ''toolCall''))"
  by (simp_all add: issue_def)

lemma issue_ahead:
  assumes ix: "answered_more ix ix'" and s: "ahead s s'" and t: "issue ix c s = (t, r)"
  shows "\<exists>t'. issue ix' c s' = (t', r) \<and> ahead t t'"
proof -
  have len: "length (ps_promises s') = length (ps_promises s)" using s by (auto simp: ahead_def dest: list_all2_lengthD)
  have hash: "ri_hash ix' = ri_hash ix" using ix by (simp add: answered_more_def)
  note step = push_promise_ahead [OF activity_ahead [OF ix s]] push_promise_ahead [OF sleep_ahead [OF ix s]]
    push_promise_ahead [OF signal_ahead [OF ix s]] push_promise_ahead [OF llm_ahead [OF ix s]]
    push_promise_ahead [OF tool_ahead [OF ix s]]
  note no_unfold = ctx_scheduleActivity.simps ctx_sleep.simps ctx_waitForSignal.simps ctx_llmCall.simps ctx_toolCall.simps
    set_outcome_promise.simps
  show ?thesis
  proof (cases c)
    case (LlmCall q)
    then show ?thesis using t step(4) len hash s
      by (cases "ri_hash ix") (auto simp: issue_eq(4) issue_no_hash(1) simp del: no_unfold)
  next
    case (ToolCall n a)
    then show ?thesis using t step(5) len hash s
      by (cases "ri_hash ix") (auto simp: issue_eq(5) issue_no_hash(2) simp del: no_unfold)
  qed (use t step(1-3) len in \<open>auto simp: issue_eq(1-3) simp del: no_unfold\<close>)
qed

lemma drain_ahead:
  assumes "answered_more ix ix'" "ahead s s'" "drain p ix n s = (t, out)"
  shows "\<exists>u cs. ahead t u \<and> fst (drain p ix' n s') = issue_all ix' cs u \<and> list_all (accepted ix') cs
    \<and> calls_of p ix' n s' = calls_of p ix n s @ cs \<and> (out \<noteq> None \<longrightarrow> snd (drain p ix' n s') = out \<and> cs = [])"
  using assms(2,3)
proof (induction p arbitrary: n s s')
  case (Ret v)
  then show ?case by (intro exI [of _ s'] exI [of _ "[]"]) auto
next
  case (Throw m)
  then show ?case by (intro exI [of _ s'] exI [of _ "[]"]) auto
next
  case (Issue c k)
  obtain u r where u: "issue ix c s = (u, r)" by fastforce
  from issue_ahead [OF assms(1) Issue.prems(1) u] obtain u' where u': "issue ix' c s' = (u', r)" "ahead u u'" by blast
  have "drain (k r) ix n u = (t, out)" using Issue.prems(2) u by simp
  from Issue.IH [OF rangeI u'(2) this] u u'(1) show ?case by auto
next
  case (Await q k)
  show ?case
  proof (cases "\<exists>r. js_at (ps_promises s) q = Some (PSettled r)")
    case True
    then obtain r where r: "js_at (ps_promises s) q = Some (PSettled r)" by blast
    have "list_all2 settles (ps_promises s) (ps_promises s')" using Await.prems(1) by (simp add: ahead_def)
    from js_at_settled [OF this r] have r': "js_at (ps_promises s') q = Some (PSettled r)" .
    show ?thesis
    proof (cases n)
      case 0
      then show ?thesis using Await.prems r r' by (intro exI [of _ s'] exI [of _ "[]"]) auto
    next
      case (Suc m)
      then show ?thesis using Await.IH [OF rangeI Await.prems(1)] Await.prems(2) r r' by auto
    qed
  next
    case False
    then have none: "t = s" "out = None" "calls_of (Await q k) ix n s = []"
      using Await.prems(2) by (auto split: option.splits promise.splits)
    have "list_all (accepted ix') (calls_of (Await q k) ix' n s')" by (auto simp: list_all_iff intro: calls_accepted)
    with none Await.prems(1) show ?thesis
      by (intro exI [of _ s'] exI [of _ "calls_of (Await q k) ix' n s'"]) (simp del: drain.simps calls_of.simps add: drain_calls)
  qed
next
  case (Yield q)
  show ?case
  proof (cases n)
    case 0
    then show ?thesis using Yield.prems by (intro exI [of _ s'] exI [of _ "[]"]) auto
  next
    case (Suc m)
    then show ?thesis using Yield.IH [OF Yield.prems(1)] Yield.prems(2) by auto
  qed
qed

subsection \<open>Everything recorded was asked for\<close>

text \<open>A pass has caught up with the record when it made every recorded call: later calls are new ones.\<close>

definition caught_up :: "replay_index \<Rightarrow> pass_state \<Rightarrow> bool" where
  "caught_up ix s \<longleftrightarrow>
     length (ri_scheduledEvents ix) \<le> ps_callIndex s \<and> length (ri_timerEvents ix) \<le> ps_timerCallIndex s
   \<and> length (ri_llmRequestedEvents ix) \<le> ps_llmCallIndex s \<and> length (ri_toolRequestedEvents ix) \<le> ps_toolCallIndex s"

lemma issue_caught_up:
  assumes "caught_up ix s"
  shows "caught_up ix (fst (issue ix c s))" "ps_nonDeterminismError (fst (issue ix c s)) = ps_nonDeterminismError s"
proof -
  have none: "js_at (ri_scheduledEvents ix) (ps_callIndex s) = None" "js_at (ri_timerEvents ix) (ps_timerCallIndex s) = None"
    "js_at (ri_llmRequestedEvents ix) (ps_llmCallIndex s) = None" "js_at (ri_toolRequestedEvents ix) (ps_toolCallIndex s) = None"
    using assms by (simp_all add: caught_up_def js_at_None_iff)
  show "caught_up ix (fst (issue ix c s))" "ps_nonDeterminismError (fst (issue ix c s)) = ps_nonDeterminismError s"
    using assms none by (cases c; cases "ri_hash ix";
      simp add: issue_eq issue_no_hash caught_up_def push_command_def Let_def split: option.split)+
qed

lemma issue_all_caught_up:
  "caught_up ix s \<Longrightarrow> caught_up ix (issue_all ix cs s) \<and> ps_nonDeterminismError (issue_all ix cs s) = ps_nonDeterminismError s"
  by (induction cs arbitrary: s) (simp_all add: issue_caught_up)

lemma caught_up_ahead: "answered_more ix ix' \<Longrightarrow> ahead s u \<Longrightarrow> caught_up ix s \<Longrightarrow> caught_up ix' u"
  by (simp add: answered_more_def ahead_def caught_up_def)

text \<open>A pass over a history it has caught up with.\<close>

definition settled_pass :: "workflow_fn \<Rightarrow> jsval \<Rightarrow> stored_event list \<Rightarrow> (string \<Rightarrow> string) option \<Rightarrow> bool" where
  "settled_pass f inp h hash \<longleftrightarrow> ps_nonDeterminismError (fst (pass_end f inp h hash)) = None
     \<and> caught_up (index_history hash h) (fst (pass_end f inp h hash))"

lemma settled_pass_replay: "settled_pass f inp h hash \<Longrightarrow> \<exists>r. replay f inp h hash = Inr r"
  by (auto simp: settled_pass_def replay_pass_end finish_pass_def split: prod.splits option.splits sum.splits)

lemma drain_in_step: "in_step ix s \<Longrightarrow> in_step ix (fst (drain p ix n s))"
proof -
  have "in_step ix s \<Longrightarrow> in_step ix (issue_all ix cs s)" for cs
    by (induction cs arbitrary: s) (auto intro: issue_in_step [OF _ prod.collapse [symmetric]])
  then show "in_step ix s \<Longrightarrow> in_step ix (fst (drain p ix n s))" by (simp add: drain_calls)
qed

text \<open>More answers: the pass repeats its calls, and what it ended with.\<close>

lemma more_answers:
  assumes more: "answered_more (index_history hash h) (index_history hash h')" and s: "settled_pass f inp h hash"
  shows "settled_pass f inp h' hash" "prefix (pass_calls f inp h hash) (pass_calls f inp h' hash)"
    "snd (pass_end f inp h hash) \<noteq> None \<Longrightarrow> snd (pass_end f inp h' hash) = snd (pass_end f inp h hash)"
proof -
  obtain t out where t: "pass_end f inp h hash = (t, out)" by fastforce
  from drain_ahead [OF more ahead_refl t [unfolded pass_end_def]] obtain u cs where
    u: "ahead t u" "fst (pass_end f inp h' hash) = issue_all (index_history hash h') cs u"
      "pass_calls f inp h' hash = pass_calls f inp h hash @ cs"
      "out \<noteq> None \<longrightarrow> snd (pass_end f inp h' hash) = out"
    unfolding pass_end_def pass_calls_def by blast
  have "caught_up (index_history hash h') u" "ps_nonDeterminismError u = None"
    using s t caught_up_ahead [OF more u(1)] u(1) by (simp_all add: settled_pass_def ahead_def)
  with issue_all_caught_up u(2) show "settled_pass f inp h' hash" by (simp add: settled_pass_def)
  show "prefix (pass_calls f inp h hash) (pass_calls f inp h' hash)" by (simp add: u(3))
  show "snd (pass_end f inp h hash) \<noteq> None \<Longrightarrow> snd (pass_end f inp h' hash) = snd (pass_end f inp h hash)"
    using u(4) t by simp
qed

text \<open>The commands of a running pass recorded: the pass over them ends where it ended.\<close>

lemma commands_recorded:
  assumes s: "settled_pass f inp h hash" and run: "snd (pass_end f inp h hash) = None"
    and rec: "list_all2 (\<lambda>c e. records c (event e)) (ps_commands (fst (pass_end f inp h hash))) evs"
    and fresh: "\<forall>e \<in> set evs. \<forall>x \<in> set h. event_ref (event x) \<noteq> Some (seq e)"
  shows "settled_pass f inp (h @ evs) hash" "snd (pass_end f inp (h @ evs) hash) = None"
    "pass_calls f inp (h @ evs) hash = pass_calls f inp h hash"
proof -
  let ?ix = "index_history hash h" and ?ix' = "index_history hash (h @ evs)"
  obtain t where t: "pass_end f inp h hash = (t, None)" using run by (cases "pass_end f inp h hash") simp
  have ok: "ps_nonDeterminismError t = None" "caught_up ?ix t" using s t by (simp_all add: settled_pass_def)
  have "shadow initial_pass = initial_pass" by (simp add: shadow_def List.map_filter_simps initial_pass_def)
  then have end': "pass_end f inp (h @ evs) hash = (shadow t, None)" "pass_calls f inp (h @ evs) hash = pass_calls f inp h hash"
    using drain_shadow_calls [OF recorded_index_append [OF rec fresh] well_indexed_history in_step_initial
        t [unfolded pass_end_def] ok(1)] t by (simp_all add: pass_end_def pass_calls_def)
  have "in_step ?ix (fst (pass_end f inp h hash))" unfolding pass_end_def by (rule drain_in_step [OF in_step_initial])
  then have "in_step ?ix t" by (simp add: t)
  moreover have "length (filter isActivityScheduled evs) = length (filter is_activity_command (ps_commands t))"
    "length (filter isTimerScheduled evs) = length (filter is_timer_command (ps_commands t))"
    "length (filter isLlmRequested evs) = length (filter is_llm_command (ps_commands t))"
    "length (filter isToolRequested evs) = length (filter is_tool_command (ps_commands t))"
    using records_streams [OF rec] t by (auto dest: list_all2_lengthD)
  ultimately have "caught_up ?ix' (shadow t)" using ok(2) by (simp add: caught_up_def in_step_def)
  then show "settled_pass f inp (h @ evs) hash" "snd (pass_end f inp (h @ evs) hash) = None"
    "pass_calls f inp (h @ evs) hash = pass_calls f inp h hash"
    using ok(1) by (simp_all add: settled_pass_def end' t)
qed

subsection \<open>More requests without an outcome\<close>

text \<open>
  Requests that have no outcome change nothing for the code: a call that is recorded but not answered
  waits like one that is not recorded.
\<close>

definition asked_more :: "replay_index \<Rightarrow> replay_index \<Rightarrow> bool" where
  "asked_more ix ix' \<longleftrightarrow> ri_hash ix' = ri_hash ix \<and> ri_signals ix' = ri_signals ix
   \<and> ri_outcomeBySeq ix' = ri_outcomeBySeq ix \<and> ri_firedTimerSeqs ix' = ri_firedTimerSeqs ix
   \<and> ri_llmOutcomeBySeq ix' = ri_llmOutcomeBySeq ix \<and> ri_toolOutcomeBySeq ix' = ri_toolOutcomeBySeq ix
   \<and> (\<exists>A. ri_scheduledEvents ix' = ri_scheduledEvents ix @ A \<and> (\<forall>e \<in> set A. ri_outcomeBySeq ix (seq e) = None))
   \<and> (\<exists>A. ri_timerEvents ix' = ri_timerEvents ix @ A \<and> (\<forall>e \<in> set A. ri_firedTimerSeqs ix (seq e) = None))
   \<and> (\<exists>A. ri_llmRequestedEvents ix' = ri_llmRequestedEvents ix @ A \<and> (\<forall>e \<in> set A. ri_llmOutcomeBySeq ix (seq e) = None))
   \<and> (\<exists>A. ri_toolRequestedEvents ix' = ri_toolRequestedEvents ix @ A \<and> (\<forall>e \<in> set A. ri_toolOutcomeBySeq ix (seq e) = None))"

definition alike :: "pass_state \<Rightarrow> pass_state \<Rightarrow> bool" where
  "alike s s' \<longleftrightarrow> ps_callIndex s' = ps_callIndex s \<and> ps_timerCallIndex s' = ps_timerCallIndex s
   \<and> ps_llmCallIndex s' = ps_llmCallIndex s \<and> ps_toolCallIndex s' = ps_toolCallIndex s
   \<and> ps_signalCallIndex s' = ps_signalCallIndex s \<and> ps_promises s' = ps_promises s"

lemma js_at_extended:
  "js_at xs k = None \<Longrightarrow> js_at (xs @ ys) k = None \<or> (\<exists>e \<in> set ys. js_at (xs @ ys) k = Some e)"
  by (auto simp: js_at_conv nth_append)

lemma activity_alike:
  assumes "ri_scheduledEvents ix' = ri_scheduledEvents ix @ A" "\<forall>e \<in> set A. ri_outcomeBySeq ix (seq e) = None"
    and "ri_outcomeBySeq ix' = ri_outcomeBySeq ix" "alike s s'"
  shows "alike (set_outcome_promise (ctx_scheduleActivity ix ty i s)) (set_outcome_promise (ctx_scheduleActivity ix' ty i s'))"
proof (cases "js_at (ri_scheduledEvents ix) (ps_callIndex s)")
  case None
  from js_at_extended [OF this, of A] None assms show ?thesis
    by (elim disjE bexE; simp add: alike_def push_command_def Let_def promise_of_def split: wf_event.split)
next
  case (Some e)
  with assms js_at_mono [OF Some, of A] show ?thesis by (cases "event e") (simp_all add: alike_def Let_def)
qed

lemma sleep_alike:
  assumes "ri_timerEvents ix' = ri_timerEvents ix @ A" "\<forall>e \<in> set A. ri_firedTimerSeqs ix (seq e) = None"
    and "ri_firedTimerSeqs ix' = ri_firedTimerSeqs ix" "alike s s'"
  shows "alike (set_outcome_promise (ctx_sleep ix dur s)) (set_outcome_promise (ctx_sleep ix' dur s'))"
proof (cases "js_at (ri_timerEvents ix) (ps_timerCallIndex s)")
  case None
  from js_at_extended [OF this, of A] None assms show ?thesis
    by (elim disjE bexE; simp add: alike_def push_command_def Let_def promise_of_def)
next
  case (Some e)
  with assms js_at_mono [OF Some, of A] show ?thesis by (simp add: alike_def Let_def)
qed

lemma llm_alike:
  assumes "ri_llmRequestedEvents ix' = ri_llmRequestedEvents ix @ A" "\<forall>e \<in> set A. ri_llmOutcomeBySeq ix (seq e) = None"
    and "ri_llmOutcomeBySeq ix' = ri_llmOutcomeBySeq ix" "alike s s'"
  shows "alike (set_outcome_promise (ctx_llmCall ix h q s)) (set_outcome_promise (ctx_llmCall ix' h q s'))"
proof (cases "js_at (ri_llmRequestedEvents ix) (ps_llmCallIndex s)")
  case None
  from js_at_extended [OF this, of A] None assms show ?thesis
    by (elim disjE bexE; simp add: alike_def push_command_def Let_def split: wf_event.split)
next
  case (Some e)
  with assms js_at_mono [OF Some, of A] show ?thesis
    by (cases "event e") (simp_all add: alike_def Let_def split: option.split)
qed

lemma tool_alike:
  assumes "ri_toolRequestedEvents ix' = ri_toolRequestedEvents ix @ A" "\<forall>e \<in> set A. ri_toolOutcomeBySeq ix (seq e) = None"
    and "ri_toolOutcomeBySeq ix' = ri_toolOutcomeBySeq ix" "alike s s'"
  shows "alike (set_outcome_promise (ctx_toolCall ix h tn a s)) (set_outcome_promise (ctx_toolCall ix' h tn a s'))"
proof (cases "js_at (ri_toolRequestedEvents ix) (ps_toolCallIndex s)")
  case None
  from js_at_extended [OF this, of A] None assms show ?thesis
    by (elim disjE bexE; simp add: alike_def push_command_def Let_def promise_of_def split: wf_event.split)
next
  case (Some e)
  with assms js_at_mono [OF Some, of A] show ?thesis by (cases "event e") (simp_all add: alike_def Let_def)
qed

lemma signal_alike:
  assumes "ri_signals ix' = ri_signals ix" "alike s s'"
  shows "alike (set_outcome_promise (ctx_waitForSignal ix n s)) (set_outcome_promise (ctx_waitForSignal ix' n s'))"
  using assms by (simp add: alike_def Let_def split: option.split)

lemma issue_alike:
  assumes ix: "asked_more ix ix'" and s: "alike s s'" and t: "issue ix c s = (t, r)"
  shows "\<exists>t'. issue ix' c s' = (t', r) \<and> alike t t'"
proof -
  obtain A B C D where m: "ri_scheduledEvents ix' = ri_scheduledEvents ix @ A" "\<forall>e \<in> set A. ri_outcomeBySeq ix (seq e) = None"
    "ri_timerEvents ix' = ri_timerEvents ix @ B" "\<forall>e \<in> set B. ri_firedTimerSeqs ix (seq e) = None"
    "ri_llmRequestedEvents ix' = ri_llmRequestedEvents ix @ C" "\<forall>e \<in> set C. ri_llmOutcomeBySeq ix (seq e) = None"
    "ri_toolRequestedEvents ix' = ri_toolRequestedEvents ix @ D" "\<forall>e \<in> set D. ri_toolOutcomeBySeq ix (seq e) = None"
    using ix unfolding asked_more_def by blast
  have o: "ri_outcomeBySeq ix' = ri_outcomeBySeq ix" "ri_firedTimerSeqs ix' = ri_firedTimerSeqs ix" "ri_signals ix' = ri_signals ix"
    "ri_llmOutcomeBySeq ix' = ri_llmOutcomeBySeq ix" "ri_toolOutcomeBySeq ix' = ri_toolOutcomeBySeq ix" "ri_hash ix' = ri_hash ix"
    using ix by (simp_all add: asked_more_def)
  have len: "length (ps_promises s') = length (ps_promises s)" using s by (simp add: alike_def)
  note step = activity_alike [OF m(1,2) o(1) s] sleep_alike [OF m(3,4) o(2) s] signal_alike [OF o(3) s]
    llm_alike [OF m(5,6) o(4) s] tool_alike [OF m(7,8) o(5) s]
  note no_unfold = ctx_scheduleActivity.simps ctx_sleep.simps ctx_waitForSignal.simps ctx_llmCall.simps ctx_toolCall.simps
    set_outcome_promise.simps
  show ?thesis
  proof (cases c)
    case (LlmCall q)
    then show ?thesis using t step(4) len o(6) s
      by (cases "ri_hash ix") (auto simp: issue_eq(4) issue_no_hash(1) simp del: no_unfold)
  next
    case (ToolCall n a)
    then show ?thesis using t step(5) len o(6) s
      by (cases "ri_hash ix") (auto simp: issue_eq(5) issue_no_hash(2) simp del: no_unfold)
  qed (use t step(1-3) len in \<open>auto simp: issue_eq(1-3) simp del: no_unfold\<close>)
qed

lemma drain_alike:
  assumes "asked_more ix ix'" "alike s s'"
  shows "calls_of p ix' n s' = calls_of p ix n s \<and> snd (drain p ix' n s') = snd (drain p ix n s)"
  using assms(2)
proof (induction p arbitrary: n s s')
  case (Issue c k)
  obtain u r where u: "issue ix c s = (u, r)" by fastforce
  from issue_alike [OF assms(1) Issue.prems u] obtain u' where u': "issue ix' c s' = (u', r)" "alike u u'" by blast
  from Issue.IH [OF rangeI u'(2), of r n] u u'(1) show ?case by simp
next
  case (Await q k)
  have p: "ps_promises s' = ps_promises s" using Await.prems by (simp add: alike_def)
  show ?case
  proof (cases n)
    case (Suc m)
    then show ?thesis using Await.IH [OF rangeI Await.prems] by (simp add: p split: option.split promise.split)
  qed (simp add: p split: option.split promise.split)
next
  case (Yield q)
  then show ?case by (cases n) simp_all
qed simp_all

lemma asked_pass:
  assumes "asked_more (index_history hash h) (index_history hash h')"
  shows "pass_calls f inp h' hash = pass_calls f inp h hash" "snd (pass_end f inp h' hash) = snd (pass_end f inp h hash)"
  using drain_alike [OF assms, of initial_pass initial_pass] by (simp_all add: pass_calls_def pass_end_def alike_def)

end
