(* ===== verification/Backoff.thy ===== *)
theory Backoff
  imports Prelude
begin

section \<open>Retry and poll delays (packages/db/src/backoff.ts, packages/worker-sdk/src/backoff.ts)\<close>

text \<open>
  The delay before a failed task is retried, and the delay between the polls of an idle worker.
  Numbers are rationals (no rounding); what \<open>Math.random\<close> returned is an argument, between 0 and 1.
\<close>

subsection \<open>Delay of a retry\<close>

record retry_options =
  ro_baseSeconds :: rat
  ro_maxSeconds :: rat

definition default_retry_options :: retry_options where
  "default_retry_options = \<lparr>ro_baseSeconds = 1, ro_maxSeconds = 300\<rparr>"

definition computeRetryDelaySeconds :: "retry_options \<Rightarrow> rat \<Rightarrow> nat \<Rightarrow> js_error + rat" where
  "computeRetryDelaySeconds options random attempt =
     (if attempt < 1 then Inl (Err (''attempt must be >= 1, got '' @ show_nat attempt))
      else let cappedExponential = min (ro_maxSeconds options) (ro_baseSeconds options * 2 ^ (attempt - 1)) in
        Inr (random * cappedExponential))"

definition computeRetryDelayWithFloorSeconds :: "retry_options \<Rightarrow> rat \<Rightarrow> nat \<Rightarrow> rat \<Rightarrow> js_error + rat" where
  "computeRetryDelayWithFloorSeconds options random attempt minDelaySeconds =
     (case computeRetryDelaySeconds options random attempt of
        Inl e \<Rightarrow> Inl e | Inr d \<Rightarrow> Inr (max d minDelaySeconds))"

lemma retry_delay_range:
  assumes "0 \<le> r" "r < 1" "1 \<le> attempt"
  shows "\<exists>d. computeRetryDelayWithFloorSeconds default_retry_options r attempt lo = Inr d
         \<and> lo \<le> d \<and> d \<le> max lo (min 300 (2 ^ (attempt - 1))) \<and> 0 \<le> d"
proof -
  let ?c = "min (300 :: rat) (2 ^ (attempt - 1))"
  have c: "0 \<le> ?c" by simp
  have "r * ?c \<le> 1 * ?c" using assms c by (intro mult_right_mono) auto
  moreover have "0 \<le> r * ?c" using assms c by (intro mult_nonneg_nonneg) auto
  ultimately show ?thesis
    using assms(3)
    by (auto simp: computeRetryDelayWithFloorSeconds_def computeRetryDelaySeconds_def default_retry_options_def
        Let_def max_def)
qed

text \<open>
  The delay of a retry is never shorter than the floor the caller asked for (a provider's
  \<open>Retry-After\<close>) and never longer than the larger of that floor and \<open>min(300, 2^(attempt-1))\<close>
  seconds; it is an error only for an attempt below 1, which no dequeued task has.
\<close>

theorem retry_delay_bounds:
  assumes "0 \<le> r" "r < 1"
  shows "(attempt < 1 \<longrightarrow> (\<exists>e. computeRetryDelayWithFloorSeconds default_retry_options r attempt lo = Inl e))
    \<and> (1 \<le> attempt \<longrightarrow> (\<exists>d. computeRetryDelayWithFloorSeconds default_retry_options r attempt lo = Inr d
         \<and> lo \<le> d \<and> d \<le> max lo (min 300 (2 ^ (attempt - 1))) \<and> 0 \<le> d))"
  using retry_delay_range [OF assms]
  by (auto simp: computeRetryDelayWithFloorSeconds_def computeRetryDelaySeconds_def)

theorem retry_delay_bounds_witness:
  "\<exists>d. computeRetryDelayWithFloorSeconds default_retry_options (1 / 2) 4 3 = Inr d \<and> 3 \<le> d \<and> d \<le> 8"
  using retry_delay_bounds [of "1 / 2" 4 3] by auto

subsection \<open>Delay between polls\<close>

text \<open>
  \<open>PollBackoff\<close>: the object's state is \<open>currentMs\<close>. \<open>num\<close> is the decimal text of a number, for the
  messages of the constructor.
\<close>

record poll_backoff_config =
  pc_minMs :: rat
  pc_maxMs :: rat
  pc_multiplier :: rat

record poll_backoff =
  pb_config :: poll_backoff_config
  pb_currentMs :: rat

definition new_PollBackoff :: "(rat \<Rightarrow> string) \<Rightarrow> poll_backoff_config \<Rightarrow> js_error + poll_backoff" where
  "new_PollBackoff num config =
     (if pc_minMs config \<le> 0 then Inl (Err (''minMs must be > 0, got '' @ num (pc_minMs config)))
      else if pc_maxMs config < pc_minMs config then
        Inl (Err (''maxMs ('' @ num (pc_maxMs config) @ '') must be >= minMs ('' @ num (pc_minMs config) @ '')''))
      else if pc_multiplier config \<le> 1 then
        Inl (Err (''multiplier must be > 1, got '' @ num (pc_multiplier config)))
      else Inr \<lparr>pb_config = config, pb_currentMs = pc_minMs config\<rparr>)"

definition delayMs :: "poll_backoff \<Rightarrow> rat" where
  "delayMs b = pb_currentMs b"

definition onEmpty :: "poll_backoff \<Rightarrow> poll_backoff" where
  "onEmpty b = b\<lparr>pb_currentMs := min (pb_currentMs b * pc_multiplier (pb_config b)) (pc_maxMs (pb_config b))\<rparr>"

definition onWork :: "poll_backoff \<Rightarrow> poll_backoff" where
  "onWork b = b\<lparr>pb_currentMs := pc_minMs (pb_config b)\<rparr>"

lemma onEmpty_times:
  assumes "new_PollBackoff num c = Inr b"
  shows "(onEmpty ^^ n) b = \<lparr>pb_config = c, pb_currentMs = min (pc_minMs c * pc_multiplier c ^ n) (pc_maxMs c)\<rparr>"
proof (induction n)
  case 0
  then show ?case using assms by (auto simp: new_PollBackoff_def split: if_splits)
next
  case (Suc n)
  from assms have c: "0 < pc_minMs c" "pc_minMs c \<le> pc_maxMs c" "1 < pc_multiplier c"
    by (auto simp: new_PollBackoff_def split: if_splits)
  have "min (pc_minMs c * pc_multiplier c ^ n) (pc_maxMs c) * pc_multiplier c
      = min (pc_minMs c * pc_multiplier c ^ n * pc_multiplier c) (pc_maxMs c * pc_multiplier c)"
    using c by (simp add: min_mult_distrib_right)
  moreover have "pc_maxMs c * 1 \<le> pc_maxMs c * pc_multiplier c"
    using c by (intro mult_left_mono) auto
  ultimately show ?case
    using Suc by (simp add: onEmpty_def min_def ac_simps)
qed

text \<open>
  The poll interval of a worker backs off exponentially up to its maximum: after \<open>n\<close> empty polls
  it is \<open>min(minMs * multiplier^n, maxMs)\<close>, always between the two limits, and the first poll that
  returns work resets it to the minimum.
\<close>

theorem poll_backoff_delay:
  assumes "new_PollBackoff num c = Inr b"
  shows "delayMs ((onEmpty ^^ n) b) = min (pc_minMs c * pc_multiplier c ^ n) (pc_maxMs c)
    \<and> pc_minMs c \<le> delayMs ((onEmpty ^^ n) b) \<and> delayMs ((onEmpty ^^ n) b) \<le> pc_maxMs c
    \<and> onWork ((onEmpty ^^ n) b) = b"
proof -
  from assms have c: "0 < pc_minMs c" "pc_minMs c \<le> pc_maxMs c" "1 < pc_multiplier c"
    "b = \<lparr>pb_config = c, pb_currentMs = pc_minMs c\<rparr>"
    by (auto simp: new_PollBackoff_def split: if_splits)
  then have "pc_minMs c * 1 \<le> pc_minMs c * pc_multiplier c ^ n"
    by (intro mult_left_mono one_le_power) auto
  then show ?thesis
    using onEmpty_times [OF assms, of n] c by (simp add: delayMs_def onWork_def)
qed

theorem poll_backoff_delay_witness:
  "\<exists>b. new_PollBackoff (\<lambda>_. ''n'') \<lparr>pc_minMs = 50, pc_maxMs = 2000, pc_multiplier = 2\<rparr> = Inr b
     \<and> delayMs ((onEmpty ^^ 3) b) = 400"
proof -
  let ?c = "\<lparr>pc_minMs = 50, pc_maxMs = 2000, pc_multiplier = 2\<rparr> :: poll_backoff_config"
  obtain b where b: "new_PollBackoff (\<lambda>_. ''n'') ?c = Inr b" by (simp add: new_PollBackoff_def)
  from poll_backoff_delay [OF b, of 3] b show ?thesis by auto
qed

end
