(* ===== verification/Tasks.thy ===== *)
theory Tasks
  imports Backoff "HOL-Library.Multiset" "HOL-Library.Product_Lexorder"
begin

section \<open>The task queue (packages/db/src/queue.ts, dlq.ts)\<close>

text \<open>
  The \<open>tasks\<close> table of packages/db/migrations and the statements the queue functions run on it.
  Each function is one SQL statement, so it is one atomic step. \<open>now\<close> is Postgres's clock in the
  transaction, \<open>date\<close> the clock of the JavaScript process, \<open>locked\<close> the ids of the rows other
  transactions hold a row lock on (\<open>SKIP LOCKED\<close> passes them over). A \<open>BIGSERIAL\<close> id is a natural
  number; the sequence is consumed by a failed insert too.
\<close>

subsection \<open>The table\<close>

datatype task_type = TWorkflow | TActivity | TTimer | TLlm | TTool

datatype task_status = TPending | TLeased | TCompleted | TDead

record task =
  t_id :: nat
  t_taskType :: task_type
  t_workflowId :: string
  t_queue :: string
  t_scheduledEventSeq :: "nat option"
  t_status :: task_status
  t_runAfter :: time
  t_attempt :: nat
  t_maxAttempts :: nat
  t_lastError :: "string option"
  t_leasedBy :: "string option"
  t_leaseExpiresAt :: "time option"
  t_createdAt :: time
  t_traceContext :: "string option"

record task_table =
  tt_rows :: "task list"
  tt_nextId :: nat

definition live_workflow_task :: "task \<Rightarrow> bool" where
  "live_workflow_task t \<longleftrightarrow> t_taskType t = TWorkflow \<and> (t_status t = TPending \<or> t_status t = TLeased)"

text \<open>\<open>UPDATE tasks SET f WHERE P\<close> and the number of rows it changed.\<close>

definition update_rows :: "(task \<Rightarrow> bool) \<Rightarrow> (task \<Rightarrow> task) \<Rightarrow> task_table \<Rightarrow> task_table" where
  "update_rows P f tbl = tbl\<lparr>tt_rows := map (\<lambda>t. if P t then f t else t) (tt_rows tbl)\<rparr>"

definition row_count :: "(task \<Rightarrow> bool) \<Rightarrow> task_table \<Rightarrow> nat" where
  "row_count P tbl = length (filter P (tt_rows tbl))"

definition unique_violation :: js_error where
  "unique_violation = PgErr ''duplicate key value violates unique constraint one_workflow_task_per_wf''"

definition fk_violation :: js_error where
  "fk_violation = PgErr ''insert or update on table tasks violates foreign key constraint''"

subsection \<open>\<open>enqueue\<close>\<close>

record enqueue_input =
  ei_taskType :: task_type
  ei_workflowId :: string
  ei_queue :: "string option"
  ei_scheduledEventSeq :: "nat option"
  ei_runAfter :: "time option"
  ei_maxAttempts :: "nat option"
  ei_traceContext :: "string option"

definition or_default :: "'a option \<Rightarrow> 'a \<Rightarrow> 'a" where
  "or_default x d = (case x of Some y \<Rightarrow> y | None \<Rightarrow> d)"

definition default_queue :: string where
  "default_queue = ''default''"

definition new_task :: "time \<Rightarrow> time \<Rightarrow> enqueue_input \<Rightarrow> nat \<Rightarrow> task" where
  "new_task now date input i =
     \<lparr> t_id = i, t_taskType = ei_taskType input, t_workflowId = ei_workflowId input,
       t_queue = or_default (ei_queue input) default_queue,
       t_scheduledEventSeq = ei_scheduledEventSeq input, t_status = TPending,
       t_runAfter = or_default (ei_runAfter input) date, t_attempt = 0,
       t_maxAttempts = or_default (ei_maxAttempts input) 3, t_lastError = None, t_leasedBy = None,
       t_leaseExpiresAt = None, t_createdAt = now, t_traceContext = ei_traceContext input \<rparr>"

text \<open>
  The insert is refused by the partial unique index when the workflow has a live workflow task
  (the function returns \<open>null\<close>), and by the foreign key when there is no such workflow (the error
  is thrown; in a transaction only the savepoint is rolled back). \<open>known\<close> are the ids of
  \<open>workflow_executions\<close>.
\<close>

definition enqueue :: "time \<Rightarrow> time \<Rightarrow> string list \<Rightarrow> enqueue_input \<Rightarrow> task_table
    \<Rightarrow> task_table \<times> (js_error + task option)" where
  "enqueue now date known input tbl =
     (let t = new_task now date input (tt_nextId tbl);
          consumed = tbl\<lparr>tt_nextId := Suc (tt_nextId tbl)\<rparr> in
      if live_workflow_task t \<and> list_ex (\<lambda>u. live_workflow_task u \<and> t_workflowId u = t_workflowId t) (tt_rows tbl)
      then (consumed, Inr None)
      else if t_workflowId t \<notin> set known then (consumed, Inl fk_violation)
      else (consumed\<lparr>tt_rows := tt_rows tbl @ [t]\<rparr>, Inr (Some t)))"

subsection \<open>\<open>dequeue\<close>, \<open>heartbeat\<close>, \<open>complete\<close>, \<open>fail\<close>, \<open>reclaimExpired\<close>\<close>

record dequeue_input =
  di_workerId :: string
  di_queue :: "string option"
  di_taskType :: "task_type option"
  di_limit :: nat
  di_leaseSeconds :: rat

definition seconds :: "rat \<Rightarrow> time" where
  "seconds s = 1000 * s"

definition candidate :: "time \<Rightarrow> dequeue_input \<Rightarrow> task \<Rightarrow> bool" where
  "candidate now input t \<longleftrightarrow>
     t_status t = TPending \<and> t_queue t = or_default (di_queue input) default_queue \<and> t_runAfter t \<le> now
     \<and> (case di_taskType input of None \<Rightarrow> True | Some ty \<Rightarrow> t_taskType t = ty)"

text \<open>\<open>ORDER BY run_after, id LIMIT n FOR UPDATE SKIP LOCKED\<close>\<close>

definition candidates :: "time \<Rightarrow> nat list \<Rightarrow> dequeue_input \<Rightarrow> task_table \<Rightarrow> task list" where
  "candidates now locked input tbl = take (di_limit input)
     (sort_key (\<lambda>t. (t_runAfter t, t_id t))
       (filter (\<lambda>t. candidate now input t \<and> t_id t \<notin> set locked) (tt_rows tbl)))"

definition lease_task :: "time \<Rightarrow> dequeue_input \<Rightarrow> task \<Rightarrow> task" where
  "lease_task now input t = t\<lparr>t_status := TLeased, t_leasedBy := Some (di_workerId input),
     t_leaseExpiresAt := Some (now + seconds (di_leaseSeconds input)), t_attempt := t_attempt t + 1\<rparr>"

definition dequeue :: "time \<Rightarrow> nat list \<Rightarrow> dequeue_input \<Rightarrow> task_table \<Rightarrow> task_table \<times> task list" where
  "dequeue now locked input tbl =
     (let ids = map t_id (candidates now locked input tbl) in
      (update_rows (\<lambda>t. t_id t \<in> set ids) (lease_task now input) tbl,
       map (lease_task now input) (candidates now locked input tbl)))"

definition leased_to :: "string \<Rightarrow> task \<Rightarrow> bool" where
  "leased_to workerId t \<longleftrightarrow> t_leasedBy t = Some workerId \<and> t_status t = TLeased"

definition heartbeat :: "time \<Rightarrow> nat list \<Rightarrow> string \<Rightarrow> rat \<Rightarrow> task_table \<Rightarrow> task_table \<times> nat" where
  "heartbeat now taskIds workerId leaseSeconds tbl =
     (if taskIds = [] then (tbl, 0)
      else let P = (\<lambda>t. t_id t \<in> set taskIds \<and> leased_to workerId t) in
        (update_rows P (\<lambda>t. t\<lparr>t_leaseExpiresAt := Some (now + seconds leaseSeconds)\<rparr>) tbl, row_count P tbl))"

definition complete :: "nat \<Rightarrow> string \<Rightarrow> task_table \<Rightarrow> task_table \<times> bool" where
  "complete taskId workerId tbl =
     (let P = (\<lambda>t. t_id t = taskId \<and> leased_to workerId t) in
      (update_rows P (\<lambda>t. t\<lparr>t_status := TCompleted\<rparr>) tbl, 0 < row_count P tbl))"

record fail_input =
  fi_taskId :: nat
  fi_workerId :: string
  fi_error :: string
  fi_attempt :: nat
  fi_minDelaySeconds :: rat

definition fail_task :: "time \<Rightarrow> rat \<Rightarrow> string \<Rightarrow> task \<Rightarrow> task" where
  "fail_task now delaySeconds error t = t\<lparr>
     t_status := (if t_maxAttempts t \<le> t_attempt t then TDead else TPending),
     t_runAfter := (if t_maxAttempts t \<le> t_attempt t then t_runAfter t else now + seconds delaySeconds),
     t_lastError := Some error, t_leasedBy := None, t_leaseExpiresAt := None\<rparr>"

definition fail :: "time \<Rightarrow> rat \<Rightarrow> fail_input \<Rightarrow> task_table \<Rightarrow> task_table \<times> (js_error + bool)" where
  "fail now random input tbl =
     (case computeRetryDelayWithFloorSeconds default_retry_options random (fi_attempt input) (fi_minDelaySeconds input) of
        Inl e \<Rightarrow> (tbl, Inl e)
      | Inr delaySeconds \<Rightarrow>
          (let P = (\<lambda>t. t_id t = fi_taskId input \<and> leased_to (fi_workerId input) t) in
           (update_rows P (fail_task now delaySeconds (fi_error input)) tbl, Inr (0 < row_count P tbl))))"

definition expired :: "time \<Rightarrow> task \<Rightarrow> bool" where
  "expired now t \<longleftrightarrow> t_status t = TLeased \<and> (case t_leaseExpiresAt t of Some e \<Rightarrow> e < now | None \<Rightarrow> False)"

definition expiry :: "task \<Rightarrow> time" where
  "expiry t = or_default (t_leaseExpiresAt t) 0"

definition release_task :: "task \<Rightarrow> task" where
  "release_task t = t\<lparr>t_status := TPending, t_leasedBy := None, t_leaseExpiresAt := None\<rparr>"

definition reclaimExpired :: "time \<Rightarrow> nat list \<Rightarrow> nat \<Rightarrow> task_table \<Rightarrow> task_table \<times> nat list" where
  "reclaimExpired now locked limit tbl =
     (let ids = map t_id (take limit (sort_key expiry
                  (filter (\<lambda>t. expired now t \<and> t_id t \<notin> set locked) (tt_rows tbl)))) in
      (update_rows (\<lambda>t. t_id t \<in> set ids) release_task tbl, ids))"

subsection \<open>Queries, the dead-letter queue\<close>

definition getQueueDepth :: "task_table \<Rightarrow> task_status \<Rightarrow> nat" where
  "getQueueDepth tbl status = row_count (\<lambda>t. t_status t = status) tbl"

record lease_fence =
  fn_taskId :: nat
  fn_workerId :: string
  fn_attempt :: nat

definition isLeaseOwned :: "lease_fence \<Rightarrow> task_table \<Rightarrow> bool" where
  "isLeaseOwned fence tbl \<longleftrightarrow> 0 < row_count (\<lambda>t. t_id t = fn_taskId fence \<and> t_status t = TLeased
     \<and> t_leasedBy t = Some (fn_workerId fence) \<and> t_attempt t = fn_attempt fence) tbl"

record dead_task =
  dt_id :: nat
  dt_taskType :: task_type
  dt_workflowId :: string
  dt_queue :: string
  dt_attempt :: nat
  dt_maxAttempts :: nat
  dt_lastError :: "string option"
  dt_createdAt :: time

definition mapDeadTaskRow :: "task \<Rightarrow> dead_task" where
  "mapDeadTaskRow row = \<lparr>dt_id = t_id row, dt_taskType = t_taskType row, dt_workflowId = t_workflowId row,
     dt_queue = t_queue row, dt_attempt = t_attempt row, dt_maxAttempts = t_maxAttempts row,
     dt_lastError = t_lastError row, dt_createdAt = t_createdAt row\<rparr>"

definition listDeadTasks :: "string option \<Rightarrow> nat option \<Rightarrow> task_table \<Rightarrow> dead_task list" where
  "listDeadTasks queue limit tbl = map mapDeadTaskRow (take (or_default limit 100)
     (sort_key (\<lambda>t. - t_createdAt t)
       (filter (\<lambda>t. t_status t = TDead \<and> (case queue of None \<Rightarrow> True | Some q \<Rightarrow> t_queue t = q)) (tt_rows tbl))))"

text \<open>
  Putting a dead workflow task back to \<open>pending\<close> is refused by the partial unique index, with an
  error nothing catches, when the workflow got a live workflow task in the meantime.
\<close>

definition requeueDeadTask :: "time \<Rightarrow> nat \<Rightarrow> task_table \<Rightarrow> task_table \<times> (js_error + bool)" where
  "requeueDeadTask now taskId tbl =
     (let P = (\<lambda>t. t_id t = taskId \<and> t_status t = TDead) in
      if list_ex (\<lambda>t. P t \<and> t_taskType t = TWorkflow
           \<and> list_ex (\<lambda>u. live_workflow_task u \<and> t_workflowId u = t_workflowId t) (tt_rows tbl)) (tt_rows tbl)
      then (tbl, Inl unique_violation)
      else (update_rows P (\<lambda>t. t\<lparr>t_status := TPending, t_attempt := 0, t_runAfter := now, t_lastError := None\<rparr>) tbl,
            Inr (0 < row_count P tbl)))"

end
