(* ===== verification/Store.thy ===== *)
theory Store
  imports Workflow Tasks
begin

section \<open>The database: transactions, event store, ledgers (packages/db)\<close>

text \<open>
  The tables of packages/db/migrations as one record, and the functions of transaction.ts,
  eventStore.ts, workflowExecutions.ts, toolStore.ts, providerAudit.ts and leadership.ts on it. A
  function that runs statements returns the database it leaves and a value or the error it throws.
  \<open>clock\<close> holds Postgres's \<open>now()\<close>, the JavaScript process's \<open>Date.now()\<close> and the active span's
  \<open>traceparent\<close>. Values in a \<open>jsonb\<close> column read back as \<open>json_trip\<close> says. (A NUL character, which
  \<open>jsonb\<close> refuses, is outside the model.)
\<close>

subsection \<open>Tables\<close>

record execution =
  ex_id :: string
  ex_workflowType :: string
  ex_input :: jsval
  ex_status :: workflow_status
  ex_createdAt :: time
  ex_updatedAt :: time

record tool_execution =
  te_workflowId :: string
  te_stepId :: string
  te_tool :: string
  te_argsHash :: string
  te_result :: "jsval option"
  te_createdAt :: time
  te_completedAt :: "time option"

record side_effect =
  se_workflowId :: string
  se_stepId :: string
  se_kind :: string
  se_payload :: jsval

record provider_call =
  pr_workflowId :: string
  pr_stepId :: string
  pr_requestHash :: string
  pr_attempt :: "nat option"
  pr_calledAt :: time

record db =
  db_executions :: "execution list"
  db_events :: "(string \<times> stored_event) list"
  db_tasks :: task_table
  db_toolExecutions :: "tool_execution list"
  db_sideEffects :: "side_effect list"
  db_providerCalls :: "provider_call list"
  db_leader :: "(string \<times> time) option"

record clock =
  ck_now :: time
  ck_date :: time
  ck_trace :: "string option"

type_synonym 'a outcome_db = "db \<times> (js_error + 'a)"

subsection \<open>\<open>withTransaction\<close>\<close>

text \<open>
  \<open>ROLLBACK\<close> undoes every write; a sequence keeps the numbers it handed out.
\<close>

definition rollback :: "db \<Rightarrow> db \<Rightarrow> db" where
  "rollback before after =
     before\<lparr>db_tasks := (db_tasks before)\<lparr>tt_nextId := max (tt_nextId (db_tasks before)) (tt_nextId (db_tasks after))\<rparr>\<rparr>"

definition withTransaction :: "(db \<Rightarrow> 'a outcome_db) \<Rightarrow> db \<Rightarrow> 'a outcome_db" where
  "withTransaction fn d = (case fn d of
     (d', Inr x) \<Rightarrow> (d', Inr x)
   | (d', Inl err) \<Rightarrow> (rollback d d', Inl err))"

subsection \<open>The event store\<close>

text \<open>What an event reads back as after it was stored as \<open>jsonb\<close>.\<close>

definition num_trip :: "js_num option \<Rightarrow> js_num option" where
  "num_trip n = (if n = Some JNaN then None else n)"

fun event_trip :: "wf_event \<Rightarrow> wf_event" where
  "event_trip (WorkflowStarted t i) = WorkflowStarted t (json_trip i)"
| "event_trip (ActivityScheduled t i) = ActivityScheduled t (json_trip i)"
| "event_trip (ActivityCompleted n r) = ActivityCompleted n (json_trip r)"
| "event_trip (WorkflowCompleted r) = WorkflowCompleted (json_trip r)"
| "event_trip (SignalReceived n p) = SignalReceived n (json_trip p)"
| "event_trip (LLM_REQUESTED stepId h st rq m) = LLM_REQUESTED stepId h st (map_option request_trip rq) m"
| "event_trip (LLM_COMPLETED stepId n h txt calls tr model tin tout lat cost att) =
     LLM_COMPLETED stepId n h txt (map tool_call_trip calls) tr model tin tout lat (num_trip cost) att"
| "event_trip (TOOL_REQUESTED stepId t a h m) = TOOL_REQUESTED stepId t (json_trip a) h m"
| "event_trip (TOOL_COMPLETED stepId n t r lat att) = TOOL_COMPLETED stepId n t (json_trip r) lat att"
| "event_trip ev = ev"

definition execution_ids :: "db \<Rightarrow> string list" where
  "execution_ids d = map ex_id (db_executions d)"

definition getEvents :: "string \<Rightarrow> db \<Rightarrow> stored_event list" where
  "getEvents workflowId d = sort_key seq (map snd (filter (\<lambda>r. fst r = workflowId) (db_events d)))"

definition getEventsSince :: "string \<Rightarrow> nat \<Rightarrow> db \<Rightarrow> stored_event list" where
  "getEventsSince workflowId sinceSeq d = sort_key seq
     (map snd (filter (\<lambda>r. fst r = workflowId \<and> sinceSeq < seq (snd r)) (db_events d)))"

text \<open>\<open>SELECT MAX(seq)\<close>, \<open>None\<close> for no row; \<open>startSeq\<close> follows it.\<close>

definition max_seq :: "string \<Rightarrow> db \<Rightarrow> nat option" where
  "max_seq workflowId d = (case map (seq \<circ> snd) (filter (\<lambda>r. fst r = workflowId) (db_events d)) of
     [] \<Rightarrow> None | n # ns \<Rightarrow> Some (fold max ns n))"

definition start_seq :: "string \<Rightarrow> db \<Rightarrow> nat" where
  "start_seq workflowId d = (case max_seq workflowId d of Some m \<Rightarrow> if m = 0 then 1 else m + 1 | None \<Rightarrow> 1)"

fun number_events :: "nat \<Rightarrow> wf_event list \<Rightarrow> stored_event list" where
  "number_events n [] = []"
| "number_events n (e # es) = \<lparr>seq = n, event = e\<rparr> # number_events (Suc n) es"

definition insert_events :: "string \<Rightarrow> stored_event list \<Rightarrow> db \<Rightarrow> db" where
  "insert_events workflowId es d =
     d\<lparr>db_events := db_events d @ map (\<lambda>e. (workflowId, \<lparr>seq = seq e, event = event_trip (event e)\<rparr>)) es\<rparr>"

text \<open>The task an event asks for.\<close>

definition base_input :: "task_type \<Rightarrow> string \<Rightarrow> string option \<Rightarrow> enqueue_input" where
  "base_input ty workflowId trace =
     \<lparr> ei_taskType = ty, ei_workflowId = workflowId, ei_queue = None, ei_scheduledEventSeq = None,
       ei_runAfter = None, ei_maxAttempts = None, ei_traceContext = trace \<rparr>"

fun task_for :: "string \<Rightarrow> string option \<Rightarrow> stored_event \<Rightarrow> enqueue_input option" where
  "task_for workflowId trace e = (case event e of
     ActivityScheduled t i \<Rightarrow>
       Some ((base_input TActivity workflowId trace)\<lparr>ei_scheduledEventSeq := Some (seq e)\<rparr>)
   | LLM_REQUESTED stepId h st rq m \<Rightarrow>
       Some ((base_input TLlm workflowId trace)\<lparr>ei_scheduledEventSeq := Some (seq e), ei_maxAttempts := Some m\<rparr>)
   | TOOL_REQUESTED stepId t a h m \<Rightarrow>
       Some ((base_input TTool workflowId trace)\<lparr>ei_scheduledEventSeq := Some (seq e), ei_maxAttempts := Some m\<rparr>)
   | TimerScheduled fireAt \<Rightarrow>
       Some ((base_input TTimer workflowId trace)\<lparr>ei_scheduledEventSeq := Some (seq e), ei_runAfter := Some (of_int fireAt)\<rparr>)
   | _ \<Rightarrow> None)"

definition enqueue_db :: "clock \<Rightarrow> enqueue_input \<Rightarrow> db \<Rightarrow> task option outcome_db" where
  "enqueue_db ck input d =
     (case enqueue (ck_now ck) (ck_date ck) (execution_ids d) input (db_tasks d) of
        (tbl, r) \<Rightarrow> (d\<lparr>db_tasks := tbl\<rparr>, r))"

fun enqueue_all :: "clock \<Rightarrow> enqueue_input list \<Rightarrow> db \<Rightarrow> unit outcome_db" where
  "enqueue_all ck [] d = (d, Inr ())"
| "enqueue_all ck (i # is) d = (case enqueue_db ck i d of
     (d', Inl err) \<Rightarrow> (d', Inl err) | (d', Inr t) \<Rightarrow> enqueue_all ck is d')"

definition set_status :: "time \<Rightarrow> string \<Rightarrow> workflow_status \<Rightarrow> db \<Rightarrow> db" where
  "set_status now workflowId st d = d\<lparr>db_executions :=
     map (\<lambda>x. if ex_id x = workflowId then x\<lparr>ex_status := st, ex_updatedAt := now\<rparr> else x) (db_executions d)\<rparr>"

definition appendEvents :: "clock \<Rightarrow> string \<Rightarrow> wf_event list \<Rightarrow> db
    \<Rightarrow> (stored_event list \<times> wf_state) outcome_db" where
  "appendEvents ck workflowId events d =
     (if events = [] then (d, Inl (Err ''appendEvents: events must be non-empty''))
      else if workflowId \<notin> set (execution_ids d) then
        (d, Inl (Err (''appendEvents: no workflow_executions row for workflow '' @ workflowId)))
      else let storedEvents = number_events (start_seq workflowId d) events;
               d1 = insert_events workflowId storedEvents d;
               inputs = List.map_filter (task_for workflowId (ck_trace ck)) storedEvents
                        @ [base_input TWorkflow workflowId (ck_trace ck)] in
        (case enqueue_all ck inputs d1 of
           (d2, Inl err) \<Rightarrow> (d2, Inl err)
         | (d2, Inr _) \<Rightarrow>
            (case foldEvents (getEvents workflowId d2) of
               Inl err \<Rightarrow> (d2, Inl err)
             | Inr state \<Rightarrow> (set_status (ck_now ck) workflowId (st_status state) d2, Inr (storedEvents, state)))))"

subsection \<open>Workflow executions\<close>

record execution_summary =
  es_id :: string
  es_workflowType :: string
  es_status :: workflow_status
  es_createdAt :: time
  es_updatedAt :: time

definition mapRow :: "execution \<Rightarrow> execution_summary" where
  "mapRow row = \<lparr>es_id = ex_id row, es_workflowType = ex_workflowType row, es_status = ex_status row,
     es_createdAt = ex_createdAt row, es_updatedAt = ex_updatedAt row\<rparr>"

definition listWorkflowExecutions :: "nat \<Rightarrow> db \<Rightarrow> execution_summary list" where
  "listWorkflowExecutions limit d =
     map mapRow (take limit (sort_key (\<lambda>x. - ex_createdAt x) (db_executions d)))"

definition getWorkflowExecution :: "string \<Rightarrow> db \<Rightarrow> execution_summary option" where
  "getWorkflowExecution workflowId d =
     map_option mapRow (find (\<lambda>x. ex_id x = workflowId) (db_executions d))"

subsection \<open>The tool ledger and the side effects\<close>

record tool_claim =
  tm_workflowId :: string
  tm_stepId :: string
  tm_tool :: string
  tm_argsHash :: string

datatype claim_result = Claimed | NotClaimed jsval

definition claimToolExecution :: "clock \<Rightarrow> tool_claim \<Rightarrow> db \<Rightarrow> db \<times> claim_result" where
  "claimToolExecution ck c d =
     (case find (\<lambda>r. te_workflowId r = tm_workflowId c \<and> te_stepId r = tm_stepId c) (db_toolExecutions d) of
        None \<Rightarrow> (d\<lparr>db_toolExecutions := db_toolExecutions d @
            [\<lparr>te_workflowId = tm_workflowId c, te_stepId = tm_stepId c, te_tool = tm_tool c,
              te_argsHash = tm_argsHash c, te_result = None, te_createdAt = ck_now ck, te_completedAt = None\<rparr>]\<rparr>,
          Claimed)
      | Some r \<Rightarrow> (d, NotClaimed (or_default (te_result r) JNull)))"

text \<open>\<open>JSON.stringify(v ?? null)\<close> as a \<open>jsonb\<close> parameter: no text (\<open>undefined\<close>) is SQL \<open>NULL\<close>.\<close>

definition jsonb_param :: "jsval \<Rightarrow> jsval option" where
  "jsonb_param v = (let w = nullish v JNull in
     case stringify w of None \<Rightarrow> None | Some _ \<Rightarrow> Some (json_trip w))"

definition completeToolExecution :: "clock \<Rightarrow> string \<Rightarrow> string \<Rightarrow> jsval \<Rightarrow> db \<Rightarrow> db" where
  "completeToolExecution ck workflowId stepId result d = d\<lparr>db_toolExecutions :=
     map (\<lambda>r. if te_workflowId r = workflowId \<and> te_stepId r = stepId
              then r\<lparr>te_result := jsonb_param result, te_completedAt := Some (ck_now ck)\<rparr> else r)
       (db_toolExecutions d)\<rparr>"

definition not_null_violation :: js_error where
  "not_null_violation = PgErr ''null value violates not-null constraint''"

definition recordSideEffect :: "string \<Rightarrow> string \<Rightarrow> string \<Rightarrow> jsval \<Rightarrow> db \<Rightarrow> unit outcome_db" where
  "recordSideEffect workflowId stepId kind payload d =
     (case jsonb_param payload of
        None \<Rightarrow> (d, Inl not_null_violation)
      | Some p \<Rightarrow> (d\<lparr>db_sideEffects := db_sideEffects d @
          [\<lparr>se_workflowId = workflowId, se_stepId = stepId, se_kind = kind, se_payload = p\<rparr>]\<rparr>, Inr ()))"

definition listSideEffects :: "string \<Rightarrow> db \<Rightarrow> (string \<times> string \<times> string) list" where
  "listSideEffects workflowId d = map (\<lambda>s. (se_workflowId s, se_stepId s, se_kind s))
     (filter (\<lambda>s. se_workflowId s = workflowId) (db_sideEffects d))"

subsection \<open>The provider audit, leadership\<close>

definition recordProviderCall :: "clock \<Rightarrow> string \<Rightarrow> string \<Rightarrow> string \<Rightarrow> nat option \<Rightarrow> db \<Rightarrow> db" where
  "recordProviderCall ck workflowId stepId requestHash attempt d = d\<lparr>db_providerCalls := db_providerCalls d @
     [\<lparr>pr_workflowId = workflowId, pr_stepId = stepId, pr_requestHash = requestHash, pr_attempt = attempt,
       pr_calledAt = ck_now ck\<rparr>]\<rparr>"

definition listProviderCalls :: "string \<Rightarrow> db \<Rightarrow> provider_call list" where
  "listProviderCalls workflowId d = filter (\<lambda>r. pr_workflowId r = workflowId) (db_providerCalls d)"

definition countProviderCallsByStep :: "string \<Rightarrow> db \<Rightarrow> string \<rightharpoonup> nat" where
  "countProviderCallsByStep workflowId d stepId =
     (let n = length (filter (\<lambda>r. pr_stepId r = stepId) (listProviderCalls workflowId d)) in
      if n = 0 then None else Some n)"

definition recordLeadership :: "clock \<Rightarrow> string \<Rightarrow> db \<Rightarrow> db" where
  "recordLeadership ck leaderId d = d\<lparr>db_leader := Some (leaderId, ck_now ck)\<rparr>"

definition getCurrentLeader :: "db \<Rightarrow> (string \<times> time) option" where
  "getCurrentLeader d = db_leader d"

end
