(* ===== verification/LlmConfig.thy ===== *)
theory LlmConfig
  imports Workflow
begin

section \<open>What is stored of a prompt and of a response (packages/worker-sdk/src/llmConfig.ts)\<close>

text \<open>
  The configuration of the durable LLM and tool steps, the cap on stored sizes, the redaction of the
  stored copy. The redaction hook is a parameter (its default is a list of regular expressions);
  \<open>process.env\<close> is a map. Sizes are UTF-8 bytes, which is the length of a string here.
\<close>

record model_price =
  mp_inputPerMTokUsd :: rat
  mp_outputPerMTokUsd :: rat

type_synonym price_table = "string \<rightharpoonup> model_price"

record llm_step_config =
  cf_storePrompts :: bool
  cf_maxStoredBytes :: nat
  cf_maxAttempts :: nat
  cf_toolMaxAttempts :: nat
  cf_priceTable :: price_table
  cf_redact :: "string \<Rightarrow> string"

definition DEFAULT_MAX_STORED_BYTES :: nat where
  "DEFAULT_MAX_STORED_BYTES = 256 * 1024"

definition DEFAULT_LLM_MAX_ATTEMPTS :: nat where
  "DEFAULT_LLM_MAX_ATTEMPTS = 5"

definition DEFAULT_TOOL_MAX_ATTEMPTS :: nat where
  "DEFAULT_TOOL_MAX_ATTEMPTS = 3"

subsection \<open>Reading the environment\<close>

definition is_space :: "char \<Rightarrow> bool" where
  "is_space c = (of_char c \<in> {9, 10, 11, 12, 13, 32 :: nat})"

definition trim :: "string \<Rightarrow> string" where
  "trim s = rev (dropWhile is_space (rev (dropWhile is_space s)))"

definition lower_char :: "char \<Rightarrow> char" where
  "lower_char c = (if 65 \<le> (of_char c :: nat) \<and> (of_char c :: nat) \<le> 90 then char_of (of_char c + 32 :: nat) else c)"

definition envBool :: "string option \<Rightarrow> bool \<Rightarrow> bool" where
  "envBool v fallback = (case v of
     None \<Rightarrow> fallback
   | Some s \<Rightarrow> if s = '''' then fallback
       else map lower_char (trim s) \<notin> {''false'', ''0'', ''no'', ''off''})"

text \<open>
  \<open>Number.parseInt(value, 10)\<close>: leading white space, a sign, then digits up to the first other
  character; \<open>NaN\<close> (\<open>None\<close>) when there is no digit.
\<close>

definition parse_int :: "string \<Rightarrow> int option" where
  "parse_int s = (let t = dropWhile is_space s;
       neg = (t \<noteq> [] \<and> hd t = CHR ''-''); u = (if t \<noteq> [] \<and> (hd t = CHR ''-'' \<or> hd t = CHR ''+'') then tl t else t);
       ds = takeWhile is_digit u in
     if ds = [] then None else Some (if neg then - int (read_nat ds) else int (read_nat ds)))"

definition envPositiveInt :: "string \<Rightarrow> string option \<Rightarrow> nat \<Rightarrow> js_error + nat" where
  "envPositiveInt name v fallback = (case v of
     None \<Rightarrow> Inr fallback
   | Some s \<Rightarrow> if s = '''' then Inr fallback
       else (case parse_int s of
          Some n \<Rightarrow> if n \<le> 0 then Inl (Err (name @ '' must be a positive integer, got '' @ s)) else Inr (nat n)
        | None \<Rightarrow> Inl (Err (name @ '' must be a positive integer, got '' @ s))))"

text \<open>
  \<open>prices\<close> is \<open>loadPriceTable(env)\<close>, which parses JSON, or what it throws; \<open>redactSecrets\<close> the
  default hook. Overrides of single fields are record updates of the result.
\<close>

definition loadLlmStepConfig :: "(string \<rightharpoonup> string) \<Rightarrow> js_error + price_table \<Rightarrow> (string \<Rightarrow> string)
    \<Rightarrow> js_error + llm_step_config" where
  "loadLlmStepConfig env prices redactSecrets =
     (case envPositiveInt ''KARYAKRAM_MAX_STORED_BYTES'' (env ''KARYAKRAM_MAX_STORED_BYTES'') DEFAULT_MAX_STORED_BYTES of
        Inl e \<Rightarrow> Inl e
      | Inr maxStored \<Rightarrow>
     (case envPositiveInt ''KARYAKRAM_LLM_MAX_ATTEMPTS'' (env ''KARYAKRAM_LLM_MAX_ATTEMPTS'') DEFAULT_LLM_MAX_ATTEMPTS of
        Inl e \<Rightarrow> Inl e
      | Inr attempts \<Rightarrow>
     (case envPositiveInt ''KARYAKRAM_TOOL_MAX_ATTEMPTS'' (env ''KARYAKRAM_TOOL_MAX_ATTEMPTS'') DEFAULT_TOOL_MAX_ATTEMPTS of
        Inl e \<Rightarrow> Inl e
      | Inr toolAttempts \<Rightarrow>
     (case prices of
        Inl e \<Rightarrow> Inl e
      | Inr table \<Rightarrow> Inr \<lparr>cf_storePrompts = envBool (env ''KARYAKRAM_STORE_PROMPTS'') True,
          cf_maxStoredBytes = maxStored, cf_maxAttempts = attempts, cf_toolMaxAttempts = toolAttempts,
          cf_priceTable = table, cf_redact = redactSecrets\<rparr>))))"

subsection \<open>Cutting text\<close>

definition is_continuation :: "char \<Rightarrow> bool" where
  "is_continuation c = (128 \<le> (of_char c :: nat) \<and> (of_char c :: nat) < 192)"

text \<open>The loop that backs up from \<open>end\<close> to the start of a character.\<close>

fun back_up :: "string \<Rightarrow> nat \<Rightarrow> nat" where
  "back_up buf 0 = 0"
| "back_up buf (Suc n) = (case js_at buf (Suc n) of
     Some c \<Rightarrow> if is_continuation c then back_up buf n else Suc n
   | None \<Rightarrow> Suc n)"

definition truncateUtf8 :: "string \<Rightarrow> nat \<Rightarrow> string \<times> bool" where
  "truncateUtf8 txt maxBytes =
     (if length txt \<le> maxBytes then (txt, False) else (take (back_up txt maxBytes) txt, True))"

subsection \<open>The stored request\<close>

fun mapStrings :: "(string \<Rightarrow> string) \<Rightarrow> jsval \<Rightarrow> jsval" where
  "mapStrings f (JStr s) = JStr (f s)"
| "mapStrings f (JArr vs) = JArr (map (mapStrings f) vs)"
| "mapStrings f (JObj kvs) = JObj (foldl obj_assign [] (obj_order (map (\<lambda>(k, v). (k, mapStrings f v)) kvs)))"
| "mapStrings f (JToJson v) = JObj []"
| "mapStrings f v = v"

definition map_members :: "(string \<Rightarrow> string) \<Rightarrow> (string \<times> jsval) list \<Rightarrow> (string \<times> jsval) list" where
  "map_members f kvs = foldl obj_assign [] (obj_order (map (\<lambda>(k, v). (k, mapStrings f v)) kvs))"

definition map_tool :: "(string \<Rightarrow> string) \<Rightarrow> llm_tool_definition \<Rightarrow> llm_tool_definition" where
  "map_tool f t = \<lparr>td_name = f (td_name t), td_description = map_option f (td_description t),
     td_inputSchema = map_members f (td_inputSchema t)\<rparr>"

text \<open>\<open>mapStrings\<close> on a request object: every string in it, the model and the roles included.\<close>

definition map_request :: "(string \<Rightarrow> string) \<Rightarrow> llm_request \<Rightarrow> llm_request" where
  "map_request f r = \<lparr>rq_model = f (rq_model r),
     rq_messages = map (\<lambda>m. \<lparr>m_role = f (m_role m), m_content = f (m_content m)\<rparr>) (rq_messages r),
     rq_params = map_option (map_members f) (rq_params r),
     rq_tools = map_option (map (map_tool f)) (rq_tools r)\<rparr>"

definition request_js :: "llm_request \<Rightarrow> jsval" where
  "request_js r = JObj
     [(''model'', JStr (rq_model r)),
      (''messages'', JArr (map message_js (rq_messages r))),
      (''params'', case rq_params r of Some ps \<Rightarrow> JObj ps | None \<Rightarrow> JUndef),
      (''tools'', case rq_tools r of Some ts \<Rightarrow> JArr (map tool_js ts) | None \<Rightarrow> JUndef)]"

definition stored_size :: "jsval \<Rightarrow> nat" where
  "stored_size v = (case stringify v of Some t \<Rightarrow> length t | None \<Rightarrow> 0)"

definition shrinkRequest :: "llm_request \<Rightarrow> nat \<Rightarrow> llm_request" where
  "shrinkRequest request maxBytes =
     (let skeleton = request\<lparr>rq_messages := map (\<lambda>m. m\<lparr>m_content := ''''\<rparr>) (rq_messages request)\<rparr>;
          overhead = stored_size (request_js skeleton) in
      if maxBytes \<le> overhead \<or> rq_messages request = []
      then \<lparr>rq_model = rq_model request, rq_messages = [], rq_params = None, rq_tools = None\<rparr>
      else let perMessage = (maxBytes - overhead) div length (rq_messages request) in
        request\<lparr>rq_messages := map (\<lambda>m. m\<lparr>m_content := fst (truncateUtf8 (m_content m) perMessage)\<rparr>)
          (rq_messages request)\<rparr>)"

record stored_request =
  sr_requestStorage :: llm_request_storage
  sr_request :: "llm_request option"

definition buildStoredRequest :: "llm_request \<Rightarrow> llm_step_config \<Rightarrow> stored_request" where
  "buildStoredRequest request config =
     (if \<not> cf_storePrompts config then \<lparr>sr_requestStorage = StNone, sr_request = None\<rparr>
      else let redacted = map_request (cf_redact config) request;
               changed = (canonicalJson (request_js redacted) \<noteq> canonicalJson (request_js request)) in
        if cf_maxStoredBytes config < stored_size (request_js redacted)
        then \<lparr>sr_requestStorage = StTruncated, sr_request = Some (shrinkRequest redacted (cf_maxStoredBytes config))\<rparr>
        else \<lparr>sr_requestStorage = (if changed then StRedacted else StFull), sr_request = Some redacted\<rparr>)"

subsection \<open>The stored response\<close>

record capped_response =
  cp_text :: string
  cp_toolCalls :: "llm_tool_call list"
  cp_truncated :: bool

text \<open>The loop over the tool calls: what is kept, what remains of the cap, whether one was dropped.\<close>

fun keep_calls :: "llm_tool_call list \<Rightarrow> nat \<Rightarrow> llm_tool_call list \<times> bool" where
  "keep_calls [] remaining = ([], False)"
| "keep_calls (c # cs) remaining =
     (let size = stored_size (tool_call_js c) in
      if size \<le> remaining
      then (let (kept, dropped) = keep_calls cs (remaining - size) in (c # kept, dropped))
      else (let (kept, dropped) = keep_calls cs remaining in (kept, True)))"

definition capResponse :: "string \<Rightarrow> llm_tool_call list \<Rightarrow> nat \<Rightarrow> capped_response" where
  "capResponse txt toolCalls maxBytes =
     (let (cut, truncated) = truncateUtf8 txt maxBytes;
          (kept, dropped) = keep_calls toolCalls (maxBytes - length cut) in
      \<lparr>cp_text = cut, cp_toolCalls = kept, cp_truncated = (truncated \<or> dropped)\<rparr>)"

end
