(* ===== verification/Handlers.thy ===== *)
theory Handlers
  imports Store LlmConfig Replay
begin

section \<open>Workflow, activity and timer tasks (packages/worker-sdk)\<close>

text \<open>
  fencing.ts, workflowReplayHandler.ts, activityHandler.ts, timerHandler.ts, startWorkflow.ts,
  sendSignal.ts and cancelWorkflow.ts. A handler reads the history with one statement, computes, and
  writes in one transaction later; \<open>between\<close> is what other connections committed to the database
  after the read and before that transaction. A handler that ends without a transaction leaves the
  database to them. Registries are \<open>Map\<close>s built from an array: the last entry of a name counts.
\<close>

definition registry_get :: "(string \<times> 'a) list \<Rightarrow> string \<Rightarrow> 'a option" where
  "registry_get entries name = map_of (rev entries) name"

subsection \<open>Fencing\<close>

definition fenceOf :: "task \<Rightarrow> js_error + lease_fence" where
  "fenceOf t = (case t_leasedBy t of
     None \<Rightarrow> Inl (LeaseLostError (t_id t))
   | Some worker \<Rightarrow> Inr \<lparr>fn_taskId = t_id t, fn_workerId = worker, fn_attempt = t_attempt t\<rparr>)"

definition assertLeaseOwned :: "task \<Rightarrow> db \<Rightarrow> js_error + unit" where
  "assertLeaseOwned t d = (case fenceOf t of
     Inl e \<Rightarrow> Inl e
   | Inr fence \<Rightarrow> if isLeaseOwned fence (db_tasks d) then Inr () else Inl (LeaseLostError (t_id t)))"

definition hasStepOutcome :: "string \<Rightarrow> nat \<Rightarrow> string list \<Rightarrow> db \<Rightarrow> bool" where
  "hasStepOutcome workflowId scheduledSeq eventTypes d \<longleftrightarrow>
     list_ex (\<lambda>r. fst r = workflowId \<and> event_type (event (snd r)) \<in> set eventTypes
       \<and> event_ref (event (snd r)) = Some scheduledSeq) (db_events d)"

datatype append_outcome = Written | AlreadyRecorded

text \<open>The body of the transaction of \<open>appendStepOutcome\<close>, and the transaction.\<close>

definition step_outcome_body :: "clock \<Rightarrow> task \<Rightarrow> nat \<Rightarrow> wf_event \<Rightarrow> string list \<Rightarrow> db \<Rightarrow> append_outcome outcome_db" where
  "step_outcome_body ck t scheduledSeq ev outcomeTypes d =
     (case assertLeaseOwned t d of
        Inl e \<Rightarrow> (d, Inl e)
      | Inr _ \<Rightarrow>
          if hasStepOutcome (t_workflowId t) scheduledSeq outcomeTypes d then (d, Inr AlreadyRecorded)
          else (case appendEvents ck (t_workflowId t) [ev] d of
                  (d', Inl e) \<Rightarrow> (d', Inl e) | (d', Inr _) \<Rightarrow> (d', Inr Written)))"

definition appendStepOutcome :: "clock \<Rightarrow> task \<Rightarrow> nat \<Rightarrow> wf_event \<Rightarrow> string list \<Rightarrow> db \<Rightarrow> append_outcome outcome_db" where
  "appendStepOutcome ck t scheduledSeq ev outcomeTypes =
     withTransaction (step_outcome_body ck t scheduledSeq ev outcomeTypes)"

text \<open>\<open>withTransaction(pool, (client) => appendEvents(client, ...))\<close>, its result ignored.\<close>

definition append_tx :: "clock \<Rightarrow> string \<Rightarrow> wf_event list \<Rightarrow> db \<Rightarrow> unit outcome_db" where
  "append_tx ck workflowId events d = (case withTransaction (appendEvents ck workflowId events) d of
     (d', Inl e) \<Rightarrow> (d', Inl e) | (d', Inr _) \<Rightarrow> (d', Inr ()))"

subsection \<open>From commands to events\<close>

text \<open>
  \<open>new Date(ms).toISOString()\<close>: a time value is an integer of at most \<open>8.64e15\<close> milliseconds (a
  fraction is cut off), otherwise the date is invalid and has no text.
\<close>

definition invalid_time :: js_error where
  "invalid_time = RangeErr ''Invalid time value''"

definition to_instant :: "js_num \<Rightarrow> js_error + int" where
  "to_instant ms = (case ms of
     JNaN \<Rightarrow> Inl invalid_time
   | JFin t \<Rightarrow> if \<bar>t\<bar> > 8640000000000000 then Inl invalid_time
       else Inr (if t < 0 then \<lceil>t\<rceil> else \<lfloor>t\<rfloor>))"

definition js_add :: "rat \<Rightarrow> js_num \<Rightarrow> js_num" where
  "js_add x n = (case n of JNaN \<Rightarrow> JNaN | JFin y \<Rightarrow> JFin (x + y))"

fun commandToEvent :: "clock \<Rightarrow> llm_step_config \<Rightarrow> wf_command \<Rightarrow> js_error + wf_event" where
  "commandToEvent ck llm (ScheduleActivity activityType inp) = Inr (ActivityScheduled activityType inp)"
| "commandToEvent ck llm (CompleteWorkflow r) = Inr (WorkflowCompleted r)"
| "commandToEvent ck llm (FailWorkflow e) = Inr (WorkflowFailed e)"
| "commandToEvent ck llm (RequestLlmCall stepId request requestHash) =
     (let stored = buildStoredRequest request llm in
      Inr (LLM_REQUESTED stepId requestHash (sr_requestStorage stored) (sr_request stored) (cf_maxAttempts llm)))"
| "commandToEvent ck llm (RequestToolCall stepId tool args argsHash) =
     Inr (TOOL_REQUESTED stepId tool args argsHash (cf_toolMaxAttempts llm))"
| "commandToEvent ck llm (ScheduleTimer durationMs) =
     (case to_instant (js_add (ck_date ck) durationMs) of
        Inl e \<Rightarrow> Inl e | Inr fireAt \<Rightarrow> Inr (TimerScheduled fireAt))"

text \<open>\<open>result.commands.map(commandToEvent)\<close>: the first command that throws ends it.\<close>

fun commands_events :: "clock \<Rightarrow> llm_step_config \<Rightarrow> wf_command list \<Rightarrow> js_error + wf_event list" where
  "commands_events ck llm [] = Inr []"
| "commands_events ck llm (c # cs) = (case commandToEvent ck llm c of
     Inl e \<Rightarrow> Inl e
   | Inr ev \<Rightarrow> (case commands_events ck llm cs of Inl e \<Rightarrow> Inl e | Inr evs \<Rightarrow> Inr (ev # evs)))"

subsection \<open>The replay handler\<close>

fun started_of :: "stored_event \<Rightarrow> (string \<times> jsval) option" where
  "started_of e = (case event e of WorkflowStarted t i \<Rightarrow> Some (t, i) | _ \<Rightarrow> None)"

fun is_terminal :: "wf_event \<Rightarrow> bool" where
  "is_terminal (WorkflowCompleted r) = True"
| "is_terminal (WorkflowFailed e) = True"
| "is_terminal (WorkflowCanceled r) = True"
| "is_terminal _ = False"

fun cancellation_of :: "stored_event \<Rightarrow> string option option" where
  "cancellation_of e = (case event e of CancellationRequested reason \<Rightarrow> Some reason | _ \<Rightarrow> None)"

text \<open>\<open>history.find(...)\<close> together with the narrowing of the event found.\<close>

fun find_map :: "('a \<Rightarrow> 'b option) \<Rightarrow> 'a list \<Rightarrow> 'b option" where
  "find_map f [] = None"
| "find_map f (x # xs) = (case f x of Some y \<Rightarrow> Some y | None \<Rightarrow> find_map f xs)"

definition alreadyTerminal :: "stored_event list \<Rightarrow> bool" where
  "alreadyTerminal history \<longleftrightarrow> list_ex (\<lambda>e. is_terminal (event e)) history"

text \<open>\<open>task\<close> contributes its workflow id; \<open>hash\<close> is \<open>sha256Hex\<close>.\<close>

definition workflowReplayHandler :: "clock \<Rightarrow> (db \<Rightarrow> db) \<Rightarrow> (string \<times> workflow_fn) list \<Rightarrow> llm_step_config
    \<Rightarrow> (string \<Rightarrow> string) \<Rightarrow> task \<Rightarrow> db \<Rightarrow> unit outcome_db" where
  "workflowReplayHandler ck between workflows llm hash t d =
     (let w = t_workflowId t; history = getEvents w d in
      case find_map started_of history of
        None \<Rightarrow> (d, Inl (Err (''workflow '' @ w @ '' has no WorkflowStarted event'')))
      | Some (workflowType, inp) \<Rightarrow>
     (case registry_get workflows workflowType of
        None \<Rightarrow> (d, Inl (Err (''no workflow registered for type '' @ quoted workflowType)))
      | Some fn \<Rightarrow>
     (case (find_map cancellation_of history, alreadyTerminal history) of
        (Some reason, False) \<Rightarrow> append_tx ck w [WorkflowCanceled reason] (between d)
      | _ \<Rightarrow>
     (case replay fn inp history (Some hash) of
        Inl (StepRequestMismatchError s i e a k) \<Rightarrow>
          append_tx ck w [WorkflowFailed (error_message (StepRequestMismatchError s i e a k))] (between d)
      | Inl e \<Rightarrow> (d, Inl e)
      | Inr result \<Rightarrow>
          if rr_commands result = [] then (d, Inr ())
          else (case commands_events ck llm (rr_commands result) of
                  Inl e \<Rightarrow> (d, Inl e)
                | Inr events \<Rightarrow> append_tx ck w events (between d))))))"

subsection \<open>The activity and timer handlers\<close>

text \<open>
  An activity is the user's function: from the input and the idempotency key to a value, or the
  message of what it throws.
\<close>

type_synonym activity_fn = "jsval \<Rightarrow> string \<Rightarrow> string + jsval"

fun activity_of :: "stored_event \<Rightarrow> (string \<times> jsval) option" where
  "activity_of e = (case event e of ActivityScheduled t i \<Rightarrow> Some (t, i) | _ \<Rightarrow> None)"

definition activity_outcome_types :: "string list" where
  "activity_outcome_types = [''ActivityCompleted'', ''ActivityFailed'']"

definition has_outcome :: "string list \<Rightarrow> nat \<Rightarrow> stored_event list \<Rightarrow> bool" where
  "has_outcome types scheduledSeq history \<longleftrightarrow>
     list_ex (\<lambda>e. event_type (event e) \<in> set types \<and> event_ref (event e) = Some scheduledSeq) history"

fun activity_result :: "nat \<Rightarrow> string + jsval \<Rightarrow> wf_event" where
  "activity_result n (Inr v) = ActivityCompleted n v"
| "activity_result n (Inl m) = ActivityFailed n m"

definition activityHandler :: "clock \<Rightarrow> (db \<Rightarrow> db) \<Rightarrow> (string \<times> activity_fn) list \<Rightarrow> task \<Rightarrow> db \<Rightarrow> unit outcome_db" where
  "activityHandler ck between activities t d =
     (case t_scheduledEventSeq t of
        None \<Rightarrow> (d, Inl (Err (''activity task '' @ show_nat (t_id t) @ '' has no scheduled_event_seq'')))
      | Some scheduledSeq \<Rightarrow>
     (let w = t_workflowId t; history = getEvents w d in
      case Option.bind (find (\<lambda>e. seq e = scheduledSeq) history) activity_of of
        None \<Rightarrow> (d, Inl (Err (''no ActivityScheduled event at seq '' @ show_nat scheduledSeq @ '' for task '' @ show_nat (t_id t))))
      | Some (activityType, inp) \<Rightarrow>
          if has_outcome activity_outcome_types scheduledSeq history then (d, Inr ())
          else (case registry_get activities activityType of
             None \<Rightarrow> (d, Inl (Err (''no activity registered for type '' @ quoted activityType)))
           | Some fn \<Rightarrow> append_tx ck w
               [activity_result scheduledSeq (fn inp (w @ '':'' @ show_nat scheduledSeq))] (between d))))"

definition timerHandler :: "clock \<Rightarrow> task \<Rightarrow> db \<Rightarrow> unit outcome_db" where
  "timerHandler ck t d = (case t_scheduledEventSeq t of
     None \<Rightarrow> (d, Inl (Err (''timer task '' @ show_nat (t_id t) @ '' has no scheduled_event_seq'')))
   | Some scheduledSeq \<Rightarrow> append_tx ck (t_workflowId t) [TimerFired scheduledSeq] d)"

subsection \<open>The entry points of the application\<close>

text \<open>
  \<open>startWorkflow\<close> is two separate commits; \<open>workflowId\<close> is the fresh UUID. \<open>JSON.stringify\<close> of
  \<open>undefined\<close> is no text, which the column refuses.
\<close>

definition insert_execution :: "clock \<Rightarrow> string \<Rightarrow> string \<Rightarrow> jsval \<Rightarrow> db \<Rightarrow> unit outcome_db" where
  "insert_execution ck workflowId workflowType inp d = (case stringify inp of
     None \<Rightarrow> (d, Inl not_null_violation)
   | Some _ \<Rightarrow> if workflowId \<in> set (execution_ids d)
       then (d, Inl (PgErr ''duplicate key value violates unique constraint workflow_executions_pkey''))
       else (d\<lparr>db_executions := db_executions d @
          [\<lparr>ex_id = workflowId, ex_workflowType = workflowType, ex_input = json_trip inp, ex_status = RUNNING,
            ex_createdAt = ck_now ck, ex_updatedAt = ck_now ck\<rparr>]\<rparr>, Inr ()))"

definition startWorkflow :: "clock \<Rightarrow> (db \<Rightarrow> db) \<Rightarrow> string \<Rightarrow> string \<Rightarrow> jsval \<Rightarrow> db \<Rightarrow> string outcome_db" where
  "startWorkflow ck between workflowId workflowType inp d =
     (case insert_execution ck workflowId workflowType inp d of
        (d1, Inl e) \<Rightarrow> (d1, Inl e)
      | (d1, Inr _) \<Rightarrow> (case append_tx ck workflowId [WorkflowStarted workflowType inp] (between d1) of
          (d2, Inl e) \<Rightarrow> (d2, Inl e) | (d2, Inr _) \<Rightarrow> (d2, Inr workflowId)))"

definition sendSignal :: "clock \<Rightarrow> string \<Rightarrow> string \<Rightarrow> jsval \<Rightarrow> db \<Rightarrow> unit outcome_db" where
  "sendSignal ck workflowId signalName payload = append_tx ck workflowId [SignalReceived signalName payload]"

definition cancelWorkflow :: "clock \<Rightarrow> string \<Rightarrow> string option \<Rightarrow> db \<Rightarrow> unit outcome_db" where
  "cancelWorkflow ck workflowId reason = append_tx ck workflowId [CancellationRequested reason]"

definition formatWorkerId :: "string \<Rightarrow> nat \<Rightarrow> string \<Rightarrow> string" where
  "formatWorkerId hostname pid random = hostname @ ''-'' @ show_nat pid @ ''-'' @ random"

end
