(* ===== verification/Providers.thy ===== *)
theory Providers
  imports Store LlmConfig
begin

section \<open>Providers of LLM calls (packages/llm)\<close>

text \<open>
  prices.ts, errors.ts, mockProvider.ts, anthropicProvider.ts, config.ts, hash.ts and audit.ts.
  \<open>sha256Hex\<close> is a parameter, so is the SDK's client (\<open>create\<close>). A provider's call may write to
  the database (the mock provider's audit), so it is a function of it. Of an error thrown by the SDK
  the model keeps what \<open>mapAnthropicError\<close> reads: its class, message, status and headers.
\<close>

subsection \<open>Types, hashes, prices\<close>

record llm_response =
  rs_text :: string
  rs_toolCalls :: "llm_tool_call list"
  rs_inputTokens :: nat
  rs_outputTokens :: nat
  rs_latencyMs :: int
  rs_model :: string
  rs_stopReason :: "string option"

record llm_call_context =
  cc_workflowId :: string
  cc_stepId :: string
  cc_attempt :: nat

type_synonym provider = "llm_request \<Rightarrow> llm_call_context \<Rightarrow> db \<Rightarrow> llm_response outcome_db"

definition hashLlmRequest :: "(string \<Rightarrow> string) \<Rightarrow> llm_request \<Rightarrow> string" where
  "hashLlmRequest sha256Hex request = sha256Hex (canonicalLlmRequest request)"

definition hashToolCall :: "(string \<Rightarrow> string) \<Rightarrow> string \<Rightarrow> jsval \<Rightarrow> string" where
  "hashToolCall sha256Hex tool args = sha256Hex (canonicalToolCall tool args)"

definition DEFAULT_PRICE_TABLE :: price_table where
  "DEFAULT_PRICE_TABLE =
     [''mock-1'' \<mapsto> \<lparr>mp_inputPerMTokUsd = 1, mp_outputPerMTokUsd = 2\<rparr>,
      ''claude-opus-5-5'' \<mapsto> \<lparr>mp_inputPerMTokUsd = 4, mp_outputPerMTokUsd = 20\<rparr>,
      ''claude-sonnet-5-5'' \<mapsto> \<lparr>mp_inputPerMTokUsd = 2, mp_outputPerMTokUsd = 10\<rparr>,
      ''claude-haiku-4-5'' \<mapsto> \<lparr>mp_inputPerMTokUsd = 1, mp_outputPerMTokUsd = 5\<rparr>]"

text \<open>\<open>parse\<close> is \<open>JSON.parse\<close> at the type of a price table.\<close>

definition loadPriceTable :: "(string \<Rightarrow> js_error + price_table) \<Rightarrow> (string \<rightharpoonup> string) \<Rightarrow> js_error + price_table" where
  "loadPriceTable parse env = (case env ''KARYAKRAM_LLM_PRICES'' of
     None \<Rightarrow> Inr DEFAULT_PRICE_TABLE
   | Some raw \<Rightarrow> if raw = '''' then Inr DEFAULT_PRICE_TABLE
       else (case parse raw of Inl e \<Rightarrow> Inl e | Inr parsed \<Rightarrow> Inr (DEFAULT_PRICE_TABLE ++ parsed)))"

text \<open>
  \<open>table[model]\<close> finds the properties every object inherits: a function or an object without
  prices, with which the arithmetic gives \<open>NaN\<close>. \<open>None\<close> is the result \<open>null\<close>.
\<close>

definition estimateCostUsd :: "string \<Rightarrow> nat \<Rightarrow> nat \<Rightarrow> price_table \<Rightarrow> js_num option" where
  "estimateCostUsd model tokensIn tokensOut table = (case table model of
     Some price \<Rightarrow> Some (JFin ((of_nat tokensIn * mp_inputPerMTokUsd price
                                 + of_nat tokensOut * mp_outputPerMTokUsd price) / 1000000))
   | None \<Rightarrow> if model \<in> set object_prototype_names then Some JNaN else None)"

subsection \<open>The mock provider\<close>

datatype mock_failure_on = On429 | On500 | On503 | On400 | OnTimeout

record mock_failure_rule =
  mr_on :: mock_failure_on
  mr_failAttempts :: nat
  mr_retryAfterMs :: "rat option"
  mr_stepId :: "string option"
  mr_requestHash :: "string option"

record mock_provider =
  mk_audit :: bool
  mk_model :: string
  mk_latencyMs :: "llm_request \<Rightarrow> int"
  mk_failures :: "mock_failure_rule list"

definition default_mock :: mock_provider where
  "default_mock = \<lparr>mk_audit = False, mk_model = ''mock-1'', mk_latencyMs = (\<lambda>_. 0), mk_failures = []\<rparr>"

text \<open>\<open>s.length\<close>: UTF-16 code units.\<close>

definition js_length :: "string \<Rightarrow> nat" where
  "js_length s = length (utf16_of s)"

definition ceil_div :: "nat \<Rightarrow> nat \<Rightarrow> nat" where
  "ceil_div n k = (n + k - 1) div k"

definition approxTokens :: "nat \<Rightarrow> nat" where
  "approxTokens len = max 1 (ceil_div len 4)"

text \<open>
  \<open>s.slice(0, n)\<close>, on code points: the longest prefix of at most \<open>n\<close> UTF-16 code units (a slice that
  cuts a surrogate pair in half is outside the model).
\<close>

fun take_units :: "nat \<Rightarrow> nat list \<Rightarrow> nat list" where
  "take_units n [] = []"
| "take_units n (p # ps) = (let k = length (utf16_units p) in if k \<le> n then p # take_units (n - k) ps else [])"

definition js_slice :: "nat \<Rightarrow> string \<Rightarrow> string" where
  "js_slice n s = utf8_encode (take_units n (utf8_points (map of_char s)))"

definition failureFor :: "mock_failure_rule \<Rightarrow> js_error" where
  "failureFor rule = (case mr_on rule of
     On429 \<Rightarrow> LlmProviderError ''mock: rate limited (429)'' True ''rate_limit'' (mr_retryAfterMs rule)
   | On500 \<Rightarrow> LlmProviderError ''mock: server error (500)'' True ''server_error'' None
   | On503 \<Rightarrow> LlmProviderError ''mock: server error (503)'' True ''server_error'' None
   | OnTimeout \<Rightarrow> LlmProviderError ''mock: request timed out'' True ''timeout'' None
   | On400 \<Rightarrow> LlmProviderError ''mock: bad request (400)'' False ''invalid_request'' None)"

fun maybeFail :: "mock_failure_rule list \<Rightarrow> string \<Rightarrow> llm_call_context \<Rightarrow> js_error option" where
  "maybeFail [] requestHash ctx = None"
| "maybeFail (rule # rules) requestHash ctx =
     (if mr_failAttempts rule < cc_attempt ctx then maybeFail rules requestHash ctx
      else if mr_stepId rule \<noteq> None \<and> mr_stepId rule \<noteq> Some (cc_stepId ctx) then maybeFail rules requestHash ctx
      else if mr_requestHash rule \<noteq> None \<and> mr_requestHash rule \<noteq> Some requestHash then maybeFail rules requestHash ctx
      else Some (failureFor rule))"

definition request_params :: "llm_request \<Rightarrow> (string \<times> jsval) list" where
  "request_params request = (case rq_params request of Some ps \<Rightarrow> ps | None \<Rightarrow> [])"

definition mock_text :: "(string \<Rightarrow> string) \<Rightarrow> llm_request \<Rightarrow> string" where
  "mock_text sha256Hex request =
     (case map_of (request_params request) ''mockOutput'' of
        Some (JStr s) \<Rightarrow> s
      | _ \<Rightarrow> ''mock('' @ take 12 (sha256Hex (canonicalLlmRequest request)) @ ''): ''
          @ js_slice 80 (case find (\<lambda>m. m_role m = ''user'') (rev (rq_messages request)) of
              Some m \<Rightarrow> m_content m | None \<Rightarrow> ''''))"

definition mock_tool_calls :: "(string \<Rightarrow> string) \<Rightarrow> llm_request \<Rightarrow> llm_tool_call list" where
  "mock_tool_calls sha256Hex request =
     (case map_of (request_params request) ''mockToolCall'' of
        Some (JObj kvs) \<Rightarrow> (case map_of kvs ''name'' of
            Some (JStr name) \<Rightarrow>
              [\<lparr>tc_id = ''call_'' @ take 8 (take 12 (sha256Hex (canonicalLlmRequest request))), tc_name = name,
                tc_arguments = nullish (or_default (map_of kvs ''arguments'') JUndef) (JObj [])\<rparr>]
          | _ \<Rightarrow> [])
      | _ \<Rightarrow> [])"

definition resolve_model :: "string \<Rightarrow> string \<Rightarrow> string" where
  "resolve_model fallback model = (if model = ''default'' \<or> model = '''' then fallback else model)"

definition mock_response :: "(string \<Rightarrow> string) \<Rightarrow> mock_provider \<Rightarrow> llm_request \<Rightarrow> llm_response" where
  "mock_response sha256Hex p request =
     (let txt = mock_text sha256Hex request; calls = mock_tool_calls sha256Hex request in
      \<lparr>rs_text = txt, rs_toolCalls = calls,
       rs_inputTokens = approxTokens (sum_list (map (js_length \<circ> m_content) (rq_messages request))),
       rs_outputTokens = approxTokens (js_length txt), rs_latencyMs = mk_latencyMs p request,
       rs_model = resolve_model (mk_model p) (rq_model request),
       rs_stopReason = Some (if calls \<noteq> [] then ''tool_use'' else ''end_turn'')\<rparr>)"

definition mock_complete :: "clock \<Rightarrow> (string \<Rightarrow> string) \<Rightarrow> mock_provider \<Rightarrow> provider" where
  "mock_complete ck sha256Hex p request ctx d =
     (let requestHash = hashLlmRequest sha256Hex request;
          d' = (if mk_audit p then recordProviderCall ck (cc_workflowId ctx) (cc_stepId ctx) requestHash (Some (cc_attempt ctx)) d
                else d) in
      (d', case maybeFail (mk_failures p) requestHash ctx of
             Some e \<Rightarrow> Inl e | None \<Rightarrow> Inr (mock_response sha256Hex p request)))"

subsection \<open>The Anthropic provider\<close>

text \<open>\<open>get\<close> of a \<open>Headers\<close> object, or the own string properties of a plain one.\<close>

datatype header_like = NoHeaders | Headers "string \<Rightarrow> string option" | HeaderObject "string \<rightharpoonup> string"

definition readHeader :: "header_like \<Rightarrow> string \<Rightarrow> string option" where
  "readHeader headers name = (case headers of
     NoHeaders \<Rightarrow> None | Headers get \<Rightarrow> get name | HeaderObject h \<Rightarrow> h name)"

text \<open>
  \<open>Number(s)\<close> where it is finite (\<open>None\<close> otherwise): white space around, nothing (zero), or a decimal
  literal with a sign, a fraction, an exponent. Hexadecimal, octal and binary literals are left out.
\<close>

definition digits_value :: "string \<Rightarrow> rat" where
  "digits_value ds = of_nat (read_nat ds)"

definition read_exponent :: "string \<Rightarrow> int option" where
  "read_exponent s = (if s = '''' then Some 0
     else if hd s = CHR ''e'' \<or> hd s = CHR ''E'' then
       (let t = tl s; neg = (t \<noteq> [] \<and> hd t = CHR ''-'');
            u = (if t \<noteq> [] \<and> (hd t = CHR ''-'' \<or> hd t = CHR ''+'') then tl t else t) in
        if u \<noteq> [] \<and> list_all is_digit u then Some (if neg then - int (read_nat u) else int (read_nat u)) else None)
     else None)"

definition js_Number :: "string \<Rightarrow> rat option" where
  "js_Number s = (let t = trim s in
     if t = '''' then Some 0
     else let neg = (hd t = CHR ''-''); u = (if hd t = CHR ''-'' \<or> hd t = CHR ''+'' then tl t else t);
              whole = takeWhile is_digit u; r = dropWhile is_digit u;
              frac = (if r \<noteq> [] \<and> hd r = CHR ''.'' then takeWhile is_digit (tl r) else '''');
              e = (if r \<noteq> [] \<and> hd r = CHR ''.'' then dropWhile is_digit (tl r) else r) in
       if whole = '''' \<and> frac = '''' then None
       else (case read_exponent e of
               None \<Rightarrow> None
             | Some k \<Rightarrow> (let v = (digits_value whole + digits_value frac / 10 ^ length frac)
                                * (if 0 \<le> k then 10 ^ nat k else 1 / 10 ^ nat (- k)) in
                          Some (if neg then - v else v))))"

definition retryAfterMs :: "header_like \<Rightarrow> rat option" where
  "retryAfterMs headers = (case Option.bind (readHeader headers ''retry-after-ms'') js_Number of
     Some ms \<Rightarrow> Some (max 0 ms)
   | None \<Rightarrow> (case Option.bind (readHeader headers ''retry-after'') js_Number of
       Some s \<Rightarrow> Some (max 0 (s * 1000))
     | None \<Rightarrow> None))"

datatype sdk_error =
    ThrownProviderError string bool string "rat option"
  | APIConnectionTimeoutError string
  | APIConnectionError string
  | APIError string "nat option" header_like
  | OtherError string

definition mapAnthropicError :: "sdk_error \<Rightarrow> js_error" where
  "mapAnthropicError err = (case err of
     ThrownProviderError m r c a \<Rightarrow> LlmProviderError m r c a
   | APIConnectionTimeoutError m \<Rightarrow> LlmProviderError m True ''timeout'' None
   | APIConnectionError m \<Rightarrow> LlmProviderError m True ''connection'' None
   | APIError m status headers \<Rightarrow>
       (let after = retryAfterMs headers in
        if status = Some 429 then LlmProviderError m True ''rate_limit'' after
        else if (case status of Some s \<Rightarrow> 500 \<le> s \<or> s = 408 \<or> s = 409 | None \<Rightarrow> False)
          then LlmProviderError m True ''server_error'' after
        else if status = Some 401 \<or> status = Some 403 then LlmProviderError m False ''auth'' after
        else LlmProviderError m False ''invalid_request'' after)
   | OtherError m \<Rightarrow> LlmProviderError m False ''unknown'' None)"

record sdk_request =
  sq_model :: string
  sq_max_tokens :: string
  sq_messages :: "llm_message list"
  sq_system :: "string option"
  sq_temperature :: "string option"
  sq_tools :: "llm_tool_definition list option"

definition js_join :: "string \<Rightarrow> string list \<Rightarrow> string" where
  "js_join sep xs = (case xs of [] \<Rightarrow> '''' | x # ys \<Rightarrow> foldl (\<lambda>a y. a @ sep @ y) x ys)"

definition blank_line :: string where
  "blank_line = [CHR 0x0A, CHR 0x0A]"

text \<open>An empty description is left out; numbers are their texts.\<close>

definition sdk_tool :: "llm_tool_definition \<Rightarrow> llm_tool_definition" where
  "sdk_tool t = t\<lparr>td_description := (case td_description t of Some [] \<Rightarrow> None | x \<Rightarrow> x)\<rparr>"

definition buildParams :: "string \<Rightarrow> string \<Rightarrow> llm_request \<Rightarrow> sdk_request" where
  "buildParams defaultModel defaultMaxTokens request =
     (let system = js_join blank_line (map m_content (filter (\<lambda>m. m_role m = ''system'') (rq_messages request)));
          params = request_params request in
      \<lparr>sq_model = resolve_model defaultModel (rq_model request),
       sq_max_tokens = (case map_of params ''maxTokens'' of Some (JNum n) \<Rightarrow> n | _ \<Rightarrow> defaultMaxTokens),
       sq_messages = map (\<lambda>m. \<lparr>m_role = (if m_role m = ''assistant'' then ''assistant'' else ''user''), m_content = m_content m\<rparr>)
         (filter (\<lambda>m. m_role m \<noteq> ''system'') (rq_messages request)),
       sq_system = (if system = '''' then None else Some system),
       sq_temperature = (case map_of params ''temperature'' of Some (JNum n) \<Rightarrow> Some n | _ \<Rightarrow> None),
       sq_tools = (case rq_tools request of
          Some ts \<Rightarrow> if ts = [] then None else Some (map sdk_tool ts) | None \<Rightarrow> None)\<rparr>)"

datatype content_block = TextBlock string | ToolUseBlock string string jsval | OtherBlock

record sdk_message =
  sm_content :: "content_block list"
  sm_inputTokens :: nat
  sm_outputTokens :: nat
  sm_model :: string
  sm_stop_reason :: "string option"

fun block_text :: "content_block \<Rightarrow> string" where
  "block_text (TextBlock t) = t"
| "block_text _ = ''''"

fun block_call :: "content_block \<Rightarrow> llm_tool_call option" where
  "block_call (ToolUseBlock i n a) = Some \<lparr>tc_id = i, tc_name = n, tc_arguments = a\<rparr>"
| "block_call _ = None"

text \<open>\<open>elapsed\<close> is the time the call took; \<open>create\<close> the SDK's method.\<close>

definition anthropic_complete :: "string \<Rightarrow> string \<Rightarrow> (sdk_request \<Rightarrow> sdk_error + sdk_message) \<Rightarrow> int
    \<Rightarrow> llm_request \<Rightarrow> js_error + llm_response" where
  "anthropic_complete defaultModel defaultMaxTokens create elapsed request =
     (case create (buildParams defaultModel defaultMaxTokens request) of
        Inl err \<Rightarrow> Inl (mapAnthropicError err)
      | Inr message \<Rightarrow> Inr
          \<lparr>rs_text = concat (map block_text (sm_content message)),
           rs_toolCalls = List.map_filter block_call (sm_content message),
           rs_inputTokens = sm_inputTokens message, rs_outputTokens = sm_outputTokens message,
           rs_latencyMs = elapsed, rs_model = sm_model message,
           rs_stopReason = (case sm_stop_reason message of Some [] \<Rightarrow> None | x \<Rightarrow> x)\<rparr>)"

subsection \<open>Choosing a provider\<close>

definition DEFAULT_ANTHROPIC_MODEL :: string where
  "DEFAULT_ANTHROPIC_MODEL = ''claude-opus-5-5''"

text \<open>What is constructed; the options of the mock are texts still to be parsed.\<close>

datatype chosen_provider = UseMock "string option" "string option" | UseAnthropic string string

definition non_empty :: "string option \<Rightarrow> string option" where
  "non_empty v = (case v of Some [] \<Rightarrow> None | x \<Rightarrow> x)"

definition createProviderFromEnv :: "(string \<rightharpoonup> string) \<Rightarrow> js_error + chosen_provider" where
  "createProviderFromEnv env =
     (let choice = map lower_char (trim (or_default (env ''LLM_PROVIDER'') ''mock'')) in
      if choice = ''mock'' then Inr (UseMock (non_empty (env ''MOCK_LLM_FAILURES'')) (env ''MOCK_LLM_LATENCY_MS''))
      else if choice = ''anthropic'' then
        (case non_empty (env ''ANTHROPIC_API_KEY'') of
           None \<Rightarrow> Inl (Err (''LLM_PROVIDER=anthropic but ANTHROPIC_API_KEY is not set. Set the key, or set ''
             @ ''LLM_PROVIDER=mock. KaryaKram will not silently fall back to the mock provider.''))
         | Some apiKey \<Rightarrow> Inr (UseAnthropic apiKey (or_default (env ''ANTHROPIC_MODEL'') DEFAULT_ANTHROPIC_MODEL)))
      else Inl (Err (''Unknown LLM_PROVIDER '' @ quoted choice @ '' (expected '' @ quoted ''mock'' @ '' or ''
             @ quoted ''anthropic'' @ '').'')))"

end
