(* ===== verification/StepHandlers.thy ===== *)
theory StepHandlers
  imports Handlers Providers
begin

section \<open>Tool and LLM steps (packages/worker-sdk: tools.ts, toolHandler.ts, llmHandler.ts)\<close>

text \<open>
  The registry of tools and the two handlers of durable steps. The JSON-Schema compiler (ajv) is a
  parameter: from a schema to a validator, which answers with the text of its errors or with nothing.
  A tool's handler is the user's function; it may write through the transaction it is given, so it is
  a function of the database. \<open>gap 0\<close> is what other connections commit after the history was read,
  \<open>gap 1\<close> while the tool or the provider runs, \<open>gap 2\<close> before a failure is recorded. The fault
  points (faults.ts) do nothing outside the chaos runs; a process killed at one of them leaves the
  database as the last committed transaction did.
\<close>

subsection \<open>The registry\<close>

record tool_context =
  tx_workflowId :: string
  tx_stepId :: string
  tx_idempotencyKey :: string

type_synonym tool_fn = "jsval \<Rightarrow> tool_context \<Rightarrow> db \<Rightarrow> jsval outcome_db"

record tool_definition =
  tl_name :: string
  tl_description :: "string option"
  tl_argsSchema :: "(string \<times> jsval) list"
  tl_handler :: tool_fn

type_synonym validator = "jsval \<Rightarrow> string option"

record tool_registry =
  tg_tools :: "(string \<times> tool_definition) list"
  tg_validators :: "(string \<times> validator) list"

definition empty_registry :: tool_registry where
  "empty_registry = \<lparr>tg_tools = [], tg_validators = []\<rparr>"

definition register :: "((string \<times> jsval) list \<Rightarrow> js_error + validator) \<Rightarrow> tool_definition \<Rightarrow> tool_registry
    \<Rightarrow> js_error + tool_registry" where
  "register compile tool reg =
     (if map_of (tg_tools reg) (tl_name tool) \<noteq> None
      then Inl (Err (''tool '' @ quoted (tl_name tool) @ '' is already registered''))
      else (case compile (tl_argsSchema tool) of
              Inl e \<Rightarrow> Inl e
            | Inr v \<Rightarrow> Inr \<lparr>tg_tools = tg_tools reg @ [(tl_name tool, tool)],
                            tg_validators = tg_validators reg @ [(tl_name tool, v)]\<rparr>))"

definition get_tool :: "tool_registry \<Rightarrow> string \<Rightarrow> tool_definition option" where
  "get_tool reg name = map_of (tg_tools reg) name"

datatype tool_validation = Valid | Invalid string string

definition validate :: "tool_registry \<Rightarrow> string \<Rightarrow> jsval \<Rightarrow> tool_validation" where
  "validate reg name args = (case map_of (tg_validators reg) name of
     None \<Rightarrow> Invalid ''unknown_tool'' (''tool '' @ quoted name @ '' is not registered'')
   | Some v \<Rightarrow> (case v args of
       None \<Rightarrow> Valid
     | Some errs \<Rightarrow> Invalid ''invalid_args'' (''invalid arguments for tool '' @ quoted name @ '': '' @ errs)))"

definition toLlmTools :: "tool_registry \<Rightarrow> llm_tool_definition list" where
  "toLlmTools reg = map (\<lambda>(n, t). \<lparr>td_name = tl_name t, td_description = non_empty (tl_description t),
     td_inputSchema = tl_argsSchema t\<rparr>) (tg_tools reg)"

subsection \<open>Tool steps\<close>

definition tool_outcome_types :: "string list" where
  "tool_outcome_types = [''TOOL_COMPLETED'', ''TOOL_FAILED'']"

record tool_requested =
  trq_stepId :: string
  trq_tool :: string
  trq_args :: jsval
  trq_argsHash :: string

fun tool_requested_of :: "stored_event \<Rightarrow> tool_requested option" where
  "tool_requested_of e = (case event e of
     TOOL_REQUESTED stepId tool args argsHash maxAttempts \<Rightarrow>
       Some \<lparr>trq_stepId = stepId, trq_tool = tool, trq_args = args, trq_argsHash = argsHash\<rparr>
   | _ \<Rightarrow> None)"

text \<open>What \<open>executeAtomically\<close> does after the tool ran: record its result, then the outcome if none is there.\<close>

definition record_tool_outcome :: "clock \<Rightarrow> task \<Rightarrow> tool_requested \<Rightarrow> nat \<Rightarrow> jsval \<Rightarrow> int \<Rightarrow> db \<Rightarrow> unit outcome_db" where
  "record_tool_outcome ck t requested scheduledSeq result latencyMs d =
     (case assertLeaseOwned t d of
        Inl e \<Rightarrow> (d, Inl e)
      | Inr _ \<Rightarrow>
          if hasStepOutcome (t_workflowId t) scheduledSeq tool_outcome_types d then (d, Inr ())
          else (case appendEvents ck (t_workflowId t)
                  [TOOL_COMPLETED (trq_stepId requested) scheduledSeq (trq_tool requested) (nullish result JNull) latencyMs (t_attempt t)] d of
                  (d', Inl e) \<Rightarrow> (d', Inl e) | (d', Inr _) \<Rightarrow> (d', Inr ())))"

definition tool_claim_of :: "task \<Rightarrow> tool_requested \<Rightarrow> tool_claim" where
  "tool_claim_of t requested = \<lparr>tm_workflowId = t_workflowId t, tm_stepId = trq_stepId requested,
     tm_tool = trq_tool requested, tm_argsHash = trq_argsHash requested\<rparr>"

definition tool_context_of :: "task \<Rightarrow> tool_requested \<Rightarrow> tool_context" where
  "tool_context_of t requested = \<lparr>tx_workflowId = t_workflowId t, tx_stepId = trq_stepId requested,
     tx_idempotencyKey = t_workflowId t @ '':'' @ trq_stepId requested\<rparr>"

text \<open>The statements between \<open>BEGIN\<close> and \<open>COMMIT\<close>; \<open>others\<close> is what is committed while the tool runs.\<close>

definition tool_transaction :: "clock \<Rightarrow> (db \<Rightarrow> db) \<Rightarrow> int \<Rightarrow> task \<Rightarrow> tool_requested \<Rightarrow> nat \<Rightarrow> tool_fn \<Rightarrow> db \<Rightarrow> unit outcome_db" where
  "tool_transaction ck others latencyMs t requested scheduledSeq handler d =
     (case assertLeaseOwned t d of
        Inl e \<Rightarrow> (d, Inl e)
      | Inr _ \<Rightarrow>
     (case claimToolExecution ck (tool_claim_of t requested) d of
        (d1, Claimed) \<Rightarrow>
          (case handler (trq_args requested) (tool_context_of t requested) d1 of
             (d2, Inl e) \<Rightarrow> (d2, Inl e)
           | (d2, Inr result) \<Rightarrow> record_tool_outcome ck t requested scheduledSeq result latencyMs
               (others (completeToolExecution ck (t_workflowId t) (trq_stepId requested) result d2)))
      | (d1, NotClaimed result) \<Rightarrow> record_tool_outcome ck t requested scheduledSeq result 0 (others d1)))"

definition executeAtomically :: "clock \<Rightarrow> (db \<Rightarrow> db) \<Rightarrow> int \<Rightarrow> task \<Rightarrow> tool_requested \<Rightarrow> nat \<Rightarrow> tool_fn \<Rightarrow> db \<Rightarrow> unit outcome_db" where
  "executeAtomically ck others latencyMs t requested scheduledSeq handler d =
     (case tool_transaction ck others latencyMs t requested scheduledSeq handler d of
        (d', Inr x) \<Rightarrow> (d', Inr x)
      | (d', Inl e) \<Rightarrow> (rollback (others d) d', Inl e))"

text \<open>\<open>err instanceof ToolError ? err : new ToolError(message, ...)\<close>\<close>

fun as_tool_error :: "js_error \<Rightarrow> string \<times> bool \<times> string \<times> rat option" where
  "as_tool_error (ToolError m r c a) = (m, r, c, a)"
| "as_tool_error e = (error_message e, False, ''tool_error'', None)"

definition tool_failed :: "task \<Rightarrow> tool_requested \<Rightarrow> nat \<Rightarrow> string \<Rightarrow> string \<Rightarrow> bool \<Rightarrow> wf_event" where
  "tool_failed t requested scheduledSeq error code retryable =
     TOOL_FAILED (trq_stepId requested) scheduledSeq (trq_tool requested) error code retryable (t_attempt t)"

text \<open>\<open>await appendStepOutcome(...)\<close>, its result ignored.\<close>

definition record_outcome :: "clock \<Rightarrow> task \<Rightarrow> nat \<Rightarrow> wf_event \<Rightarrow> string list \<Rightarrow> db \<Rightarrow> unit outcome_db" where
  "record_outcome ck t scheduledSeq ev types d = (case appendStepOutcome ck t scheduledSeq ev types d of
     (d', Inl e) \<Rightarrow> (d', Inl e) | (d', Inr _) \<Rightarrow> (d', Inr ()))"

text \<open>The policy of both handlers for a failed attempt: throw to be retried, or record the failure.\<close>

definition settle_failure :: "clock \<Rightarrow> task \<Rightarrow> nat \<Rightarrow> string list \<Rightarrow> bool \<Rightarrow> js_error \<Rightarrow> wf_event \<Rightarrow> (db \<Rightarrow> db) \<Rightarrow> db \<Rightarrow> unit outcome_db" where
  "settle_failure ck t scheduledSeq types retryable err failed gap d =
     (if retryable \<and> \<not> t_maxAttempts t \<le> t_attempt t then (d, Inl err)
      else (case record_outcome ck t scheduledSeq failed types (gap d) of
              (d', Inl e) \<Rightarrow> (d', Inl e)
            | (d', Inr _) \<Rightarrow> (d', if retryable then Inl err else Inr ())))"

definition toolCallHandler :: "clock \<Rightarrow> (nat \<Rightarrow> db \<Rightarrow> db) \<Rightarrow> int \<Rightarrow> tool_registry \<Rightarrow> (string \<Rightarrow> string) \<Rightarrow> task \<Rightarrow> db \<Rightarrow> unit outcome_db" where
  "toolCallHandler ck gap latencyMs reg sha256Hex t d =
     (case t_scheduledEventSeq t of
        None \<Rightarrow> (d, Inl (Err (''tool task '' @ show_nat (t_id t) @ '' has no scheduled_event_seq'')))
      | Some scheduledSeq \<Rightarrow>
     (let history = getEvents (t_workflowId t) d in
      case Option.bind (find (\<lambda>e. seq e = scheduledSeq) history) tool_requested_of of
        None \<Rightarrow> (d, Inl (Err (''no TOOL_REQUESTED event at seq '' @ show_nat scheduledSeq @ '' for task '' @ show_nat (t_id t))))
      | Some requested \<Rightarrow>
          if has_outcome tool_outcome_types scheduledSeq history then (d, Inr ())
          else (case validate reg (trq_tool requested) (trq_args requested) of
             Invalid code message \<Rightarrow>
               record_outcome ck t scheduledSeq (tool_failed t requested scheduledSeq message code False) tool_outcome_types (gap 0 d)
           | Valid \<Rightarrow>
               if hashToolCall sha256Hex (trq_tool requested) (trq_args requested) \<noteq> trq_argsHash requested
               then record_outcome ck t scheduledSeq (tool_failed t requested scheduledSeq
                      ''stored arguments do not match their recorded hash'' ''args_hash_mismatch'' False) tool_outcome_types (gap 0 d)
               else (case get_tool reg (trq_tool requested) of
                  None \<Rightarrow> (d, Inl (Err (''tool '' @ quoted (trq_tool requested) @ '' vanished from the registry'')))
                | Some tool \<Rightarrow>
                    (case executeAtomically ck (gap 1) latencyMs t requested scheduledSeq (tl_handler tool) (gap 0 d) of
                       (d', Inr _) \<Rightarrow> (d', Inr ())
                     | (d', Inl (LeaseLostError i)) \<Rightarrow> (d', Inl (LeaseLostError i))
                     | (d', Inl err) \<Rightarrow> (case as_tool_error err of (m, retryable, code, after) \<Rightarrow>
                         settle_failure ck t scheduledSeq tool_outcome_types retryable (ToolError m retryable code after)
                           (tool_failed t requested scheduledSeq m code retryable) (gap 2) d'))))))"

subsection \<open>LLM steps\<close>

definition llm_outcome_types :: "string list" where
  "llm_outcome_types = [''LLM_COMPLETED'', ''LLM_FAILED'']"

record llm_requested =
  lrq_stepId :: string
  lrq_requestHash :: string
  lrq_requestStorage :: llm_request_storage
  lrq_request :: "llm_request option"

fun llm_requested_of :: "stored_event \<Rightarrow> llm_requested option" where
  "llm_requested_of e = (case event e of
     LLM_REQUESTED stepId requestHash storage request maxAttempts \<Rightarrow>
       Some \<lparr>lrq_stepId = stepId, lrq_requestHash = requestHash, lrq_requestStorage = storage, lrq_request = request\<rparr>
   | _ \<Rightarrow> None)"

text \<open>The result of \<open>resolveRequest\<close>: the reason it failed, or the request.\<close>

type_synonym resolved = "string + llm_request"

text \<open>Re-deriving the request by a replay of the recorded history.\<close>

definition derive_request :: "stored_event list \<Rightarrow> llm_requested \<Rightarrow> (string \<times> workflow_fn) list \<Rightarrow> (string \<Rightarrow> string) \<Rightarrow> resolved" where
  "derive_request history requested workflows sha256Hex =
     (case find_map started_of history of
        None \<Rightarrow> Inl ''workflow has no WorkflowStarted event''
      | Some (workflowType, inp) \<Rightarrow>
     (case registry_get workflows workflowType of
        None \<Rightarrow> Inl (''no workflow registered for '' @ quoted workflowType)
      | Some fn \<Rightarrow>
     (case replay fn inp history (Some sha256Hex) of
        Inl err \<Rightarrow> Inl (''could not re-derive request: '' @ error_message err)
      | Inr result \<Rightarrow>
     (case map_of (rr_pendingLlmRequests result) (lrq_stepId requested) of
        None \<Rightarrow> Inl (''step '' @ lrq_stepId requested @ '' not found while re-deriving'')
      | Some derived \<Rightarrow>
          if hashLlmRequest sha256Hex derived \<noteq> lrq_requestHash requested
          then Inl ''derived request hash differs from the recorded one'' else Inr derived))))"

definition resolveRequest :: "stored_event list \<Rightarrow> llm_requested \<Rightarrow> (string \<times> workflow_fn) list \<Rightarrow> (string \<Rightarrow> string) \<Rightarrow> resolved" where
  "resolveRequest history requested workflows sha256Hex =
     (case (lrq_requestStorage requested, lrq_request requested) of
        (StFull, Some request) \<Rightarrow>
          if hashLlmRequest sha256Hex request \<noteq> lrq_requestHash requested
          then Inl ''stored request does not match its recorded hash'' else Inr request
      | _ \<Rightarrow> derive_request history requested workflows sha256Hex)"

fun as_provider_error :: "js_error \<Rightarrow> string \<times> bool \<times> string \<times> rat option" where
  "as_provider_error (LlmProviderError m r c a) = (m, r, c, a)"
| "as_provider_error e = (error_message e, False, ''unknown'', None)"

definition llm_failed :: "task \<Rightarrow> llm_requested \<Rightarrow> nat \<Rightarrow> string \<Rightarrow> string \<Rightarrow> bool \<Rightarrow> wf_event" where
  "llm_failed t requested scheduledSeq error code retryable =
     LLM_FAILED (lrq_stepId requested) scheduledSeq error code retryable (t_attempt t)"

definition llm_completed :: "llm_step_config \<Rightarrow> task \<Rightarrow> llm_requested \<Rightarrow> nat \<Rightarrow> llm_response \<Rightarrow> wf_event" where
  "llm_completed config t requested scheduledSeq response =
     (let capped = capResponse (rs_text response) (rs_toolCalls response) (cf_maxStoredBytes config) in
      LLM_COMPLETED (lrq_stepId requested) scheduledSeq (lrq_requestHash requested)
        (cp_text capped) (cp_toolCalls capped) (cp_truncated capped) (rs_model response)
        (rs_inputTokens response) (rs_outputTokens response) (rs_latencyMs response)
        (estimateCostUsd (rs_model response) (rs_inputTokens response) (rs_outputTokens response) (cf_priceTable config))
        (t_attempt t))"

definition llm_context :: "task \<Rightarrow> llm_requested \<Rightarrow> llm_call_context" where
  "llm_context t requested = \<lparr>cc_workflowId = t_workflowId t, cc_stepId = lrq_stepId requested, cc_attempt = t_attempt t\<rparr>"

definition llmCallHandler :: "clock \<Rightarrow> (nat \<Rightarrow> db \<Rightarrow> db) \<Rightarrow> provider \<Rightarrow> (string \<times> workflow_fn) list \<Rightarrow> llm_step_config
    \<Rightarrow> (string \<Rightarrow> string) \<Rightarrow> task \<Rightarrow> db \<Rightarrow> unit outcome_db" where
  "llmCallHandler ck gap provider workflows config sha256Hex t d =
     (case t_scheduledEventSeq t of
        None \<Rightarrow> (d, Inl (Err (''llm task '' @ show_nat (t_id t) @ '' has no scheduled_event_seq'')))
      | Some scheduledSeq \<Rightarrow>
     (let history = getEvents (t_workflowId t) d in
      case Option.bind (find (\<lambda>e. seq e = scheduledSeq) history) llm_requested_of of
        None \<Rightarrow> (d, Inl (Err (''no LLM_REQUESTED event at seq '' @ show_nat scheduledSeq @ '' for task '' @ show_nat (t_id t))))
      | Some requested \<Rightarrow>
          if has_outcome llm_outcome_types scheduledSeq history then (d, Inr ())
          else (case resolveRequest history requested workflows sha256Hex of
             Inl reason \<Rightarrow>
               record_outcome ck t scheduledSeq (llm_failed t requested scheduledSeq reason ''request_unavailable'' False)
                 llm_outcome_types (gap 0 d)
           | Inr request \<Rightarrow>
               (case provider request (llm_context t requested) (gap 0 d) of
                  (d', Inl err) \<Rightarrow> (case as_provider_error err of (m, retryable, code, after) \<Rightarrow>
                     settle_failure ck t scheduledSeq llm_outcome_types retryable (LlmProviderError m retryable code after)
                       (llm_failed t requested scheduledSeq m code retryable) (gap 2) d')
                | (d', Inr response) \<Rightarrow>
                     record_outcome ck t scheduledSeq (llm_completed config t requested scheduledSeq response)
                       llm_outcome_types (gap 1 d')))))"

end
