(* ===== verification/LlmConfigProps.thy ===== *)
theory LlmConfigProps
  imports LlmConfig "HOL-Library.Sublist"
begin

section \<open>Stored sizes and the stored copy of a prompt\<close>

subsection \<open>Cutting at a character\<close>

lemma is_continuation_char_of: "(b :: nat) < 256 \<Longrightarrow> is_continuation (char_of b) \<longleftrightarrow> 128 \<le> b \<and> b < 192"
  by (simp add: is_continuation_def)

lemma utf8_char_shape:
  assumes "p < 0x110000"
  shows "\<exists>b bs. utf8_char p = b # bs \<and> \<not> is_continuation (char_of b)
    \<and> (\<forall>x \<in> set bs. is_continuation (char_of x)) \<and> (b < 128 \<or> 192 \<le> b)"
proof -
  have m: "q mod 64 < (64 :: nat)" for q by simp
  have c: "is_continuation (char_of (128 + q mod 64))" for q :: nat
    using m [of q] by (simp add: is_continuation_char_of)
  have l: "p < 0x800 \<Longrightarrow> p div 0x40 < 32" "p < 0x10000 \<Longrightarrow> p div 0x1000 < 16" "p div 0x40000 < 5"
    using assms by (simp_all add: div_less_iff_less_mult)
  show ?thesis
    using assms l by (auto simp: utf8_char_def is_continuation_char_of c)
qed

lemma back_up_append:
  assumes "xs \<noteq> []" "rest \<noteq> []" "\<not> is_continuation (hd rest)"
  shows "back_up (xs @ rest) (length xs + m) = length xs + back_up rest m"
proof (induction m)
  case 0
  obtain n where n: "length xs = Suc n" using assms(1) by (cases xs) auto
  have "js_at (xs @ rest) (Suc n) = Some (hd rest)"
    using assms(2) n by (cases rest) (simp_all add: js_at_append)
  with assms(3) n show ?case by simp
next
  case (Suc m)
  have "js_at (xs @ rest) (Suc (length xs + m)) = js_at rest (Suc m)" by (simp add: js_at_append)
  with Suc show ?case by (auto split: option.splits)
qed

lemma back_up_inside:
  assumes "\<forall>i. 0 < i \<and> i \<le> n \<longrightarrow> (\<exists>c. js_at s i = Some c \<and> is_continuation c)"
  shows "back_up s n = 0"
  using assms
proof (induction n)
  case (Suc n)
  from Suc.prems obtain c where "js_at s (Suc n) = Some c" "is_continuation c" by blast
  with Suc show ?case by simp
qed simp

fun fitting :: "nat list \<Rightarrow> nat \<Rightarrow> nat list" where
  "fitting [] n = []"
| "fitting (p # ps) n = (if length (utf8_char p) \<le> n then p # fitting ps (n - length (utf8_char p)) else [])"

lemma length_utf8_encode: "length (utf8_encode ps) = length (utf8_bytes ps)"
  by (simp add: utf8_encode_def)

lemma utf8_encode_Cons: "utf8_encode (p # ps) = map char_of (utf8_char p) @ utf8_encode ps"
  by (simp add: utf8_encode_def utf8_bytes_def)

lemma utf8_encode_hd: "list_all scalar ps \<Longrightarrow> utf8_encode ps \<noteq> [] \<Longrightarrow> \<not> is_continuation (hd (utf8_encode ps))"
proof (cases ps)
  case (Cons p qs)
  assume "list_all scalar ps"
  with Cons have "p < 0x110000" using scalar_bound by simp
  from utf8_char_shape [OF this] Cons show ?thesis by (auto simp: utf8_encode_Cons)
qed (simp add: utf8_encode_def utf8_bytes_def)

lemma js_at_nth_map: "j < length bs \<Longrightarrow> js_at (map f bs) j = Some (f (bs ! j))"
  by (simp add: js_at_conv)

lemma back_up_encode:
  "list_all scalar ps \<Longrightarrow> n < length (utf8_encode ps) \<Longrightarrow>
   back_up (utf8_encode ps) n = length (utf8_encode (fitting ps n))"
proof (induction ps arbitrary: n)
  case Nil
  then show ?case by (simp add: utf8_encode_def utf8_bytes_def)
next
  case (Cons p ps)
  have "p < 0x110000" using Cons.prems(1) scalar_bound by simp
  from utf8_char_shape [OF this] obtain b bs where shape: "utf8_char p = b # bs"
    "\<forall>x \<in> set bs. is_continuation (char_of x)" by blast
  show ?case
  proof (cases "length (utf8_char p) \<le> n")
    case True
    then obtain m where m: "n = length (utf8_char p) + m" using le_Suc_ex by blast
    then have len: "m < length (utf8_encode ps)" using Cons.prems(2) by (simp add: utf8_encode_Cons)
    then have ne: "utf8_encode ps \<noteq> []" by auto
    have "back_up (map char_of (utf8_char p) @ utf8_encode ps) (length (map char_of (utf8_char p) :: string) + m)
        = length (map char_of (utf8_char p) :: string) + back_up (utf8_encode ps) m"
      using utf8_encode_hd [OF _ ne] Cons.prems(1) shape(1) ne by (intro back_up_append) auto
    then show ?thesis using Cons.IH [OF _ len] Cons.prems(1) m by (simp add: utf8_encode_Cons)
  next
    case False
    have "\<exists>c. js_at (utf8_encode (p # ps)) i = Some c \<and> is_continuation c" if "0 < i" "i \<le> n" for i
    proof -
      from that(1) obtain j where j: "i = Suc j" by (cases i) auto
      have "j < length bs" using that(2) False shape(1) j by simp
      then show ?thesis
        using shape(2) by (simp add: j utf8_encode_Cons shape(1) js_at_append js_at_nth_map)
    qed
    then have "back_up (utf8_encode (p # ps)) n = 0" by (intro back_up_inside) blast
    then show ?thesis using False by (simp add: utf8_encode_def utf8_bytes_def)
  qed
qed

lemma fitting_take: "\<exists>k. fitting ps n = take k ps \<and> (k < length ps \<longrightarrow> n < length (utf8_bytes (take (Suc k) ps)))
    \<and> length (utf8_bytes (take k ps)) \<le> n"
proof (induction ps arbitrary: n)
  case Nil
  then show ?case by (simp add: utf8_bytes_def)
next
  case (Cons p ps)
  show ?case
  proof (cases "length (utf8_char p) \<le> n")
    case True
    from Cons [of "n - length (utf8_char p)"] obtain k where
      "fitting ps (n - length (utf8_char p)) = take k ps"
      "k < length ps \<longrightarrow> n - length (utf8_char p) < length (utf8_bytes (take (Suc k) ps))"
      "length (utf8_bytes (take k ps)) \<le> n - length (utf8_char p)" by blast
    with True show ?thesis by (intro exI [of _ "Suc k"]) (auto simp: utf8_bytes_def)
  next
    case False
    then show ?thesis by (intro exI [of _ 0]) (auto simp: utf8_bytes_def)
  qed
qed

lemma prefix_encode: "utf8_encode ps = utf8_encode (take k ps) @ utf8_encode (drop k ps)"
  by (metis append_take_drop_id concat_append map_append utf8_bytes_def utf8_encode_def)

lemma truncate_encode:
  assumes "list_all scalar ps"
  shows "fst (truncateUtf8 (utf8_encode ps) n)
     = (if length (utf8_encode ps) \<le> n then utf8_encode ps else utf8_encode (fitting ps n))"
proof (cases "length (utf8_encode ps) \<le> n")
  case False
  then have "back_up (utf8_encode ps) n = length (utf8_encode (fitting ps n))"
    using back_up_encode [OF assms] by simp
  moreover obtain k where "fitting ps n = take k ps" using fitting_take by blast
  ultimately show ?thesis using False prefix_encode [of ps k] by (simp add: truncateUtf8_def)
qed (simp add: truncateUtf8_def)

text \<open>
  Cutting a text to a number of bytes never splits a character and never wastes room: the
  result of \<open>truncateUtf8\<close> is the encoding of the longest sequence of leading characters that fits
  in \<open>maxBytes\<close>, and it reports a cut exactly when the text did not fit.
\<close>

theorem truncate_at_character:
  assumes "list_all scalar ps"
  shows "\<exists>k. truncateUtf8 (utf8_encode ps) n = (utf8_encode (take k ps), n < length (utf8_encode ps))
     \<and> length (utf8_encode (take k ps)) \<le> n
     \<and> (k < length ps \<longrightarrow> n < length (utf8_encode (take (Suc k) ps)))"
proof (cases "length (utf8_encode ps) \<le> n")
  case True
  then show ?thesis by (intro exI [of _ "length ps"]) (auto simp: truncateUtf8_def)
next
  case False
  from fitting_take [of ps n] obtain k where k: "fitting ps n = take k ps"
    "k < length ps \<longrightarrow> n < length (utf8_bytes (take (Suc k) ps))" "length (utf8_bytes (take k ps)) \<le> n" by blast
  have "fst (truncateUtf8 (utf8_encode ps) n) = utf8_encode (take k ps)"
    using truncate_encode [OF assms, of n] False k(1) by simp
  moreover have "snd (truncateUtf8 (utf8_encode ps) n) = True" using False by (simp add: truncateUtf8_def)
  ultimately have "truncateUtf8 (utf8_encode ps) n = (utf8_encode (take k ps), True)" by (metis prod.collapse)
  with k False show ?thesis by (intro exI [of _ k]) (auto simp: length_utf8_encode)
qed

theorem truncate_at_character_witness:
  "\<exists>k. truncateUtf8 (utf8_encode [0x41, 0x20AC, 0x42]) 3 = (utf8_encode (take k [0x41, 0x20AC, 0x42]), True)"
proof -
  have "list_all scalar [0x41, 0x20AC, 0x42]" by (simp add: scalar_def)
  moreover have "3 < length (utf8_encode [0x41, 0x20AC, 0x42])"
    by (simp add: utf8_encode_def utf8_bytes_def utf8_char_def)
  ultimately show ?thesis using truncate_at_character [of "[0x41, 0x20AC, 0x42]" 3] by auto
qed

subsection \<open>The cap on a stored response\<close>

lemma keep_calls_size: "sum_list (map (stored_size \<circ> tool_call_js) (fst (keep_calls cs n))) \<le> n"
  by (induction cs n rule: keep_calls.induct) (auto simp: Let_def split: prod.splits)

lemma keep_calls_all: "\<not> snd (keep_calls cs n) \<Longrightarrow> fst (keep_calls cs n) = cs"
  by (induction cs n rule: keep_calls.induct) (auto simp: Let_def split: prod.splits if_splits)

lemma keep_calls_subseq: "subseq (fst (keep_calls cs n)) cs"
  by (induction cs n rule: keep_calls.induct) (auto simp: Let_def split: prod.splits)

lemma back_up_le: "back_up s n \<le> n"
  by (induction n) (auto split: option.splits)

lemma truncate_length: "length (fst (truncateUtf8 t n)) \<le> n"
  using back_up_le [of t n] by (auto simp: truncateUtf8_def)

text \<open>
  The cap on a stored response holds: the bytes of the kept text and of the kept tool calls
  (each as JSON) together never exceed \<open>maxBytes\<close>, the kept calls are some of the given ones in
  order, and \<open>truncated\<close> is false only if nothing was cut or dropped.
\<close>

theorem capped_response_fits:
  "length (cp_text (capResponse t calls n)) + sum_list (map (stored_size \<circ> tool_call_js) (cp_toolCalls (capResponse t calls n))) \<le> n
   \<and> subseq (cp_toolCalls (capResponse t calls n)) calls
   \<and> (cp_truncated (capResponse t calls n) \<or> cp_text (capResponse t calls n) = t \<and> cp_toolCalls (capResponse t calls n) = calls)"
proof -
  obtain cut tr where c: "truncateUtf8 t n = (cut, tr)" by fastforce
  obtain kept dr where k: "keep_calls calls (n - length cut) = (kept, dr)" by fastforce
  have "length cut \<le> n" using truncate_length [of t n] c by simp
  moreover have "sum_list (map (stored_size \<circ> tool_call_js) kept) \<le> n - length cut"
    using keep_calls_size [of calls "n - length cut"] k by simp
  moreover have "subseq kept calls" using keep_calls_subseq [of calls "n - length cut"] k by simp
  moreover have "dr \<or> kept = calls" using keep_calls_all [of calls "n - length cut"] k by auto
  moreover have "tr \<or> cut = t" using c by (auto simp: truncateUtf8_def split: if_splits)
  ultimately show ?thesis by (auto simp: capResponse_def c k)
qed


text \<open>
  Shrinking counts the bytes of the message texts, not of their JSON: a text of characters that are
  escaped in JSON is kept up to its raw length and takes up to six times as much.
\<close>

definition quotes_request :: "nat \<Rightarrow> llm_request" where
  "quotes_request k = \<lparr>rq_model = ''m'', rq_messages = [\<lparr>m_role = ''user'', m_content = replicate k (CHR 0x22)\<rparr>],
     rq_params = None, rq_tools = None\<rparr>"

definition small_config :: llm_step_config where
  "small_config = \<lparr>cf_storePrompts = True, cf_maxStoredBytes = 80, cf_maxAttempts = 5, cf_toolMaxAttempts = 3,
     cf_priceTable = Map.empty, cf_redact = id\<rparr>"

lemma not_index: "s \<in> {''model'', ''messages'', ''params'', ''tools'', ''role'', ''content''} \<Longrightarrow> \<not> is_index s"
  by (auto simp: is_index_def is_digit_def)

lemma length_json_quotes: "length (json_string (replicate k (CHR 0x22))) = 2 + 2 * k"
  by (induction k) (simp_all add: json_string_def escape_char_def)

lemma quotes_request_size: "stored_size (request_js (quotes_request k)) = 55 + 2 * k"
proof -
  have t: "stringify (message_js \<lparr>m_role = ''user'', m_content = s\<rparr>)
      = Some (''{'' @ json_string ''role'' @ '':'' @ json_string ''user'' @ '','' @ json_string ''content'' @ '':'' @ json_string s @ ''}'')" for s
    by (simp add: message_js_def obj_order_def not_index map_filter_simps json_member_def)
  have u: "length (json_string ''role'') = 6" "length (json_string ''user'') = 6" "length (json_string ''content'') = 9"
    "length (json_string ''model'') = 7" "length (json_string ''messages'') = 10" "length (json_string ''m'') = 3"
    by (simp_all add: json_string_def escape_char_def)
  show ?thesis
    by (simp add: stored_size_def request_js_def quotes_request_def t obj_order_def not_index map_filter_simps
        json_member_def u length_json_quotes)
qed

lemma map_request_quotes: "map_request id (quotes_request k) = quotes_request k"
  by (simp add: map_request_def quotes_request_def)

lemma truncate_quotes: "n < k \<Longrightarrow> fst (truncateUtf8 (replicate k (CHR 0x22)) n) = replicate n (CHR 0x22)"
proof -
  assume n: "n < k"
  have "back_up (replicate k (CHR 0x22)) n = n"
    using n by (cases n) (auto simp: js_at_conv is_continuation_def split: option.splits)
  with n show ?thesis by (simp add: truncateUtf8_def)
qed

lemma shrink_quotes: "shrinkRequest (quotes_request 40) 80 = quotes_request 25"
proof -
  have s: "(quotes_request 40)\<lparr>rq_messages := map (\<lambda>m. m\<lparr>m_content := ''''\<rparr>) (rq_messages (quotes_request 40))\<rparr> = quotes_request 0"
    by (simp add: quotes_request_def)
  show ?thesis
    using truncate_quotes [of 25 40]
    by (simp add: shrinkRequest_def Let_def s quotes_request_size) (simp add: quotes_request_def)
qed

text \<open>
  The cap on a stored prompt does not hold: with a cap of 80 bytes the request kept of a prompt of
  40 quotation marks, stored as \<open>truncated\<close>, takes 105 bytes.
\<close>

theorem stored_prompt_exceeds_cap:
  "cf_maxStoredBytes small_config = 80
   \<and> sr_requestStorage (buildStoredRequest (quotes_request 40) small_config) = StTruncated
   \<and> map_option (stored_size \<circ> request_js) (sr_request (buildStoredRequest (quotes_request 40) small_config)) = Some 105"
  by (simp add: buildStoredRequest_def small_config_def map_request_quotes Let_def quotes_request_size shrink_quotes)

end
