(* ===== verification/TaskInv.thy ===== *)
theory TaskInv
  imports Tasks
begin

section \<open>Invariants of the task queue and the lease as a fencing token\<close>

text \<open>
  \<open>task_inv\<close> is what the table satisfies between any two statements: unique ids, at most one live
  workflow task per workflow, lease columns set exactly on the leased and the completed tasks
  (\<open>complete\<close> keeps them), both of which were leased at least once. \<open>worker_step\<close> is any one statement of the workers, the reaper and the enqueuers,
  \<open>queue_step\<close> also the operator's requeue of a dead task.
\<close>

definition row_ok :: "task \<Rightarrow> bool" where
  "row_ok t \<longleftrightarrow>
     (t_status t = TLeased \<or> t_status t = TCompleted \<longrightarrow>
        t_leasedBy t \<noteq> None \<and> t_leaseExpiresAt t \<noteq> None \<and> 1 \<le> t_attempt t)
   \<and> (t_status t = TPending \<or> t_status t = TDead \<longrightarrow> t_leasedBy t = None \<and> t_leaseExpiresAt t = None)"

definition task_inv :: "task_table \<Rightarrow> bool" where
  "task_inv tbl \<longleftrightarrow>
     distinct (map t_id (tt_rows tbl))
   \<and> (\<forall>t \<in> set (tt_rows tbl). t_id t < tt_nextId tbl \<and> row_ok t)
   \<and> (\<forall>t \<in> set (tt_rows tbl). \<forall>u \<in> set (tt_rows tbl).
        live_workflow_task t \<and> live_workflow_task u \<and> t_workflowId t = t_workflowId u \<longrightarrow> t_id t = t_id u)"

inductive worker_step :: "task_table \<Rightarrow> task_table \<Rightarrow> bool" where
  step_enqueue: "worker_step tbl (fst (enqueue now date known input tbl))"
| step_dequeue: "worker_step tbl (fst (dequeue now locked input tbl))"
| step_heartbeat: "worker_step tbl (fst (heartbeat now ids w secs tbl))"
| step_complete: "worker_step tbl (fst (complete i w tbl))"
| step_fail: "worker_step tbl (fst (fail now r finput tbl))"
| step_reclaim: "worker_step tbl (fst (reclaimExpired now locked limit tbl))"

inductive queue_step :: "task_table \<Rightarrow> task_table \<Rightarrow> bool" where
  step_worker: "worker_step tbl tbl' \<Longrightarrow> queue_step tbl tbl'"
| step_requeue: "queue_step tbl (fst (requeueDeadTask now i tbl))"

inductive_cases worker_stepE: "worker_step tbl tbl'"

subsection \<open>Updates of rows\<close>

lemma rows_update: "tt_rows (update_rows P f tbl) = map (\<lambda>t. if P t then f t else t) (tt_rows tbl)"
  by (simp add: update_rows_def)

lemma nextId_update [simp]: "tt_nextId (update_rows P f tbl) = tt_nextId tbl"
  by (simp add: update_rows_def)

lemma in_rows_update:
  "t \<in> set (tt_rows (update_rows P f tbl)) \<longleftrightarrow> (\<exists>u \<in> set (tt_rows tbl). t = (if P u then f u else u))"
  by (auto simp: rows_update)

definition sound_update :: "task \<Rightarrow> task \<Rightarrow> bool" where
  "sound_update t t' \<longleftrightarrow> t_id t' = t_id t \<and> t_workflowId t' = t_workflowId t \<and> t_taskType t' = t_taskType t
     \<and> (live_workflow_task t' \<longrightarrow> live_workflow_task t) \<and> row_ok t'"

lemma task_invI:
  assumes "distinct (map t_id (tt_rows tbl))"
    and "\<And>t. t \<in> set (tt_rows tbl) \<Longrightarrow> t_id t < tt_nextId tbl"
    and "\<And>t. t \<in> set (tt_rows tbl) \<Longrightarrow> row_ok t"
    and "\<And>t u. t \<in> set (tt_rows tbl) \<Longrightarrow> u \<in> set (tt_rows tbl) \<Longrightarrow> live_workflow_task t \<Longrightarrow>
      live_workflow_task u \<Longrightarrow> t_workflowId t = t_workflowId u \<Longrightarrow> t_id t = t_id u"
  shows "task_inv tbl"
  unfolding task_inv_def using assms by blast

lemma one_live:
  "task_inv tbl \<Longrightarrow> t \<in> set (tt_rows tbl) \<Longrightarrow> u \<in> set (tt_rows tbl) \<Longrightarrow> live_workflow_task t \<Longrightarrow>
   live_workflow_task u \<Longrightarrow> t_workflowId t = t_workflowId u \<Longrightarrow> t_id t = t_id u"
  unfolding task_inv_def by blast

lemma inv_row_ok: "task_inv tbl \<Longrightarrow> t \<in> set (tt_rows tbl) \<Longrightarrow> row_ok t"
  unfolding task_inv_def by blast

lemma inv_distinct: "task_inv tbl \<Longrightarrow> distinct (map t_id (tt_rows tbl))"
  unfolding task_inv_def by blast

lemma inv_nextId: "task_inv tbl \<Longrightarrow> t \<in> set (tt_rows tbl) \<Longrightarrow> t_id t < tt_nextId tbl"
  unfolding task_inv_def by blast

lemma map_rows_inv:
  assumes inv: "task_inv tbl"
    and g: "\<And>t. t \<in> set (tt_rows tbl) \<Longrightarrow> t_id (g t) = t_id t \<and> t_workflowId (g t) = t_workflowId t \<and> row_ok (g t)"
    and live: "\<And>t u. t \<in> set (tt_rows tbl) \<Longrightarrow> u \<in> set (tt_rows tbl) \<Longrightarrow> live_workflow_task (g t)
      \<Longrightarrow> live_workflow_task (g u) \<Longrightarrow> t_workflowId t = t_workflowId u \<Longrightarrow> t_id t = t_id u"
  shows "task_inv (tbl\<lparr>tt_rows := map g (tt_rows tbl)\<rparr>)"
proof (rule task_invI)
  have "map t_id (map g (tt_rows tbl)) = map t_id (tt_rows tbl)" using g by simp
  then show "distinct (map t_id (tt_rows (tbl\<lparr>tt_rows := map g (tt_rows tbl)\<rparr>)))"
    using inv_distinct [OF inv] by (simp del: map_map)
next
  fix t assume "t \<in> set (tt_rows (tbl\<lparr>tt_rows := map g (tt_rows tbl)\<rparr>))"
  then obtain x where x: "x \<in> set (tt_rows tbl)" "t = g x" by auto
  from x(1) show "t_id t < tt_nextId (tbl\<lparr>tt_rows := map g (tt_rows tbl)\<rparr>)"
    using g [of x] inv_nextId [OF inv, of x] by (simp add: x(2))
  from x(1) show "row_ok t" using g [of x] by (simp add: x(2))
next
  fix t u assume "t \<in> set (tt_rows (tbl\<lparr>tt_rows := map g (tt_rows tbl)\<rparr>))"
    "u \<in> set (tt_rows (tbl\<lparr>tt_rows := map g (tt_rows tbl)\<rparr>))"
    and l: "live_workflow_task t" "live_workflow_task u" "t_workflowId t = t_workflowId u"
  then obtain x y where x: "x \<in> set (tt_rows tbl)" "t = g x" and y: "y \<in> set (tt_rows tbl)" "u = g y" by auto
  have "t_id x = t_id y"
    using l g [OF x(1)] g [OF y(1)] by (intro live x(1) y(1)) (simp_all add: x(2) y(2))
  then show "t_id t = t_id u" using g [OF x(1)] g [OF y(1)] by (simp add: x(2) y(2))
qed

lemma update_rows_inv:
  assumes inv: "task_inv tbl" and f: "\<And>t. t \<in> set (tt_rows tbl) \<Longrightarrow> P t \<Longrightarrow> sound_update t (f t)"
  shows "task_inv (update_rows P f tbl)"
  unfolding update_rows_def
proof (rule map_rows_inv [OF inv])
  fix t assume t: "t \<in> set (tt_rows tbl)"
  show "t_id (if P t then f t else t) = t_id t \<and> t_workflowId (if P t then f t else t) = t_workflowId t
      \<and> row_ok (if P t then f t else t)"
    using f [OF t] inv_row_ok [OF inv t] by (simp add: sound_update_def)
next
  fix t u assume tu: "t \<in> set (tt_rows tbl)" "u \<in> set (tt_rows tbl)" "t_workflowId t = t_workflowId u"
    and "live_workflow_task (if P t then f t else t)" "live_workflow_task (if P u then f u else u)"
  then have "live_workflow_task t" "live_workflow_task u"
    using f [OF tu(1)] f [OF tu(2)] by (auto simp: sound_update_def split: if_splits)
  with one_live [OF inv] tu show "t_id t = t_id u" by blast
qed

lemma dequeue_inv: "task_inv tbl \<Longrightarrow> task_inv (fst (dequeue now locked input tbl))"
proof -
  assume inv: "task_inv tbl"
  have "t_status t = TPending" if "t_id t \<in> set (map t_id (candidates now locked input tbl))" "t \<in> set (tt_rows tbl)" for t
  proof -
    from that(1) obtain u where u: "u \<in> set (candidates now locked input tbl)" "t_id u = t_id t" by auto
    then have "u \<in> set (tt_rows tbl)" "candidate now input u"
      by (auto simp: candidates_def dest: in_set_takeD)
    moreover from this(1) u(2) that(2) inv have "u = t"
      by (auto simp: task_inv_def dest: inj_onD simp: distinct_map)
    ultimately show ?thesis by (simp add: candidate_def)
  qed
  then show ?thesis
    unfolding dequeue_def Let_def fst_conv
    by (intro update_rows_inv inv)
       (auto simp: sound_update_def lease_task_def live_workflow_task_def row_ok_def)
qed

lemma sound_heartbeat:
  "row_ok t \<Longrightarrow> leased_to w t \<Longrightarrow> sound_update t (t\<lparr>t_leaseExpiresAt := Some e\<rparr>)"
  by (simp add: sound_update_def live_workflow_task_def row_ok_def leased_to_def)

lemma sound_complete:
  "row_ok t \<Longrightarrow> leased_to w t \<Longrightarrow> sound_update t (t\<lparr>t_status := TCompleted\<rparr>)"
  by (simp add: sound_update_def live_workflow_task_def row_ok_def leased_to_def)

lemma sound_fail: "leased_to w t \<Longrightarrow> sound_update t (fail_task now d e t)"
  by (simp add: sound_update_def live_workflow_task_def row_ok_def fail_task_def leased_to_def)

lemma sound_release: "t_status t = TLeased \<Longrightarrow> sound_update t (release_task t)"
  by (simp add: sound_update_def live_workflow_task_def row_ok_def release_task_def)

lemma heartbeat_inv: "task_inv tbl \<Longrightarrow> task_inv (fst (heartbeat now ids w secs tbl))"
  by (cases "ids = []") (auto simp: heartbeat_def Let_def intro!: update_rows_inv intro: sound_heartbeat inv_row_ok)

lemma complete_inv: "task_inv tbl \<Longrightarrow> task_inv (fst (complete i w tbl))"
  by (auto simp: complete_def Let_def intro!: update_rows_inv intro: sound_complete inv_row_ok)

lemma fail_inv: "task_inv tbl \<Longrightarrow> task_inv (fst (fail now r finput tbl))"
  by (auto simp: fail_def Let_def intro!: update_rows_inv intro: sound_fail split: sum.split)

lemma same_row:
  "task_inv tbl \<Longrightarrow> t \<in> set (tt_rows tbl) \<Longrightarrow> u \<in> set (tt_rows tbl) \<Longrightarrow> t_id t = t_id u \<Longrightarrow> t = u"
  unfolding task_inv_def distinct_map by (blast dest: inj_onD)

lemma reclaimed_expired:
  assumes "task_inv tbl" "t \<in> set (tt_rows tbl)"
    "t_id t \<in> set (map t_id (take limit (sort_key expiry (filter (\<lambda>t. expired now t \<and> t_id t \<notin> set locked) (tt_rows tbl)))))"
  shows "expired now t \<and> t_id t \<notin> set locked"
proof -
  from assms(3) obtain u where "u \<in> set (tt_rows tbl)" "expired now u" "t_id u \<notin> set locked" "t_id t = t_id u"
    by (auto dest!: in_set_takeD)
  with same_row [OF assms(1,2)] show ?thesis by metis
qed

lemma reclaim_inv: "task_inv tbl \<Longrightarrow> task_inv (fst (reclaimExpired now locked limit tbl))"
  unfolding reclaimExpired_def Let_def fst_conv
  by (intro update_rows_inv sound_release) (auto simp: expired_def dest!: reclaimed_expired)

lemma enqueue_inv: "task_inv tbl \<Longrightarrow> task_inv (fst (enqueue now date known input tbl))"
proof -
  assume inv: "task_inv tbl"
  let ?t = "new_task now date input (tt_nextId tbl)"
  have bump: "task_inv (tbl\<lparr>tt_nextId := Suc (tt_nextId tbl)\<rparr>)"
    by (rule task_invI)
       (auto intro: one_live [OF inv] inv_row_ok [OF inv] less_SucI inv_nextId [OF inv] simp: inv_distinct [OF inv])
  have ok: "row_ok ?t" "t_id ?t = tt_nextId tbl" by (simp_all add: row_ok_def new_task_def)
  have fresh: "tt_nextId tbl \<notin> t_id ` set (tt_rows tbl)" by (metis imageE inv_nextId [OF inv] less_irrefl)
  have "task_inv (tbl\<lparr>tt_nextId := Suc (tt_nextId tbl), tt_rows := tt_rows tbl @ [?t]\<rparr>)"
    if none: "\<not> (live_workflow_task ?t \<and> list_ex (\<lambda>u. live_workflow_task u \<and> t_workflowId u = t_workflowId ?t) (tt_rows tbl))"
  proof (rule task_invI)
    fix t u assume t: "t \<in> set (tt_rows (tbl\<lparr>tt_nextId := Suc (tt_nextId tbl), tt_rows := tt_rows tbl @ [?t]\<rparr>))"
      and u: "u \<in> set (tt_rows (tbl\<lparr>tt_nextId := Suc (tt_nextId tbl), tt_rows := tt_rows tbl @ [?t]\<rparr>))"
      and live: "live_workflow_task t" "live_workflow_task u" "t_workflowId t = t_workflowId u"
    have no: "\<not> (live_workflow_task ?t \<and> live_workflow_task v \<and> t_workflowId v = t_workflowId ?t)"
      if "v \<in> set (tt_rows tbl)" for v
      using none that by (auto simp: list_ex_iff)
    from t u consider "t \<in> set (tt_rows tbl)" "u \<in> set (tt_rows tbl)" | "t = ?t" "u \<in> set (tt_rows tbl)"
      | "t \<in> set (tt_rows tbl)" "u = ?t" | "t = ?t" "u = ?t" by auto
    then show "t_id t = t_id u"
    proof cases
      case 1
      then show ?thesis using live by (rule one_live [OF inv])
    next
      case 2
      then show ?thesis using no [of u] live by simp
    next
      case 3
      then show ?thesis using no [of t] live by simp
    qed simp
  qed (use inv_distinct [OF inv] fresh ok in \<open>auto intro: inv_row_ok [OF inv] less_SucI inv_nextId [OF inv]\<close>)
  then show ?thesis using bump by (auto simp: enqueue_def Let_def)
qed

lemma requeue_inv: "task_inv tbl \<Longrightarrow> task_inv (fst (requeueDeadTask now i tbl))"
proof -
  assume inv: "task_inv tbl"
  let ?P = "\<lambda>t. t_id t = i \<and> t_status t = TDead"
  let ?f = "\<lambda>t. t\<lparr>t_status := TPending, t_attempt := 0, t_runAfter := now, t_lastError := None\<rparr>"
  have "task_inv (update_rows ?P ?f tbl)"
    if none: "\<not> list_ex (\<lambda>t. ?P t \<and> t_taskType t = TWorkflow
           \<and> list_ex (\<lambda>u. live_workflow_task u \<and> t_workflowId u = t_workflowId t) (tt_rows tbl)) (tt_rows tbl)"
    unfolding update_rows_def
  proof (rule map_rows_inv [OF inv])
    fix t assume "t \<in> set (tt_rows tbl)"
    then show "t_id (if ?P t then ?f t else t) = t_id t \<and> t_workflowId (if ?P t then ?f t else t) = t_workflowId t
        \<and> row_ok (if ?P t then ?f t else t)"
      using inv_row_ok [OF inv] by (simp add: row_ok_def)
  next
    fix t u assume tu: "t \<in> set (tt_rows tbl)" "u \<in> set (tt_rows tbl)" "t_workflowId t = t_workflowId u"
      and live: "live_workflow_task (if ?P t then ?f t else t)" "live_workflow_task (if ?P u then ?f u else u)"
    have excl: "\<not> (?P x \<and> t_taskType x = TWorkflow \<and> live_workflow_task y)"
      if "x \<in> set (tt_rows tbl)" "y \<in> set (tt_rows tbl)" "t_workflowId y = t_workflowId x" for x y
      using none that by (auto simp: list_ex_iff)
    have cases: "live_workflow_task x \<or> ?P x \<and> t_taskType x = TWorkflow"
      if "live_workflow_task (if ?P x then ?f x else x)" for x
      using that by (cases "?P x") (simp_all add: live_workflow_task_def)
    from cases [OF live(1)] cases [OF live(2)] excl [OF tu(1,2)] excl [OF tu(2,1)] tu one_live [OF inv tu(1,2)]
    show "t_id t = t_id u" by auto
  qed
  then show ?thesis using inv by (simp add: requeueDeadTask_def Let_def)
qed

lemma worker_step_inv: "worker_step tbl tbl' \<Longrightarrow> task_inv tbl \<Longrightarrow> task_inv tbl'"
  by (induction rule: worker_step.induct)
     (simp_all add: enqueue_inv dequeue_inv heartbeat_inv complete_inv fail_inv reclaim_inv)

lemma queue_step_inv: "queue_step tbl tbl' \<Longrightarrow> task_inv tbl \<Longrightarrow> task_inv tbl'"
  by (induction rule: queue_step.induct) (simp_all add: worker_step_inv requeue_inv)

end
