(* ===== verification/StoreInv.thy ===== *)
theory StoreInv
  imports Store TaskInv
begin

section \<open>The event store keeps its promises\<close>

text \<open>
  \<open>db_inv\<close>: the log of every workflow is numbered 1, 2, 3, ... without a gap, the status column is
  the status of the fold of the log, every event and every task belongs to a workflow, and the task
  table is well formed. \<open>appendEvents\<close> keeps it, and appends exactly what it is asked to.
\<close>

definition log_of :: "string \<Rightarrow> db \<Rightarrow> stored_event list" where
  "log_of w d = map snd (filter (\<lambda>r. fst r = w) (db_events d))"

definition log_ok :: "stored_event list \<Rightarrow> bool" where
  "log_ok es \<longleftrightarrow> map seq es = [1..<Suc (length es)]"

definition db_inv :: "db \<Rightarrow> bool" where
  "db_inv d \<longleftrightarrow> distinct (execution_ids d)
     \<and> (\<forall>w. log_ok (log_of w d))
     \<and> (\<forall>r \<in> set (db_events d). fst r \<in> set (execution_ids d))
     \<and> task_inv (db_tasks d)
     \<and> (\<forall>t \<in> set (tt_rows (db_tasks d)). t_workflowId t \<in> set (execution_ids d))
     \<and> (\<forall>x \<in> set (db_executions d). \<exists>s. foldEvents (log_of (ex_id x) d) = Inr s \<and> ex_status x = st_status s)"

subsection \<open>Numbering\<close>

lemma number_events_seq: "map seq (number_events n es) = [n..<n + length es]"
proof (induction es arbitrary: n)
  case (Cons e es)
  have "[n..<n + length (e # es)] = n # [Suc n..<Suc n + length es]" by (subst upt_conv_Cons) simp_all
  with Cons show ?case by (simp del: upt_Suc)
qed simp

lemma number_events_event: "map event (number_events n es) = es"
  by (induction es arbitrary: n) simp_all

lemma length_number_events [simp]: "length (number_events n es) = length es"
  by (induction es arbitrary: n) simp_all

lemma getEvents_log: "log_ok (log_of w d) \<Longrightarrow> getEvents w d = log_of w d"
proof -
  assume "log_ok (log_of w d)"
  then have "sorted (map seq (log_of w d))" unfolding log_ok_def by (metis sorted_upt)
  then show ?thesis unfolding getEvents_def log_of_def by (intro sort_key_id_if_sorted)
qed

lemma fold_max_upt: "fold max [m..<n] (a :: nat) = (if m < n then max a (n - 1) else a)"
proof (induction n)
  case (Suc n)
  then show ?case by (auto simp: max_def)
qed simp

lemma start_seq_log:
  assumes "log_ok (log_of w d)"
  shows "start_seq w d = Suc (length (log_of w d))"
proof -
  have m: "map (seq \<circ> snd) (filter (\<lambda>r. fst r = w) (db_events d)) = [1..<Suc (length (log_of w d))]"
    using assms by (simp add: log_ok_def log_of_def)
  show ?thesis
  proof (cases "length (log_of w d)")
    case 0
    then show ?thesis using m by (simp add: start_seq_def max_seq_def)
  next
    case (Suc n)
    then have "map (seq \<circ> snd) (filter (\<lambda>r. fst r = w) (db_events d)) = 1 # [2..<Suc (Suc n)]"
      using m by (simp add: upt_conv_Cons numeral_2_eq_2)
    then show ?thesis using Suc by (simp add: start_seq_def max_seq_def fold_max_upt max_def)
  qed
qed

definition trip_stored :: "stored_event \<Rightarrow> stored_event" where
  "trip_stored e = \<lparr>seq = seq e, event = event_trip (event e)\<rparr>"

lemma trip_stored_seq [simp]: "seq (trip_stored e) = seq e"
  by (simp add: trip_stored_def)

lemma log_insert:
  "log_of w' (insert_events w es d) = (if w' = w then log_of w d @ map trip_stored es else log_of w' d)"
  by (auto simp: log_of_def insert_events_def trip_stored_def comp_def)

lemma log_ok_append:
  assumes "log_ok es"
  shows "log_ok (es @ map trip_stored (number_events (Suc (length es)) evs))"
proof -
  have "[1..<Suc (length es + length evs)] = [1..<Suc (length es)] @ [Suc (length es)..<Suc (length es) + length evs]"
    using upt_add_eq_append [of 1 "Suc (length es)" "length evs"] by simp
  moreover have "map seq (map trip_stored (number_events (Suc (length es)) evs)) = [Suc (length es)..<Suc (length es) + length evs]"
    using number_events_seq [of "Suc (length es)" evs] by (simp add: comp_def)
  ultimately show ?thesis
    using assms unfolding log_ok_def by (simp del: upt_Suc)
qed

subsection \<open>Enqueueing\<close>

lemma enqueue_db_frame:
  "enqueue_db ck i d = (d', r) \<Longrightarrow>
   db_executions d' = db_executions d \<and> db_events d' = db_events d \<and> db_toolExecutions d' = db_toolExecutions d
   \<and> db_sideEffects d' = db_sideEffects d \<and> db_providerCalls d' = db_providerCalls d \<and> db_leader d' = db_leader d"
  by (auto simp: enqueue_db_def split: prod.splits)

definition has_live_workflow_task :: "string \<Rightarrow> db \<Rightarrow> bool" where
  "has_live_workflow_task w d \<longleftrightarrow> (\<exists>t \<in> set (tt_rows (db_tasks d)). live_workflow_task t \<and> t_workflowId t = w)"

lemma enqueue_db_known:
  assumes "ei_workflowId i \<in> set (execution_ids d)"
  shows "\<exists>d' t. enqueue_db ck i d = (d', Inr t)
    \<and> tt_rows (db_tasks d') = tt_rows (db_tasks d) @ (case t of Some u \<Rightarrow> [u] | None \<Rightarrow> [])
    \<and> (t = None \<longleftrightarrow> ei_taskType i = TWorkflow \<and> has_live_workflow_task (ei_workflowId i) d)
    \<and> (\<forall>u. t = Some u \<longrightarrow> u = new_task (ck_now ck) (ck_date ck) i (tt_nextId (db_tasks d)))"
  using assms
  by (auto simp: enqueue_db_def enqueue_def Let_def has_live_workflow_task_def list_ex_iff new_task_def
      live_workflow_task_def split: prod.splits)

lemma enqueue_db_inv: "enqueue_db ck i d = (d', r) \<Longrightarrow> task_inv (db_tasks d) \<Longrightarrow> task_inv (db_tasks d')"
  using enqueue_inv [of "db_tasks d" "ck_now ck" "ck_date ck" "execution_ids d" i]
  by (auto simp: enqueue_db_def split: prod.splits)

lemma execution_ids_cong: "db_executions d' = db_executions d \<Longrightarrow> execution_ids d' = execution_ids d"
  by (simp add: execution_ids_def)

text \<open>The tasks a list of inputs creates: a workflow task only when none is live.\<close>

fun effective_inputs :: "bool \<Rightarrow> enqueue_input list \<Rightarrow> enqueue_input list" where
  "effective_inputs live [] = []"
| "effective_inputs live (i # is) = (if ei_taskType i = TWorkflow
     then (if live then effective_inputs live is else i # effective_inputs True is)
     else i # effective_inputs live is)"

definition made_from :: "clock \<Rightarrow> enqueue_input \<Rightarrow> task \<Rightarrow> bool" where
  "made_from ck i t \<longleftrightarrow> t = new_task (ck_now ck) (ck_date ck) i (t_id t)"

lemma new_task_id [simp]: "t_id (new_task now date i n) = n"
  by (simp add: new_task_def)

lemma live_new_task: "live_workflow_task (new_task now date i n) \<longleftrightarrow> ei_taskType i = TWorkflow"
  by (simp add: live_workflow_task_def new_task_def)

lemma workflow_new_task [simp]: "t_workflowId (new_task now date i n) = ei_workflowId i"
  by (simp add: new_task_def)

lemma enqueue_all_known:
  assumes "\<forall>i \<in> set is. ei_workflowId i = w" "w \<in> set (execution_ids d)"
  shows "\<exists>d' ts. enqueue_all ck is d = (d', Inr ()) \<and> tt_rows (db_tasks d') = tt_rows (db_tasks d) @ ts
    \<and> list_all2 (made_from ck) (effective_inputs (has_live_workflow_task w d) is) ts
    \<and> db_executions d' = db_executions d \<and> db_events d' = db_events d
    \<and> db_toolExecutions d' = db_toolExecutions d \<and> db_sideEffects d' = db_sideEffects d
    \<and> db_providerCalls d' = db_providerCalls d \<and> db_leader d' = db_leader d
    \<and> (task_inv (db_tasks d) \<longrightarrow> task_inv (db_tasks d'))"
  using assms
proof (induction "is" arbitrary: d)
  case (Cons i js)
  have i: "ei_workflowId i = w" using Cons.prems(1) by simp
  from enqueue_db_known [of i d ck] Cons.prems(2) i obtain d1 t where d1: "enqueue_db ck i d = (d1, Inr t)"
    "tt_rows (db_tasks d1) = tt_rows (db_tasks d) @ (case t of Some u \<Rightarrow> [u] | None \<Rightarrow> [])"
    "t = None \<longleftrightarrow> ei_taskType i = TWorkflow \<and> has_live_workflow_task w d"
    "\<forall>u. t = Some u \<longrightarrow> u = new_task (ck_now ck) (ck_date ck) i (tt_nextId (db_tasks d))"
    by auto
  note frame = enqueue_db_frame [OF d1(1)]
  have "\<exists>d' ts. enqueue_all ck js d1 = (d', Inr ()) \<and> tt_rows (db_tasks d') = tt_rows (db_tasks d1) @ ts
    \<and> list_all2 (made_from ck) (effective_inputs (has_live_workflow_task w d1) js) ts
    \<and> db_executions d' = db_executions d1 \<and> db_events d' = db_events d1
    \<and> db_toolExecutions d' = db_toolExecutions d1 \<and> db_sideEffects d' = db_sideEffects d1
    \<and> db_providerCalls d' = db_providerCalls d1 \<and> db_leader d' = db_leader d1
    \<and> (task_inv (db_tasks d1) \<longrightarrow> task_inv (db_tasks d'))"
    using Cons.prems frame by (intro Cons.IH) (simp_all add: execution_ids_def)
  then obtain d' ts where d': "enqueue_all ck js d1 = (d', Inr ())" "tt_rows (db_tasks d') = tt_rows (db_tasks d1) @ ts"
    "list_all2 (made_from ck) (effective_inputs (has_live_workflow_task w d1) js) ts"
    "task_inv (db_tasks d1) \<longrightarrow> task_inv (db_tasks d')"
    and frame': "db_executions d' = db_executions d1" "db_events d' = db_events d1"
    "db_toolExecutions d' = db_toolExecutions d1" "db_sideEffects d' = db_sideEffects d1"
    "db_providerCalls d' = db_providerCalls d1" "db_leader d' = db_leader d1" by blast
  have inv: "task_inv (db_tasks d) \<longrightarrow> task_inv (db_tasks d')" using d'(4) enqueue_db_inv [OF d1(1)] by blast
  show ?case
  proof (cases t)
    case None
    then have "has_live_workflow_task w d1 = has_live_workflow_task w d" "ei_taskType i = TWorkflow" "has_live_workflow_task w d"
      using d1(2,3) by (auto simp: has_live_workflow_task_def)
    then show ?thesis using d1 d' frame frame' inv None by (intro exI [of _ d'] exI [of _ ts]) simp
  next
    case (Some u)
    then have u: "made_from ck i u" "t_workflowId u = w" "live_workflow_task u \<longleftrightarrow> ei_taskType i = TWorkflow"
      using d1(4) i by (auto simp: made_from_def live_new_task)
    then have "has_live_workflow_task w d1 \<longleftrightarrow> has_live_workflow_task w d \<or> ei_taskType i = TWorkflow"
      using d1(2) Some by (auto simp: has_live_workflow_task_def)
    then show ?thesis using d1 d' frame frame' inv Some u
      by (intro exI [of _ d'] exI [of _ "u # ts"]) auto
  qed
qed simp

subsection \<open>\<open>appendEvents\<close>\<close>

lemma proto_trip: "proto_signal (trip_stored e) = proto_signal e"
  by (cases "event e") (simp_all add: trip_stored_def)

lemma proto_number: "list_all (Not \<circ> proto_signal) (number_events n es)
   \<longleftrightarrow> (\<forall>e \<in> set es. \<forall>m p. e = SignalReceived m p \<longrightarrow> m \<notin> set object_prototype_names)"
  by (induction es arbitrary: n) (auto split: wf_event.splits)

lemma foldEvents_total: "(\<exists>s. foldEvents es = Inr s) \<longleftrightarrow> list_all (Not \<circ> proto_signal) es"
  unfolding foldEvents_def by (rule fold_from_total [OF no_proto_initial])

definition append_inputs :: "clock \<Rightarrow> string \<Rightarrow> stored_event list \<Rightarrow> enqueue_input list" where
  "append_inputs ck w es = List.map_filter (task_for w (ck_trace ck)) es @ [base_input TWorkflow w (ck_trace ck)]"

lemma append_inputs_workflow: "i \<in> set (append_inputs ck w es) \<Longrightarrow> ei_workflowId i = w"
  by (auto simp: append_inputs_def List.map_filter_def base_input_def split: wf_event.splits)

lemma set_status_simps [simp]:
  "db_events (set_status now w st d) = db_events d"
  "db_tasks (set_status now w st d) = db_tasks d"
  "execution_ids (set_status now w st d) = execution_ids d"
  "log_of v (set_status now w st d) = log_of v d"
  by (auto simp: set_status_def execution_ids_def log_of_def)

lemma insert_events_simps [simp]:
  "db_executions (insert_events w es d) = db_executions d"
  "db_tasks (insert_events w es d) = db_tasks d"
  "execution_ids (insert_events w es d) = execution_ids d"
  by (simp_all add: insert_events_def execution_ids_def)

lemma has_live_insert [simp]: "has_live_workflow_task w (insert_events v es d) = has_live_workflow_task w d"
  by (simp add: has_live_workflow_task_def)

text \<open>A successful append and what it did, before anything is known about the fold.\<close>

lemma appendEvents_shape:
  assumes "events \<noteq> []" "w \<in> set (execution_ids d)" "log_ok (log_of w d)"
  shows "\<exists>d2 ts. tt_rows (db_tasks d2) = tt_rows (db_tasks d) @ ts
    \<and> list_all2 (made_from ck) (effective_inputs (has_live_workflow_task w d)
        (append_inputs ck w (number_events (Suc (length (log_of w d))) events))) ts
    \<and> (task_inv (db_tasks d) \<longrightarrow> task_inv (db_tasks d2))
    \<and> db_executions d2 = db_executions d
    \<and> db_events d2 = db_events (insert_events w (number_events (Suc (length (log_of w d))) events) d)
    \<and> appendEvents ck w events d
      = (case foldEvents (log_of w d @ map trip_stored (number_events (Suc (length (log_of w d))) events)) of
          Inl err \<Rightarrow> (d2, Inl err)
        | Inr s \<Rightarrow> (set_status (ck_now ck) w (st_status s) d2, Inr (number_events (Suc (length (log_of w d))) events, s)))"
proof -
  let ?es = "number_events (Suc (length (log_of w d))) events"
  let ?d1 = "insert_events w ?es d"
  have start: "start_seq w d = Suc (length (log_of w d))" by (rule start_seq_log [OF assms(3)])
  from enqueue_all_known [of "append_inputs ck w ?es" w ?d1 ck] append_inputs_workflow assms(2)
  obtain d2 ts where d2: "enqueue_all ck (append_inputs ck w ?es) ?d1 = (d2, Inr ())"
    "tt_rows (db_tasks d2) = tt_rows (db_tasks d) @ ts"
    "list_all2 (made_from ck) (effective_inputs (has_live_workflow_task w d) (append_inputs ck w ?es)) ts"
    "db_executions d2 = db_executions d" "db_events d2 = db_events ?d1"
    "task_inv (db_tasks d) \<longrightarrow> task_inv (db_tasks d2)"
    by auto
  have "log_of w d2 = log_of w d @ map trip_stored ?es"
    using log_insert [of w w ?es d] d2(5) by (simp add: log_of_def)
  moreover have "log_ok (log_of w d @ map trip_stored ?es)" by (rule log_ok_append [OF assms(3)])
  ultimately have "getEvents w d2 = log_of w d @ map trip_stored ?es" by (metis getEvents_log)
  then have "appendEvents ck w events d
      = (case foldEvents (log_of w d @ map trip_stored ?es) of
          Inl err \<Rightarrow> (d2, Inl err)
        | Inr s \<Rightarrow> (set_status (ck_now ck) w (st_status s) d2, Inr (?es, s)))"
    using assms(1,2) d2(1) unfolding append_inputs_def
    by (simp add: appendEvents_def Let_def start)
  with d2 show ?thesis by blast
qed

lemma db_invD:
  assumes "db_inv d"
  shows "distinct (execution_ids d)" "log_ok (log_of w d)" "task_inv (db_tasks d)"
    "r \<in> set (db_events d) \<Longrightarrow> fst r \<in> set (execution_ids d)"
    "t \<in> set (tt_rows (db_tasks d)) \<Longrightarrow> t_workflowId t \<in> set (execution_ids d)"
    "x \<in> set (db_executions d) \<Longrightarrow> \<exists>s. foldEvents (log_of (ex_id x) d) = Inr s \<and> ex_status x = st_status s"
  using assms unfolding db_inv_def by blast+

lemma effective_sub: "set (effective_inputs b is) \<subseteq> set is"
  by (induction "is" arbitrary: b) (auto split: if_splits)

lemma made_from_workflow:
  "list_all2 (made_from ck) is ts \<Longrightarrow> \<forall>i \<in> set is. ei_workflowId i = w \<Longrightarrow> t \<in> set ts \<Longrightarrow> t_workflowId t = w"
proof (induction rule: list_all2_induct)
  case (Cons i "is" u us)
  then have "t_workflowId u = w" by (metis list.set_intros(1) made_from_def workflow_new_task)
  with Cons show ?case by auto
qed simp

lemma log_of_cong: "db_events d = db_events d' \<Longrightarrow> log_of w d = log_of w d'"
  by (simp add: log_of_def)

lemma appendEvents_inv:
  assumes inv: "db_inv d" and app: "appendEvents ck w events d = (d', Inr (es, s))"
  shows "db_inv d' \<and> es = number_events (Suc (length (log_of w d))) events
    \<and> log_of w d' = log_of w d @ map trip_stored es \<and> (\<forall>v. v \<noteq> w \<longrightarrow> log_of v d' = log_of v d)
    \<and> foldEvents (log_of w d') = Inr s \<and> execution_ids d' = execution_ids d"
proof -
  have ne: "events \<noteq> []" and w: "w \<in> set (execution_ids d)"
    using app by (auto simp: appendEvents_def split: if_splits)
  note ok = db_invD(2) [OF inv]
  let ?es = "number_events (Suc (length (log_of w d))) events"
  from appendEvents_shape [OF ne w ok, of ck] obtain d2 ts where d2:
    "tt_rows (db_tasks d2) = tt_rows (db_tasks d) @ ts"
    "list_all2 (made_from ck) (effective_inputs (has_live_workflow_task w d) (append_inputs ck w ?es)) ts"
    "task_inv (db_tasks d) \<longrightarrow> task_inv (db_tasks d2)" "db_executions d2 = db_executions d"
    "db_events d2 = db_events (insert_events w ?es d)"
    and eq: "appendEvents ck w events d = (case foldEvents (log_of w d @ map trip_stored ?es) of
          Inl err \<Rightarrow> (d2, Inl err)
        | Inr s \<Rightarrow> (set_status (ck_now ck) w (st_status s) d2, Inr (?es, s)))"
    by blast
  from app eq have es: "es = ?es" and fold: "foldEvents (log_of w d @ map trip_stored es) = Inr s"
    and d': "d' = set_status (ck_now ck) w (st_status s) d2"
    by (auto split: sum.splits)
  have log: "log_of v d' = (if v = w then log_of w d @ map trip_stored es else log_of v d)" for v
    using log_of_cong [OF d2(5), of v] log_insert [of v w ?es d] by (simp add: d' es)
  have ids: "execution_ids d' = execution_ids d" using d2(4) by (simp add: d' execution_ids_def set_status_def)
  have "db_inv d'"
    unfolding db_inv_def
  proof (intro conjI allI ballI)
    show "distinct (execution_ids d')" using db_invD(1) [OF inv] ids by simp
    show "log_ok (log_of v d')" for v using log_ok_append [OF ok, of w events] ok by (simp add: log es)
    show "task_inv (db_tasks d')" using d2(3) db_invD(3) [OF inv] by (simp add: d')
  next
    fix r assume "r \<in> set (db_events d')"
    then show "fst r \<in> set (execution_ids d')"
      using d2(5) db_invD(4) [OF inv, of r] w ids by (auto simp: d' insert_events_def)
  next
    fix t assume "t \<in> set (tt_rows (db_tasks d'))"
    then consider "t \<in> set (tt_rows (db_tasks d))" | "t \<in> set ts" using d2(1) by (auto simp: d')
    then show "t_workflowId t \<in> set (execution_ids d')"
    proof cases
      case 1
      then show ?thesis using db_invD(5) [OF inv] ids by simp
    next
      case 2
      have "\<forall>i \<in> set (effective_inputs (has_live_workflow_task w d) (append_inputs ck w ?es)). ei_workflowId i = w"
        using effective_sub append_inputs_workflow by blast
      then have "t_workflowId t = w" using made_from_workflow [OF d2(2) _ 2] by blast
      then show ?thesis using w ids by simp
    qed
  next
    fix x assume "x \<in> set (db_executions d')"
    then obtain y where y: "y \<in> set (db_executions d)"
      "x = (if ex_id y = w then y\<lparr>ex_status := st_status s, ex_updatedAt := ck_now ck\<rparr> else y)"
      using d2(4) by (auto simp: d' set_status_def)
    then show "\<exists>s. foldEvents (log_of (ex_id x) d') = Inr s \<and> ex_status x = st_status s"
      using fold db_invD(6) [OF inv y(1)] by (auto simp: log)
  qed
  then show ?thesis using log es fold ids by auto
qed

subsection \<open>Statements that append nothing\<close>

lemma rollback_same [simp]:
  "getEvents w (rollback d d') = getEvents w d" "execution_ids (rollback d d') = execution_ids d"
  "tt_rows (db_tasks (rollback d d')) = tt_rows (db_tasks d)" "db_events (rollback d d') = db_events d"
  "db_executions (rollback d d') = db_executions d" "db_toolExecutions (rollback d d') = db_toolExecutions d"
  "db_sideEffects (rollback d d') = db_sideEffects d"
  by (simp_all add: rollback_def getEvents_def execution_ids_def)

lemma same_tables_inv:
  assumes "db_executions d' = db_executions d" "db_events d' = db_events d" "db_tasks d' = db_tasks d"
  shows "db_inv d' \<longleftrightarrow> db_inv d"
  by (simp add: db_inv_def log_of_def execution_ids_def assms)

lemma new_tasks_inv:
  assumes "db_inv d" "task_inv tbl" "\<And>t. t \<in> set (tt_rows tbl) \<Longrightarrow> t_workflowId t \<in> set (execution_ids d)"
  shows "db_inv (d\<lparr>db_tasks := tbl\<rparr>)"
  using assms by (simp add: db_inv_def log_of_def execution_ids_def)

lemma update_rows_db_inv:
  assumes "db_inv d" "task_inv (update_rows P f (db_tasks d))" "\<And>t. t_workflowId (f t) = t_workflowId t"
  shows "db_inv (d\<lparr>db_tasks := update_rows P f (db_tasks d)\<rparr>)"
  using assms by (intro new_tasks_inv) (auto simp: in_rows_update db_invD(5))

lemma rollback_inv:
  assumes inv: "db_inv d"
  shows "db_inv (rollback d d')"
proof -
  have "tt_nextId (db_tasks d) \<le> tt_nextId (db_tasks (rollback d d'))" by (simp add: rollback_def)
  note le = this and t = db_invD(3) [OF inv]
  have tasks: "task_inv (db_tasks (rollback d d'))"
  proof (rule task_invI; unfold rollback_same)
    show "distinct (map t_id (tt_rows (db_tasks d)))" by (rule inv_distinct [OF t])
    show "t_id u < tt_nextId (db_tasks (rollback d d'))" if "u \<in> set (tt_rows (db_tasks d))" for u
      using inv_nextId [OF t that] le by (rule less_le_trans)
    show "row_ok u" if "u \<in> set (tt_rows (db_tasks d))" for u by (rule inv_row_ok [OF t that])
    show "t_id u = t_id v" if "u \<in> set (tt_rows (db_tasks d))" "v \<in> set (tt_rows (db_tasks d))" "live_workflow_task u"
      "live_workflow_task v" "t_workflowId u = t_workflowId v" for u v
      by (rule one_live [OF t that])
  qed
  have log: "log_of w (rollback d d') = log_of w d" for w by (simp add: log_of_def)
  from inv tasks show ?thesis unfolding db_inv_def log rollback_same by blast
qed

lemma new_execution_inv:
  assumes inv: "db_inv d" and x: "ex_id x \<notin> set (execution_ids d)" "ex_status x = RUNNING"
  shows "db_inv (d\<lparr>db_executions := db_executions d @ [x]\<rparr>)"
proof -
  have log: "log_of v (d\<lparr>db_executions := db_executions d @ [x]\<rparr>) = log_of v d" for v by (simp add: log_of_def)
  have new: "log_of (ex_id x) d = []" using db_invD(4) [OF inv] x(1) by (auto simp: log_of_def filter_empty_conv)
  have ids: "execution_ids (d\<lparr>db_executions := db_executions d @ [x]\<rparr>) = execution_ids d @ [ex_id x]"
    by (simp add: execution_ids_def)
  show ?thesis
    using inv x unfolding db_inv_def log ids by (auto simp: new foldEvents_def initialState_def log_ok_def)
qed

end
