(* ===== verification/StoreProps.thy ===== *)
theory StoreProps
  imports StoreInv "HOL-Library.Sublist"
begin

section \<open>Properties of the event store and the ledgers\<close>

subsection \<open>The interface of an event log\<close>

text \<open>
  What the engine relies on when it reads a history: an append extends the log of one workflow by
  the appended events under the next sequence numbers and touches no other log. From that alone a
  log is never rewritten and never has a gap.
\<close>

locale event_log =
  fixes read :: "'s \<Rightarrow> string \<Rightarrow> stored_event list"
    and appends :: "string \<Rightarrow> wf_event list \<Rightarrow> 's \<Rightarrow> 's \<Rightarrow> bool"
    and good :: "'s \<Rightarrow> bool"
  assumes append_good: "good s \<Longrightarrow> appends w es s s' \<Longrightarrow> good s'"
    and append_read: "good s \<Longrightarrow> appends w es s s' \<Longrightarrow>
      read s' w = read s w @ map trip_stored (number_events (Suc (length (read s w))) es)"
    and append_other: "good s \<Longrightarrow> appends w es s s' \<Longrightarrow> v \<noteq> w \<Longrightarrow> read s' v = read s v"
begin

definition grows :: "'s \<Rightarrow> 's \<Rightarrow> bool" where
  "grows s s' \<longleftrightarrow> (\<exists>w es. appends w es s s')"

lemma grow_prefix: "good s \<Longrightarrow> grows s s' \<Longrightarrow> prefix (read s v) (read s' v)"
  unfolding grows_def using append_read append_other by (metis prefixI prefix_order.refl)

lemma grows_good: "grows\<^sup>*\<^sup>* s s' \<Longrightarrow> good s \<Longrightarrow> good s'"
  by (induction rule: rtranclp_induct) (auto simp: grows_def intro: append_good)

lemma log_prefix: "grows\<^sup>*\<^sup>* s s' \<Longrightarrow> good s \<Longrightarrow> prefix (read s v) (read s' v)"
proof (induction rule: rtranclp_induct)
  case (step y z)
  then show ?case using grow_prefix [of y z v] grows_good [OF step.hyps(1)] by (meson prefix_order.trans)
qed simp

lemma log_stays_ok: "grows\<^sup>*\<^sup>* s s' \<Longrightarrow> good s \<Longrightarrow> log_ok (read s v) \<Longrightarrow> log_ok (read s' v)"
proof (induction rule: rtranclp_induct)
  case (step y z)
  from step.hyps(2) obtain w es where a: "appends w es y z" by (auto simp: grows_def)
  have "good y" by (rule grows_good [OF step.hyps(1) step.prems(1)])
  with a step.IH [OF step.prems] show ?case
    using append_read [of y w es z] append_other [of y w es z v] log_ok_append [of "read y w" es]
    by (cases "v = w") auto
qed simp

end

definition appends_db :: "string \<Rightarrow> wf_event list \<Rightarrow> db \<Rightarrow> db \<Rightarrow> bool" where
  "appends_db w es d d' \<longleftrightarrow> (\<exists>ck r. appendEvents ck w es d = (d', Inr r))"

lemma getEvents_inv: "db_inv d \<Longrightarrow> getEvents w d = log_of w d"
  by (simp add: getEvents_log db_invD(2))

interpretation pg_log: event_log "\<lambda>d w. getEvents w d" appends_db db_inv
proof
  fix d d' :: db and w v es
  assume inv: "db_inv d" and "appends_db w es d d'"
  then obtain ck evs s where app: "appendEvents ck w es d = (d', Inr (evs, s))"
    by (auto simp: appends_db_def)
  note a = appendEvents_inv [OF inv app]
  show "db_inv d'" using a by simp
  then show "getEvents w d' = getEvents w d @ map trip_stored (number_events (Suc (length (getEvents w d))) es)"
    using a inv by (simp add: getEvents_inv)
  show "v \<noteq> w \<Longrightarrow> getEvents v d' = getEvents v d"
    using a inv \<open>db_inv d'\<close> by (simp add: getEvents_inv)
qed

text \<open>
  The steps of the store: a transaction of \<open>appendEvents\<close> with whatever result, a transaction that
  was rolled back after any statements, a new execution row, and each statement of the queue, the
  ledgers, the audit and leadership on its own. A longer transaction that commits is the steps of
  its statements one after the other (\<open>withTransaction\<close> changes nothing when no error is thrown).
\<close>

inductive store_step :: "db \<Rightarrow> db \<Rightarrow> bool" where
  store_append: "store_step d (fst (withTransaction (appendEvents ck w es) d))"
| store_rollback: "store_step d (rollback d d')"
| store_execution: "ex_id x \<notin> set (execution_ids d) \<Longrightarrow> ex_status x = RUNNING \<Longrightarrow>
    store_step d (d\<lparr>db_executions := db_executions d @ [x]\<rparr>)"
| store_enqueue: "store_step d (fst (enqueue_db ck i d))"
| store_dequeue: "store_step d (d\<lparr>db_tasks := fst (dequeue now locked input (db_tasks d))\<rparr>)"
| store_heartbeat: "store_step d (d\<lparr>db_tasks := fst (heartbeat now ids u secs (db_tasks d))\<rparr>)"
| store_complete: "store_step d (d\<lparr>db_tasks := fst (complete i u (db_tasks d))\<rparr>)"
| store_fail: "store_step d (d\<lparr>db_tasks := fst (fail now random fin (db_tasks d))\<rparr>)"
| store_reclaim: "store_step d (d\<lparr>db_tasks := fst (reclaimExpired now locked limit (db_tasks d))\<rparr>)"
| store_requeue: "store_step d (d\<lparr>db_tasks := fst (requeueDeadTask now i (db_tasks d))\<rparr>)"
| store_claim: "store_step d (fst (claimToolExecution ck c d))"
| store_result: "store_step d (completeToolExecution ck w stepId v d)"
| store_effect: "store_step d (fst (recordSideEffect w stepId kind v d))"
| store_call: "store_step d (recordProviderCall ck w stepId h attempt d)"
| store_leader: "store_step d (recordLeadership ck leaderId d)"

lemma queue_statement_inv:
  assumes inv: "db_inv d"
  shows "db_inv (d\<lparr>db_tasks := fst (dequeue now locked input (db_tasks d))\<rparr>)"
    "db_inv (d\<lparr>db_tasks := fst (heartbeat now ids u secs (db_tasks d))\<rparr>)"
    "db_inv (d\<lparr>db_tasks := fst (complete i u (db_tasks d))\<rparr>)"
    "db_inv (d\<lparr>db_tasks := fst (fail now random fin (db_tasks d))\<rparr>)"
    "db_inv (d\<lparr>db_tasks := fst (reclaimExpired now locked limit (db_tasks d))\<rparr>)"
    "db_inv (d\<lparr>db_tasks := fst (requeueDeadTask now i (db_tasks d))\<rparr>)"
proof -
  note t = db_invD(3) [OF inv] and [intro] = update_rows_db_inv [OF inv]
  show "db_inv (d\<lparr>db_tasks := fst (dequeue now locked input (db_tasks d))\<rparr>)"
    using dequeue_inv [OF t, of now locked input] unfolding dequeue_def Let_def fst_conv
    by (rule update_rows_db_inv [OF inv]) (simp add: lease_task_def)
  show "db_inv (d\<lparr>db_tasks := fst (heartbeat now ids u secs (db_tasks d))\<rparr>)"
    using heartbeat_inv [OF t, of now ids u secs] inv by (cases "ids = []") (auto simp: heartbeat_def Let_def)
  show "db_inv (d\<lparr>db_tasks := fst (complete i u (db_tasks d))\<rparr>)"
    using complete_inv [OF t, of i u] by (auto simp: complete_def Let_def)
  show "db_inv (d\<lparr>db_tasks := fst (fail now random fin (db_tasks d))\<rparr>)"
    using fail_inv [OF t, of now random fin] inv by (auto simp: fail_def Let_def fail_task_def split: sum.splits)
  show "db_inv (d\<lparr>db_tasks := fst (reclaimExpired now locked limit (db_tasks d))\<rparr>)"
    using reclaim_inv [OF t, of now locked limit] unfolding reclaimExpired_def Let_def fst_conv
    by (rule update_rows_db_inv [OF inv]) (simp add: release_task_def)
  show "db_inv (d\<lparr>db_tasks := fst (requeueDeadTask now i (db_tasks d))\<rparr>)"
    using requeue_inv [OF t, of now i] inv by (auto simp: requeueDeadTask_def Let_def split: if_splits)
qed

lemma enqueue_db_db_inv:
  assumes inv: "db_inv d"
  shows "db_inv (fst (enqueue_db ck i d))"
proof -
  let ?q = "enqueue (ck_now ck) (ck_date ck) (execution_ids d) i (db_tasks d)"
  have "db_inv (d\<lparr>db_tasks := fst ?q\<rparr>)"
  proof (rule new_tasks_inv [OF inv enqueue_inv [OF db_invD(3) [OF inv]]])
    show "t_workflowId t \<in> set (execution_ids d)" if "t \<in> set (tt_rows (fst ?q))" for t
      using that db_invD(5) [OF inv] by (auto simp: enqueue_def Let_def split: if_splits)
  qed
  then show ?thesis by (cases "?q") (simp add: enqueue_db_def)
qed

lemma store_step_cases:
  assumes "store_step d d'" "db_inv d"
  shows "pg_log.grows d d' \<or> db_inv d' \<and> db_events d' = db_events d"
  using assms(1)
proof cases
  case (store_append ck w es)
  then show ?thesis
    using rollback_inv [OF assms(2)]
    by (cases "appendEvents ck w es d" rule: prod.exhaust; cases "snd (appendEvents ck w es d)")
       (auto simp: withTransaction_def pg_log.grows_def appends_db_def)
next
  case (store_execution x)
  then show ?thesis using new_execution_inv [OF assms(2)] by simp
next
  case (store_enqueue ck i)
  then show ?thesis using enqueue_db_db_inv [OF assms(2)] enqueue_db_frame [of ck i d] by (metis prod.collapse)
qed (use assms(2) rollback_inv queue_statement_inv in \<open>auto simp: claimToolExecution_def completeToolExecution_def
    recordSideEffect_def recordProviderCall_def recordLeadership_def same_tables_inv [of "d\<lparr>db_toolExecutions := x\<rparr>" d for x]
    same_tables_inv [of "d\<lparr>db_sideEffects := x\<rparr>" d for x] same_tables_inv [of "d\<lparr>db_providerCalls := x\<rparr>" d for x]
    same_tables_inv [of "d\<lparr>db_leader := x\<rparr>" d for x] split: option.splits\<close>)

lemma store_step_keeps:
  assumes "store_step d d'" "db_inv d"
  shows "db_inv d' \<and> prefix (getEvents v d) (getEvents v d')"
  using store_step_cases [OF assms] assms(2) pg_log.grow_prefix pg_log.grows_good [OF r_into_rtranclp]
  by (auto simp: getEvents_def)

text \<open>
  C23: History is append-only. Whatever steps the store makes, in whatever order, appends that
  succeed, fail or are rolled back among them, the invariant of the store is kept, the log a reader
  saw stays a prefix of the log of that workflow, and the log read back is numbered 1, 2, 3, ...
  without a gap.
\<close>

theorem history_is_append_only:
  assumes "store_step\<^sup>*\<^sup>* d d'" "db_inv d"
  shows "db_inv d' \<and> prefix (getEvents w d) (getEvents w d')
    \<and> map seq (getEvents w d') = [1..<Suc (length (getEvents w d'))]"
proof -
  have "db_inv d' \<and> prefix (getEvents w d) (getEvents w d')"
    using assms
  proof (induction rule: rtranclp_induct)
    case (step y z)
    then show ?case using store_step_keeps [of y z w] prefix_order.trans by blast
  qed simp
  moreover from this have "log_ok (getEvents w d')" using db_invD(2) [of d' w] by (simp add: getEvents_inv)
  ultimately show ?thesis unfolding log_ok_def by blast
qed

subsection \<open>What an append does\<close>

lemma effective_append:
  "effective_inputs live (append_inputs ck w es)
   = List.map_filter (task_for w (ck_trace ck)) es @ (if live then [] else [base_input TWorkflow w (ck_trace ck)])"
proof -
  have "effective_inputs live (is @ js) = is @ effective_inputs live js"
    if "\<forall>i \<in> set is. ei_taskType i \<noteq> TWorkflow" for "is" js
    using that by (induction "is") auto
  moreover have "\<forall>i \<in> set (List.map_filter (task_for w (ck_trace ck)) es). ei_taskType i \<noteq> TWorkflow"
    by (auto simp: List.map_filter_def base_input_def split: wf_event.splits)
  ultimately show ?thesis by (simp add: append_inputs_def base_input_def)
qed

lemma made_live:
  "list_all2 (made_from ck) is ts \<Longrightarrow> i \<in> set is \<Longrightarrow> ei_taskType i = TWorkflow \<Longrightarrow>
   \<exists>t \<in> set ts. live_workflow_task t \<and> t_workflowId t = ei_workflowId i"
proof (induction rule: list_all2_induct)
  case (Cons j "is" u us)
  then show ?case
    using live_new_task [of "ck_now ck" "ck_date ck" j "t_id u"] workflow_new_task [of "ck_now ck" "ck_date ck" j "t_id u"]
    by (auto simp: made_from_def)
qed simp

lemma set_status_sets:
  "x \<in> set (db_executions (set_status now w st d)) \<Longrightarrow> ex_id x = w \<Longrightarrow> ex_status x = st"
proof -
  let ?f = "\<lambda>y. if ex_id y = w then y\<lparr>ex_status := st, ex_updatedAt := now\<rparr> else y"
  assume x: "x \<in> set (db_executions (set_status now w st d))" and id: "ex_id x = w"
  have "db_executions (set_status now w st d) = map ?f (db_executions d)" by (simp add: set_status_def)
  with x have "x \<in> ?f ` set (db_executions d)" by (simp only: set_map)
  then obtain y where "x = ?f y" by (rule imageE)
  with id show "ex_status x = st" by (cases "ex_id y = w") simp_all
qed

lemma append_events_full:
  assumes inv: "db_inv d" and ne: "events \<noteq> []" and w: "w \<in> set (execution_ids d)"
    and ok: "\<forall>e \<in> set events. \<forall>m p. e = SignalReceived m p \<longrightarrow> m \<notin> set object_prototype_names"
  shows "\<exists>d' es s ts. appendEvents ck w events d = (d', Inr (es, s))
    \<and> es = number_events (Suc (length (getEvents w d))) events
    \<and> getEvents w d' = getEvents w d @ map trip_stored es
    \<and> tt_rows (db_tasks d') = tt_rows (db_tasks d) @ ts
    \<and> list_all2 (made_from ck)
        (List.map_filter (task_for w (ck_trace ck)) es
         @ (if has_live_workflow_task w d then [] else [base_input TWorkflow w (ck_trace ck)])) ts
    \<and> has_live_workflow_task w d'
    \<and> foldEvents (getEvents w d') = Inr s
    \<and> (\<forall>x \<in> set (db_executions d'). ex_id x = w \<longrightarrow> ex_status x = st_status s)
    \<and> db_inv d'"
proof -
  let ?es = "number_events (Suc (length (log_of w d))) events"
  note lok = db_invD(2) [OF inv]
  from appendEvents_shape [OF ne w lok, of ck] obtain d2 ts where
    rows: "tt_rows (db_tasks d2) = tt_rows (db_tasks d) @ ts"
    and made: "list_all2 (made_from ck) (effective_inputs (has_live_workflow_task w d) (append_inputs ck w ?es)) ts"
    and eq: "appendEvents ck w events d = (case foldEvents (log_of w d @ map trip_stored ?es) of
          Inl err \<Rightarrow> (d2, Inl err)
        | Inr s \<Rightarrow> (set_status (ck_now ck) w (st_status s) d2, Inr (?es, s)))"
    by blast
  from w obtain x where "x \<in> set (db_executions d)" "ex_id x = w" by (auto simp: execution_ids_def)
  from db_invD(6) [OF inv this(1)] this(2) have "list_all (Not \<circ> proto_signal) (log_of w d)"
    unfolding foldEvents_total [symmetric] by blast
  moreover have "list_all (Not \<circ> proto_signal) (map trip_stored ?es)"
    using ok proto_number [of "Suc (length (log_of w d))" events]
    by (auto simp: list_all_iff proto_trip simp del: proto_signal.simps)
  ultimately obtain s where s: "foldEvents (log_of w d @ map trip_stored ?es) = Inr s"
    using foldEvents_total [of "log_of w d @ map trip_stored ?es"] by auto
  let ?d' = "set_status (ck_now ck) w (st_status s) d2"
  have app: "appendEvents ck w events d = (?d', Inr (?es, s))" using eq s by simp
  note a = appendEvents_inv [OF inv app]
  have inv': "db_inv ?d'" using a by simp
  have live: "has_live_workflow_task w ?d'"
  proof (cases "has_live_workflow_task w d")
    case True
    then show ?thesis using rows by (auto simp: has_live_workflow_task_def)
  next
    case False
    then have "base_input TWorkflow w (ck_trace ck) \<in> set (effective_inputs (has_live_workflow_task w d) (append_inputs ck w ?es))"
      unfolding effective_append by simp
    from made_live [OF made this] have "\<exists>t \<in> set ts. live_workflow_task t \<and> t_workflowId t = w"
      by (simp add: base_input_def)
    then show ?thesis using rows by (auto simp: has_live_workflow_task_def)
  qed
  have ge: "getEvents w d = log_of w d" "getEvents w ?d' = log_of w ?d'"
    by (rule getEvents_inv [OF inv], rule getEvents_inv [OF inv'])
  show ?thesis
  proof (intro exI conjI)
    show "appendEvents ck w events d = (?d', Inr (?es, s))" by (rule app)
    show "?es = number_events (Suc (length (getEvents w d))) events" by (simp only: ge)
    show "getEvents w ?d' = getEvents w d @ map trip_stored ?es" using a by (simp only: ge)
    show "tt_rows (db_tasks ?d') = tt_rows (db_tasks d) @ ts" using rows by simp
    show "list_all2 (made_from ck) (List.map_filter (task_for w (ck_trace ck)) ?es
         @ (if has_live_workflow_task w d then [] else [base_input TWorkflow w (ck_trace ck)])) ts"
      using made unfolding effective_append .
    show "foldEvents (getEvents w ?d') = Inr s" unfolding ge using a by blast
    show "\<forall>x \<in> set (db_executions ?d'). ex_id x = w \<longrightarrow> ex_status x = st_status s"
      using set_status_sets by blast
  qed (rule live, rule inv')
qed

text \<open>
  What \<open>appendEvents\<close> does when it succeeds, which it does exactly when there is something to
  append, the workflow exists, and no event is a signal the fold throws on: the events follow the
  log under the next sequence numbers; the task table gains one task for every event that
  schedules something, in order, and a workflow task unless one is live; afterwards the workflow
  has a live workflow task; the status column is the status of the fold of the whole log; and the
  database invariant holds.
\<close>

theorem append_events_effect:
  assumes inv: "db_inv d" and ne: "events \<noteq> []" and w: "w \<in> set (execution_ids d)"
    and ok: "\<forall>e \<in> set events. \<forall>m p. e = SignalReceived m p \<longrightarrow> m \<notin> set object_prototype_names"
  shows "\<exists>d' es s ts. appendEvents ck w events d = (d', Inr (es, s))
    \<and> es = number_events (Suc (length (getEvents w d))) events
    \<and> getEvents w d' = getEvents w d @ map trip_stored es
    \<and> tt_rows (db_tasks d') = tt_rows (db_tasks d) @ ts
    \<and> list_all2 (made_from ck)
        (List.map_filter (task_for w (ck_trace ck)) es
         @ (if has_live_workflow_task w d then [] else [base_input TWorkflow w (ck_trace ck)])) ts
    \<and> has_live_workflow_task w d'
    \<and> foldEvents (getEvents w d') = Inr s
    \<and> (\<forall>x \<in> set (db_executions d'). ex_id x = w \<longrightarrow> ex_status x = st_status s)
    \<and> db_inv d'"
  using assms by (rule append_events_full)

definition clock0 :: clock where
  "clock0 = \<lparr>ck_now = 1000, ck_date = 1000, ck_trace = None\<rparr>"

text \<open>A database with one workflow that has not started yet.\<close>

definition fresh_db :: db where
  "fresh_db = \<lparr>db_executions = [\<lparr>ex_id = ''w1'', ex_workflowType = ''two'', ex_input = JNull, ex_status = RUNNING,
       ex_createdAt = 0, ex_updatedAt = 0\<rparr>],
     db_events = [], db_tasks = \<lparr>tt_rows = [], tt_nextId = 1\<rparr>, db_toolExecutions = [], db_sideEffects = [],
     db_providerCalls = [], db_leader = None\<rparr>"

lemma fresh_db_inv: "db_inv fresh_db"
proof -
  have "task_inv (db_tasks fresh_db)" by (rule task_invI) (simp_all add: fresh_db_def)
  then show ?thesis
    by (simp add: db_inv_def fresh_db_def execution_ids_def log_of_def log_ok_def foldEvents_def initialState_def)
qed

theorem append_events_effect_witness:
  "\<exists>d' s. appendEvents clock0 ''w1'' [WorkflowStarted ''two'' JNull] fresh_db
     = (d', Inr ([\<lparr>seq = 1, event = WorkflowStarted ''two'' JNull\<rparr>], s)) \<and> has_live_workflow_task ''w1'' d'"
  using append_events_effect [OF fresh_db_inv, of "[WorkflowStarted ''two'' JNull]" "''w1''" clock0]
  by (auto simp: fresh_db_def execution_ids_def getEvents_def)

theorem history_is_append_only_witness:
  "\<exists>d'. prefix (getEvents ''w1'' fresh_db) (getEvents ''w1'' d') \<and> getEvents ''w1'' d' \<noteq> [] \<and> db_leader d' = Some (''r1'', 1000)"
proof -
  from append_events_full [OF fresh_db_inv, of "[WorkflowStarted ''two'' JNull]" "''w1''" clock0]
  obtain d1 r where d1: "appendEvents clock0 ''w1'' [WorkflowStarted ''two'' JNull] fresh_db = (d1, Inr r)"
    "getEvents ''w1'' d1 \<noteq> []"
    by (auto simp: fresh_db_def execution_ids_def)
  then have "store_step fresh_db d1"
    using store_append [of fresh_db clock0 "''w1''" "[WorkflowStarted ''two'' JNull]"] by (simp add: withTransaction_def)
  moreover have "store_step d1 (recordLeadership clock0 ''r1'' d1)" by (rule store_leader)
  ultimately have "store_step\<^sup>*\<^sup>* fresh_db (recordLeadership clock0 ''r1'' d1)" by simp
  from history_is_append_only [OF this fresh_db_inv, of "''w1''"] d1(2) show ?thesis
    by (intro exI [of _ "recordLeadership clock0 ''r1'' d1"]) (simp add: recordLeadership_def getEvents_def clock0_def)
qed

lemma append_fails_iff:
  assumes inv: "db_inv d"
  shows "(\<exists>err. snd (appendEvents ck w events d) = Inl err) \<longleftrightarrow> events = [] \<or> w \<notin> set (execution_ids d)
      \<or> (\<exists>m p. SignalReceived m p \<in> set events \<and> m \<in> set object_prototype_names)" (is "?fails = ?bad")
proof
  assume "?fails"
  then show ?bad using append_events_full [OF inv, of events w ck] by fastforce
next
  assume ?bad
  show ?fails
  proof (cases "events = [] \<or> w \<notin> set (execution_ids d)")
    case True
    then show ?thesis by (auto simp: appendEvents_def)
  next
    case False
    with \<open>?bad\<close> have bad: "\<not> list_all (Not \<circ> proto_signal) (number_events n events)" for n
      unfolding proto_number by blast
    let ?es = "number_events (Suc (length (log_of w d))) events"
    have "\<not> list_all (Not \<circ> proto_signal) (map trip_stored ?es)"
      using bad by (auto simp: list_all_iff proto_trip simp del: proto_signal.simps)
    then have "\<nexists>s. foldEvents (log_of w d @ map trip_stored ?es) = Inr s"
      unfolding foldEvents_total by simp
    then obtain err where "foldEvents (log_of w d @ map trip_stored ?es) = Inl err"
      by (metis sum.exhaust)
    with appendEvents_shape [of events w d ck] False db_invD(2) [OF inv, of w] show ?thesis by fastforce
  qed
qed

text \<open>
  C24: An append is all or nothing. Inside \<open>withTransaction\<close> it fails exactly when there is nothing
  to append, no such workflow, or a signal the fold throws on, and then leaves every table as it
  was, apart from task ids already drawn from the sequence, so that the invariant still holds.
\<close>

theorem append_all_or_nothing:
  assumes "db_inv d" "withTransaction (appendEvents ck w events) d = (d', r)"
  shows "((\<exists>err. r = Inl err) \<longleftrightarrow> events = [] \<or> w \<notin> set (execution_ids d)
      \<or> (\<exists>m p. SignalReceived m p \<in> set events \<and> m \<in> set object_prototype_names))
    \<and> ((\<exists>err. r = Inl err) \<longrightarrow> getEvents v d' = getEvents v d \<and> db_executions d' = db_executions d
      \<and> tt_rows (db_tasks d') = tt_rows (db_tasks d))"
  using append_fails_iff [OF assms(1), of ck w events] assms(2)
  by (auto simp: withTransaction_def rollback_def getEvents_def split: prod.splits sum.splits)

theorem append_all_or_nothing_witness:
  "\<exists>d' err. withTransaction (appendEvents clock0 ''w1'' [SignalReceived ''constructor'' JNull]) fresh_db = (d', Inl err)
     \<and> getEvents ''w1'' d' = []"
proof -
  obtain d' r where eq: "withTransaction (appendEvents clock0 ''w1'' [SignalReceived ''constructor'' JNull]) fresh_db = (d', r)"
    by fastforce
  from append_all_or_nothing [OF fresh_db_inv eq, of "''w1''"] show ?thesis
    using eq by (auto simp: object_prototype_names_def getEvents_def fresh_db_def)
qed

subsection \<open>The tool ledger\<close>

lemma find_claim:
  "fst (claimToolExecution ck c d) = d' \<Longrightarrow>
   \<exists>r. find (\<lambda>r. te_workflowId r = tm_workflowId c \<and> te_stepId r = tm_stepId c) (db_toolExecutions d') = Some r"
  by (auto simp: claimToolExecution_def find_append split: option.splits)

lemma find_map_same:
  assumes "find P xs = Some x" "\<And>y. P (f y) = P y"
  shows "find P (map f xs) = Some (f x)"
  using assms by (induction xs) (auto split: if_splits)

lemma find_complete:
  assumes "find (\<lambda>r. te_workflowId r = w \<and> te_stepId r = i) (db_toolExecutions d) = Some r"
  shows "\<exists>r'. find (\<lambda>r. te_workflowId r = w \<and> te_stepId r = i) (db_toolExecutions (completeToolExecution ck w i v d)) = Some r'
    \<and> te_result r' = jsonb_param v"
proof -
  let ?f = "\<lambda>r. if te_workflowId r = w \<and> te_stepId r = i
              then r\<lparr>te_result := jsonb_param v, te_completedAt := Some (ck_now ck)\<rparr> else r"
  have "find (\<lambda>r. te_workflowId r = w \<and> te_stepId r = i) (map ?f (db_toolExecutions d)) = Some (?f r)"
    by (rule find_map_same [OF assms]) auto
  with find_SomeD [OF assms] show ?thesis by (simp add: completeToolExecution_def)
qed

text \<open>
  The tool ledger executes a step at most once. After a step was claimed and completed with a
  result, every later claim of that step, by any worker under any arguments hash, is refused and
  answered with the recorded result as it reads back from the store; a claim of another step is
  not affected.
\<close>

theorem tool_step_claimed_once:
  assumes "claimToolExecution ck c d = (d1, Claimed)"
    and "d2 = completeToolExecution ck' (tm_workflowId c) (tm_stepId c) v d1"
    and "tm_workflowId c' = tm_workflowId c" "tm_stepId c' = tm_stepId c"
  shows "claimToolExecution ck'' c' d2 = (d2, NotClaimed (or_default (jsonb_param v) JNull))"
proof -
  from find_claim [of ck c d d1] assms(1) obtain r where
    "find (\<lambda>r. te_workflowId r = tm_workflowId c \<and> te_stepId r = tm_stepId c) (db_toolExecutions d1) = Some r"
    by auto
  from find_complete [OF this, of ck' v] show ?thesis
    by (auto simp: claimToolExecution_def assms(2-4))
qed

definition sample_claim :: tool_claim where
  "sample_claim = \<lparr>tm_workflowId = ''w1'', tm_stepId = ''tool-0'', tm_tool = ''refund'', tm_argsHash = ''h''\<rparr>"

theorem tool_step_claimed_once_witness:
  "snd (claimToolExecution clock0 sample_claim (completeToolExecution clock0 ''w1'' ''tool-0'' (JBool True)
      (fst (claimToolExecution clock0 sample_claim fresh_db)))) = NotClaimed (JBool True)"
proof -
  have c: "claimToolExecution clock0 sample_claim fresh_db = (fst (claimToolExecution clock0 sample_claim fresh_db), Claimed)"
    by (simp add: claimToolExecution_def fresh_db_def)
  from tool_step_claimed_once [OF c refl, of sample_claim clock0 clock0 "JBool True"] show ?thesis
    by (simp add: sample_claim_def jsonb_param_def nullish_def or_default_def)
qed

end
