(* ===== verification/TaskProps.thy ===== *)
theory TaskProps
  imports TaskInv
begin

section \<open>Properties of the task queue\<close>

text \<open>
  What the workers rely on: a task is handed to one worker at a time (\<open>dequeue_exclusive\<close>), the
  lease with its attempt number is a fencing token (locale \<open>fencing\<close>), a failed task is retried
  after its backoff or dead-lettered.
\<close>

subsection \<open>The invariant\<close>

text \<open>
  C19: Every statement of the queue keeps the table well formed: ids stay unique, no workflow ever
  has two live workflow tasks, the lease columns are set exactly on the leased and the completed tasks
  (\<open>complete\<close> keeps them), and those were leased at least once (their attempt is at least 1). In particular \<open>reclaimExpired\<close>, \<open>fail\<close> and the
  operator's requeue put a task back without ever creating a second live workflow task.
\<close>

theorem queue_invariant:
  assumes "queue_step\<^sup>*\<^sup>* tbl tbl'" "task_inv tbl"
  shows "task_inv tbl'"
  using assms by (induction rule: rtranclp_induct) (auto intro: queue_step_inv)

definition empty_table :: task_table where
  "empty_table = \<lparr>tt_rows = [], tt_nextId = 1\<rparr>"

lemma empty_table_inv: "task_inv empty_table"
  by (rule task_invI) (simp_all add: empty_table_def)

definition workflow_input :: enqueue_input where
  "workflow_input = \<lparr>ei_taskType = TWorkflow, ei_workflowId = ''w1'', ei_queue = None, ei_scheduledEventSeq = None,
     ei_runAfter = None, ei_maxAttempts = Some 2, ei_traceContext = None\<rparr>"

definition worker_input :: dequeue_input where
  "worker_input = \<lparr>di_workerId = ''wk'', di_queue = None, di_taskType = Some TWorkflow, di_limit = 1, di_leaseSeconds = 30\<rparr>"

definition one_task :: task_table where
  "one_task = fst (enqueue 0 0 [''w1''] workflow_input empty_table)"

theorem queue_invariant_witness: "task_inv (fst (dequeue 5 [] worker_input one_task))"
proof (rule queue_invariant)
  have "queue_step empty_table one_task"
    unfolding one_task_def by (intro step_worker step_enqueue)
  moreover have "queue_step one_task (fst (dequeue 5 [] worker_input one_task))"
    by (intro step_worker step_dequeue)
  ultimately show "queue_step\<^sup>*\<^sup>* empty_table (fst (dequeue 5 [] worker_input one_task))" by simp
qed (rule empty_table_inv)

subsection \<open>Dequeue\<close>

lemma candidates_sub:
  "t \<in> set (candidates now locked input tbl) \<Longrightarrow>
   t \<in> set (tt_rows tbl) \<and> candidate now input t \<and> t_id t \<notin> set locked"
  by (auto simp: candidates_def dest!: in_set_takeD)

lemma distinct_ids_sort:
  assumes "distinct (map t_id xs)"
  shows "distinct (map t_id (take n (sort_key f (filter P xs))))"
proof -
  have "mset (map t_id (sort_key f (filter P xs))) = mset (map t_id (filter P xs))" by simp
  then have "distinct (map t_id (sort_key f (filter P xs)))"
    by (metis assms distinct_map_filter mset_eq_imp_distinct_iff)
  then show ?thesis by (metis distinct_take take_map)
qed

lemma candidates_distinct: "task_inv tbl \<Longrightarrow> distinct (map t_id (candidates now locked input tbl))"
  unfolding candidates_def by (intro distinct_ids_sort inv_distinct)

lemma dequeued_row:
  assumes inv: "task_inv tbl" and t: "t \<in> set (tt_rows tbl)"
  shows "t_id t \<in> set (map t_id (candidates now locked input tbl)) \<longleftrightarrow> t \<in> set (candidates now locked input tbl)"
  using t same_row [OF inv] by (auto dest: candidates_sub)

lemma dequeue_task_in:
  "t \<in> set (snd (dequeue now locked input tbl)) \<Longrightarrow>
   t \<in> set (tt_rows (fst (dequeue now locked input tbl))) \<and> t_status t = TLeased"
proof -
  assume "t \<in> set (snd (dequeue now locked input tbl))"
  then obtain u where u: "u \<in> set (candidates now locked input tbl)" "t = lease_task now input u"
    by (auto simp: dequeue_def Let_def)
  let ?P = "\<lambda>t. t_id t \<in> set (map t_id (candidates now locked input tbl))"
  have "\<exists>v \<in> set (tt_rows tbl). t = (if ?P v then lease_task now input v else v)"
    using candidates_sub [OF u(1)] u by (intro bexI [of _ u]) auto
  then have "t \<in> set (tt_rows (update_rows ?P (lease_task now input) tbl))"
    unfolding in_rows_update .
  then show ?thesis using u(2) by (simp add: dequeue_def Let_def lease_task_def)
qed

lemma take_sorted_rest:
  assumes "u \<in> set xs" "u \<notin> set (take n (sort_key f xs))"
  shows "n \<le> length xs \<and> (\<forall>t \<in> set (take n (sort_key f xs)). f t \<le> f u)"
proof -
  let ?s = "sort_key f xs"
  have "u \<in> set (take n ?s @ drop n ?s)" using assms(1) by simp
  then have u: "u \<in> set (drop n ?s)" using assms(2) by (simp del: append_take_drop_id)
  then have "n \<le> length xs" by (cases "n \<le> length xs") auto
  moreover have "sorted (map f (take n ?s @ drop n ?s))" by simp
  then have "\<forall>x \<in> set (map f (take n ?s)). \<forall>y \<in> set (map f (drop n ?s)). x \<le> y"
    unfolding map_append sorted_append by blast
  ultimately show ?thesis using u by auto
qed

text \<open>
  C20: What \<open>dequeue\<close> hands out. At most \<open>limit\<close> tasks, each of them a due pending task of the queue
  (and type) asked for that nobody has locked, leased to the caller with its attempt number
  incremented; every other row is untouched; and the choice is by due time: a task that was
  eligible but not taken is due no earlier than each of the taken ones, which then are \<open>limit\<close> many.
\<close>

theorem dequeue_leases_due_tasks:
  assumes "task_inv tbl" "dequeue now locked input tbl = (tbl', ts)"
  shows "length ts \<le> di_limit input
    \<and> (\<forall>t \<in> set ts. t \<in> set (tt_rows tbl') \<and> leased_to (di_workerId input) t
         \<and> t_leaseExpiresAt t = Some (now + seconds (di_leaseSeconds input))
         \<and> (\<exists>u \<in> set (tt_rows tbl). candidate now input u \<and> t_id u \<notin> set locked
              \<and> t_id t = t_id u \<and> t_attempt t = Suc (t_attempt u) \<and> t_workflowId t = t_workflowId u))
    \<and> (\<forall>u \<in> set (tt_rows tbl). t_id u \<notin> t_id ` set ts \<longrightarrow> u \<in> set (tt_rows tbl')
         \<and> (candidate now input u \<and> t_id u \<notin> set locked \<longrightarrow>
              length ts = di_limit input \<and> (\<forall>t \<in> set ts. (t_runAfter t, t_id t) \<le> (t_runAfter u, t_id u))))"
proof -
  let ?C = "candidates now locked input tbl"
  have tbl': "tt_rows tbl' = map (\<lambda>t. if t_id t \<in> set (map t_id ?C) then lease_task now input t else t) (tt_rows tbl)"
    and ts: "ts = map (lease_task now input) ?C"
    using assms(2) by (auto simp: dequeue_def Let_def rows_update)
  have len: "length ?C \<le> di_limit input" by (simp add: candidates_def)
  have ids: "t_id ` set ts = set (map t_id ?C)" by (auto simp: ts lease_task_def image_image)
  have taken: "lease_task now input u \<in> set (tt_rows tbl')" if "u \<in> set ?C" for u
    using candidates_sub [OF that] that unfolding tbl' by force
  have rest: "length ?C = di_limit input \<and> (\<forall>t \<in> set ?C. (t_runAfter t, t_id t) \<le> (t_runAfter u, t_id u))"
    if u: "u \<in> set (tt_rows tbl)" "candidate now input u" "t_id u \<notin> set locked" "u \<notin> set ?C" for u
  proof -
    have "u \<in> set (filter (\<lambda>t. candidate now input t \<and> t_id t \<notin> set locked) (tt_rows tbl))" using u by simp
    from take_sorted_rest [OF this u(4) [unfolded candidates_def]] show ?thesis
      by (simp add: candidates_def)
  qed
  show ?thesis
  proof (intro conjI ballI impI)
    show "length ts \<le> di_limit input" using len by (simp add: ts)
  next
    fix t assume "t \<in> set ts"
    then obtain u where u: "u \<in> set ?C" "t = lease_task now input u" by (auto simp: ts)
    show "t \<in> set (tt_rows tbl')" using taken [OF u(1)] u(2) by simp
    show "leased_to (di_workerId input) t" "t_leaseExpiresAt t = Some (now + seconds (di_leaseSeconds input))"
      by (simp_all add: u(2) lease_task_def leased_to_def)
    show "\<exists>u \<in> set (tt_rows tbl). candidate now input u \<and> t_id u \<notin> set locked
        \<and> t_id t = t_id u \<and> t_attempt t = Suc (t_attempt u) \<and> t_workflowId t = t_workflowId u"
      using candidates_sub [OF u(1)] by (intro bexI [of _ u]) (simp_all add: u(2) lease_task_def)
  next
    fix u assume u: "u \<in> set (tt_rows tbl)" "t_id u \<notin> t_id ` set ts"
    show "u \<in> set (tt_rows tbl')" using u unfolding ids tbl' by force
    assume el: "candidate now input u \<and> t_id u \<notin> set locked"
    have "u \<notin> set ?C" using u(2) unfolding ids by auto
    with rest [OF u(1)] el show "length ts = di_limit input" by (simp add: ts)
    fix t assume "t \<in> set ts"
    then obtain v where "v \<in> set ?C" "t = lease_task now input v" by (auto simp: ts)
    with rest [OF u(1)] el \<open>u \<notin> set ?C\<close> show "(t_runAfter t, t_id t) \<le> (t_runAfter u, t_id u)"
      by (simp add: lease_task_def)
  qed
qed

lemma one_task_rows: "one_task = \<lparr>tt_rows = [new_task 0 0 workflow_input 1], tt_nextId = 2\<rparr>"
  by (simp add: one_task_def enqueue_def Let_def empty_table_def workflow_input_def new_task_def)

lemma one_task_inv: "task_inv one_task"
  unfolding one_task_def by (intro enqueue_inv empty_table_inv)

theorem dequeue_leases_due_tasks_witness:
  "length (snd (dequeue 5 [] worker_input one_task)) \<le> 1
   \<and> list_all (leased_to ''wk'') (snd (dequeue 5 [] worker_input one_task))"
  using dequeue_leases_due_tasks [OF one_task_inv surjective_pairing [of "dequeue 5 [] worker_input one_task"]]
  by (auto simp: worker_input_def list_all_iff)

text \<open>
  One owner at a time. While a task is leased no other \<open>dequeue\<close>, by any worker, at any time and
  on any queue, hands it out: the tasks of two dequeues with no statement in between that gives a
  task back have no id in common.
\<close>

theorem dequeue_exclusive:
  assumes "task_inv tbl"
  shows "t_id ` set (snd (dequeue now locked input tbl))
    \<inter> t_id ` set (snd (dequeue now' locked' input' (fst (dequeue now locked input tbl)))) = {}"
proof -
  obtain tbl' ts where d: "dequeue now locked input tbl = (tbl', ts)" by fastforce
  obtain tbl'' ts' where d': "dequeue now' locked' input' tbl' = (tbl'', ts')" by fastforce
  have inv': "task_inv tbl'" using dequeue_inv [OF assms, of now locked input] d by simp
  have "False" if "t \<in> set ts" "t' \<in> set ts'" "t_id t = t_id t'" for t t'
  proof -
    have t: "t \<in> set (tt_rows tbl')" "t_status t = TLeased"
      using that(1) dequeue_task_in [of t now locked input tbl] by (simp_all add: d)
    from that(2) d' obtain u where u: "u \<in> set (candidates now' locked' input' tbl')" "t_id u = t_id t'"
      by (auto simp: dequeue_def Let_def lease_task_def)
    with candidates_sub [OF u(1)] t that(3) same_row [OF inv' t(1), of u] show False
      by (auto simp: candidate_def)
  qed
  then show ?thesis by (auto simp: d d')
qed

theorem dequeue_exclusive_witness:
  "t_id ` set (snd (dequeue 5 [] worker_input one_task))
    \<inter> t_id ` set (snd (dequeue 99 [] worker_input (fst (dequeue 5 [] worker_input one_task)))) = {}"
  by (rule dequeue_exclusive [OF one_task_inv])

subsection \<open>The fencing token\<close>

text \<open>
  What a fence promises its client: if every step keeps a lost fence lost, then whoever once saw
  the fence fail can discard its work for good.
\<close>

locale fencing =
  fixes step :: "'q \<Rightarrow> 'q \<Rightarrow> bool"
    and owned :: "'f \<Rightarrow> 'q \<Rightarrow> bool"
    and stale :: "'f \<Rightarrow> 'q \<Rightarrow> bool"
    and good :: "'q \<Rightarrow> bool"
  assumes good_step: "good q \<Longrightarrow> step q q' \<Longrightarrow> good q'"
    and owned_step: "good q \<Longrightarrow> owned f q \<Longrightarrow> step q q' \<Longrightarrow> owned f q' \<or> stale f q'"
    and stale_step: "good q \<Longrightarrow> stale f q \<Longrightarrow> step q q' \<Longrightarrow> stale f q'"
    and stale_not_owned: "good q \<Longrightarrow> stale f q \<Longrightarrow> \<not> owned f q"
begin

lemma good_steps: "step\<^sup>*\<^sup>* q q' \<Longrightarrow> good q \<Longrightarrow> good q'"
  by (induction rule: rtranclp_induct) (auto intro: good_step)

lemma owned_or_stale: "step\<^sup>*\<^sup>* q q' \<Longrightarrow> good q \<Longrightarrow> owned f q \<Longrightarrow> owned f q' \<or> stale f q'"
proof (induction rule: rtranclp_induct)
  case (step y z)
  have "good y" by (rule good_steps [OF step.hyps(1) step.prems(1)])
  from step.IH [OF step.prems] show ?case
  proof
    assume "owned f y"
    with \<open>good y\<close> show ?thesis using step.hyps(2) by (rule owned_step)
  next
    assume "stale f y"
    with \<open>good y\<close> have "stale f z" using step.hyps(2) by (rule stale_step)
    then show ?thesis ..
  qed
qed simp

lemma stale_steps: "step\<^sup>*\<^sup>* q q' \<Longrightarrow> good q \<Longrightarrow> stale f q \<Longrightarrow> stale f q'"
proof (induction rule: rtranclp_induct)
  case (step y z)
  show ?case
    by (rule stale_step [OF good_steps [OF step.hyps(1) step.prems(1)] step.IH [OF step.prems] step.hyps(2)])
qed simp

lemma never_regained:
  assumes "good q" "owned f q" "step\<^sup>*\<^sup>* q q'" "\<not> owned f q'" "step\<^sup>*\<^sup>* q' q''"
  shows "\<not> owned f q''"
proof -
  have "stale f q'" using owned_or_stale [OF assms(3,1,2)] assms(4) by blast
  then have "stale f q''" by (rule stale_steps [OF assms(5) good_steps [OF assms(3,1)]])
  then show ?thesis by (rule stale_not_owned [OF good_steps [OF assms(5) good_steps [OF assms(3,1)]]])
qed

end

definition fence_row :: "lease_fence \<Rightarrow> task \<Rightarrow> bool" where
  "fence_row f t \<longleftrightarrow> t_status t = TLeased \<and> t_leasedBy t = Some (fn_workerId f) \<and> t_attempt t = fn_attempt f"

definition stale_row :: "lease_fence \<Rightarrow> task \<Rightarrow> bool" where
  "stale_row f t \<longleftrightarrow> fn_attempt f < t_attempt t \<or> (fn_attempt f = t_attempt t \<and> t_status t \<noteq> TLeased)"

definition fence_stale :: "lease_fence \<Rightarrow> task_table \<Rightarrow> bool" where
  "fence_stale f tbl \<longleftrightarrow> fn_taskId f < tt_nextId tbl
     \<and> (\<forall>t \<in> set (tt_rows tbl). t_id t = fn_taskId f \<longrightarrow> stale_row f t)"

lemma isLeaseOwned_iff:
  "isLeaseOwned f tbl \<longleftrightarrow> (\<exists>t \<in> set (tt_rows tbl). t_id t = fn_taskId f \<and> fence_row f t)"
  by (auto simp: isLeaseOwned_def row_count_def fence_row_def length_greater_0_conv filter_empty_conv)

text \<open>What a statement of the workers does to one row.\<close>

definition row_step :: "task \<Rightarrow> task \<Rightarrow> bool" where
  "row_step t t' \<longleftrightarrow> t_id t' = t_id t \<and>
     (t' = t
      \<or> (t_status t = TPending \<and> t_status t' = TLeased \<and> t_attempt t' = Suc (t_attempt t))
      \<or> (t_status t = TLeased \<and> t_attempt t' = t_attempt t
         \<and> (t_status t' \<noteq> TLeased \<or> t_leasedBy t' = t_leasedBy t)))"

lemma row_step_fence:
  "row_step t t' \<Longrightarrow> fence_row f t \<Longrightarrow> fence_row f t' \<or> stale_row f t'"
  "row_step t t' \<Longrightarrow> stale_row f t \<Longrightarrow> stale_row f t'"
  by (auto simp: row_step_def fence_row_def stale_row_def)

lemma update_row_step:
  assumes "\<And>t. t \<in> set (tt_rows tbl) \<Longrightarrow> P t \<Longrightarrow> row_step t (f t)" "t' \<in> set (tt_rows (update_rows P f tbl))"
  shows "\<exists>t \<in> set (tt_rows tbl). row_step t t'"
proof -
  from assms(2) obtain t where t: "t \<in> set (tt_rows tbl)" "t' = (if P t then f t else t)"
    by (auto simp: in_rows_update)
  have "row_step t t'"
  proof (cases "P t")
    case True
    then show ?thesis using assms(1) [OF t(1)] t(2) by simp
  next
    case False
    then show ?thesis by (simp add: t(2) row_step_def)
  qed
  with t(1) show ?thesis by blast
qed

definition rows_step :: "task_table \<Rightarrow> task_table \<Rightarrow> bool" where
  "rows_step tbl tbl' \<longleftrightarrow> tt_nextId tbl \<le> tt_nextId tbl'
    \<and> (\<forall>t' \<in> set (tt_rows tbl'). t_id t' < tt_nextId tbl \<longrightarrow> (\<exists>t \<in> set (tt_rows tbl). row_step t t'))"

lemma rows_step_refl: "rows_step tbl tbl"
  by (auto simp: rows_step_def row_step_def)

lemma rows_step_update:
  "(\<And>t. t \<in> set (tt_rows tbl) \<Longrightarrow> P t \<Longrightarrow> row_step t (f t)) \<Longrightarrow> rows_step tbl (update_rows P f tbl)"
  using update_row_step [of tbl P f] by (simp add: rows_step_def)

lemma row_step_lease: "t_status t = TPending \<Longrightarrow> row_step t (lease_task now input t)"
  by (simp add: row_step_def lease_task_def)

lemma row_step_leased:
  "leased_to w t \<Longrightarrow> row_step t (t\<lparr>t_leaseExpiresAt := e\<rparr>)"
  "leased_to w t \<Longrightarrow> row_step t (t\<lparr>t_status := TCompleted\<rparr>)"
  "leased_to w t \<Longrightarrow> row_step t (fail_task now d err t)"
  "t_status t = TLeased \<Longrightarrow> row_step t (release_task t)"
  by (simp_all add: row_step_def leased_to_def fail_task_def release_task_def)

lemma worker_step_row:
  assumes "worker_step tbl tbl'" "task_inv tbl"
  shows "rows_step tbl tbl'"
  using assms
proof (induction rule: worker_step.induct)
  case (step_enqueue tbl now date known input)
  have "rows_step tbl (tbl\<lparr>tt_nextId := Suc (tt_nextId tbl)\<rparr>)"
    and "rows_step tbl (tbl\<lparr>tt_nextId := Suc (tt_nextId tbl), tt_rows := tt_rows tbl @ [new_task now date input (tt_nextId tbl)]\<rparr>)"
    by (auto simp: rows_step_def row_step_def new_task_def)
  then show ?case by (auto simp: enqueue_def Let_def)
next
  case (step_dequeue tbl now locked input)
  then have "t_status t = TPending"
    if "t \<in> set (tt_rows tbl)" "t_id t \<in> set (map t_id (candidates now locked input tbl))" for t
    using dequeued_row that candidates_sub [of t now locked input tbl] unfolding candidate_def by blast
  then show ?case
    unfolding dequeue_def Let_def fst_conv by (intro rows_step_update row_step_lease) blast
next
  case (step_heartbeat tbl now ids w secs)
  then show ?case
    by (auto simp: heartbeat_def Let_def intro!: rows_step_update intro: row_step_leased rows_step_refl)
next
  case (step_complete tbl i w)
  then show ?case
    by (auto simp: complete_def Let_def intro!: rows_step_update intro: row_step_leased)
next
  case (step_fail tbl now r finput)
  then show ?case
    by (auto simp: fail_def Let_def intro!: rows_step_update intro: row_step_leased rows_step_refl split: sum.split)
next
  case (step_reclaim tbl now locked limit)
  then show ?case
    unfolding reclaimExpired_def Let_def fst_conv
    by (intro rows_step_update row_step_leased) (auto simp: expired_def dest!: reclaimed_expired)
qed

interpretation task_fence: fencing worker_step isLeaseOwned fence_stale task_inv
proof
  fix q q' f
  assume inv: "task_inv q" and step: "worker_step q q'"
  note row = worker_step_row [OF step inv, unfolded rows_step_def]
  show "task_inv q'" by (rule worker_step_inv [OF step inv])
  show "isLeaseOwned f q' \<or> fence_stale f q'" if "isLeaseOwned f q"
  proof -
    from that obtain t where t: "t \<in> set (tt_rows q)" "t_id t = fn_taskId f" "fence_row f t"
      by (auto simp: isLeaseOwned_iff)
    have id: "fn_taskId f < tt_nextId q" using inv_nextId [OF inv t(1)] t(2) by simp
    have "fence_row f t' \<or> stale_row f t'" if t': "t' \<in> set (tt_rows q')" "t_id t' = fn_taskId f" for t'
    proof -
      from row t' id obtain u where u: "u \<in> set (tt_rows q)" "row_step u t'" by auto
      then have "u = t" using same_row [OF inv u(1) t(1)] t(2) t'(2) by (auto simp: row_step_def)
      with row_step_fence(1) u(2) t(3) show ?thesis by blast
    qed
    then show ?thesis using row id by (auto simp: isLeaseOwned_iff fence_stale_def)
  qed
  show "fence_stale f q'" if "fence_stale f q"
  proof -
    have "stale_row f t'" if t': "t' \<in> set (tt_rows q')" "t_id t' = fn_taskId f" for t'
    proof -
      from row t' \<open>fence_stale f q\<close> obtain u where u: "u \<in> set (tt_rows q)" "row_step u t'"
        by (auto simp: fence_stale_def)
      then have "stale_row f u" using \<open>fence_stale f q\<close> t'(2) by (auto simp: fence_stale_def row_step_def)
      with row_step_fence(2) u(2) show ?thesis by blast
    qed
    then show ?thesis using row that by (auto simp: fence_stale_def)
  qed
next
  fix q f
  assume "fence_stale f q"
  then show "\<not> isLeaseOwned f q"
    by (auto simp: isLeaseOwned_iff fence_stale_def fence_row_def stale_row_def)
qed

text \<open>
  C21: The lease is a fencing token. Once a worker that held a task under a given attempt has lost it
  (reclaimed, failed, completed, or leased again, even to the same worker id), no sequence of
  statements of the workers, the reaper and the enqueuers makes \<open>isLeaseOwned\<close> true for that fence
  again: a late result of the old invocation is always refused.
\<close>

theorem fence_never_regained:
  assumes "task_inv q" "isLeaseOwned f q" "worker_step\<^sup>*\<^sup>* q q'" "\<not> isLeaseOwned f q'" "worker_step\<^sup>*\<^sup>* q' q''"
  shows "\<not> isLeaseOwned f q''"
  using assms by (rule task_fence.never_regained)

definition leased_once :: task_table where
  "leased_once = fst (dequeue 5 [] worker_input one_task)"

definition reclaimed_once :: task_table where
  "reclaimed_once = fst (reclaimExpired 50000 [] 100 leased_once)"

definition leased_twice :: task_table where
  "leased_twice = fst (dequeue 50001 [] worker_input reclaimed_once)"

definition first_fence :: lease_fence where
  "first_fence = \<lparr>fn_taskId = 1, fn_workerId = ''wk'', fn_attempt = 1\<rparr>"

lemmas queue_eval = dequeue_def Let_def candidates_def candidate_def update_rows_def lease_task_def or_default_def
  seconds_def reclaimExpired_def expired_def release_task_def expiry_def isLeaseOwned_def row_count_def
  leased_to_def fail_def fail_task_def requeueDeadTask_def live_workflow_task_def

lemma leased_once_rows: "leased_once = \<lparr>tt_rows = [(new_task 0 0 workflow_input 1)
    \<lparr>t_status := TLeased, t_leasedBy := Some ''wk'', t_leaseExpiresAt := Some 30005, t_attempt := 1\<rparr>], tt_nextId = 2\<rparr>"
  by (simp add: leased_once_def one_task_rows queue_eval worker_input_def workflow_input_def new_task_def default_queue_def)

lemma reclaimed_once_rows: "reclaimed_once = \<lparr>tt_rows = [(new_task 0 0 workflow_input 1)
    \<lparr>t_attempt := 1\<rparr>], tt_nextId = 2\<rparr>"
  by (simp add: reclaimed_once_def leased_once_rows queue_eval workflow_input_def new_task_def)

lemma leased_twice_rows: "leased_twice = \<lparr>tt_rows = [(new_task 0 0 workflow_input 1)
    \<lparr>t_status := TLeased, t_leasedBy := Some ''wk'', t_leaseExpiresAt := Some 80001, t_attempt := 2\<rparr>], tt_nextId = 2\<rparr>"
  by (simp add: leased_twice_def reclaimed_once_rows queue_eval worker_input_def workflow_input_def new_task_def default_queue_def)

text \<open>The same worker leases the task a second time: the fence of its first invocation stays lost.\<close>

theorem fence_never_regained_witness: "\<not> isLeaseOwned first_fence leased_twice"
proof (rule fence_never_regained)
  show "task_inv leased_once" unfolding leased_once_def by (intro dequeue_inv one_task_inv)
  show "isLeaseOwned first_fence leased_once"
    by (simp add: leased_once_rows isLeaseOwned_def row_count_def first_fence_def new_task_def)
  show "worker_step\<^sup>*\<^sup>* leased_once reclaimed_once"
    unfolding reclaimed_once_def by (intro r_into_rtranclp step_reclaim)
  show "\<not> isLeaseOwned first_fence reclaimed_once"
    by (simp add: reclaimed_once_rows isLeaseOwned_def row_count_def first_fence_def new_task_def)
  show "worker_step\<^sup>*\<^sup>* reclaimed_once leased_twice"
    unfolding leased_twice_def by (intro r_into_rtranclp step_dequeue)
qed

definition dead_task_table :: task_table where
  "dead_task_table = fst (fail 50002 (1 / 2) \<lparr>fi_taskId = 1, fi_workerId = ''wk'', fi_error = ''boom'', fi_attempt = 2,
                      fi_minDelaySeconds = 0\<rparr> leased_twice)"

definition leased_after_requeue :: task_table where
  "leased_after_requeue = fst (dequeue 60001 [] worker_input (fst (requeueDeadTask 60000 1 dead_task_table)))"

lemma dead_task_table_rows: "dead_task_table = \<lparr>tt_rows = [(new_task 0 0 workflow_input 1)
    \<lparr>t_status := TDead, t_lastError := Some ''boom'', t_attempt := 2\<rparr>], tt_nextId = 2\<rparr>"
  by (simp add: dead_task_table_def leased_twice_rows fail_def computeRetryDelayWithFloorSeconds_def
      computeRetryDelaySeconds_def Let_def update_rows_def fail_task_def leased_to_def workflow_input_def new_task_def or_default_def)

lemma leased_after_requeue_rows: "leased_after_requeue = \<lparr>tt_rows = [(new_task 0 0 workflow_input 1)
    \<lparr>t_status := TLeased, t_leasedBy := Some ''wk'', t_leaseExpiresAt := Some 90001, t_attempt := 1,
     t_runAfter := 60000\<rparr>], tt_nextId = 2\<rparr>"
  by (simp add: leased_after_requeue_def dead_task_table_rows queue_eval workflow_input_def worker_input_def
      new_task_def default_queue_def)

text \<open>
  The operator's requeue is what the token does not survive: it resets the attempt counter, so
  the fence of a worker's first invocation of a task, lost by a reclaim, holds again once the task
  was dead-lettered, requeued and leased by the same worker.
\<close>

theorem requeue_revives_fence:
  "queue_step\<^sup>*\<^sup>* leased_once leased_twice \<and> queue_step\<^sup>*\<^sup>* leased_twice leased_after_requeue
   \<and> isLeaseOwned first_fence leased_once \<and> \<not> isLeaseOwned first_fence leased_twice
   \<and> isLeaseOwned first_fence leased_after_requeue"
proof -
  have 1: "queue_step leased_once reclaimed_once" unfolding reclaimed_once_def by (intro step_worker step_reclaim)
  have 2: "queue_step reclaimed_once leased_twice" unfolding leased_twice_def by (intro step_worker step_dequeue)
  have 3: "queue_step leased_twice dead_task_table" unfolding dead_task_table_def by (intro step_worker step_fail)
  have 4: "queue_step dead_task_table (fst (requeueDeadTask 60000 1 dead_task_table))" by (rule step_requeue)
  have 5: "queue_step (fst (requeueDeadTask 60000 1 dead_task_table)) leased_after_requeue"
    unfolding leased_after_requeue_def by (intro step_worker step_dequeue)
  have "queue_step\<^sup>*\<^sup>* leased_once leased_twice" using 1 2 by (meson converse_rtranclp_into_rtranclp rtranclp.rtrancl_refl)
  moreover have "queue_step\<^sup>*\<^sup>* leased_twice leased_after_requeue"
    using 3 4 5 by (meson converse_rtranclp_into_rtranclp rtranclp.rtrancl_refl)
  ultimately show ?thesis
    by (simp add: leased_once_rows leased_twice_rows leased_after_requeue_rows isLeaseOwned_def row_count_def
        first_fence_def new_task_def)
qed

subsection \<open>Failing, reclaiming\<close>

lemma own_row:
  assumes "task_inv tbl" "t \<in> set (tt_rows tbl)" "t_id t = i" "leased_to w t"
  shows "row_count (\<lambda>u. t_id u = i \<and> leased_to w u) tbl = 1"
proof -
  have eq: "(t_id u = i \<and> leased_to w u) = (u = t)" if "u \<in> set (tt_rows tbl)" for u
    using same_row [OF assms(1) that assms(2)] assms(3,4) by auto
  have "filter (\<lambda>u. t_id u = i \<and> leased_to w u) (tt_rows tbl) = filter (\<lambda>u. u = t) (tt_rows tbl)"
    by (rule filter_cong [OF refl]) (rule eq)
  moreover have "distinct (tt_rows tbl)" using inv_distinct [OF assms(1)] by (simp add: distinct_map)
  moreover have "{u \<in> set (tt_rows tbl). u = t} = {t}" using assms(2) by auto
  ultimately show ?thesis
    by (metis card.empty card_insert_disjoint distinct_card distinct_filter empty_iff finite.emptyI One_nat_def
        row_count_def set_filter)
qed

lemma update_no_row:
  "(\<And>u. u \<in> set (tt_rows tbl) \<Longrightarrow> \<not> P u) \<Longrightarrow> update_rows P f tbl = tbl"
  by (cases tbl) (simp add: update_rows_def map_idI)

text \<open>
  C22: What \<open>fail\<close> does to a task. An attempt below 1 is an error that changes nothing. For the
  worker that holds the lease, whatever attempt it names, the task is dead-lettered exactly when the
  attempts of the row are used up, otherwise it is pending again with a due time at least the
  requested floor and at most the larger of the floor and \<open>min(300, 2^(attempt-1))\<close> seconds away,
  where \<open>attempt\<close> is the one the worker named; the error is kept, the lease given up, and no other
  row changes. For anyone else, a worker that lost the lease and names an older attempt among them,
  it changes no row and says so.
\<close>

theorem fail_retries_or_dead_letters:
  assumes inv: "task_inv tbl" and t: "t \<in> set (tt_rows tbl)" "fi_taskId fin = t_id t"
    and r: "0 \<le> r" "r < 1"
  shows "(fi_attempt fin < 1 \<longrightarrow> (\<exists>e. fail now r fin tbl = (tbl, Inl e)))
    \<and> (1 \<le> fi_attempt fin \<and> \<not> leased_to (fi_workerId fin) t \<longrightarrow> fail now r fin tbl = (tbl, Inr False))
    \<and> (1 \<le> fi_attempt fin \<and> leased_to (fi_workerId fin) t \<longrightarrow>
       (\<exists>t'. fail now r fin tbl = (tbl\<lparr>tt_rows := map (\<lambda>u. if t_id u = t_id t then t' else u) (tt_rows tbl)\<rparr>, Inr True)
         \<and> t_id t' = t_id t \<and> t_leasedBy t' = None \<and> t_leaseExpiresAt t' = None
         \<and> t_lastError t' = Some (fi_error fin) \<and> t_attempt t' = t_attempt t
         \<and> (if t_maxAttempts t \<le> t_attempt t then t_status t' = TDead
            else t_status t' = TPending
              \<and> now + seconds (fi_minDelaySeconds fin) \<le> t_runAfter t'
              \<and> t_runAfter t' \<le> now + seconds (max (fi_minDelaySeconds fin) (min 300 (2 ^ (fi_attempt fin - 1)))))))"
proof (cases "fi_attempt fin < 1")
  case True
  then show ?thesis
    by (auto simp: fail_def computeRetryDelayWithFloorSeconds_def computeRetryDelaySeconds_def)
next
  case False
  then obtain d where d: "computeRetryDelayWithFloorSeconds default_retry_options r (fi_attempt fin) (fi_minDelaySeconds fin) = Inr d"
    "fi_minDelaySeconds fin \<le> d" "d \<le> max (fi_minDelaySeconds fin) (min 300 (2 ^ (fi_attempt fin - 1)))"
    using retry_delay_range [OF r, of "fi_attempt fin" "fi_minDelaySeconds fin"] by auto
  let ?P = "\<lambda>u. t_id u = fi_taskId fin \<and> leased_to (fi_workerId fin) u"
  let ?t' = "fail_task now d (fi_error fin) t"
  have f: "fail now r fin tbl = (update_rows ?P (fail_task now d (fi_error fin)) tbl, Inr (0 < row_count ?P tbl))"
    by (simp add: fail_def d(1) Let_def)
  have id: "t_id u = t_id t \<longleftrightarrow> u = t" if "u \<in> set (tt_rows tbl)" for u
    using same_row [OF inv that t(1)] by auto
  show ?thesis
  proof (cases "leased_to (fi_workerId fin) t")
    case True
    have "update_rows ?P (fail_task now d (fi_error fin)) tbl
        = tbl\<lparr>tt_rows := map (\<lambda>u. if t_id u = t_id t then ?t' else u) (tt_rows tbl)\<rparr>"
      unfolding update_rows_def using id t(2) True by auto
    moreover have "row_count ?P tbl = 1" by (rule own_row [OF inv t(1) t(2) [symmetric] True])
    ultimately show ?thesis
      unfolding f using True False d(2,3) by (auto intro!: exI [of _ ?t'] simp: fail_task_def seconds_def)
  next
    case not: False
    then have no: "\<not> ?P u" if "u \<in> set (tt_rows tbl)" for u using id [OF that] t(2) by auto
    then have "filter ?P (tt_rows tbl) = []" by (auto simp: filter_empty_conv)
    with update_no_row [of tbl ?P, OF no] not False show ?thesis unfolding f by (simp add: row_count_def)
  qed
qed

theorem fail_retries_or_dead_letters_witness:
  "fail 50002 (1 / 2) \<lparr>fi_taskId = 1, fi_workerId = ''other'', fi_error = ''late'', fi_attempt = 7,
      fi_minDelaySeconds = 0\<rparr> leased_once = (leased_once, Inr False)
    \<and> (\<exists>t'. t' \<in> set (tt_rows (fst (fail 50002 (1 / 2) \<lparr>fi_taskId = 1, fi_workerId = ''wk'', fi_error = ''boom'', fi_attempt = 1,
                      fi_minDelaySeconds = 7\<rparr> leased_once))) \<and> t_status t' = TPending \<and> 57002 \<le> t_runAfter t')"
proof -
  let ?t = "(new_task 0 0 workflow_input 1)
    \<lparr>t_status := TLeased, t_leasedBy := Some ''wk'', t_leaseExpiresAt := Some 30005, t_attempt := 1\<rparr>"
  let ?fin = "\<lparr>fi_taskId = 1, fi_workerId = ''wk'', fi_error = ''boom'', fi_attempt = 1, fi_minDelaySeconds = 7\<rparr>"
  let ?late = "\<lparr>fi_taskId = 1, fi_workerId = ''other'', fi_error = ''late'', fi_attempt = 7, fi_minDelaySeconds = 0\<rparr>"
  have inv: "task_inv leased_once" unfolding leased_once_def by (intro dequeue_inv one_task_inv)
  have t: "?t \<in> set (tt_rows leased_once)" by (simp add: leased_once_rows)
  have o: "leased_to ''wk'' ?t" "\<not> leased_to ''other'' ?t" "t_maxAttempts ?t = 2" "t_id ?t = 1" "t_attempt ?t = 1"
    by (simp_all add: leased_to_def new_task_def workflow_input_def or_default_def)
  have "fail 50002 (1 / 2) ?late leased_once = (leased_once, Inr False)"
    using fail_retries_or_dead_letters [OF inv t, of ?late "1 / 2" 50002] o by simp
  moreover obtain t' where "fst (fail 50002 (1 / 2) ?fin leased_once)
      = leased_once\<lparr>tt_rows := map (\<lambda>u. if t_id u = t_id ?t then t' else u) (tt_rows leased_once)\<rparr>"
    "t_status t' = TPending" "50002 + seconds 7 \<le> t_runAfter t'"
    using fail_retries_or_dead_letters [OF inv t, of ?fin "1 / 2" 50002] o by auto
  moreover from this(1) t have "t' \<in> set (tt_rows (fst (fail 50002 (1 / 2) ?fin leased_once)))" by (auto intro: rev_image_eqI)
  ultimately show ?thesis by (auto simp: seconds_def)
qed

end
