(* ===== verification/HandlerProps.thy ===== *)
theory HandlerProps
  imports Handlers LlmConfigProps StoreProps TaskProps ReplayRecord
begin

section \<open>Properties of the handlers\<close>

text \<open>
  First what a committed append leaves (\<open>appended\<close>), then one property per handler: fencing of a
  step's outcome, idempotence of the replay handler, cancellation, and the races the code leaves open.
\<close>

subsection \<open>The transaction every handler ends with\<close>

lemma trip_one: "map trip_stored (number_events n [ev]) = [\<lparr>seq = n, event = event_trip ev\<rparr>]"
  by (simp add: trip_stored_def)

lemma event_trip_type [simp]: "event_type (event_trip ev) = event_type ev"
  by (cases ev) simp_all

lemma event_trip_ref [simp]: "event_ref (event_trip ev) = event_ref ev"
  by (cases ev) simp_all

lemma event_trip_terminal [simp]: "is_terminal (event_trip ev) = is_terminal ev"
  by (cases ev) simp_all

definition no_proto_events :: "wf_event list \<Rightarrow> bool" where
  "no_proto_events events \<longleftrightarrow> (\<forall>e \<in> set events. \<forall>m p. e = SignalReceived m p \<longrightarrow> m \<notin> set object_prototype_names)"

text \<open>
  \<open>appended ck w events d d'\<close>: what a committed append of \<open>events\<close> to workflow \<open>w\<close> leaves.
\<close>

definition appended :: "clock \<Rightarrow> string \<Rightarrow> wf_event list \<Rightarrow> db \<Rightarrow> db \<Rightarrow> bool" where
  "appended ck w events d d' \<longleftrightarrow>
     getEvents w d' = getEvents w d @ map trip_stored (number_events (Suc (length (getEvents w d))) events)
   \<and> (\<forall>v. v \<noteq> w \<longrightarrow> getEvents v d' = getEvents v d)
   \<and> execution_ids d' = execution_ids d
   \<and> (\<exists>ts. tt_rows (db_tasks d') = tt_rows (db_tasks d) @ ts
        \<and> list_all2 (made_from ck)
            (List.map_filter (task_for w (ck_trace ck)) (number_events (Suc (length (getEvents w d))) events)
             @ (if has_live_workflow_task w d then [] else [base_input TWorkflow w (ck_trace ck)])) ts)
   \<and> has_live_workflow_task w d'
   \<and> (\<exists>s. foldEvents (getEvents w d') = Inr s \<and> (\<forall>x \<in> set (db_executions d'). ex_id x = w \<longrightarrow> ex_status x = st_status s))
   \<and> db_inv d'"

lemma appendEvents_appended:
  assumes "db_inv d" "appendEvents ck w events d = (d', Inr r)"
  shows "appended ck w events d d'"
proof -
  obtain es s where app: "appendEvents ck w events d = (d', Inr (es, s))" using assms(2) by (cases r) simp
  have ne: "events \<noteq> []" and w: "w \<in> set (execution_ids d)"
    using app by (auto simp: appendEvents_def split: if_splits)
  have ok: "\<forall>e \<in> set events. \<forall>m p. e = SignalReceived m p \<longrightarrow> m \<notin> set object_prototype_names"
    using append_fails_iff [OF assms(1), of ck w events] app by auto
  from append_events_full [OF assms(1) ne w ok, of ck] app
  have full: "es = number_events (Suc (length (getEvents w d))) events"
    "getEvents w d' = getEvents w d @ map trip_stored es"
    "\<exists>ts. tt_rows (db_tasks d') = tt_rows (db_tasks d) @ ts
        \<and> list_all2 (made_from ck) (List.map_filter (task_for w (ck_trace ck)) es
             @ (if has_live_workflow_task w d then [] else [base_input TWorkflow w (ck_trace ck)])) ts"
    "has_live_workflow_task w d'" "foldEvents (getEvents w d') = Inr s"
    "\<forall>x \<in> set (db_executions d'). ex_id x = w \<longrightarrow> ex_status x = st_status s" "db_inv d'"
    by auto
  from appendEvents_inv [OF assms(1) app] have "\<forall>v. v \<noteq> w \<longrightarrow> getEvents v d' = getEvents v d"
    "execution_ids d' = execution_ids d"
    using full(7) assms(1) by (simp_all add: getEvents_inv)
  with full show ?thesis unfolding appended_def by blast
qed

lemma append_tx_cases:
  assumes "db_inv d"
  shows "(\<exists>d'. append_tx ck w events d = (d', Inr ()) \<and> events \<noteq> [] \<and> w \<in> set (execution_ids d) \<and> no_proto_events events
            \<and> appended ck w events d d')
    \<or> (\<exists>d' e. append_tx ck w events d = (rollback d d', Inl e)
            \<and> (events = [] \<or> w \<notin> set (execution_ids d) \<or> \<not> no_proto_events events))"
proof -
  obtain d' r where app: "appendEvents ck w events d = (d', r)" by fastforce
  note iff = append_fails_iff [OF assms, of ck w events]
  show ?thesis
  proof (cases r)
    case (Inl e)
    then show ?thesis using app iff by (auto simp: append_tx_def withTransaction_def no_proto_events_def)
  next
    case (Inr x)
    then show ?thesis using app iff appendEvents_appended [OF assms, of ck w events d' x]
      by (auto simp: append_tx_def withTransaction_def no_proto_events_def)
  qed
qed

lemma append_tx_ok:
  assumes "db_inv d" "events \<noteq> []" "w \<in> set (execution_ids d)" "no_proto_events events"
  obtains d' where "append_tx ck w events d = (d', Inr ())" "appended ck w events d d'"
  using append_tx_cases [OF assms(1), of ck w events] assms by auto

lemma append_tx_done:
  assumes "db_inv d" "append_tx ck w events d = (d', Inr ())"
  shows "appended ck w events d d'" "events \<noteq> []" "w \<in> set (execution_ids d)" "no_proto_events events"
  using append_tx_cases [OF assms(1), of ck w events] assms(2) by auto

lemma appendedD:
  assumes "appended ck w events d d'"
  shows "db_inv d'" "has_live_workflow_task w d'" "execution_ids d' = execution_ids d"
    "getEvents w d' = getEvents w d @ map trip_stored (number_events (Suc (length (getEvents w d))) events)"
    "v \<noteq> w \<Longrightarrow> getEvents v d' = getEvents v d"
  using assms unfolding appended_def by blast+

lemma appended_one:
  "appended ck w [ev] d d' \<Longrightarrow>
   getEvents w d' = getEvents w d @ [\<lparr>seq = Suc (length (getEvents w d)), event = event_trip ev\<rparr>]"
  using appendedD(4) [of ck w "[ev]" d d'] by (simp only: trip_one)

lemma appended_status:
  assumes "appended ck w events d d'" "x \<in> set (db_executions d')" "ex_id x = w"
  shows "ex_status x = log_status (getEvents w d')"
proof -
  from assms obtain s where "foldEvents (getEvents w d') = Inr s" "ex_status x = st_status s"
    unfolding appended_def by blast
  then show ?thesis using fold_from_status [of initialState "getEvents w d'" s]
    by (simp add: foldEvents_def log_status_def initialState_def)
qed

subsection \<open>Fenced outcomes\<close>

lemma hasStepOutcome_log:
  "db_inv d \<Longrightarrow> hasStepOutcome w n types d \<longleftrightarrow> has_outcome types n (getEvents w d)"
  unfolding hasStepOutcome_def has_outcome_def getEvents_inv log_of_def list_ex_iff set_map set_filter by force

lemma step_outcome_owner:
  assumes "db_inv d" "t_leasedBy t = Some worker" "t_workflowId t \<in> set (execution_ids d)" "no_proto_events [ev]"
  defines "owned \<equiv> isLeaseOwned \<lparr>fn_taskId = t_id t, fn_workerId = worker, fn_attempt = t_attempt t\<rparr> (db_tasks d)"
  shows "\<not> owned \<Longrightarrow> appendStepOutcome ck t n ev types d = (d, Inl (LeaseLostError (t_id t)))"
    and "owned \<Longrightarrow> has_outcome types n (getEvents (t_workflowId t) d) \<Longrightarrow>
      appendStepOutcome ck t n ev types d = (d, Inr AlreadyRecorded)"
    and "owned \<Longrightarrow> \<not> has_outcome types n (getEvents (t_workflowId t) d) \<Longrightarrow>
      \<exists>d'. appendStepOutcome ck t n ev types d = (d', Inr Written) \<and> appended ck (t_workflowId t) [ev] d d'"
proof -
  have lease: "assertLeaseOwned t d = (if owned then Inr () else Inl (LeaseLostError (t_id t)))"
    by (simp add: assertLeaseOwned_def fenceOf_def assms(2) owned_def)
  have same: "rollback d d = d" by (simp add: rollback_def)
  show "\<not> owned \<Longrightarrow> appendStepOutcome ck t n ev types d = (d, Inl (LeaseLostError (t_id t)))"
    by (simp add: appendStepOutcome_def withTransaction_def step_outcome_body_def lease same)
  show "owned \<Longrightarrow> has_outcome types n (getEvents (t_workflowId t) d) \<Longrightarrow>
      appendStepOutcome ck t n ev types d = (d, Inr AlreadyRecorded)"
    by (simp add: appendStepOutcome_def withTransaction_def step_outcome_body_def lease hasStepOutcome_log [OF assms(1)])
  from append_fails_iff [OF assms(1), of ck "t_workflowId t" "[ev]"] assms(3,4)
  have "\<exists>r. snd (appendEvents ck (t_workflowId t) [ev] d) = Inr r"
    by (cases "snd (appendEvents ck (t_workflowId t) [ev] d)") (auto simp: no_proto_events_def)
  then obtain d' r where app: "appendEvents ck (t_workflowId t) [ev] d = (d', Inr r)"
    by (metis prod.collapse)
  with appendEvents_appended [OF assms(1) app]
  show "owned \<Longrightarrow> \<not> has_outcome types n (getEvents (t_workflowId t) d) \<Longrightarrow>
      \<exists>d'. appendStepOutcome ck t n ev types d = (d', Inr Written) \<and> appended ck (t_workflowId t) [ev] d d'"
    by (simp add: appendStepOutcome_def withTransaction_def step_outcome_body_def lease hasStepOutcome_log [OF assms(1)])
qed

text \<open>
  C25: The outcome of a durable step is fenced and recorded at most once. \<open>appendStepOutcome\<close> by a
  worker whose lease (task, worker and attempt) is no longer the current one throws and changes
  nothing; by the owner it appends exactly the given event if the step has no outcome yet, and
  changes nothing if it has one.
\<close>

theorem step_outcome_fenced:
  assumes "db_inv d" "t_leasedBy t = Some worker" "t_workflowId t \<in> set (execution_ids d)" "no_proto_events [ev]"
  shows "case appendStepOutcome ck t n ev types d of
      (d', Inl e) \<Rightarrow> d' = d \<and> e = LeaseLostError (t_id t)
        \<and> \<not> isLeaseOwned \<lparr>fn_taskId = t_id t, fn_workerId = worker, fn_attempt = t_attempt t\<rparr> (db_tasks d)
    | (d', Inr AlreadyRecorded) \<Rightarrow> d' = d \<and> has_outcome types n (getEvents (t_workflowId t) d)
        \<and> isLeaseOwned \<lparr>fn_taskId = t_id t, fn_workerId = worker, fn_attempt = t_attempt t\<rparr> (db_tasks d)
    | (d', Inr Written) \<Rightarrow> \<not> has_outcome types n (getEvents (t_workflowId t) d)
        \<and> isLeaseOwned \<lparr>fn_taskId = t_id t, fn_workerId = worker, fn_attempt = t_attempt t\<rparr> (db_tasks d)
        \<and> getEvents (t_workflowId t) d' = getEvents (t_workflowId t) d
            @ [\<lparr>seq = Suc (length (getEvents (t_workflowId t) d)), event = event_trip ev\<rparr>] \<and> db_inv d'"
proof (cases "isLeaseOwned \<lparr>fn_taskId = t_id t, fn_workerId = worker, fn_attempt = t_attempt t\<rparr> (db_tasks d)")
  case False
  then show ?thesis by (simp add: step_outcome_owner(1) [OF assms])
next
  case owned: True
  show ?thesis
  proof (cases "has_outcome types n (getEvents (t_workflowId t) d)")
    case True
    with owned show ?thesis by (simp add: step_outcome_owner(2) [OF assms])
  next
    case False
    from step_outcome_owner(3) [OF assms owned False, of ck] obtain d' where
      "appendStepOutcome ck t n ev types d = (d', Inr Written)" "appended ck (t_workflowId t) [ev] d d'" by blast
    with owned False show ?thesis using appended_one [of ck "t_workflowId t" ev d d'] appendedD(1) by simp
  qed
qed

subsection \<open>Sample databases\<close>

definition db_of :: "stored_event list \<Rightarrow> workflow_status \<Rightarrow> task list \<Rightarrow> db" where
  "db_of es st ts = \<lparr>db_executions = [\<lparr>ex_id = ''w1'', ex_workflowType = ''two'', ex_input = JNull, ex_status = st,
       ex_createdAt = 0, ex_updatedAt = 0\<rparr>],
     db_events = map (\<lambda>e. (''w1'', e)) es, db_tasks = \<lparr>tt_rows = ts, tt_nextId = 100\<rparr>,
     db_toolExecutions = [], db_sideEffects = [], db_providerCalls = [], db_leader = None\<rparr>"

lemma getEvents_db_of: "log_ok es \<Longrightarrow> getEvents ''w1'' (db_of es st ts) = es"
proof -
  assume ok: "log_ok es"
  have "log_of ''w1'' (db_of es st ts) = es" by (simp add: log_of_def db_of_def comp_def filter_map)
  with ok getEvents_log [of "''w1''" "db_of es st ts"] show ?thesis by simp
qed

lemma db_of_inv:
  assumes "log_ok es" "foldEvents es = Inr s" "st_status s = st"
    "task_inv \<lparr>tt_rows = ts, tt_nextId = 100\<rparr>" "list_all (\<lambda>t. t_workflowId t = ''w1'') ts"
  shows "db_inv (db_of es st ts)"
proof -
  have log: "log_of w (db_of es st ts) = (if w = ''w1'' then es else [])" for w
    by (auto simp: log_of_def db_of_def comp_def filter_map)
  show ?thesis
    using assms unfolding db_inv_def log
    by (auto simp: db_of_def execution_ids_def list_all_iff) (simp add: log_ok_def)
qed

definition sample_task :: "task_type \<Rightarrow> nat \<Rightarrow> task" where
  "sample_task ty n = \<lparr>t_id = 7, t_taskType = ty, t_workflowId = ''w1'', t_queue = ''default'',
     t_scheduledEventSeq = Some n, t_status = TLeased, t_runAfter = 0, t_attempt = 1, t_maxAttempts = 3,
     t_lastError = None, t_leasedBy = Some ''worker-a'', t_leaseExpiresAt = Some 30000, t_createdAt = 0,
     t_traceContext = None\<rparr>"

lemma sample_task_inv: "task_inv \<lparr>tt_rows = [sample_task ty n], tt_nextId = 100\<rparr>"
  by (rule task_invI) (simp_all add: sample_task_def row_ok_def)

lemma sample_db_inv:
  assumes "log_ok es" "list_all (Not \<circ> proto_signal) es"
  shows "db_inv (db_of es (log_status es) [sample_task ty n])"
proof -
  from assms(2) obtain s where s: "foldEvents es = Inr s" using foldEvents_total by blast
  then have "st_status s = log_status es"
    using fold_from_status [of initialState es s] by (simp add: foldEvents_def log_status_def initialState_def)
  with db_of_inv [OF assms(1) s _ sample_task_inv] show ?thesis by (simp add: sample_task_def)
qed

text \<open>The database of a running workflow with a given log and one task; logs are given by their events.\<close>

definition log_from :: "wf_event list \<Rightarrow> stored_event list" where
  "log_from evs = number_events 1 evs"

definition sample_db :: "wf_event list \<Rightarrow> task_type \<Rightarrow> nat \<Rightarrow> db" where
  "sample_db evs ty n = db_of (log_from evs) (log_status (log_from evs)) [sample_task ty n]"

lemma sample_db:
  "no_proto_events evs \<Longrightarrow> db_inv (sample_db evs ty n)"
  "getEvents ''w1'' (sample_db evs ty n) = log_from evs"
  "execution_ids (sample_db evs ty n) = [''w1'']"
proof -
  have ok: "log_ok (log_from evs)"
    by (simp add: log_ok_def log_from_def number_events_seq)
  show "no_proto_events evs \<Longrightarrow> db_inv (sample_db evs ty n)"
    unfolding sample_db_def
    by (rule sample_db_inv [OF ok]) (simp add: log_from_def proto_number no_proto_events_def)
  show "getEvents ''w1'' (sample_db evs ty n) = log_from evs"
    unfolding sample_db_def by (rule getEvents_db_of [OF ok])
  show "execution_ids (sample_db evs ty n) = [''w1'']"
    by (simp add: sample_db_def db_of_def execution_ids_def)
qed

lemma sample_task_w [simp]: "t_workflowId (sample_task ty n) = ''w1''"
  by (simp add: sample_task_def)

definition waiting_db :: db where
  "waiting_db = sample_db [WorkflowStarted ''two'' JNull, ActivityScheduled ''reserve'' JNull] TActivity 2"

theorem step_outcome_fenced_witness:
  "snd (appendStepOutcome clock0 ((sample_task TActivity 2)\<lparr>t_attempt := 2\<rparr>) 2 (ActivityCompleted 2 JNull)
      [''ActivityCompleted''] waiting_db) = Inl (LeaseLostError 7)"
proof -
  let ?t = "(sample_task TActivity 2)\<lparr>t_attempt := 2\<rparr>"
  have "\<not> isLeaseOwned \<lparr>fn_taskId = t_id ?t, fn_workerId = ''worker-a'', fn_attempt = t_attempt ?t\<rparr> (db_tasks waiting_db)"
    by (simp add: isLeaseOwned_iff fence_row_def waiting_db_def sample_db_def db_of_def sample_task_def)
  moreover have "t_leasedBy ?t = Some ''worker-a''" "t_workflowId ?t \<in> set (execution_ids waiting_db)" "t_id ?t = 7"
    by (simp_all add: sample_task_def waiting_db_def sample_db)
  moreover have "db_inv waiting_db" by (simp add: waiting_db_def sample_db no_proto_events_def)
  ultimately show ?thesis
    using step_outcome_fenced [of waiting_db, of ?t "''worker-a''" "ActivityCompleted 2 JNull" "[''ActivityCompleted'']" 2 clock0]
    by (auto simp: no_proto_events_def split: prod.splits sum.splits append_outcome.splits)
qed

subsection \<open>The replay handler\<close>

lemma commandToEvent_records:
  assumes "commandToEvent ck llm c = Inr ev" "\<forall>v. c \<noteq> CompleteWorkflow v" "\<forall>m. c \<noteq> FailWorkflow m"
  shows "records c (event_trip ev)"
  using assms by (cases c) (auto simp: Let_def split: sum.splits)

lemma commands_events_all2:
  "commands_events ck llm cs = Inr evs \<Longrightarrow> list_all2 (\<lambda>c ev. commandToEvent ck llm c = Inr ev) cs evs"
  by (induction cs arbitrary: evs) (auto split: sum.splits)

lemma commandToEvent_kind:
  assumes "commandToEvent ck llm c = Inr ev"
  shows "no_proto_events [ev] \<and> event_ref ev = None \<and> started_of \<lparr>seq = n, event = event_trip ev\<rparr> = None
    \<and> cancellation_of \<lparr>seq = n, event = event_trip ev\<rparr> = None
    \<and> (is_terminal ev \<longleftrightarrow> (\<exists>v. c = CompleteWorkflow v) \<or> (\<exists>m. c = FailWorkflow m))"
  using assms by (cases c) (auto simp: no_proto_events_def Let_def split: sum.splits)

lemma no_proto_events_list: "no_proto_events evs \<longleftrightarrow> (\<forall>ev \<in> set evs. no_proto_events [ev])"
  by (auto simp: no_proto_events_def)

lemma find_map_append: "find_map f (xs @ ys) = (case find_map f xs of None \<Rightarrow> find_map f ys | Some y \<Rightarrow> Some y)"
  by (induction xs) (auto split: option.splits)

lemma find_map_None: "find_map f xs = None \<longleftrightarrow> (\<forall>x \<in> set xs. f x = None)"
  by (induction xs) (auto split: option.splits)

lemma stored_numbered:
  "e \<in> set (map trip_stored (number_events n evs)) \<Longrightarrow>
   \<exists>ev \<in> set evs. event e = event_trip ev \<and> n \<le> seq e \<and> e = \<lparr>seq = seq e, event = event_trip ev\<rparr>"
  by (induction evs arbitrary: n) (fastforce simp: trip_stored_def)+

lemma list_all2_numbered:
  "list_all2 P cs evs \<Longrightarrow> (\<And>c ev. P c ev \<Longrightarrow> Q c (event_trip ev)) \<Longrightarrow>
   list_all2 (\<lambda>c e. Q c (event e)) cs (map trip_stored (number_events n evs))"
  by (induction arbitrary: n rule: list_all2_induct) (auto simp: trip_stored_def)

lemma list_all2_in_right: "list_all2 P xs ys \<Longrightarrow> y \<in> set ys \<Longrightarrow> \<exists>x \<in> set xs. P x y"
  by (induction rule: list_all2_induct) auto

text \<open>The outcomes in a log refer to events of that log.\<close>

definition refs_bounded :: "stored_event list \<Rightarrow> bool" where
  "refs_bounded es \<longleftrightarrow> (\<forall>e \<in> set es. \<forall>n. event_ref (event e) = Some n \<longrightarrow> n \<le> length es)"

definition is_ending :: "wf_command \<Rightarrow> bool" where
  "is_ending c \<longleftrightarrow> (\<exists>v. c = CompleteWorkflow v) \<or> (\<exists>m. c = FailWorkflow m)"

lemma issue_open:
  "list_all (Not \<circ> is_ending) (ps_commands s) \<Longrightarrow> list_all (Not \<circ> is_ending) (ps_commands (fst (issue ix c s)))"
  by (cases c) (auto simp: issue_def Let_def push_command_def is_ending_def
      split: option.splits wf_event.splits prod.splits sum.splits)

lemma issue_all_open:
  "list_all (Not \<circ> is_ending) (ps_commands s) \<Longrightarrow> list_all (Not \<circ> is_ending) (ps_commands (issue_all ix cs s))"
  by (induction cs arbitrary: s) (simp_all add: issue_open)

lemma running_commands_open:
  assumes "replay f inp h hash = Inr r" "rr_status r = RpRUNNING" "c \<in> set (rr_commands r)"
  shows "\<not> is_ending c"
  using issue_all_open [of initial_pass "index_history hash h" "pass_calls f inp h hash"]
    replay_Inr(3) [OF assms(1,2)] assms(3)
  by (simp add: pass_end_state list_all_iff)

lemma finished_commands:
  "replay f inp h hash = Inr r \<Longrightarrow> rr_status r \<noteq> RpRUNNING \<Longrightarrow> \<exists>c. rr_commands r = [c] \<and> is_ending c"
  by (auto simp: replay_def finish_pass_def is_ending_def split: prod.splits option.splits sum.splits)


text \<open>What a run of the handler that ends normally did.\<close>

lemma handler_runs [consumes 1, case_names cancel mismatch wait commit]:
  assumes "workflowReplayHandler ck between wfs llm hash t d = (d', Inr ())"
  obtains ty inp fn reason where
      "find_map started_of (getEvents (t_workflowId t) d) = Some (ty, inp)" "registry_get wfs ty = Some fn"
      "find_map cancellation_of (getEvents (t_workflowId t) d) = Some reason"
      "\<not> alreadyTerminal (getEvents (t_workflowId t) d)"
      "append_tx ck (t_workflowId t) [WorkflowCanceled reason] (between d) = (d', Inr ())"
  | ty inp fn e where
      "find_map started_of (getEvents (t_workflowId t) d) = Some (ty, inp)" "registry_get wfs ty = Some fn"
      "append_tx ck (t_workflowId t) [WorkflowFailed e] (between d) = (d', Inr ())"
  | ty inp fn r where
      "find_map started_of (getEvents (t_workflowId t) d) = Some (ty, inp)" "registry_get wfs ty = Some fn"
      "find_map cancellation_of (getEvents (t_workflowId t) d) = None \<or> alreadyTerminal (getEvents (t_workflowId t) d)"
      "replay fn inp (getEvents (t_workflowId t) d) (Some hash) = Inr r" "rr_commands r = []" "d' = d"
  | ty inp fn r events where
      "find_map started_of (getEvents (t_workflowId t) d) = Some (ty, inp)" "registry_get wfs ty = Some fn"
      "find_map cancellation_of (getEvents (t_workflowId t) d) = None \<or> alreadyTerminal (getEvents (t_workflowId t) d)"
      "replay fn inp (getEvents (t_workflowId t) d) (Some hash) = Inr r" "rr_commands r \<noteq> []"
      "commands_events ck llm (rr_commands r) = Inr events"
      "append_tx ck (t_workflowId t) events (between d) = (d', Inr ())"
proof -
  let ?w = "t_workflowId t" and ?h = "getEvents (t_workflowId t) d"
  from assms obtain ty inp where st: "find_map started_of ?h = Some (ty, inp)"
    by (auto simp: workflowReplayHandler_def Let_def split: option.splits)
  from assms st obtain fn where fn: "registry_get wfs ty = Some fn"
    by (auto simp: workflowReplayHandler_def Let_def split: option.splits)
  show thesis
  proof (cases "find_map cancellation_of ?h = None \<or> alreadyTerminal ?h")
    case False
    then obtain reason where "find_map cancellation_of ?h = Some reason" "\<not> alreadyTerminal ?h" by auto
    with assms st fn show thesis by (intro that(1)) (simp_all add: workflowReplayHandler_def)
  next
    case True
    then have "workflowReplayHandler ck between wfs llm hash t d = (case replay fn inp ?h (Some hash) of
        Inl (StepRequestMismatchError s i e a k) \<Rightarrow>
          append_tx ck ?w [WorkflowFailed (error_message (StepRequestMismatchError s i e a k))] (between d)
      | Inl e \<Rightarrow> (d, Inl e)
      | Inr result \<Rightarrow> if rr_commands result = [] then (d, Inr ())
          else (case commands_events ck llm (rr_commands result) of
                  Inl e \<Rightarrow> (d, Inl e) | Inr events \<Rightarrow> append_tx ck ?w events (between d)))"
      using st fn by (auto simp: workflowReplayHandler_def Let_def split: option.splits bool.splits)
    note eq = this [unfolded assms]
    show thesis
    proof (cases "replay fn inp ?h (Some hash)")
      case (Inl e)
      with eq show thesis by (cases e) (auto intro: that(2) [OF st fn])
    next
      case (Inr r)
      with eq show thesis
        by (auto intro: that(3) [OF st fn True Inr] that(4) [OF st fn True Inr] split: if_splits sum.splits)
    qed
  qed
qed

lemma handler_waits:
  assumes "find_map started_of (getEvents (t_workflowId t) d) = Some (ty, inp)" "registry_get wfs ty = Some fn"
    "find_map cancellation_of (getEvents (t_workflowId t) d) = None \<or> alreadyTerminal (getEvents (t_workflowId t) d)"
    "replay fn inp (getEvents (t_workflowId t) d) (Some hash) = Inr r" "rr_commands r = []"
  shows "workflowReplayHandler ck between wfs llm hash t d = (d, Inr ())"
  using assms by (auto simp: workflowReplayHandler_def Let_def split: option.splits bool.splits)

lemma terminal_append: "alreadyTerminal (es @ fs) \<longleftrightarrow> alreadyTerminal es \<or> alreadyTerminal fs"
  by (auto simp: alreadyTerminal_def)

lemma appended_terminal:
  assumes "appended ck w events d d'" "\<exists>ev \<in> set events. is_terminal ev"
  shows "alreadyTerminal (getEvents w d')"
proof -
  have "list_ex (\<lambda>e. is_terminal (event e)) (map trip_stored (number_events n events))" for n
    using assms(2) by (induction events arbitrary: n) (auto simp: trip_stored_def)
  then show ?thesis using appendedD(4) [OF assms(1)] by (simp add: alreadyTerminal_def)
qed

lemma handler_commits:
  assumes "find_map started_of (getEvents (t_workflowId t) d) = Some (ty, inp)" "registry_get wfs ty = Some fn"
    "find_map cancellation_of (getEvents (t_workflowId t) d) = None \<or> alreadyTerminal (getEvents (t_workflowId t) d)"
    "replay fn inp (getEvents (t_workflowId t) d) (Some hash) = Inr r" "rr_commands r \<noteq> []"
    "commands_events ck llm (rr_commands r) = Inr events"
  shows "workflowReplayHandler ck between wfs llm hash t d = append_tx ck (t_workflowId t) events (between d)"
  using assms by (auto simp: workflowReplayHandler_def Let_def split: option.splits bool.splits)

text \<open>The commands of a running pass as the store holds them.\<close>

lemma commands_stored:
  assumes r: "replay fn inp h hash = Inr r" "rr_status r = RpRUNNING"
    and ev: "commands_events ck llm (rr_commands r) = Inr events"
  shows "list_all2 (\<lambda>c e. records c (event e)) (rr_commands r) (map trip_stored (number_events n events))"
proof (rule list_all2_numbered)
  show "list_all2 (\<lambda>c e. commandToEvent ck llm c = Inr e \<and> \<not> is_ending c) (rr_commands r) events"
    using commands_events_all2 [OF ev] running_commands_open [OF r] by (auto simp: list_all2_conv_all_nth)
qed (auto intro: commandToEvent_records simp: is_ending_def)

text \<open>The pass after one whose commands were committed.\<close>

lemma committed_pass:
  assumes inv: "db_inv d" and refs: "refs_bounded (getEvents w d)"
    and st: "find_map started_of (getEvents w d) = Some (ty, inp)"
    and can: "find_map cancellation_of (getEvents w d) = None \<or> alreadyTerminal (getEvents w d)"
    and r: "replay fn inp (getEvents w d) (Some hash) = Inr r"
    and ev: "commands_events ck llm (rr_commands r) = Inr events"
    and app: "append_tx ck w events d = (d1, Inr ())" and live: "\<not> alreadyTerminal (getEvents w d1)"
  shows "find_map started_of (getEvents w d1) = Some (ty, inp)
    \<and> (find_map cancellation_of (getEvents w d1) = None \<or> alreadyTerminal (getEvents w d1))
    \<and> rr_status r = RpRUNNING
    \<and> replay fn inp (getEvents w d1) (Some hash) = Inr
       \<lparr>rr_status = RpRUNNING, rr_result = JUndef, rr_error = None, rr_commands = [],
        rr_pendingLlmRequests = rr_pendingLlmRequests r @ List.map_filter pending_of (rr_commands r)\<rparr>"
proof -
  let ?w = w and ?h = "getEvents w d"
  note a = append_tx_done(1) [OF inv app] and all2 = commands_events_all2 [OF ev]
  let ?new = "map trip_stored (number_events (Suc (length ?h)) events)"
  have h1: "getEvents ?w d1 = ?h @ ?new" by (rule appendedD(4) [OF a])
  have no_terminal: "\<not> is_terminal e" if "e \<in> set events" for e
    using appended_terminal [OF a] live that by blast
  have kinds: "\<exists>c \<in> set (rr_commands r). commandToEvent ck llm c = Inr e" if "e \<in> set events" for e
    using list_all2_in_right [OF all2 that] by blast
  have run1: "rr_status r = RpRUNNING"
  proof (rule ccontr)
    assume "rr_status r \<noteq> RpRUNNING"
    from finished_commands [OF r this] obtain c where c: "rr_commands r = [c]" "is_ending c" by blast
    with all2 obtain e where "events = [e]" "commandToEvent ck llm c = Inr e" by (auto simp: list_all2_Cons1)
    with c(2) commandToEvent_kind [of ck llm c e] no_terminal show False by (auto simp: is_ending_def)
  qed
  note commands_stored [OF r run1 ev, of "Suc (length ?h)"]
  moreover have "\<forall>e \<in> set ?new. \<forall>x \<in> set ?h. event_ref (event x) \<noteq> Some (seq e)"
  proof (intro ballI notI)
    fix e x assume "e \<in> set ?new" "x \<in> set ?h" "event_ref (event x) = Some (seq e)"
    with refs stored_numbered [OF this(1)] show False unfolding refs_bounded_def by (meson not_less_eq_eq)
  qed
  ultimately have r1: "replay fn inp (getEvents ?w d1) (Some hash) = Inr
     \<lparr>rr_status = RpRUNNING, rr_result = JUndef, rr_error = None, rr_commands = [],
      rr_pendingLlmRequests = rr_pendingLlmRequests r @ List.map_filter pending_of (rr_commands r)\<rparr>"
    unfolding h1 by (intro replay_recorded [OF r run1])
  have "find_map cancellation_of ?new = None"
    unfolding find_map_None
  proof
    fix e assume "e \<in> set ?new"
    from stored_numbered [OF this] obtain x where x: "x \<in> set events" "e = \<lparr>seq = seq e, event = event_trip x\<rparr>" by blast
    from kinds [OF x(1)] obtain c where "commandToEvent ck llm c = Inr x" by blast
    from commandToEvent_kind [OF this, of "seq e"] x(2) show "cancellation_of e = None" by metis
  qed
  then have "find_map cancellation_of (getEvents ?w d1) = None \<or> alreadyTerminal (getEvents ?w d1)"
    unfolding h1 using can by (auto simp: find_map_append terminal_append)
  moreover have "find_map started_of (getEvents ?w d1) = Some (ty, inp)" unfolding h1 using st by (simp add: find_map_append)
  ultimately show ?thesis using r1 run1 by simp
qed

lemma committed_pass_waits:
  assumes "db_inv d" "refs_bounded (getEvents w d)"
    and "find_map started_of (getEvents w d) = Some (ty, inp)"
    and "find_map cancellation_of (getEvents w d) = None \<or> alreadyTerminal (getEvents w d)"
    and "replay fn inp (getEvents w d) (Some hash) = Inr r"
    and "commands_events ck llm (rr_commands r) = Inr events"
    and "append_tx ck w events d = (d1, Inr ())" and "\<not> alreadyTerminal (getEvents w d1)"
  shows "find_map started_of (getEvents w d1) = Some (ty, inp)
    \<and> (find_map cancellation_of (getEvents w d1) = None \<or> alreadyTerminal (getEvents w d1))
    \<and> (\<exists>r1. replay fn inp (getEvents w d1) (Some hash) = Inr r1 \<and> rr_commands r1 = [])"
  using committed_pass [OF assms] by simp

text \<open>
  C26: Handling a workflow task is idempotent. Take a run of the replay handler during which nothing
  else was appended to the history of its workflow (what other connections commit otherwise is
  free), that ended normally and did not end the workflow. As long as nothing more is appended to
  that history, a second run (the task redelivered, at any later time, in any later database, under
  any storage configuration, whatever is committed while it runs) ends normally and writes nothing.
\<close>

theorem replay_handler_idempotent:
  assumes inv: "db_inv (between d)" and refs: "refs_bounded (getEvents (t_workflowId t) d)"
    and alone: "getEvents (t_workflowId t) (between d) = getEvents (t_workflowId t) d"
    and run: "workflowReplayHandler ck between wfs llm hash t d = (d1, Inr ())"
    and live: "\<not> alreadyTerminal (getEvents (t_workflowId t) d1)"
    and later: "getEvents (t_workflowId t) d2 = getEvents (t_workflowId t) d1"
  shows "workflowReplayHandler ck' between' wfs llm' hash t d2 = (d2, Inr ())"
proof -
  let ?w = "t_workflowId t" and ?h = "getEvents (t_workflowId t) d" and ?b = "between d"
  have no_end: False if "append_tx ck ?w [ev] ?b = (d1, Inr ())" "is_terminal ev" for ev
    using append_tx_done(1) [OF inv that(1)] appended_terminal [of ck ?w "[ev]" ?b d1] live that(2) by simp
  from run show ?thesis
  proof (cases rule: handler_runs)
    case (cancel ty inp fn reason)
    with no_end [of "WorkflowCanceled reason"] show ?thesis by simp
  next
    case (mismatch ty inp fn e)
    with no_end [of "WorkflowFailed e"] show ?thesis by simp
  next
    case (wait ty inp fn r)
    then show ?thesis using handler_waits [of t d2 ty inp wfs fn hash r] later by simp
  next
    case (commit ty inp fn r events)
    from committed_pass_waits [of ?b ?w ty inp fn hash r ck llm events d1] commit inv refs live
    have "find_map started_of (getEvents ?w d2) = Some (ty, inp)"
      "find_map cancellation_of (getEvents ?w d2) = None \<or> alreadyTerminal (getEvents ?w d2)"
      "\<exists>r1. replay fn inp (getEvents ?w d2) (Some hash) = Inr r1 \<and> rr_commands r1 = []" by (simp_all add: alone later)
    then show ?thesis using handler_waits commit(2) by blast
  qed
qed

definition started_db :: db where
  "started_db = sample_db [WorkflowStarted ''two'' JNull] TWorkflow 0"

lemma started_db:
  "db_inv started_db" "getEvents ''w1'' started_db = log_from [WorkflowStarted ''two'' JNull]"
  "execution_ids started_db = [''w1'']"
  by (simp_all add: started_db_def sample_db no_proto_events_def)

lemma two_steps_first:
  "replay two_steps JNull (log_from [WorkflowStarted ''two'' JNull]) (Some id) = Inr
     \<lparr>rr_status = RpRUNNING, rr_result = JUndef, rr_error = None,
      rr_commands = [ScheduleActivity ''reserve'' JNull], rr_pendingLlmRequests = []\<rparr>"
  by (simp add: replay_eval log_from_def)

lemma first_run:
  "\<exists>d1. workflowReplayHandler clock0 id [(''two'', two_steps)] small_config id (sample_task TWorkflow 0) started_db = (d1, Inr ())
     \<and> appended clock0 ''w1'' [ActivityScheduled ''reserve'' JNull] started_db d1"
proof -
  obtain d1 where d1: "append_tx clock0 ''w1'' [ActivityScheduled ''reserve'' JNull] started_db = (d1, Inr ())"
    "appended clock0 ''w1'' [ActivityScheduled ''reserve'' JNull] started_db d1"
    using append_tx_ok [OF started_db(1), of "[ActivityScheduled ''reserve'' JNull]" "''w1''" clock0]
    by (auto simp: started_db no_proto_events_def)
  have "workflowReplayHandler clock0 id [(''two'', two_steps)] small_config id (sample_task TWorkflow 0) started_db
      = append_tx clock0 ''w1'' [ActivityScheduled ''reserve'' JNull] (id started_db)"
    using handler_commits [of "sample_task TWorkflow 0" started_db "''two''" JNull "[(''two'', two_steps)]" two_steps id]
    by (simp add: started_db two_steps_first registry_get_def) (simp add: log_from_def)
  with d1 show ?thesis by simp
qed

theorem replay_handler_idempotent_witness:
  "\<exists>d1. workflowReplayHandler clock0 id [(''two'', two_steps)] small_config id (sample_task TWorkflow 0) started_db = (d1, Inr ())
     \<and> getEvents ''w1'' d1 \<noteq> getEvents ''w1'' started_db
     \<and> workflowReplayHandler clock0 (\<lambda>_. fresh_db) [(''two'', two_steps)] small_config id (sample_task TWorkflow 0) d1 = (d1, Inr ())"
proof -
  obtain d1 where d1: "workflowReplayHandler clock0 id [(''two'', two_steps)] small_config id (sample_task TWorkflow 0) started_db = (d1, Inr ())"
    "appended clock0 ''w1'' [ActivityScheduled ''reserve'' JNull] started_db d1"
    using first_run by blast
  from appended_one [OF d1(2)] have h: "getEvents ''w1'' d1 = log_from [WorkflowStarted ''two'' JNull] @
      [\<lparr>seq = 2, event = ActivityScheduled ''reserve'' JNull\<rparr>]"
    by (simp add: started_db log_from_def)
  have "refs_bounded (getEvents ''w1'' started_db)" "\<not> alreadyTerminal (getEvents ''w1'' d1)"
    by (simp_all add: h started_db refs_bounded_def alreadyTerminal_def log_from_def)
  with replay_handler_idempotent [of id started_db "sample_task TWorkflow 0" clock0 "[(''two'', two_steps)]" small_config id d1 d1
      clock0 "\<lambda>_. fresh_db" small_config] d1(1) h
  show ?thesis by (auto simp: started_db)
qed

subsection \<open>Cancellation\<close>

text \<open>
  Cancellation is hard. Once a cancellation request is in the log of a workflow that has not
  ended, handling its workflow task ends the workflow at once, whatever its function would do next:
  the handler does not replay, appends exactly \<open>WorkflowCanceled\<close> with the first request's reason,
  and the status becomes \<open>CANCELED\<close>, even if other events were appended since the history was read,
  as long as none of them ended it.
\<close>

theorem cancellation_ends_workflow:
  assumes "find_map started_of (getEvents (t_workflowId t) d) = Some (ty, inp)" "registry_get wfs ty = Some fn"
    and "find_map cancellation_of (getEvents (t_workflowId t) d) = Some reason"
    and "\<not> alreadyTerminal (getEvents (t_workflowId t) d)"
    and "db_inv (between d)" "t_workflowId t \<in> set (execution_ids (between d))"
  shows "\<exists>d'. workflowReplayHandler ck between wfs llm hash t d = (d', Inr ())
    \<and> getEvents (t_workflowId t) d' = getEvents (t_workflowId t) (between d)
        @ [\<lparr>seq = Suc (length (getEvents (t_workflowId t) (between d))), event = WorkflowCanceled reason\<rparr>]
    \<and> (\<forall>x \<in> set (db_executions d'). ex_id x = t_workflowId t \<longrightarrow> ex_status x = CANCELED)
    \<and> db_inv d'"
proof -
  let ?w = "t_workflowId t"
  obtain d' where d': "append_tx ck ?w [WorkflowCanceled reason] (between d) = (d', Inr ())"
    "appended ck ?w [WorkflowCanceled reason] (between d) d'"
    using append_tx_ok [OF assms(5) _ assms(6), of "[WorkflowCanceled reason]" ck] by (auto simp: no_proto_events_def)
  have run: "workflowReplayHandler ck between wfs llm hash t d = (d', Inr ())"
    using assms(1-4) d'(1) by (simp add: workflowReplayHandler_def Let_def)
  show ?thesis
    using run appended_one [OF d'(2)] appended_status [OF d'(2)] appendedD(1) [OF d'(2)]
    by (auto simp: log_status_append)
qed

definition cancel_log :: "wf_event list" where
  "cancel_log = [WorkflowStarted ''two'' JNull, ActivityScheduled ''reserve'' JNull, CancellationRequested (Some ''stop'')]"

theorem cancellation_ends_workflow_witness:
  "\<exists>d'. workflowReplayHandler clock0 id [(''two'', two_steps)] small_config id (sample_task TWorkflow 0)
       (sample_db cancel_log TWorkflow 0) = (d', Inr ())
     \<and> getEvents ''w1'' d' = log_from (cancel_log @ [WorkflowCanceled (Some ''stop'')])"
proof -
  have "find_map started_of (log_from cancel_log) = Some (''two'', JNull)" "registry_get [(''two'', two_steps)] ''two'' = Some two_steps"
    "find_map cancellation_of (log_from cancel_log) = Some (Some ''stop'')" "\<not> alreadyTerminal (log_from cancel_log)"
    "db_inv (sample_db cancel_log TWorkflow 0)"
    by (simp_all add: cancel_log_def log_from_def registry_get_def alreadyTerminal_def sample_db no_proto_events_def)
  with cancellation_ends_workflow [of "sample_task TWorkflow 0" "sample_db cancel_log TWorkflow 0" "''two''" JNull
      "[(''two'', two_steps)]" two_steps "Some ''stop''" id clock0 small_config id]
  show ?thesis by (auto simp: sample_db log_from_def cancel_log_def)
qed

end
