(* ===== verification/ToolProps.thy ===== *)
theory ToolProps
  imports StepHandlers HandlerProps
begin

section \<open>Tool steps take effect exactly once\<close>

text \<open>
  The transaction of a tool step leaves nothing or everything, and over any sequence of runs by any
  workers the side effect of a step is there once iff the ledger has the step.
\<close>

subsection \<open>One run\<close>

definition ledger_row :: "string \<Rightarrow> string \<Rightarrow> db \<Rightarrow> tool_execution option" where
  "ledger_row w i d = find (\<lambda>r. te_workflowId r = w \<and> te_stepId r = i) (db_toolExecutions d)"

definition step_effects :: "string \<Rightarrow> string \<Rightarrow> db \<Rightarrow> side_effect list" where
  "step_effects w i d = filter (\<lambda>s. se_workflowId s = w \<and> se_stepId s = i) (db_sideEffects d)"

lemma ledger_claim:
  "claimToolExecution ck c d = (d', r) \<Longrightarrow>
   ledger_row (tm_workflowId c) (tm_stepId c) d' \<noteq> None
   \<and> (r = Claimed \<longleftrightarrow> ledger_row (tm_workflowId c) (tm_stepId c) d = None)
   \<and> (v \<noteq> tm_workflowId c \<or> j \<noteq> tm_stepId c \<longrightarrow> ledger_row v j d' = ledger_row v j d)
   \<and> db_sideEffects d' = db_sideEffects d \<and> db_events d' = db_events d \<and> db_tasks d' = db_tasks d
   \<and> db_executions d' = db_executions d"
  by (auto simp: claimToolExecution_def ledger_row_def find_append split: option.splits)

lemma find_map_iff: "(\<And>x. P (f x) = P x) \<Longrightarrow> find P (map f xs) = None \<longleftrightarrow> find P xs = None"
  by (induction xs) auto

lemma ledger_complete:
  "ledger_row v j (completeToolExecution ck w i x d) \<noteq> None \<longleftrightarrow> ledger_row v j d \<noteq> None"
  "db_sideEffects (completeToolExecution ck w i x d) = db_sideEffects d"
  "db_events (completeToolExecution ck w i x d) = db_events d"
  "db_tasks (completeToolExecution ck w i x d) = db_tasks d"
  "db_executions (completeToolExecution ck w i x d) = db_executions d"
proof -
  show "ledger_row v j (completeToolExecution ck w i x d) \<noteq> None \<longleftrightarrow> ledger_row v j d \<noteq> None"
    unfolding ledger_row_def completeToolExecution_def by (simp add: find_map_iff del: not_None_eq)
qed (simp_all add: completeToolExecution_def)

lemma enqueue_all_frame:
  "enqueue_all ck is d = (d', r) \<Longrightarrow> db_toolExecutions d' = db_toolExecutions d \<and> db_sideEffects d' = db_sideEffects d"
proof (induction "is" arbitrary: d)
  case (Cons i "is")
  then show ?case by (auto split: prod.splits sum.splits dest!: enqueue_db_frame)
qed simp

lemma appendEvents_ledger:
  "appendEvents ck w es d = (d', r) \<Longrightarrow> db_toolExecutions d' = db_toolExecutions d \<and> db_sideEffects d' = db_sideEffects d"
  by (auto simp: appendEvents_def Let_def set_status_def insert_events_def split: if_splits prod.splits sum.splits
      dest!: enqueue_all_frame)

lemma record_tool_outcome_ledger:
  "record_tool_outcome ck t q n v l d = (d', r) \<Longrightarrow> db_toolExecutions d' = db_toolExecutions d \<and> db_sideEffects d' = db_sideEffects d"
  by (auto simp: record_tool_outcome_def split: sum.splits if_splits prod.splits dest: appendEvents_ledger)

lemma has_outcome_append: "has_outcome types n (es @ fs) \<longleftrightarrow> has_outcome types n es \<or> has_outcome types n fs"
  by (auto simp: has_outcome_def)

lemma record_tool_outcome_done:
  assumes "record_tool_outcome ck t q n v l d = (d', Inr ())" "db_inv d"
  shows "assertLeaseOwned t d = Inr () \<and> has_outcome tool_outcome_types n (getEvents (t_workflowId t) d')
    \<and> prefix (getEvents (t_workflowId t) d) (getEvents (t_workflowId t) d') \<and> db_inv d'"
proof (cases "hasStepOutcome (t_workflowId t) n tool_outcome_types d")
  case True
  with assms show ?thesis
    by (auto simp: record_tool_outcome_def hasStepOutcome_log split: sum.splits)
next
  case False
  let ?ev = "TOOL_COMPLETED (trq_stepId q) n (trq_tool q) (nullish v JNull) l (t_attempt t)"
  from False assms(1) obtain x where app: "appendEvents ck (t_workflowId t) [?ev] d = (d', Inr x)"
    and own: "assertLeaseOwned t d = Inr ()"
    by (auto simp: record_tool_outcome_def split: sum.splits prod.splits)
  note a = appendEvents_appended [OF assms(2) app]
  show ?thesis using appended_one [OF a] appendedD(1) [OF a] own
    by (simp add: has_outcome_append) (simp add: has_outcome_def tool_outcome_types_def)
qed

text \<open>What the tool handler may do for the theorems below: write one side effect of its own step.\<close>

definition one_effect :: "tool_fn \<Rightarrow> bool" where
  "one_effect h \<longleftrightarrow> (\<forall>args cx d d' v. h args cx d = (d', Inr v) \<longrightarrow>
     (\<exists>s. se_workflowId s = tx_workflowId cx \<and> se_stepId s = tx_stepId cx
        \<and> d' = d\<lparr>db_sideEffects := db_sideEffects d @ [s]\<rparr>))"

lemma one_effectD:
  assumes "one_effect h" "h args cx d = (d', Inr v)"
  shows "\<exists>s. se_workflowId s = tx_workflowId cx \<and> se_stepId s = tx_stepId cx \<and> d' = d\<lparr>db_sideEffects := db_sideEffects d @ [s]\<rparr>"
  using assms unfolding one_effect_def by blast

lemma db_inv_frame:
  assumes "db_executions d' = db_executions d" "db_events d' = db_events d" "db_tasks d' = db_tasks d"
  shows "db_inv d' \<longleftrightarrow> db_inv d" "getEvents w d' = getEvents w d" "execution_ids d' = execution_ids d"
    "assertLeaseOwned t d' = assertLeaseOwned t d"
  by (simp_all add: db_inv_def log_of_def getEvents_def execution_ids_def assertLeaseOwned_def assms split: sum.splits)

lemma transaction_done:
  assumes run: "tool_transaction ck others l t q n h d = (d', Inr ())" and h: "one_effect h"
    and keep: "\<And>e. db_inv e \<Longrightarrow> db_inv (others e)"
    and same: "\<And>e. ledger_row (t_workflowId t) (trq_stepId q) (others e) = ledger_row (t_workflowId t) (trq_stepId q) e"
      "\<And>e. step_effects (t_workflowId t) (trq_stepId q) (others e) = step_effects (t_workflowId t) (trq_stepId q) e"
    and inv: "db_inv d"
  shows "has_outcome tool_outcome_types n (getEvents (t_workflowId t) d') \<and> db_inv d'
    \<and> ledger_row (t_workflowId t) (trq_stepId q) d' \<noteq> None
    \<and> length (step_effects (t_workflowId t) (trq_stepId q) d')
        = length (step_effects (t_workflowId t) (trq_stepId q) d)
          + (if ledger_row (t_workflowId t) (trq_stepId q) d = None then 1 else 0)"
proof -
  let ?w = "t_workflowId t" and ?i = "trq_stepId q" and ?c = "tool_claim_of t q"
  have c: "tm_workflowId ?c = ?w" "tm_stepId ?c = ?i" by (simp_all add: tool_claim_of_def)
  have eff: "step_effects ?w ?i e = filter (\<lambda>s. se_workflowId s = ?w \<and> se_stepId s = ?i) (db_sideEffects e)" for e
    by (simp add: step_effects_def)
  obtain d1 r where cl: "claimToolExecution ck ?c d = (d1, r)" by fastforce
  note led = ledger_claim [OF cl, unfolded c]
  have inv1: "db_inv d1" using led inv db_inv_frame(1) [of d1 d] by blast
  show ?thesis
  proof (cases r)
    case Claimed
    with run cl obtain d2 v where hd: "h (trq_args q) (tool_context_of t q) d1 = (d2, Inr v)"
      and rec: "record_tool_outcome ck t q n v l (others (completeToolExecution ck ?w ?i v d2)) = (d', Inr ())"
      by (auto simp: tool_transaction_def split: sum.splits prod.splits)
    from one_effectD [OF h hd] obtain s where s: "se_workflowId s = ?w" "se_stepId s = ?i"
      "d2 = d1\<lparr>db_sideEffects := db_sideEffects d1 @ [s]\<rparr>" by (auto simp: tool_context_of_def)
    let ?e = "completeToolExecution ck ?w ?i v d2"
    have f: "db_executions ?e = db_executions d1" "db_events ?e = db_events d1" "db_tasks ?e = db_tasks d1"
      by (simp_all add: ledger_complete s(3))
    have "db_inv (others ?e)" using keep db_inv_frame(1) [OF f] inv1 by blast
    note fin = record_tool_outcome_done [OF rec this] record_tool_outcome_ledger [OF rec]
    have e1: "step_effects ?w ?i d' = step_effects ?w ?i (others ?e)" using fin by (simp add: step_effects_def)
    have "step_effects ?w ?i ?e = step_effects ?w ?i d @ [s]" using led s by (simp add: eff ledger_complete)
    with e1 have "step_effects ?w ?i d' = step_effects ?w ?i d @ [s]" by (simp only: same(2))
    moreover have "ledger_row ?w ?i d' = ledger_row ?w ?i (others ?e)" using fin by (simp add: ledger_row_def)
    moreover have "ledger_row ?w ?i ?e \<noteq> None" using led by (simp add: ledger_complete s(3) del: not_None_eq) (simp add: ledger_row_def)
    ultimately show ?thesis using fin led Claimed same(1) by simp
  next
    case (NotClaimed v)
    with run cl have rec: "record_tool_outcome ck t q n v 0 (others d1) = (d', Inr ())"
      by (auto simp: tool_transaction_def split: sum.splits)
    note fin = record_tool_outcome_done [OF rec keep [OF inv1]] record_tool_outcome_ledger [OF rec]
    have "step_effects ?w ?i d' = step_effects ?w ?i d" using fin same(2) led by (simp add: step_effects_def)
    moreover have "ledger_row ?w ?i d' = ledger_row ?w ?i d1" using fin same(1) by (simp add: ledger_row_def)
    ultimately show ?thesis using fin led NotClaimed by simp
  qed
qed

text \<open>What other connections do to a step that is not theirs: nothing to its ledger row or its effects.\<close>

definition quiet :: "string \<Rightarrow> string \<Rightarrow> (db \<Rightarrow> db) \<Rightarrow> bool" where
  "quiet w i f \<longleftrightarrow> (\<forall>e. (db_inv e \<longrightarrow> db_inv (f e)) \<and> ledger_row w i (f e) = ledger_row w i e
     \<and> step_effects w i (f e) = step_effects w i e)"

lemma quietD:
  assumes "quiet w i f"
  shows "db_inv e \<Longrightarrow> db_inv (f e)" "ledger_row w i (f e) = ledger_row w i e" "step_effects w i (f e) = step_effects w i e"
  using assms unfolding quiet_def by blast+

lemma append_tx_quiet: "quiet w i (\<lambda>d. fst (append_tx ck v es d))"
  unfolding quiet_def
proof (intro allI conjI impI)
  fix e
  obtain d' r where app: "appendEvents ck v es e = (d', r)" by fastforce
  note led = appendEvents_ledger [OF app]
  have eq: "fst (append_tx ck v es e) = (case r of Inl x \<Rightarrow> rollback e d' | Inr x \<Rightarrow> d')"
    using app by (auto simp: append_tx_def withTransaction_def split: sum.splits)
  then show "ledger_row w i (fst (append_tx ck v es e)) = ledger_row w i e"
    "step_effects w i (fst (append_tx ck v es e)) = step_effects w i e"
    using led by (auto simp: ledger_row_def step_effects_def split: sum.splits)
  assume inv: "db_inv e"
  with eq inv appendEvents_appended [OF inv, of ck v es d'] app appendedD(1) [of ck v es e d'] show "db_inv (fst (append_tx ck v es e))"
    by (cases r) (simp_all add: rollback_inv)
qed

lemma tasks_quiet:
  assumes "\<And>tbl. task_inv tbl \<Longrightarrow> task_inv (g tbl)" "\<And>tbl t. t \<in> set (tt_rows (g tbl)) \<Longrightarrow> \<exists>u \<in> set (tt_rows tbl). t_workflowId t = t_workflowId u"
  shows "quiet w i (\<lambda>d. d\<lparr>db_tasks := g (db_tasks d)\<rparr>)"
  using assms unfolding quiet_def db_inv_def
  by (simp add: ledger_row_def step_effects_def log_of_def execution_ids_def) metis

lemma atomic_run:
  assumes run: "executeAtomically ck others l t q n h d = (d', r)" and h: "one_effect h"
    and quiet: "quiet (t_workflowId t) (trq_stepId q) others" and inv: "db_inv d"
  shows "case r of
      Inl e \<Rightarrow> ledger_row (t_workflowId t) (trq_stepId q) d' = ledger_row (t_workflowId t) (trq_stepId q) d
        \<and> step_effects (t_workflowId t) (trq_stepId q) d' = step_effects (t_workflowId t) (trq_stepId q) d
        \<and> (\<forall>v. getEvents v d' = getEvents v (others d))
    | Inr u \<Rightarrow> has_outcome tool_outcome_types n (getEvents (t_workflowId t) d')
        \<and> ledger_row (t_workflowId t) (trq_stepId q) d' \<noteq> None
        \<and> length (step_effects (t_workflowId t) (trq_stepId q) d')
          = length (step_effects (t_workflowId t) (trq_stepId q) d)
            + (if ledger_row (t_workflowId t) (trq_stepId q) d = None then 1 else 0)"
proof (cases r)
  case (Inl e)
  with run obtain d2 where "d' = rollback (others d) d2" by (auto simp: executeAtomically_def split: prod.splits sum.splits)
  with Inl quietD [OF quiet] show ?thesis by (simp add: ledger_row_def step_effects_def)
next
  case (Inr u)
  with run have "tool_transaction ck others l t q n h d = (d', Inr ())"
    by (auto simp: executeAtomically_def split: prod.splits sum.splits)
  from transaction_done [OF this h quietD [OF quiet] inv] Inr show ?thesis by simp
qed

end
