(* ===== verification/Examples.thy ===== *)
theory Examples
  imports StepHandlers
begin

section \<open>The example workflows and tools (packages/worker-sdk/src/examples)\<close>

text \<open>
  supportTools.ts, supportTriage.ts, reserveChargeShip.ts and timerWorkflow.ts as they run on the
  engine: workflow functions are trees of calls, activities and tools functions of their input. The
  activities also count their runs in a table of their own, which nothing reads but the demos; it is
  in \<open>Demos\<close>.
\<close>

subsection \<open>Reading properties\<close>

text \<open>\<open>v.k\<close>: a \<open>TypeError\<close> on \<open>null\<close> and \<open>undefined\<close>, \<open>undefined\<close> where there is no own property.\<close>

definition cannot_read :: "string \<Rightarrow> string \<Rightarrow> string" where
  "cannot_read what k = ''Cannot read properties of '' @ what @ '' (reading '' @ [CHR 0x27] @ k @ [CHR 0x27] @ '')''"

fun get_prop :: "jsval \<Rightarrow> string \<Rightarrow> string + jsval" where
  "get_prop JUndef k = Inl (cannot_read ''undefined'' k)"
| "get_prop JNull k = Inl (cannot_read ''null'' k)"
| "get_prop (JObj kvs) k = Inr (or_default (map_of kvs k) JUndef)"
| "get_prop v k = Inr JUndef"

text \<open>A value in a template string; the elements of an array are joined by commas.\<close>

fun template_text :: "jsval \<Rightarrow> string" where
  "template_text JUndef = ''undefined''"
| "template_text JNull = ''null''"
| "template_text (JBool b) = (if b then ''true'' else ''false'')"
| "template_text (JNum t) = t"
| "template_text (JStr s) = s"
| "template_text (JArr vs) = js_join '','' (map (\<lambda>v. if v = JUndef \<or> v = JNull then '''' else template_text v) vs)"
| "template_text (JObj kvs) = ''[object Object]''"
| "template_text (JToJson v) = ''[object Object]''"

text \<open>Reading a property inside a workflow function: what it throws ends the function.\<close>

definition read_prop :: "jsval \<Rightarrow> string \<Rightarrow> (jsval \<Rightarrow> prog) \<Rightarrow> prog" where
  "read_prop v k c = (case get_prop v k of Inl e \<Rightarrow> Throw e | Inr x \<Rightarrow> c x)"

subsection \<open>Reserve, charge, ship; the durable timer\<close>

definition reserveChargeShip :: workflow_fn where
  "reserveChargeShip inp =
     await_call (ScheduleActivityCall ''reserve'' inp) (\<lambda>reserved.
     await_call (ScheduleActivityCall ''charge'' reserved) (\<lambda>charged.
     await_call (ScheduleActivityCall ''ship'' charged) (\<lambda>shipped.
     read_prop inp ''orderId'' (\<lambda>orderId.
     Ret (JObj [(''orderId'', orderId), (''status'', JStr ''done''), (''shipped'', shipped)])))))"

definition reserve_activity :: activity_fn where
  "reserve_activity inp key = (case get_prop inp ''orderId'' of
     Inl e \<Rightarrow> Inl e | Inr orderId \<Rightarrow> Inr (JObj [(''reserved'', JBool True), (''orderId'', orderId)]))"

definition charge_activity :: activity_fn where
  "charge_activity inp key = Inr (JObj [(''charged'', JBool True), (''of'', inp)])"

definition ship_activity :: activity_fn where
  "ship_activity inp key = Inr (JObj [(''shipped'', JBool True), (''of'', inp)])"

definition reserve_charge_ship_activities :: "(string \<times> activity_fn) list" where
  "reserve_charge_ship_activities = [(''reserve'', reserve_activity), (''charge'', charge_activity), (''ship'', ship_activity)]"

text \<open>\<open>ms\<close> is the number a value denotes (\<open>NaN\<close> for what is not a number).\<close>

definition timerWorkflow :: "(jsval \<Rightarrow> js_num) \<Rightarrow> workflow_fn" where
  "timerWorkflow ms inp =
     await_call (ScheduleActivityCall ''before-timer'' inp) (\<lambda>r.
     read_prop inp ''sleepMs'' (\<lambda>sleepMs.
     await_call (SleepCall (ms sleepMs)) (\<lambda>u.
     await_call (ScheduleActivityCall ''after-timer'' inp) (\<lambda>r2.
     Ret (JObj [(''done'', JBool True)])))))"

definition timer_activity :: "string \<Rightarrow> activity_fn" where
  "timer_activity activityType inp key = Inr (JObj [(''activityType'', JStr activityType), (''input'', inp)])"

definition timer_workflow_activities :: "(string \<times> activity_fn) list" where
  "timer_workflow_activities = map (\<lambda>n. (n, timer_activity n)) [''before-timer'', ''after-timer'']"

subsection \<open>The support tools\<close>

definition hex_value :: "char \<Rightarrow> nat option" where
  "hex_value c = (let n = of_char c :: nat in
     if 48 \<le> n \<and> n \<le> 57 then Some (n - 48)
     else if 97 \<le> n \<and> n \<le> 102 then Some (n - 87)
     else if 65 \<le> n \<and> n \<le> 70 then Some (n - 55) else None)"

definition plans :: "string list" where
  "plans = [''free'', ''pro'', ''enterprise'']"

text \<open>\<open>PLANS[parseInt(h.slice(0, 2), 16) % PLANS.length] ?? 'free'\<close>\<close>

definition plan_of :: "string \<Rightarrow> string" where
  "plan_of h = (case takeWhile (\<lambda>v. v \<noteq> None) (map hex_value (take 2 h)) of
     [] \<Rightarrow> ''free''
   | ds \<Rightarrow> or_default (js_at plans (foldl (\<lambda>a v. 16 * a + or_default v 0) 0 ds mod length plans)) ''free'')"

text \<open>\<open>sha256Hex\<close> of a value that is not a string throws.\<close>

definition hash_value :: "(string \<Rightarrow> string) \<Rightarrow> jsval \<Rightarrow> js_error + string" where
  "hash_value sha256Hex v = (case v of JStr s \<Rightarrow> Inr (sha256Hex s)
     | _ \<Rightarrow> Inl (TypeErr ''The data argument must be of type string''))"

definition customer_js :: "jsval \<Rightarrow> string \<Rightarrow> jsval" where
  "customer_js customerId h = JObj
     [(''customerId'', customerId), (''name'', JStr (''Customer '' @ take 6 h)), (''plan'', JStr (plan_of h)),
      (''email'', JStr (take 8 h @ ''@example.test''))]"

definition lookup_customer :: "(string \<Rightarrow> string) \<Rightarrow> tool_fn" where
  "lookup_customer sha256Hex args cx d =
     (case recordSideEffect (tx_workflowId cx) (tx_stepId cx) ''customer_lookup'' args d of
        (d', Inl e) \<Rightarrow> (d', Inl e)
      | (d', Inr _) \<Rightarrow> (case get_prop args ''customerId'' of
          Inl m \<Rightarrow> (d', Inl (TypeErr m))
        | Inr customerId \<Rightarrow> (case hash_value sha256Hex customerId of
            Inl e \<Rightarrow> (d', Inl e) | Inr h \<Rightarrow> (d', Inr (customer_js customerId h)))))"

definition send_reply :: "(string \<Rightarrow> string) \<Rightarrow> tool_fn" where
  "send_reply sha256Hex args cx d =
     (case recordSideEffect (tx_workflowId cx) (tx_stepId cx) ''reply_sent'' args d of
        (d', Inl e) \<Rightarrow> (d', Inl e)
      | (d', Inr _) \<Rightarrow> (case (get_prop args ''ticketId'', get_prop args ''to'', get_prop args ''body'') of
          (Inr ticketId, Inr recipient, Inr body) \<Rightarrow>
            (d', Inr (JObj [(''messageId'', JStr (''msg-'' @ take 12 (sha256Hex
               (template_text ticketId @ ''|'' @ template_text recipient @ ''|'' @ template_text body))))]))
        | (Inl m, _, _) \<Rightarrow> (d', Inl (TypeErr m))
        | (_, Inl m, _) \<Rightarrow> (d', Inl (TypeErr m))
        | (_, _, Inl m) \<Rightarrow> (d', Inl (TypeErr m))))"

definition string_property :: "string \<Rightarrow> string \<times> jsval" where
  "string_property k = (k, JObj [(''type'', JStr ''string''), (''minLength'', JNum ''1'')])"

definition args_schema :: "string list \<Rightarrow> (string \<times> jsval) list" where
  "args_schema ks = [(''type'', JStr ''object''), (''properties'', JObj (map string_property ks)),
     (''required'', JArr (map JStr ks)), (''additionalProperties'', JBool False)]"

definition createSupportToolRegistry :: "((string \<times> jsval) list \<Rightarrow> js_error + validator) \<Rightarrow> (string \<Rightarrow> string)
    \<Rightarrow> js_error + tool_registry" where
  "createSupportToolRegistry compile sha256Hex =
     (case register compile \<lparr>tl_name = ''lookup_customer'',
          tl_description = Some ''Look up a customer record (and write an audit entry).'',
          tl_argsSchema = args_schema [''customerId''], tl_handler = lookup_customer sha256Hex\<rparr> empty_registry of
        Inl e \<Rightarrow> Inl e
      | Inr reg \<Rightarrow> register compile \<lparr>tl_name = ''send_reply'',
          tl_description = Some ''Send a reply to a customer (records the outbound message).'',
          tl_argsSchema = args_schema [''ticketId'', ''to'', ''body''], tl_handler = send_reply sha256Hex\<rparr> reg)"

subsection \<open>Support-ticket triage\<close>

definition newline :: string where
  "newline = [CHR 0x0A]"

definition classify_request :: "jsval \<Rightarrow> jsval \<Rightarrow> llm_request" where
  "classify_request subject body = \<lparr>rq_model = ''default'',
     rq_messages =
       [\<lparr>m_role = ''system'', m_content =
          ''You triage customer support tickets. Reply with exactly one category: billing, technical, account or other.''\<rparr>,
        \<lparr>m_role = ''user'', m_content = ''Subject: '' @ template_text subject @ newline @ newline @ template_text body\<rparr>],
     rq_params = Some [(''maxTokens'', JNum ''16'')], rq_tools = None\<rparr>"

definition draft_request :: "jsval \<Rightarrow> jsval \<Rightarrow> string \<Rightarrow> jsval \<Rightarrow> jsval \<Rightarrow> llm_request" where
  "draft_request name plan category subject body = \<lparr>rq_model = ''default'',
     rq_messages =
       [\<lparr>m_role = ''system'', m_content = ''You write short, polite support replies. Do not promise refunds.''\<rparr>,
        \<lparr>m_role = ''user'', m_content =
          ''Customer: '' @ template_text name @ '' ('' @ template_text plan @ '' plan)'' @ newline
          @ ''Category: '' @ category @ newline
          @ ''Ticket: '' @ template_text subject @ newline @ newline @ template_text body @ newline @ newline
          @ ''Write the reply.''\<rparr>],
     rq_params = Some [(''maxTokens'', JNum ''400'')], rq_tools = None\<rparr>"

text \<open>\<open>text.trim().split('\n')[0] ?? ''\<close> of the text of a classification (which the engine makes a string).\<close>

definition category_of :: "jsval \<Rightarrow> string" where
  "category_of txt = takeWhile (\<lambda>c. c \<noteq> CHR 0x0A) (trim (case txt of JStr s \<Rightarrow> s | _ \<Rightarrow> ''''))"

definition supportTicketTriage :: workflow_fn where
  "supportTicketTriage inp =
     read_prop inp ''subject'' (\<lambda>subject. read_prop inp ''body'' (\<lambda>body.
     await_call (LlmCall (classify_request subject body)) (\<lambda>classification.
     read_prop classification ''text'' (\<lambda>txt.
     read_prop inp ''customerId'' (\<lambda>customerId.
     await_call (ToolCall ''lookup_customer'' (JObj [(''customerId'', customerId)])) (\<lambda>customer.
     read_prop customer ''name'' (\<lambda>name. read_prop customer ''plan'' (\<lambda>plan.
     await_call (LlmCall (draft_request name plan (category_of txt) subject body)) (\<lambda>draft.
     read_prop inp ''ticketId'' (\<lambda>ticketId. read_prop customer ''email'' (\<lambda>email. read_prop draft ''text'' (\<lambda>reply.
     await_call (ToolCall ''send_reply'' (JObj [(''ticketId'', ticketId), (''to'', email), (''body'', reply)])) (\<lambda>sent.
     read_prop sent ''messageId'' (\<lambda>messageId.
     Ret (JObj [(''ticketId'', ticketId), (''category'', JStr (category_of txt)), (''customerName'', name),
       (''plan'', plan), (''reply'', reply), (''messageId'', messageId)])))))))))))))))"

definition topics :: "(string \<times> string) list" where
  "topics = [(''Double charged on my invoice'', ''I was billed twice for March. Please fix.''),
     (''Cannot log in'', ''The password reset email never arrives.''),
     (''Export is failing'', ''CSV export spins forever on large projects.''),
     (''Change my plan'', ''How do I move from the free plan to pro?'')]"

definition padStart :: "nat \<Rightarrow> char \<Rightarrow> string \<Rightarrow> string" where
  "padStart n c s = replicate (n - length s) c @ s"

definition sampleTicket :: "nat \<Rightarrow> jsval" where
  "sampleTicket i = (let t = or_default (js_at topics (i mod length topics)) (hd topics) in
     JObj [(''ticketId'', JStr (''T-'' @ padStart 4 (CHR ''0'') (show_nat i))),
           (''customerId'', JStr (''C-'' @ show_nat (i mod 7))),
           (''subject'', JStr (fst t)), (''body'', JStr (snd t))])"

end
