(* ===== verification/ToolSteps.thy ===== *)
theory ToolSteps
  imports ToolProps Examples
begin

section \<open>Any number of runs of a tool step\<close>

text \<open>
  The step relation of one tool step under any workers: a run of the step's transaction, successful
  or not, or a change by others that leaves the step alone. The handlers of the support tools satisfy
  what the theorems ask of a tool.
\<close>

inductive tool_step :: "string \<Rightarrow> string \<Rightarrow> tool_fn \<Rightarrow> db \<Rightarrow> db \<Rightarrow> bool" for w i h where
  run: "t_workflowId t = w \<Longrightarrow> trq_stepId q = i \<Longrightarrow> quiet w i others
    \<Longrightarrow> executeAtomically ck others l t q n h d = (d', r) \<Longrightarrow> tool_step w i h d d'"
| others: "quiet w i f \<Longrightarrow> tool_step w i h d (f d)"

definition effect_once :: "string \<Rightarrow> string \<Rightarrow> db \<Rightarrow> bool" where
  "effect_once w i d \<longleftrightarrow> db_inv d
     \<and> length (step_effects w i d) = (if ledger_row w i d = None then 0 else 1)"

lemma atomic_run_inv:
  assumes run: "executeAtomically ck others l t q n h d = (d', r)" and h: "one_effect h"
    and quiet: "quiet (t_workflowId t) (trq_stepId q) others" and inv: "db_inv d"
  shows "db_inv d'"
proof (cases r)
  case (Inl e)
  with run obtain d2 where "d' = rollback (others d) d2" by (auto simp: executeAtomically_def split: prod.splits sum.splits)
  with rollback_inv [OF quietD(1) [OF quiet inv]] show ?thesis by simp
next
  case (Inr u)
  with run have "tool_transaction ck others l t q n h d = (d', Inr ())"
    by (auto simp: executeAtomically_def split: prod.splits sum.splits)
  from transaction_done [OF this h quietD [OF quiet] inv] show ?thesis by simp
qed

lemma run_effect_once:
  assumes run: "executeAtomically ck others l t q n h d = (d', r)" and h: "one_effect h"
    and quiet: "quiet (t_workflowId t) (trq_stepId q) others" and once: "effect_once (t_workflowId t) (trq_stepId q) d"
  shows "effect_once (t_workflowId t) (trq_stepId q) d'"
proof -
  have inv: "db_inv d" using once by (simp add: effect_once_def)
  note a = atomic_run [OF run h quiet inv] atomic_run_inv [OF run h quiet inv]
  show ?thesis using a once by (cases r) (simp_all add: effect_once_def split: if_splits)
qed

lemma tool_step_once:
  assumes h: "one_effect h"
  shows "tool_step w i h d d' \<Longrightarrow> effect_once w i d \<Longrightarrow> effect_once w i d'"
proof (induction rule: tool_step.induct)
  case (run t q others ck l n d d' r)
  have q: "quiet (t_workflowId t) (trq_stepId q) others" "effect_once (t_workflowId t) (trq_stepId q) d"
    using run by simp_all
  from run_effect_once [OF run(4) h q] run(1,2) show ?case by simp
next
  case (others f d)
  from quietD [OF others(1)] others(2) show ?case by (simp add: effect_once_def)
qed

lemma tool_steps_once:
  assumes "(tool_step w i h)\<^sup>*\<^sup>* d d'" "one_effect h" "effect_once w i d"
  shows "effect_once w i d'"
  using assms(1,3) by (induction rule: rtranclp_induct) (auto dest: tool_step_once [OF assms(2)])

subsection \<open>The tools of the examples\<close>

lemma recordSideEffect_one:
  "recordSideEffect w i k p d = (d', Inr u) \<Longrightarrow>
   \<exists>s. se_workflowId s = w \<and> se_stepId s = i \<and> d' = d\<lparr>db_sideEffects := db_sideEffects d @ [s]\<rparr>"
  by (rule exI [of _ "\<lparr>se_workflowId = w, se_stepId = i, se_kind = k, se_payload = the (jsonb_param p)\<rparr>"])
    (auto simp: recordSideEffect_def split: option.splits)

lemma lookup_customer_effect: "one_effect (lookup_customer sha)"
  unfolding one_effect_def lookup_customer_def
  by (auto split: prod.splits sum.splits dest!: recordSideEffect_one)

lemma send_reply_effect: "one_effect (send_reply sha)"
  unfolding one_effect_def send_reply_def
  by (auto split: prod.splits sum.splits dest!: recordSideEffect_one)

subsection \<open>The properties\<close>

text \<open>
  C27: A tool whose handler writes one row through its transaction takes effect exactly once per step:
  whatever runs of the step by whatever workers happened, failed or not, the row is there once if the
  ledger has the step and not at all otherwise; and after a run that returns it is there once, with an
  outcome in the history.
\<close>

theorem tool_effect_exactly_once:
  assumes runs: "(tool_step w i h)\<^sup>*\<^sup>* d d'" and tool: "one_effect h"
    and start: "db_inv d" "ledger_row w i d = None" "step_effects w i d = []"
    and last: "executeAtomically ck others l t q n h d' = (d'', r)" "t_workflowId t = w" "trq_stepId q = i"
    and quiet: "quiet w i others"
  shows "length (step_effects w i d') = (if ledger_row w i d' = None then 0 else 1)
    \<and> length (step_effects w i d'') = (if ledger_row w i d'' = None then 0 else 1)
    \<and> (isl r \<or> length (step_effects w i d'') = 1 \<and> has_outcome tool_outcome_types n (getEvents w d''))"
proof -
  have "effect_once w i d" using start by (simp add: effect_once_def)
  from tool_steps_once [OF runs tool this] have once: "effect_once w i d'" .
  have o: "quiet (t_workflowId t) (trq_stepId q) others" "effect_once (t_workflowId t) (trq_stepId q) d'"
    "db_inv d'" using once quiet last by (simp_all add: effect_once_def)
  note a = run_effect_once [OF last(1) tool o(1,2), unfolded last(2,3)]
    atomic_run [OF last(1) tool o(1,3), unfolded last(2,3)]
  show ?thesis using a once by (cases r) (auto simp: effect_once_def split: if_splits)
qed

definition lookup_requested :: tool_requested where
  "lookup_requested = \<lparr>trq_stepId = ''tool-0'', trq_tool = ''lookup_customer'',
     trq_args = JObj [(''customerId'', JStr ''C-1'')], trq_argsHash = ''h''\<rparr>"

definition lookup_db :: db where
  "lookup_db = sample_db [WorkflowStarted ''support-triage'' JNull,
     TOOL_REQUESTED ''tool-0'' ''lookup_customer'' (JObj [(''customerId'', JStr ''C-1'')]) ''h'' 3] TTool 2"

lemma lookup_db_ledger: "db_inv lookup_db" "ledger_row w i lookup_db = None" "step_effects w i lookup_db = []"
proof -
  show "db_inv lookup_db" unfolding lookup_db_def by (rule sample_db(1)) (simp add: no_proto_events_def)
qed (simp_all add: lookup_db_def sample_db_def db_of_def ledger_row_def step_effects_def)

lemma quiet_id: "quiet w i (\<lambda>d. d)"
  by (simp add: quiet_def)


text \<open>The first run of the step, then a second one that finds it in the ledger.\<close>

definition lookup_run :: "db \<Rightarrow> unit outcome_db" where
  "lookup_run d = executeAtomically clock0 (\<lambda>d. d) 5 (sample_task TTool 2) lookup_requested 2 (lookup_customer id) d"

lemma lookup_run_ok: "snd (lookup_run lookup_db) = Inr ()"
  by code_simp


lemma lookup_run_again: "snd (lookup_run (fst (lookup_run lookup_db))) = Inr ()"
  by code_simp

lemma lookup_run_atomic:
  "executeAtomically clock0 (\<lambda>d. d) 5 (sample_task TTool 2) lookup_requested 2 (lookup_customer id) d
     = (fst (lookup_run d), snd (lookup_run d))"
  by (simp add: lookup_run_def)

lemma lookup_ids: "t_workflowId (sample_task TTool 2) = ''w1''" "trq_stepId lookup_requested = ''tool-0''"
  by (simp_all add: lookup_requested_def)

theorem tool_effect_exactly_once_witness:
  "length (step_effects ''w1'' ''tool-0'' (fst (lookup_run (fst (lookup_run lookup_db))))) = 1"
proof -
  have "tool_step ''w1'' ''tool-0'' (lookup_customer id) lookup_db (fst (lookup_run lookup_db))"
    by (rule tool_step.run [OF lookup_ids quiet_id lookup_run_atomic])
  from tool_effect_exactly_once [OF r_into_rtranclp, OF this lookup_customer_effect lookup_db_ledger lookup_run_atomic lookup_ids quiet_id]
  show ?thesis by (simp add: lookup_run_again)
qed

text \<open>
  One run of a tool step leaves everything or nothing. A failed run (a lost lease, an error of the
  tool, a failed write) leaves the ledger, the effects of the step and every history as the other
  connections left them. A run that returns leaves the step in the ledger with an outcome recorded,
  and wrote the effect exactly if the ledger did not have the step before.
\<close>

theorem tool_run_all_or_nothing:
  assumes run: "executeAtomically ck others l t q n h d = (d', r)" and tool: "one_effect h"
    and quiet: "quiet (t_workflowId t) (trq_stepId q) others" and inv: "db_inv d"
  shows "case r of
      Inl e \<Rightarrow> ledger_row (t_workflowId t) (trq_stepId q) d' = ledger_row (t_workflowId t) (trq_stepId q) d
        \<and> step_effects (t_workflowId t) (trq_stepId q) d' = step_effects (t_workflowId t) (trq_stepId q) d
        \<and> list_all (\<lambda>v. getEvents v d' = getEvents v (others d)) (execution_ids d)
    | Inr u \<Rightarrow> has_outcome tool_outcome_types n (getEvents (t_workflowId t) d')
        \<and> ledger_row (t_workflowId t) (trq_stepId q) d' \<noteq> None
        \<and> length (step_effects (t_workflowId t) (trq_stepId q) d')
          = length (step_effects (t_workflowId t) (trq_stepId q) d)
            + (if ledger_row (t_workflowId t) (trq_stepId q) d = None then 1 else 0)"
  using atomic_run [OF run tool quiet inv] by (cases r) (simp_all add: list_all_iff)

theorem tool_run_all_or_nothing_witness:
  "ledger_row ''w1'' ''tool-0'' (fst (lookup_run lookup_db)) \<noteq> None
   \<and> has_outcome tool_outcome_types 2 (getEvents ''w1'' (fst (lookup_run lookup_db)))"
  using tool_run_all_or_nothing [OF lookup_run_atomic lookup_customer_effect, of lookup_db, unfolded lookup_ids,
      OF quiet_id lookup_db_ledger(1)]
  by (simp add: lookup_run_ok)

end
