(* ===== verification/LlmHandlerProps.thy ===== *)
theory LlmHandlerProps
  imports StepHandlers HandlerProps
begin

section \<open>What an LLM step sends\<close>

text \<open>
  The LLM worker sends a request only if it hashes to the recorded hash, and for a step the replay
  handler has just committed it sends the very request the workflow made, whatever part of the prompt
  the store kept: the request is derived again by a replay of the committed history.
\<close>

subsection \<open>The requests of a pass\<close>

definition llm_pairs :: "pass_state \<Rightarrow> (string \<times> llm_request) list" where
  "llm_pairs s = ps_pendingLlmRequests s @ List.map_filter pending_of (ps_commands s)"

fun hashed_by :: "(string \<Rightarrow> string) \<Rightarrow> wf_command \<Rightarrow> bool" where
  "hashed_by sha (RequestLlmCall i r h) = (h = hashLlmRequest sha r)"
| "hashed_by sha c = True"

definition llm_steps_ok :: "(string \<Rightarrow> string) \<Rightarrow> pass_state \<Rightarrow> bool" where
  "llm_steps_ok sha s \<longleftrightarrow> fst ` set (llm_pairs s) \<subseteq> llm_step_id ` {..<ps_llmCallIndex s}
     \<and> distinct (map fst (llm_pairs s)) \<and> list_all (hashed_by sha) (ps_commands s)"

lemma llm_step_id_inject [simp]: "llm_step_id m = llm_step_id n \<longleftrightarrow> m = n"
  by (simp add: llm_step_id_def)

lemma llm_pairs_push:
  "llm_pairs (push_command c s) = llm_pairs s @ List.map_filter pending_of [c]"
  by (simp add: llm_pairs_def push_command_def map_filter_append)

lemma llm_steps_ok_cong:
  "llm_pairs t = llm_pairs s \<Longrightarrow> ps_llmCallIndex t = ps_llmCallIndex s \<Longrightarrow> list_all (hashed_by sha) (ps_commands t)
   \<Longrightarrow> llm_steps_ok sha s \<Longrightarrow> llm_steps_ok sha t"
  by (simp add: llm_steps_ok_def)

lemma llm_steps_ok_new:
  assumes "llm_steps_ok sha s" "llm_pairs s = A @ B" "llm_pairs t = A @ (llm_step_id (ps_llmCallIndex s), r) # B"
    "ps_llmCallIndex t = Suc (ps_llmCallIndex s)" "list_all (hashed_by sha) (ps_commands t)"
  shows "llm_steps_ok sha t"
  using assms by (auto simp: llm_steps_ok_def)

lemma llm_steps_ok_settled:
  assumes "llm_steps_ok sha s" "llm_pairs t = llm_pairs s"
    "ps_llmCallIndex t = Suc (ps_llmCallIndex s)" "list_all (hashed_by sha) (ps_commands t)"
  shows "llm_steps_ok sha t"
  using assms by (auto simp: llm_steps_ok_def)

lemma issue_llm_call:
  assumes "ri_hash ix = Some sha"
  shows "ps_llmCallIndex (fst (issue ix (LlmCall r) s)) = Suc (ps_llmCallIndex s)"
    "(ps_pendingLlmRequests (fst (issue ix (LlmCall r) s)), ps_commands (fst (issue ix (LlmCall r) s))) \<in>
       {(ps_pendingLlmRequests s, ps_commands s),
        (ps_pendingLlmRequests s @ [(llm_step_id (ps_llmCallIndex s), r)], ps_commands s),
        (ps_pendingLlmRequests s, ps_commands s @ [RequestLlmCall (llm_step_id (ps_llmCallIndex s)) r (hashLlmRequest sha r)])}"
  using assms
  by (auto simp: issue_eq Let_def push_command_def hashLlmRequest_def split: option.splits wf_event.splits)

lemma issue_no_llm_call:
  assumes "\<forall>r. c \<noteq> LlmCall r"
  shows "ps_llmCallIndex (fst (issue ix c s)) = ps_llmCallIndex s
    \<and> ps_pendingLlmRequests (fst (issue ix c s)) = ps_pendingLlmRequests s
    \<and> (\<exists>cs. ps_commands (fst (issue ix c s)) = ps_commands s @ cs \<and> List.map_filter pending_of cs = [] \<and> list_all (hashed_by sha) cs)"
  using assms
  by (cases c) (auto simp: issue_def Let_def push_command_def List.map_filter_simps split: option.splits wf_event.splits)

lemma issue_llm_steps:
  assumes h: "ri_hash ix = Some sha" and ok: "llm_steps_ok sha s"
  shows "llm_steps_ok sha (fst (issue ix c s))"
proof (cases "\<exists>r. c = LlmCall r")
  case True
  then obtain r where c: "c = LlmCall r" by blast
  have cs: "list_all (hashed_by sha) (ps_commands s)" using ok by (simp add: llm_steps_ok_def)
  consider "llm_pairs (fst (issue ix c s)) = llm_pairs s" "ps_commands (fst (issue ix c s)) = ps_commands s"
    | "llm_pairs (fst (issue ix c s)) = ps_pendingLlmRequests s @ (llm_step_id (ps_llmCallIndex s), r) # List.map_filter pending_of (ps_commands s)"
      "ps_commands (fst (issue ix c s)) = ps_commands s"
    | "llm_pairs (fst (issue ix c s)) = llm_pairs s @ (llm_step_id (ps_llmCallIndex s), r) # []"
      "list_all (hashed_by sha) (ps_commands (fst (issue ix c s)))"
    using issue_llm_call(2) [OF h, of r s] unfolding c insert_iff prod.inject empty_iff
    by (elim disjE conjE) (simp_all add: cs llm_pairs_def map_filter_append List.map_filter_simps)
  then show ?thesis
  proof cases
    case 1
    show ?thesis
      by (rule llm_steps_ok_settled [OF ok 1(1)]) (simp_all only: 1(2) [unfolded c] cs c issue_llm_call(1) [OF h])
  next
    case 2
    show ?thesis
      by (rule llm_steps_ok_new [OF ok _ 2(1)]) (simp_all only: 2(2) [unfolded c] cs c issue_llm_call(1) [OF h] llm_pairs_def)
  next
    case 3
    show ?thesis
      by (rule llm_steps_ok_new [OF ok _ 3(1)]) (use 3(2) in \<open>simp_all only: c issue_llm_call(1) [OF h] append_Nil2\<close>)
  qed
next
  case False
  then obtain cs where "ps_llmCallIndex (fst (issue ix c s)) = ps_llmCallIndex s"
    "ps_pendingLlmRequests (fst (issue ix c s)) = ps_pendingLlmRequests s"
    "ps_commands (fst (issue ix c s)) = ps_commands s @ cs" "List.map_filter pending_of cs = []" "list_all (hashed_by sha) cs"
    using issue_no_llm_call [of c ix s sha] by blast
  then show ?thesis using ok by (simp add: llm_steps_ok_def llm_pairs_def map_filter_append)
qed

lemma issue_all_llm_steps:
  "ri_hash ix = Some sha \<Longrightarrow> llm_steps_ok sha s \<Longrightarrow> llm_steps_ok sha (issue_all ix cs s)"
  by (induction cs arbitrary: s) (simp_all add: issue_llm_steps)

lemma running_requests:
  assumes r: "replay f inp h (Some sha) = Inr r" and run: "rr_status r = RpRUNNING"
    and c: "RequestLlmCall i q x \<in> set (rr_commands r)"
  shows "x = hashLlmRequest sha q
    \<and> map_of (rr_pendingLlmRequests r @ List.map_filter pending_of (rr_commands r)) i = Some q"
proof -
  obtain s where s: "pass_end f inp h (Some sha) = (s, None)"
    using replay_Inr(2) [OF r] run by (cases "pass_end f inp h (Some sha)") auto
  note facts = replay_Inr [OF r, unfolded s, simplified]
  have "llm_steps_ok sha initial_pass" by (simp add: llm_steps_ok_def llm_pairs_def initial_pass_def List.map_filter_simps)
  then have "llm_steps_ok sha (fst (pass_end f inp h (Some sha)))"
    unfolding pass_end_state by (rule issue_all_llm_steps [rotated]) simp
  then have ok: "distinct (map fst (llm_pairs s))" "list_all (hashed_by sha) (ps_commands s)"
    by (simp_all add: s llm_steps_ok_def)
  have eq: "rr_commands r = ps_commands s" "rr_pendingLlmRequests r = ps_pendingLlmRequests s"
    using facts run by (simp_all add: finish_pass_def)
  have "(i, q) \<in> set (llm_pairs s)"
    using c unfolding eq llm_pairs_def by (force simp: List.map_filter_def)
  then have "map_of (llm_pairs s) i = Some q" using ok(1) by (simp add: map_of_eq_Some_iff)
  moreover have "x = hashLlmRequest sha q" using ok(2) c unfolding eq by (auto simp: list_all_iff)
  ultimately show ?thesis unfolding eq llm_pairs_def by simp
qed

subsection \<open>The request of a committed step\<close>

lemma canonicalLlmRequest_trip: "wf_request r \<Longrightarrow> canonicalLlmRequest (request_trip r) = canonicalLlmRequest r"
  using canonical_normalized_trip [of r] by (simp add: canonicalLlmRequest_def)

lemma stored_seq_le:
  assumes "db_inv d" "e \<in> set (getEvents w d)"
  shows "seq e \<le> length (getEvents w d)"
proof -
  have "seq e \<in> set (map seq (getEvents w d))" using assms(2) by simp
  then show ?thesis
    using db_invD(2) [OF assms(1), of w] getEvents_log [OF db_invD(2) [OF assms(1)], of w]
    unfolding log_ok_def by auto
qed

text \<open>A command and the LLM request event it was recorded by.\<close>

lemma llm_event_of_command:
  assumes "commandToEvent ck llm c = Inr ev" "llm_requested_of e = Some q" "event e = event_trip ev"
  obtains request where "c = RequestLlmCall (lrq_stepId q) request (lrq_requestHash q)"
    "lrq_requestStorage q = sr_requestStorage (buildStoredRequest request llm)"
    "lrq_request q = map_option request_trip (sr_request (buildStoredRequest request llm))"
  using assms by (cases c) (auto simp: Let_def split: sum.splits)

lemma stored_full:
  assumes "sr_requestStorage (buildStoredRequest request llm) = StFull"
  shows "sr_request (buildStoredRequest request llm) = Some (map_request (cf_redact llm) request)"
  using assms by (auto simp: buildStoredRequest_def Let_def split: if_splits)

lemma committed_request:
  assumes inv: "db_inv (between d)" and refs: "refs_bounded (getEvents (t_workflowId t) d)"
    and alone: "getEvents (t_workflowId t) (between d) = getEvents (t_workflowId t) d"
    and run: "workflowReplayHandler ck between wfs llm sha t d = (d1, Inr ())"
    and live: "\<not> alreadyTerminal (getEvents (t_workflowId t) d1)"
    and e: "e \<in> set (getEvents (t_workflowId t) d1)" "length (getEvents (t_workflowId t) d) < seq e"
      "llm_requested_of e = Some q"
  obtains ty inp fn r request where
    "find_map started_of (getEvents (t_workflowId t) d) = Some (ty, inp)" "registry_get wfs ty = Some fn"
    "replay fn inp (getEvents (t_workflowId t) d) (Some sha) = Inr r"
    "RequestLlmCall (lrq_stepId q) request (lrq_requestHash q) \<in> set (rr_commands r)"
    "lrq_requestHash q = hashLlmRequest sha request"
    "lrq_requestStorage q = sr_requestStorage (buildStoredRequest request llm)"
    "lrq_request q = map_option request_trip (sr_request (buildStoredRequest request llm))"
    "derive_request (getEvents (t_workflowId t) d1) q wfs sha = Inr request"
proof -
  let ?w = "t_workflowId t" and ?h = "getEvents (t_workflowId t) d" and ?b = "between d"
  have no_end: False if "append_tx ck ?w [ev] ?b = (d1, Inr ())" "is_terminal ev" for ev
    using append_tx_done(1) [OF inv that(1)] appended_terminal [of ck ?w "[ev]" ?b d1] live that(2) by simp
  from run show thesis
  proof (cases rule: handler_runs)
    case (cancel ty inp fn reason)
    with no_end [of "WorkflowCanceled reason"] show thesis by simp
  next
    case (mismatch ty inp fn e)
    with no_end [of "WorkflowFailed e"] show thesis by simp
  next
    case (wait ty inp fn r)
    with e stored_seq_le [OF inv, of e ?w] alone show thesis by simp
  next
    case (commit ty inp fn r events)
    note app = commit(7)
    note pass = committed_pass [OF inv _ _ _ _ commit(6) app live, unfolded alone, OF refs commit(1,3,4)]
    have "e \<in> set (map trip_stored (number_events (Suc (length ?h)) events))"
      using e(1,2) stored_seq_le [OF inv, of e ?w] appendedD(4) [OF append_tx_done(1) [OF inv app]] alone by auto
    from stored_numbered [OF this] obtain ev where ev: "ev \<in> set events" "event e = event_trip ev" by blast
    from list_all2_in_right [OF commands_events_all2 [OF commit(6)] ev(1)] obtain c
      where c: "c \<in> set (rr_commands r)" "commandToEvent ck llm c = Inr ev" by blast
    from llm_event_of_command [OF c(2) e(3) ev(2)] obtain request where
      rq: "c = RequestLlmCall (lrq_stepId q) request (lrq_requestHash q)"
        "lrq_requestStorage q = sr_requestStorage (buildStoredRequest request llm)"
        "lrq_request q = map_option request_trip (sr_request (buildStoredRequest request llm))" by blast
    from running_requests [OF commit(4) _ c(1) [unfolded rq(1)]] pass
    have ids: "lrq_requestHash q = hashLlmRequest sha request"
      "map_of (rr_pendingLlmRequests r @ List.map_filter pending_of (rr_commands r)) (lrq_stepId q) = Some request" by simp_all
    have "derive_request (getEvents ?w d1) q wfs sha = Inr request"
      using pass commit(2) ids by (simp add: derive_request_def)
    with that [OF commit(1,2,4) _ ids(1) rq(2,3)] c(1) rq(1) show thesis by simp
  qed
qed

text \<open>
  C28: The request of an LLM step survives the store, as far as the store kept it. Take a run of the
  replay handler during which nothing else was appended to the history of its workflow, and which
  did not end the workflow. Every LLM step it commits comes from a call \<open>ctx.llmCall(request)\<close> of
  the workflow function on the history it read, and is recorded with the hash of that request. On
  the history it left, when the prompt was not stored, or redacted or truncated, the LLM worker
  re-derives exactly that request. When the prompt was stored in full, the worker gets the stored
  one as \<open>jsonb\<close> returns it if that has the recorded hash, and otherwise the step fails with a
  message that says so; it has the recorded hash whenever redaction leaves the request alone and
  the request is well formed.
\<close>

theorem llm_request_recovered:
  assumes inv: "db_inv (between d)" and refs: "refs_bounded (getEvents (t_workflowId t) d)"
    and alone: "getEvents (t_workflowId t) (between d) = getEvents (t_workflowId t) d"
    and run: "workflowReplayHandler ck between wfs llm sha t d = (d1, Inr ())"
    and live: "\<not> alreadyTerminal (getEvents (t_workflowId t) d1)"
    and e: "e \<in> set (getEvents (t_workflowId t) d1)" "length (getEvents (t_workflowId t) d) < seq e"
      "llm_requested_of e = Some q"
  shows "\<exists>ty inp fn r request. let stored = request_trip (map_request (cf_redact llm) request) in
      find_map started_of (getEvents (t_workflowId t) d) = Some (ty, inp) \<and> registry_get wfs ty = Some fn
    \<and> replay fn inp (getEvents (t_workflowId t) d) (Some sha) = Inr r
    \<and> RequestLlmCall (lrq_stepId q) request (lrq_requestHash q) \<in> set (rr_commands r)
    \<and> lrq_requestHash q = hashLlmRequest sha request
    \<and> (lrq_requestStorage q \<noteq> StFull \<longrightarrow> resolveRequest (getEvents (t_workflowId t) d1) q wfs sha = Inr request)
    \<and> (lrq_requestStorage q = StFull \<longrightarrow> resolveRequest (getEvents (t_workflowId t) d1) q wfs sha
        = (if hashLlmRequest sha stored = lrq_requestHash q then Inr stored
           else Inl ''stored request does not match its recorded hash''))
    \<and> (map_request (cf_redact llm) request = request \<and> wf_request request \<longrightarrow>
        hashLlmRequest sha stored = lrq_requestHash q)"
proof -
  obtain ty inp fn r request where c:
    "find_map started_of (getEvents (t_workflowId t) d) = Some (ty, inp)" "registry_get wfs ty = Some fn"
    "replay fn inp (getEvents (t_workflowId t) d) (Some sha) = Inr r"
    "RequestLlmCall (lrq_stepId q) request (lrq_requestHash q) \<in> set (rr_commands r)"
    "lrq_requestHash q = hashLlmRequest sha request"
    "lrq_requestStorage q = sr_requestStorage (buildStoredRequest request llm)"
    "lrq_request q = map_option request_trip (sr_request (buildStoredRequest request llm))"
    "derive_request (getEvents (t_workflowId t) d1) q wfs sha = Inr request"
    by (rule committed_request [OF assms])
  let ?s = "request_trip (map_request (cf_redact llm) request)"
  have derived: "lrq_requestStorage q \<noteq> StFull \<Longrightarrow> resolveRequest (getEvents (t_workflowId t) d1) q wfs sha = Inr request"
    using c(8) by (auto simp: resolveRequest_def split: llm_request_storage.splits)
  have full: "resolveRequest (getEvents (t_workflowId t) d1) q wfs sha
      = (if hashLlmRequest sha ?s = lrq_requestHash q then Inr ?s else Inl ''stored request does not match its recorded hash'')"
    if "lrq_requestStorage q = StFull"
    using c(6,7) that by (simp add: stored_full resolveRequest_def)
  have hash: "hashLlmRequest sha ?s = lrq_requestHash q" if "map_request (cf_redact llm) request = request" "wf_request request"
    using canonicalLlmRequest_trip [OF that(2)] that(1) by (simp add: c(5) hashLlmRequest_def)
  show ?thesis unfolding Let_def using c(1-5) derived full hash by blast
qed

definition ask_request :: llm_request where
  "ask_request = \<lparr>rq_model = ''m'', rq_messages = [\<lparr>m_role = ''user'', m_content = ''hi''\<rparr>],
     rq_params = None, rq_tools = None\<rparr>"

definition ask_workflows :: "(string \<times> workflow_fn) list" where
  "ask_workflows = [(''ask'', \<lambda>i. await_call (LlmCall ask_request) (\<lambda>r. Ret r))]"

definition hash_only :: llm_step_config where
  "hash_only = \<lparr>cf_storePrompts = False, cf_maxStoredBytes = 100, cf_maxAttempts = 3, cf_toolMaxAttempts = 3,
     cf_priceTable = DEFAULT_PRICE_TABLE, cf_redact = id\<rparr>"

definition one_hash :: "string \<Rightarrow> string" where
  "one_hash = (\<lambda>s. ''h'')"

definition ask_db :: db where
  "ask_db = sample_db [WorkflowStarted ''ask'' JNull] TWorkflow 1"

definition asked_db :: db where
  "asked_db = fst (workflowReplayHandler clock0 id ask_workflows hash_only one_hash (sample_task TWorkflow 1) ask_db)"

definition ask_requested :: llm_requested where
  "ask_requested = \<lparr>lrq_stepId = ''llm-0'', lrq_requestHash = ''h'',
     lrq_requestStorage = StNone, lrq_request = None\<rparr>"

lemma ask_run: "snd (workflowReplayHandler clock0 id ask_workflows hash_only one_hash (sample_task TWorkflow 1) ask_db) = Inr ()"
  by code_simp

lemma asked_log:
  "map seq (getEvents ''w1'' ask_db) = [1]"
  "map seq (getEvents ''w1'' asked_db) = [1, 2]"
  "map llm_requested_of (getEvents ''w1'' asked_db) = [None, Some ask_requested]"
  "alreadyTerminal (getEvents ''w1'' asked_db) = False"
  by code_simp+

lemma ask_calls: "rr_commands r = [RequestLlmCall ''llm-0'' ask_request ''h'']"
  if "replay fn JNull (getEvents ''w1'' ask_db) (Some one_hash) = Inr r" "registry_get ask_workflows ''ask'' = Some fn"
proof -
  have "map_option (\<lambda>fn. map_sum id rr_commands (replay fn JNull (getEvents ''w1'' ask_db) (Some one_hash))) (registry_get ask_workflows ''ask'')
    = Some (Inr [RequestLlmCall ''llm-0'' ask_request ''h''])" by code_simp
  with that show ?thesis by simp
qed

lemma ask_started: "find_map started_of (getEvents ''w1'' ask_db) = Some (''ask'', JNull)"
  by code_simp

lemma ask_db_ok: "db_inv ask_db" "refs_bounded (getEvents ''w1'' ask_db)"
proof -
  show "db_inv ask_db" unfolding ask_db_def by (rule sample_db(1)) (simp add: no_proto_events_def)
  show "refs_bounded (getEvents ''w1'' ask_db)" by (simp add: ask_db_def sample_db(2) refs_bounded_def log_from_def)
qed

theorem llm_request_recovered_witness:
  "resolveRequest (getEvents ''w1'' asked_db) ask_requested ask_workflows one_hash = Inr ask_request"
proof -
  let ?t = "sample_task TWorkflow 1"
  obtain e1 e2 where log: "getEvents ''w1'' asked_db = [e1, e2]" "seq e2 = 2" "llm_requested_of e2 = Some ask_requested"
    using asked_log(2,3) by (auto simp del: llm_requested_of.simps)
  have "length (getEvents ''w1'' ask_db) = 1" using arg_cong [OF asked_log(1), of length] by simp
  with log have e: "e2 \<in> set (getEvents (t_workflowId ?t) asked_db)" "length (getEvents (t_workflowId ?t) ask_db) < seq e2"
    by simp_all
  have run: "workflowReplayHandler clock0 id ask_workflows hash_only one_hash ?t ask_db = (asked_db, Inr ())"
    using ask_run by (simp add: asked_db_def prod_eq_iff)
  have "refs_bounded (getEvents (t_workflowId ?t) ask_db)" "\<not> alreadyTerminal (getEvents (t_workflowId ?t) asked_db)"
    using ask_db_ok asked_log(4) by simp_all
  moreover have "db_inv (id ask_db)" "getEvents (t_workflowId ?t) (id ask_db) = getEvents (t_workflowId ?t) ask_db"
    using ask_db_ok by simp_all
  ultimately show ?thesis
    using llm_request_recovered [OF _ _ _ run _ e log(3)] ask_started ask_calls
    by (fastforce simp: ask_requested_def Let_def)
qed

subsection \<open>Only the recorded request is sent\<close>

lemma resolved_hash:
  "resolveRequest history q wfs sha = Inr request \<Longrightarrow> hashLlmRequest sha request = lrq_requestHash q"
  by (auto simp: resolveRequest_def derive_request_def split: llm_request_storage.splits option.splits if_splits sum.splits prod.splits)

text \<open>
  C29: A provider is called at most for the recorded request. Two providers that agree on the requests
  whose hash is the recorded one, in the context of the step, lead to the same result of the LLM
  worker: no other request reaches the provider. And when the history already holds an outcome of the
  step, no provider is called at all: any provider gives the same result, the unchanged database.
\<close>

theorem llm_sends_only_recorded_request:
  assumes "t_scheduledEventSeq t = Some n" "find (\<lambda>e. seq e = n) (getEvents (t_workflowId t) d) = Some e"
    "llm_requested_of e = Some q"
    and agree: "\<And>request x. hashLlmRequest sha request = lrq_requestHash q \<Longrightarrow>
      p request (llm_context t q) x = p' request (llm_context t q) x"
  shows "llmCallHandler ck gap p wfs cfg sha t d = llmCallHandler ck gap p' wfs cfg sha t d
    \<and> (has_outcome llm_outcome_types n (getEvents (t_workflowId t) d) \<longrightarrow>
        llmCallHandler ck gap p'' wfs cfg sha t d = (d, Inr ()))"
proof -
  have "resolveRequest (getEvents (t_workflowId t) d) q wfs sha = Inr request \<Longrightarrow>
      p request (llm_context t q) (gap 0 d) = p' request (llm_context t q) (gap 0 d)" for request
    by (rule agree [OF resolved_hash])
  then show ?thesis
    using assms(1-3) by (auto simp: llmCallHandler_def Let_def simp del: llm_requested_of.simps split: sum.splits)
qed

text \<open>The mock provider and one that refuses every other request.\<close>

definition refusing :: "(string \<Rightarrow> string) \<Rightarrow> string \<Rightarrow> provider \<Rightarrow> provider" where
  "refusing sha h p request cx d =
     (if hashLlmRequest sha request = h then p request cx d else (d, Inl (Err ''never sent'')))"

definition ask_hash :: "string \<Rightarrow> string" where
  "ask_hash s = (if s = canonicalLlmRequest ask_request then ''h'' else ''other'')"

theorem llm_sends_only_recorded_request_witness:
  "llmCallHandler clock0 (\<lambda>i d. d) (mock_complete clock0 ask_hash default_mock) ask_workflows hash_only ask_hash
       (sample_task TLlm 2) asked_db
   = llmCallHandler clock0 (\<lambda>i d. d) (refusing ask_hash ''h'' (mock_complete clock0 ask_hash default_mock)) ask_workflows
       hash_only ask_hash (sample_task TLlm 2) asked_db"
proof -
  let ?t = "sample_task TLlm 2"
  obtain e1 e2 where log: "getEvents ''w1'' asked_db = [e1, e2]" "seq e1 = 1" "seq e2 = 2" "llm_requested_of e2 = Some ask_requested"
    using asked_log(2,3) by (auto simp del: llm_requested_of.simps)
  have find: "t_scheduledEventSeq ?t = Some 2" "find (\<lambda>e. seq e = 2) (getEvents (t_workflowId ?t) asked_db) = Some e2"
    using log(1-3) by (simp_all add: sample_task_def)
  have "mock_complete clock0 ask_hash default_mock request cx x
      = refusing ask_hash ''h'' (mock_complete clock0 ask_hash default_mock) request cx x"
    if "hashLlmRequest ask_hash request = lrq_requestHash ask_requested" for request cx x
    using that unfolding refusing_def by (simp only: ask_requested_def llm_requested.simps simp_thms if_True)
  from conjunct1 [OF llm_sends_only_recorded_request [OF find log(4), of ask_hash, OF this]]
  show ?thesis .
qed

end
