(* ===== verification/Worker.thy ===== *)
theory Worker
  imports TaskProps
begin

section \<open>The worker's run loop (packages/worker-sdk: config.ts, worker.ts)\<close>

text \<open>
  \<open>resolveWorkerConfig\<close> and the class \<open>Worker\<close>: its fields are a record, each synchronous stretch of
  a method a function, and a step relation runs them in any order on a queue that other processes use
  too. Numbers are rationals, \<open>num\<close> their texts: finite numbers. (\<open>NaN\<close> passes every comparison of
  config.ts and is accepted there; the entry points read their numbers with \<open>envInt\<close>, which rejects it.) Timers fire in any order: time only matters to the
  queue. Log lines are left out; metrics and spans are in \<open>Metrics\<close> and \<open>Spans\<close>.
\<close>

subsection \<open>Configuration\<close>

record worker_config =
  wc_workerId :: string
  wc_queue :: string
  wc_taskType :: "task_type option"
  wc_pollIntervalMs :: rat
  wc_maxPollIntervalMs :: rat
  wc_leaseSeconds :: rat
  wc_heartbeatIntervalMs :: rat
  wc_maxConcurrency :: nat
  wc_drainTimeoutMs :: rat
  wc_notifyConnectionString :: "string option"

record worker_config_input =
  wi_workerId :: "string option"
  wi_queue :: "string option"
  wi_taskType :: "task_type option"
  wi_pollIntervalMs :: "rat option"
  wi_maxPollIntervalMs :: "rat option"
  wi_leaseSeconds :: "rat option"
  wi_heartbeatIntervalMs :: "rat option"
  wi_maxConcurrency :: rat
  wi_drainTimeoutMs :: "rat option"
  wi_notifyConnectionString :: "string option"

definition is_integer :: "rat \<Rightarrow> bool" where
  "is_integer x \<longleftrightarrow> of_int \<lfloor>x\<rfloor> = x"

text \<open>\<open>generated\<close> is the result of \<open>generateWorkerId()\<close>.\<close>

definition resolveWorkerConfig :: "(rat \<Rightarrow> string) \<Rightarrow> string \<Rightarrow> worker_config_input \<Rightarrow> js_error + worker_config" where
  "resolveWorkerConfig num generated input =
     (if \<not> is_integer (wi_maxConcurrency input) \<or> wi_maxConcurrency input \<le> 0
      then Inl (Err (''maxConcurrency must be a positive integer, got '' @ num (wi_maxConcurrency input)))
      else let leaseSeconds = or_default (wi_leaseSeconds input) 30 in
      if leaseSeconds \<le> 0 then Inl (Err (''leaseSeconds must be > 0, got '' @ num leaseSeconds))
      else let heartbeatIntervalMs = or_default (wi_heartbeatIntervalMs input) 10000 in
      if heartbeatIntervalMs \<le> 0 then Inl (Err (''heartbeatIntervalMs must be > 0, got '' @ num heartbeatIntervalMs))
      else if leaseSeconds * 1000 \<le> heartbeatIntervalMs
      then Inl (Err (''heartbeatIntervalMs ('' @ num heartbeatIntervalMs @ ''ms) must be less than leaseSeconds * 1000 (''
             @ num (leaseSeconds * 1000) @ ''ms), otherwise leases can expire between heartbeats''))
      else let pollIntervalMs = or_default (wi_pollIntervalMs input) 100;
               maxPollIntervalMs = or_default (wi_maxPollIntervalMs input) 2000 in
      if maxPollIntervalMs < pollIntervalMs
      then Inl (Err (''maxPollIntervalMs ('' @ num maxPollIntervalMs @ '') must be >= pollIntervalMs ('' @ num pollIntervalMs @ '')''))
      else Inr \<lparr>wc_workerId = or_default (wi_workerId input) generated,
             wc_queue = or_default (wi_queue input) ''default'', wc_taskType = wi_taskType input,
             wc_pollIntervalMs = pollIntervalMs, wc_maxPollIntervalMs = maxPollIntervalMs,
             wc_leaseSeconds = leaseSeconds, wc_heartbeatIntervalMs = heartbeatIntervalMs,
             wc_maxConcurrency = nat \<lfloor>wi_maxConcurrency input\<rfloor>,
             wc_drainTimeoutMs = or_default (wi_drainTimeoutMs input) 30000,
             wc_notifyConnectionString = wi_notifyConnectionString input\<rparr>)"

subsection \<open>The state of a worker\<close>

text \<open>
  \<open>wk_running\<close> are the keys of the map \<open>running\<close>, in order; \<open>wk_runs\<close> the handler runs that have not
  settled, with the task each was given (the promises, those the map lost included); \<open>wk_polls\<close> the
  polls that await their \<open>dequeue\<close>, with the capacity each computed; \<open>wk_timers\<close> the poll timers that
  are set, with their delays; \<open>wk_pollTimer\<close> the handle the worker holds; \<open>wk_draining\<close> the runs \<open>stop\<close>
  waits for, once it has taken them from the map.
\<close>

record worker =
  wk_config :: worker_config
  wk_backoff :: poll_backoff
  wk_running :: "nat list"
  wk_runs :: "task list"
  wk_stopped :: bool
  wk_timers :: "(nat \<times> rat) list"
  wk_pollTimer :: "nat option"
  wk_nextTimer :: nat
  wk_polls :: "nat list"
  wk_listening :: bool
  wk_draining :: "task list option"

definition new_Worker :: "(rat \<Rightarrow> string) \<Rightarrow> string \<Rightarrow> worker_config_input \<Rightarrow> js_error + worker" where
  "new_Worker num generated input = (case resolveWorkerConfig num generated input of
     Inl e \<Rightarrow> Inl e
   | Inr config \<Rightarrow> (case new_PollBackoff num \<lparr>pc_minMs = wc_pollIntervalMs config,
          pc_maxMs = wc_maxPollIntervalMs config, pc_multiplier = 2\<rparr> of
       Inl e \<Rightarrow> Inl e
     | Inr backoff \<Rightarrow> Inr \<lparr>wk_config = config, wk_backoff = backoff, wk_running = [], wk_runs = [], wk_stopped = False,
         wk_timers = [], wk_pollTimer = None, wk_nextTimer = 0, wk_polls = [], wk_listening = False, wk_draining = None\<rparr>))"

definition scheduleNextPoll :: "rat \<Rightarrow> worker \<Rightarrow> worker" where
  "scheduleNextPoll delay w = (if wk_stopped w then w
     else w\<lparr>wk_timers := wk_timers w @ [(wk_nextTimer w, delay)], wk_pollTimer := Some (wk_nextTimer w),
            wk_nextTimer := Suc (wk_nextTimer w)\<rparr>)"

text \<open>\<open>if (this.pollTimer) clearTimeout(this.pollTimer)\<close>: a timer that fired already is not there any more.\<close>

definition clear_poll_timer :: "worker \<Rightarrow> worker" where
  "clear_poll_timer w = (case wk_pollTimer w of None \<Rightarrow> w
     | Some i \<Rightarrow> w\<lparr>wk_timers := filter (\<lambda>t. fst t \<noteq> i) (wk_timers w)\<rparr>)"

definition worker_start :: "worker \<Rightarrow> worker" where
  "worker_start w = scheduleNextPoll 0 w"

text \<open>The callback of \<open>listenForTasks\<close>.\<close>

definition on_tasks_available :: "worker \<Rightarrow> worker" where
  "on_tasks_available w = scheduleNextPoll 0 (clear_poll_timer (w\<lparr>wk_backoff := onWork (wk_backoff w)\<rparr>))"

subsection \<open>Polling and dispatching\<close>

text \<open>\<open>pollOnce\<close> up to its \<open>await\<close>.\<close>

definition poll_begin :: "worker \<Rightarrow> worker" where
  "poll_begin w = (if wk_stopped w then w
     else if wc_maxConcurrency (wk_config w) \<le> length (wk_running w)
     then scheduleNextPoll (wc_pollIntervalMs (wk_config w)) w
     else w\<lparr>wk_polls := wk_polls w @ [wc_maxConcurrency (wk_config w) - length (wk_running w)]\<rparr>)"

definition poll_input :: "nat \<Rightarrow> worker \<Rightarrow> dequeue_input" where
  "poll_input capacity w = \<lparr>di_workerId = wc_workerId (wk_config w), di_queue = Some (wc_queue (wk_config w)),
     di_taskType = wc_taskType (wk_config w), di_limit = capacity, di_leaseSeconds = wc_leaseSeconds (wk_config w)\<rparr>"

definition dispatch :: "task \<Rightarrow> worker \<Rightarrow> worker" where
  "dispatch t w = w\<lparr>wk_runs := wk_runs w @ [t],
     wk_running := (if t_id t \<in> set (wk_running w) then wk_running w else wk_running w @ [t_id t])\<rparr>"

text \<open>\<open>pollOnce\<close> from its \<open>await\<close> on; a failed \<open>dequeue\<close> counts as no task.\<close>

definition poll_end :: "task list \<Rightarrow> worker \<Rightarrow> worker" where
  "poll_end tasks w =
     (let w' = (if tasks = [] then w\<lparr>wk_backoff := onEmpty (wk_backoff w)\<rparr>
                else fold dispatch tasks (w\<lparr>wk_backoff := onWork (wk_backoff w)\<rparr>)) in
      scheduleNextPoll (delayMs (wk_backoff w')) w')"

text \<open>What an error asks for by \<open>retryAfterMs\<close>.\<close>

fun retry_floor :: "js_error \<Rightarrow> rat" where
  "retry_floor (LlmProviderError m r c (Some a)) = (if 0 < a then a / 1000 else 0)"
| "retry_floor (ToolError m r c (Some a)) = (if 0 < a then a / 1000 else 0)"
| "retry_floor e = 0"

text \<open>What a run does with the queue once its handler settled: \<open>complete\<close> or \<open>fail\<close>.\<close>

definition run_settles :: "time \<Rightarrow> rat \<Rightarrow> worker \<Rightarrow> task \<Rightarrow> js_error + unit \<Rightarrow> task_table \<Rightarrow> task_table \<times> (js_error + bool)" where
  "run_settles now random w t result tbl = (case result of
     Inr _ \<Rightarrow> (case complete (t_id t) (wc_workerId (wk_config w)) tbl of (tbl', applied) \<Rightarrow> (tbl', Inr applied))
   | Inl err \<Rightarrow> fail now random \<lparr>fi_taskId = t_id t, fi_workerId = wc_workerId (wk_config w),
       fi_error = error_message err, fi_attempt = t_attempt t, fi_minDelaySeconds = retry_floor err\<rparr> tbl)"

text \<open>\<open>finally { this.running.delete(task.id) }\<close>\<close>

definition run_ends :: "task \<Rightarrow> worker \<Rightarrow> worker" where
  "run_ends t w = w\<lparr>wk_runs := remove1 t (wk_runs w), wk_running := removeAll (t_id t) (wk_running w)\<rparr>"

definition sendHeartbeats :: "time \<Rightarrow> worker \<Rightarrow> task_table \<Rightarrow> task_table" where
  "sendHeartbeats now w tbl = (if wk_running w = [] then tbl
     else fst (heartbeat now (wk_running w) (wc_workerId (wk_config w)) (wc_leaseSeconds (wk_config w)) tbl))"

subsection \<open>Stopping\<close>

definition worker_stop :: "worker \<Rightarrow> worker" where
  "worker_stop w = (if wk_stopped w then w
     else (clear_poll_timer (w\<lparr>wk_stopped := True\<rparr>))\<lparr>wk_listening := False\<rparr>)"

text \<open>\<open>[...this.running.values()]\<close>: the run the map holds for each task.\<close>

definition in_flight :: "worker \<Rightarrow> task list" where
  "in_flight w = List.map_filter (\<lambda>i. find (\<lambda>t. t_id t = i) (rev (wk_runs w))) (wk_running w)"

definition worker_drain :: "worker \<Rightarrow> worker" where
  "worker_drain w = w\<lparr>wk_draining := Some (in_flight w)\<rparr>"

text \<open>\<open>stop()\<close> has returned, or may return now.\<close>

definition stop_returns :: "bool \<Rightarrow> worker \<Rightarrow> bool" where
  "stop_returns timedOut w = (case wk_draining w of None \<Rightarrow> False
     | Some ts \<Rightarrow> timedOut \<or> list_all (\<lambda>t. t \<notin> set (wk_runs w)) ts)"

subsection \<open>Steps\<close>

text \<open>
  One step of a worker and its queue: a timer of the worker, the answer to a poll, a notification, the
  end of a run, a heartbeat, a part of \<open>stop\<close>, or a step of any other process.
\<close>

inductive wk_step :: "worker \<times> task_table \<Rightarrow> worker \<times> task_table \<Rightarrow> bool" where
  wk_timer: "(i, delay) \<in> set (wk_timers w) \<Longrightarrow>
     wk_step (w, q) (poll_begin (w\<lparr>wk_timers := filter (\<lambda>t. fst t \<noteq> i) (wk_timers w)\<rparr>), q)"
| wk_dequeued: "wk_polls w = ps @ capacity # ps' \<Longrightarrow> dequeue now locked (poll_input capacity w) q = (q', tasks) \<Longrightarrow>
     wk_step (w, q) (poll_end tasks (w\<lparr>wk_polls := ps @ ps'\<rparr>), q')"
| wk_dequeue_failed: "wk_polls w = ps @ capacity # ps' \<Longrightarrow> wk_step (w, q) (poll_end [] (w\<lparr>wk_polls := ps @ ps'\<rparr>), q)"
| wk_listen: "wc_notifyConnectionString (wk_config w) \<noteq> None \<Longrightarrow> wk_step (w, q) (w\<lparr>wk_listening := True\<rparr>, q)"
| wk_notified: "wk_listening w \<Longrightarrow> wk_step (w, q) (on_tasks_available w, q)"
| wk_run_ends: "t \<in> set (wk_runs w) \<Longrightarrow> run_settles now random w t result q = (q', applied) \<Longrightarrow>
     wk_step (w, q) (run_ends t w, q')"
| wk_heartbeat: "\<not> wk_stopped w \<Longrightarrow> wk_step (w, q) (w, sendHeartbeats now w q)"
| wk_stop: "wk_step (w, q) (worker_stop w, q)"
| wk_drain: "wk_stopped w \<Longrightarrow> wk_draining w = None \<Longrightarrow> wk_step (w, q) (worker_drain w, q)"
| wk_others: "worker_step q q' \<Longrightarrow> wk_step (w, q) (w, q')"

end
