(* ===== verification/WorkerProps.thy ===== *)
theory WorkerProps
  imports Worker
begin

section \<open>What the run loop guarantees\<close>

text \<open>
  Configurations the worker accepts keep their leases alive; without notifications a worker holds at
  most \<open>maxConcurrency\<close> tasks, and runs at most as many handlers as long as it is not handed a task it
  still runs; with notifications, after a reclaimed lease or while it stops, it does not do what its
  comments promise.
\<close>

subsection \<open>Configuration\<close>

lemma resolved_config:
  assumes "resolveWorkerConfig num gen input = Inr c"
  shows "0 < wc_maxConcurrency c" "0 < wc_leaseSeconds c" "0 < wc_heartbeatIntervalMs c"
    "wc_heartbeatIntervalMs c < seconds (wc_leaseSeconds c)" "wc_pollIntervalMs c \<le> wc_maxPollIntervalMs c"
    "of_nat (wc_maxConcurrency c) = wi_maxConcurrency input"
  using assms
  by (auto simp: resolveWorkerConfig_def Let_def is_integer_def seconds_def not_le split: if_splits)

lemma resolved_notify:
  "resolveWorkerConfig num gen input = Inr c \<Longrightarrow> wc_notifyConnectionString c = wi_notifyConnectionString input"
  by (auto simp: resolveWorkerConfig_def Let_def split: if_splits)

text \<open>A heartbeat keeps the lease past the next one.\<close>

lemma heartbeat_protects:
  assumes inv: "task_inv q" and u: "u \<in> set (tt_rows q)" "leased_to w u" "t_id u \<in> set ids"
    and next_beat: "now' \<le> now + seconds secs"
  shows "u\<lparr>t_leaseExpiresAt := Some (now + seconds secs)\<rparr>
     \<in> set (tt_rows (fst (reclaimExpired now' locked limit (fst (heartbeat now ids w secs q)))))"
proof -
  let ?q = "fst (heartbeat now ids w secs q)" and ?u = "u\<lparr>t_leaseExpiresAt := Some (now + seconds secs)\<rparr>"
  have ids: "ids \<noteq> []" using u(3) by auto
  have in1: "?u \<in> set (tt_rows ?q)"
    using u ids by (auto simp: heartbeat_def Let_def rows_update)
  have "\<not> expired now' ?u" using next_beat by (simp add: expired_def)
  moreover have inv1: "task_inv ?q" by (rule heartbeat_inv [OF inv])
  ultimately have "t_id ?u \<notin> set (map t_id (take limit (sort_key expiry
      (filter (\<lambda>t. expired now' t \<and> t_id t \<notin> set locked) (tt_rows ?q)))))"
    using same_row [OF inv1 _ in1] by (auto dest!: in_set_takeD)
  with in1 show ?thesis
    by (auto simp: reclaimExpired_def Let_def rows_update image_iff)
qed

text \<open>
  C40: The worker accepts a configuration of finite numbers exactly when its limits are consistent: a
  positive whole number of concurrent tasks, a positive lease and heartbeat interval, the heartbeat
  shorter than the lease, and the poll interval at most its maximum, each number as given or its
  default. The accepted configuration has these numbers, and a lease renewed at one heartbeat is not
  reclaimed by any reaper before the next heartbeat is due. (\<open>NaN\<close>, which every comparison of
  config.ts lets pass, is not a number of the model.)
\<close>

theorem worker_config_sound:
  "((\<exists>c. resolveWorkerConfig num gen input = Inr c) \<longleftrightarrow>
      (\<exists>n. 0 < n \<and> wi_maxConcurrency input = of_nat n)
      \<and> 0 < or_default (wi_leaseSeconds input) 30 \<and> 0 < or_default (wi_heartbeatIntervalMs input) 10000
      \<and> or_default (wi_heartbeatIntervalMs input) 10000 < 1000 * or_default (wi_leaseSeconds input) 30
      \<and> or_default (wi_pollIntervalMs input) 100 \<le> or_default (wi_maxPollIntervalMs input) 2000)
    \<and> (resolveWorkerConfig num gen input = Inr c \<longrightarrow>
        of_nat (wc_maxConcurrency c) = wi_maxConcurrency input
      \<and> wc_leaseSeconds c = or_default (wi_leaseSeconds input) 30
      \<and> wc_heartbeatIntervalMs c = or_default (wi_heartbeatIntervalMs input) 10000
      \<and> wc_pollIntervalMs c = or_default (wi_pollIntervalMs input) 100
      \<and> wc_maxPollIntervalMs c = or_default (wi_maxPollIntervalMs input) 2000
      \<and> (task_inv q \<and> u \<in> set (tt_rows q) \<and> leased_to (wc_workerId c) u \<and> t_id u \<in> set ids
          \<and> now' \<le> now + wc_heartbeatIntervalMs c \<longrightarrow>
         u\<lparr>t_leaseExpiresAt := Some (now + seconds (wc_leaseSeconds c))\<rparr> \<in> set (tt_rows
           (fst (reclaimExpired now' locked limit (fst (heartbeat now ids (wc_workerId c) (wc_leaseSeconds c) q)))))))"
  (is "?accepts \<and> (?ok \<longrightarrow> ?limits \<and> ?given \<and> ?poll \<and> ?maxPoll \<and> ?beats \<and> (?held \<longrightarrow> ?kept))")
proof (intro conjI impI)
  have int: "is_integer x \<and> 0 < x \<longleftrightarrow> (\<exists>n. 0 < n \<and> x = of_nat n)" for x :: rat
  proof
    assume x: "is_integer x \<and> 0 < x"
    then have fl: "x = of_int \<lfloor>x\<rfloor>" "0 < \<lfloor>x\<rfloor>" unfolding is_integer_def by (metis, metis of_int_0_less_iff)
    then have "0 < nat \<lfloor>x\<rfloor>" "of_nat (nat \<lfloor>x\<rfloor>) = (of_int \<lfloor>x\<rfloor> :: rat)" by simp_all
    with fl(1) show "\<exists>n. 0 < n \<and> x = of_nat n" by metis
  next
    assume "\<exists>n. 0 < n \<and> x = of_nat n"
    then show "is_integer x \<and> 0 < x"
      unfolding is_integer_def by (metis floor_of_nat of_int_of_nat_eq of_nat_0_less_iff)
  qed
  show ?accepts
    unfolding int [symmetric] by (auto simp: resolveWorkerConfig_def Let_def not_le not_less mult.commute)
next
  assume r: ?ok
  show ?limits by (rule resolved_config(6) [OF r])
  show ?given ?poll ?maxPoll ?beats using r by (auto simp: resolveWorkerConfig_def Let_def split: if_splits)
  assume held: ?held
  then have "now' \<le> now + seconds (wc_leaseSeconds c)" using resolved_config(4) [OF r] by linarith
  with held show ?kept by (intro heartbeat_protects) simp_all
qed

definition plain_input :: worker_config_input where
  "plain_input = \<lparr>wi_workerId = Some ''wk'', wi_queue = None, wi_taskType = None, wi_pollIntervalMs = None,
     wi_maxPollIntervalMs = None, wi_leaseSeconds = Some 30, wi_heartbeatIntervalMs = None, wi_maxConcurrency = 1,
     wi_drainTimeoutMs = None, wi_notifyConnectionString = None\<rparr>"

definition plain_config :: worker_config where
  "plain_config = \<lparr>wc_workerId = ''wk'', wc_queue = ''default'', wc_taskType = None, wc_pollIntervalMs = 100,
     wc_maxPollIntervalMs = 2000, wc_leaseSeconds = 30, wc_heartbeatIntervalMs = 10000, wc_maxConcurrency = 1,
     wc_drainTimeoutMs = 30000, wc_notifyConnectionString = None\<rparr>"

lemma plain_resolved: "resolveWorkerConfig (\<lambda>_. ''n'') ''gen'' plain_input = Inr plain_config"
  by (simp add: resolveWorkerConfig_def plain_input_def plain_config_def is_integer_def or_default_def)

lemma leased_once_row: "\<exists>u. u \<in> set (tt_rows leased_once) \<and> leased_to ''wk'' u \<and> t_id u = 1"
  by (simp add: leased_once_rows leased_to_def new_task_def)

theorem worker_config_sound_witness:
  "(\<exists>u. u \<in> set (tt_rows (fst (reclaimExpired 20000 [] 100 (fst (heartbeat 10000 [1] ''wk'' 30 leased_once)))))
     \<and> t_leaseExpiresAt u = Some 40000)
   \<and> \<not> (\<exists>c. resolveWorkerConfig (\<lambda>_. ''n'') ''gen'' (plain_input\<lparr>wi_leaseSeconds := Some 10\<rparr>) = Inr c)"
proof -
  obtain u where u: "u \<in> set (tt_rows leased_once)" "leased_to (wc_workerId plain_config) u" "t_id u \<in> set [1]"
    using leased_once_row by (auto simp: plain_config_def)
  have inv: "task_inv leased_once" unfolding leased_once_def by (intro dequeue_inv one_task_inv)
  have "u\<lparr>t_leaseExpiresAt := Some 40000\<rparr> \<in> set (tt_rows (fst (reclaimExpired 20000 [] 100 (fst (heartbeat 10000 [1] ''wk'' 30 leased_once)))))"
    using worker_config_sound [THEN conjunct2, THEN mp, OF plain_resolved, of leased_once u "[1]" 20000 10000 "[]" 100] u inv
    by (simp add: plain_config_def seconds_def)
  moreover have "\<not> (\<exists>c. resolveWorkerConfig (\<lambda>_. ''n'') ''gen'' (plain_input\<lparr>wi_leaseSeconds := Some 10\<rparr>) = Inr c)"
    using worker_config_sound [THEN conjunct1, of "\<lambda>_. ''n''" "''gen''" "plain_input\<lparr>wi_leaseSeconds := Some 10\<rparr>"]
    by (simp add: plain_input_def or_default_def)
  ultimately show ?thesis by (intro conjI exI [of _ "u\<lparr>t_leaseExpiresAt := Some 40000\<rparr>"]) simp_all
qed

subsection \<open>Concurrency\<close>

definition wk_inv :: "worker \<Rightarrow> bool" where
  "wk_inv w \<longleftrightarrow> wc_notifyConnectionString (wk_config w) = None \<and> \<not> wk_listening w
     \<and> length (wk_timers w) + length (wk_polls w) \<le> 1
     \<and> list_all (\<lambda>c. length (wk_running w) + c \<le> wc_maxConcurrency (wk_config w)) (wk_polls w)
     \<and> length (wk_running w) \<le> wc_maxConcurrency (wk_config w)"

lemma scheduleNextPoll_fields [simp]:
  "wk_config (scheduleNextPoll x w) = wk_config w" "wk_running (scheduleNextPoll x w) = wk_running w"
  "wk_runs (scheduleNextPoll x w) = wk_runs w" "wk_polls (scheduleNextPoll x w) = wk_polls w"
  "wk_listening (scheduleNextPoll x w) = wk_listening w" "wk_stopped (scheduleNextPoll x w) = wk_stopped w"
  "wk_timers (scheduleNextPoll x w) = wk_timers w @ (if wk_stopped w then [] else [(wk_nextTimer w, x)])"
  by (simp_all add: scheduleNextPoll_def)

lemma dispatch_all:
  "wk_config (fold dispatch ts w) = wk_config w" "wk_timers (fold dispatch ts w) = wk_timers w"
  "wk_polls (fold dispatch ts w) = wk_polls w" "wk_listening (fold dispatch ts w) = wk_listening w"
  "wk_stopped (fold dispatch ts w) = wk_stopped w" "wk_runs (fold dispatch ts w) = wk_runs w @ ts"
  "length (wk_running (fold dispatch ts w)) \<le> length (wk_running w) + length ts"
proof -
  show "length (wk_running (fold dispatch ts w)) \<le> length (wk_running w) + length ts"
  proof (induction ts arbitrary: w)
    case (Cons t ts)
    from Cons [of "dispatch t w"] show ?case by (simp add: dispatch_def split: if_splits)
  qed simp
qed (induction ts arbitrary: w; simp add: dispatch_def)+

lemma poll_end_fields:
  "wk_config (poll_end ts w) = wk_config w" "wk_polls (poll_end ts w) = wk_polls w"
  "wk_listening (poll_end ts w) = wk_listening w" "wk_stopped (poll_end ts w) = wk_stopped w"
  "length (wk_timers (poll_end ts w)) \<le> Suc (length (wk_timers w))"
  "wk_runs (poll_end ts w) = wk_runs w @ ts"
  "length (wk_running (poll_end ts w)) \<le> length (wk_running w) + length ts"
  using dispatch_all(7) [of ts "w\<lparr>wk_backoff := onWork (wk_backoff w)\<rparr>"]
  by (auto simp: poll_end_def Let_def dispatch_all)

lemma poll_begin_inv:
  assumes "wk_inv w" "(i, x) \<in> set (wk_timers w)"
  shows "wk_inv (poll_begin (w\<lparr>wk_timers := filter (\<lambda>t. fst t \<noteq> i) (wk_timers w)\<rparr>))"
proof -
  from assms obtain rest where "wk_timers w = (i, x) # rest" "rest = []" "wk_polls w = []"
    by (cases "wk_timers w") (auto simp: wk_inv_def)
  with assms(1) show ?thesis
    by (simp add: poll_begin_def wk_inv_def)
qed

lemma clear_fields [simp]:
  "wk_config (clear_poll_timer w) = wk_config w" "wk_running (clear_poll_timer w) = wk_running w"
  "wk_polls (clear_poll_timer w) = wk_polls w" "wk_stopped (clear_poll_timer w) = wk_stopped w"
  "wk_listening (clear_poll_timer w) = wk_listening w" "length (wk_timers (clear_poll_timer w)) \<le> length (wk_timers w)"
  by (simp_all add: clear_poll_timer_def split: option.splits)

lemma dequeue_limit: "dequeue now locked input q = (q', ts) \<Longrightarrow> length ts \<le> di_limit input"
  by (auto simp: dequeue_def Let_def candidates_def)

lemma poll_end_inv:
  assumes "wk_inv w" "wk_polls w = ps @ c # ps'" "length ts \<le> c"
  shows "wk_inv (poll_end ts (w\<lparr>wk_polls := ps @ ps'\<rparr>))"
proof -
  have "ps = []" "ps' = []" "wk_timers w = []" using assms(1,2) by (auto simp: wk_inv_def)
  with assms poll_end_fields [of ts "w\<lparr>wk_polls := ps @ ps'\<rparr>"] show ?thesis
    by (simp add: wk_inv_def)
qed

lemma wk_step_inv: "wk_step s s' \<Longrightarrow> wk_inv (fst s) \<Longrightarrow> wk_inv (fst s')"
proof (induction rule: wk_step.induct)
  case (wk_timer i x w q)
  then show ?case using poll_begin_inv by simp
next
  case (wk_dequeued w ps c ps' now locked q q' ts)
  with dequeue_limit [OF wk_dequeued(2)] poll_end_inv [OF _ wk_dequeued(1), of ts] show ?case by (simp add: poll_input_def)
next
  case (wk_dequeue_failed w ps c ps' q)
  with poll_end_inv [OF _ wk_dequeue_failed(1), of "[]"] show ?case by simp
next
  case (wk_run_ends t w now r res q q' a)
  then show ?case
    by (auto simp: wk_inv_def run_ends_def list_all_iff intro: order_trans [OF length_removeAll_less_eq]
        order_trans [OF add_right_mono [OF length_removeAll_less_eq]])
next
  case (wk_stop w q)
  have "length (wk_timers (clear_poll_timer (w\<lparr>wk_stopped := True\<rparr>))) \<le> length (wk_timers w)"
    using clear_fields(6) [of "w\<lparr>wk_stopped := True\<rparr>"] by simp
  with wk_stop show ?case by (auto simp: wk_inv_def worker_stop_def)
qed (auto simp: wk_inv_def worker_drain_def)

text \<open>
  The handlers that run. The map \<open>running\<close> has one entry for a task, so it counts the runs as long as
  no task is handed to the worker again while a run of it is under way, which a lease that expired and
  was reclaimed makes possible. \<open>lone_step\<close> is a step after which no task has two runs.
\<close>

definition lone_step :: "worker \<times> task_table \<Rightarrow> worker \<times> task_table \<Rightarrow> bool" where
  "lone_step s s' \<longleftrightarrow> wk_step s s' \<and> distinct (map t_id (wk_runs (fst s')))"

definition runs_mapped :: "worker \<Rightarrow> bool" where
  "runs_mapped w \<longleftrightarrow> distinct (wk_running w) \<and> (distinct (map t_id (wk_runs w)) \<longrightarrow> set (wk_running w) = t_id ` set (wk_runs w))"

lemma dispatch_mapped:
  "runs_mapped w \<Longrightarrow> runs_mapped (fold dispatch ts w)"
proof (induction ts arbitrary: w)
  case (Cons t ts)
  have "runs_mapped (dispatch t w)" using Cons.prems by (auto simp: runs_mapped_def dispatch_def)
  then show ?case using Cons.IH by simp
qed simp

lemma poll_end_mapped: "runs_mapped w \<Longrightarrow> runs_mapped (poll_end ts w)"
  using dispatch_mapped [of "w\<lparr>wk_backoff := onWork (wk_backoff w)\<rparr>" ts]
  by (simp add: poll_end_def Let_def runs_mapped_def)

lemma run_ends_mapped:
  assumes "runs_mapped w" "distinct (map t_id (wk_runs w))" "t \<in> set (wk_runs w)"
  shows "runs_mapped (run_ends t w)"
proof -
  have d: "distinct (wk_runs w)" "inj_on t_id (set (wk_runs w))" using assms(2) by (simp_all add: distinct_map)
  then have "t_id ` set (remove1 t (wk_runs w)) = t_id ` set (wk_runs w) - {t_id t}"
    using assms(3) by (auto simp: inj_on_def)
  then show ?thesis using assms(1,2) by (simp add: runs_mapped_def run_ends_def distinct_removeAll)
qed

lemma lone_step_mapped:
  assumes "lone_step s s'" "runs_mapped (fst s)" "distinct (map t_id (wk_runs (fst s)))"
  shows "runs_mapped (fst s') \<and> distinct (map t_id (wk_runs (fst s')))"
proof -
  from assms(1) have st: "wk_step s s'" and d: "distinct (map t_id (wk_runs (fst s')))" by (simp_all add: lone_step_def)
  from st assms(2,3) have "runs_mapped (fst s')"
  proof cases
    case (wk_timer i delay w q)
    then show ?thesis using assms(2) by (auto simp: poll_begin_def runs_mapped_def)
  next
    case (wk_dequeued w ps capacity ps' now locked q q' tasks)
    then have "runs_mapped (w\<lparr>wk_polls := ps @ ps'\<rparr>)" using assms(2) by (simp add: runs_mapped_def)
    then show ?thesis using wk_dequeued(2) by (simp add: poll_end_mapped)
  next
    case (wk_dequeue_failed w ps capacity ps' q)
    then have "runs_mapped (w\<lparr>wk_polls := ps @ ps'\<rparr>)" using assms(2) by (simp add: runs_mapped_def)
    then show ?thesis using wk_dequeue_failed(2) by (simp add: poll_end_mapped)
  next
    case (wk_run_ends t w now random result q q' applied)
    then show ?thesis using assms(2,3) run_ends_mapped by simp
  next
    case (wk_stop w q)
    then show ?thesis using assms(2) by (simp add: worker_stop_def runs_mapped_def) (simp add: clear_poll_timer_def split: option.splits)
  qed (use assms(2) in \<open>auto simp: runs_mapped_def on_tasks_available_def worker_drain_def clear_poll_timer_def split: option.splits\<close>)
  with d show ?thesis by simp
qed

lemma lone_steps_runs:
  assumes "lone_step\<^sup>*\<^sup>* s s'" "runs_mapped (fst s)" "distinct (map t_id (wk_runs (fst s)))"
  shows "length (wk_runs (fst s')) = length (wk_running (fst s'))"
proof -
  from assms have m: "runs_mapped (fst s')" "distinct (map t_id (wk_runs (fst s')))"
    by (induction rule: rtranclp_induct) (use lone_step_mapped in blast)+
  then have "card (t_id ` set (wk_runs (fst s'))) = length (wk_running (fst s'))"
    by (metis distinct_card runs_mapped_def)
  with m(2) show ?thesis by (metis distinct_card length_map set_map)
qed

text \<open>
  C36: Without notifications a worker never runs more handlers than it was configured for, as long as
  no task is handed to it again while a run of it is under way. From a worker built from any accepted
  configuration without a notify connection and started, whatever its timers, polls, runs, heartbeats
  and its stopping do in any order, and whatever other processes do to the queue: the map of running
  tasks has at most \<open>maxConcurrency\<close> entries and never more than one poll is under way or scheduled;
  and over steps after which no task has two runs, at most \<open>maxConcurrency\<close> handlers run.
\<close>

theorem worker_concurrency_bound:
  assumes "new_Worker num gen input = Inr w0" "wi_notifyConnectionString input = None"
    and "wk_step\<^sup>*\<^sup>* (worker_start w0, q0) (w, q)"
  shows "of_nat (length (wk_running w)) \<le> wi_maxConcurrency input \<and> length (wk_timers w) + length (wk_polls w) \<le> 1
    \<and> (lone_step\<^sup>*\<^sup>* (worker_start w0, q0) (w, q) \<longrightarrow> of_nat (length (wk_runs w)) \<le> wi_maxConcurrency input)"
proof -
  have config: "wk_config w = wk_config w0"
    using assms(3)
    by (induction "(w, q)" arbitrary: w q rule: rtranclp_induct)
      (auto elim!: wk_step.cases simp: worker_start_def poll_begin_def poll_end_fields on_tasks_available_def
        run_ends_def worker_stop_def worker_drain_def)
  obtain c where c: "resolveWorkerConfig num gen input = Inr c" "wk_config w0 = c"
    and w0: "wk_timers w0 = []" "wk_polls w0 = []" "wk_running w0 = []" "wk_runs w0 = []" "\<not> wk_listening w0"
    using assms(1) by (auto simp: new_Worker_def split: sum.splits)
  have "wc_notifyConnectionString c = None" using resolved_notify [OF c(1)] assms(2) by simp
  then have "wk_inv (worker_start w0)" using w0 c(2) by (simp add: wk_inv_def worker_start_def)
  with assms(3) have "wk_inv w"
    by (induction "(w, q)" arbitrary: w q rule: rtranclp_induct) (auto dest: wk_step_inv)
  with config c resolved_config(6) [OF c(1)]
  have "of_nat (length (wk_running w)) \<le> wi_maxConcurrency input \<and> length (wk_timers w) + length (wk_polls w) \<le> 1"
    by (auto simp: wk_inv_def simp flip: of_nat_le_iff)
  moreover have "length (wk_runs w) = length (wk_running w)" if "lone_step\<^sup>*\<^sup>* (worker_start w0, q0) (w, q)"
    using lone_steps_runs [OF that] w0 by (simp add: runs_mapped_def worker_start_def)
  ultimately show ?thesis by simp
qed

lemma new_worker_plain:
  assumes "resolveWorkerConfig num gen input = Inr c" "0 < wc_pollIntervalMs c"
  shows "new_Worker num gen input = Inr \<lparr>wk_config = c, wk_backoff = \<lparr>pb_config = \<lparr>pc_minMs = wc_pollIntervalMs c,
      pc_maxMs = wc_maxPollIntervalMs c, pc_multiplier = 2\<rparr>, pb_currentMs = wc_pollIntervalMs c\<rparr>,
    wk_running = [], wk_runs = [], wk_stopped = False, wk_timers = [], wk_pollTimer = None, wk_nextTimer = 0,
    wk_polls = [], wk_listening = False, wk_draining = None\<rparr>"
  using assms resolved_config(5) [OF assms(1)] by (simp add: new_Worker_def new_PollBackoff_def)

definition plain_worker :: worker where
  "plain_worker = \<lparr>wk_config = plain_config, wk_backoff = \<lparr>pb_config = \<lparr>pc_minMs = 100, pc_maxMs = 2000, pc_multiplier = 2\<rparr>,
     pb_currentMs = 100\<rparr>, wk_running = [], wk_runs = [], wk_stopped = False, wk_timers = [], wk_pollTimer = None,
     wk_nextTimer = 0, wk_polls = [], wk_listening = False, wk_draining = None\<rparr>"

lemma plain_new: "new_Worker (\<lambda>_. ''n'') ''gen'' plain_input = Inr plain_worker"
  using new_worker_plain [OF plain_resolved] by (simp add: plain_worker_def plain_config_def)

definition polling_worker :: worker where
  "polling_worker = poll_begin ((worker_start plain_worker)\<lparr>wk_timers := []\<rparr>)"

definition working_worker :: worker where
  "working_worker = poll_end (snd (dequeue 5 [] (poll_input 1 polling_worker) one_task)) (polling_worker\<lparr>wk_polls := []\<rparr>)"

lemma polling_step: "wk_step (worker_start plain_worker, one_task) (polling_worker, one_task)"
  using wk_timer [of 0 0 "worker_start plain_worker" one_task]
  by (simp add: polling_worker_def worker_start_def scheduleNextPoll_def plain_worker_def)

lemma polling_polls: "wk_polls polling_worker = [1]"
  by (simp add: polling_worker_def worker_start_def scheduleNextPoll_def plain_worker_def poll_begin_def plain_config_def)

lemma working_step:
  "wk_step (polling_worker, one_task) (working_worker, fst (dequeue 5 [] (poll_input 1 polling_worker) one_task))"
  using wk_dequeued [of polling_worker "[]" 1 "[]" 5 "[]" one_task]
  by (simp add: working_worker_def polling_polls)

theorem worker_concurrency_bound_witness: "length (wk_running working_worker) \<le> 1"
proof -
  have "wk_step\<^sup>*\<^sup>* (worker_start plain_worker, one_task)
      (working_worker, fst (dequeue 5 [] (poll_input 1 polling_worker) one_task))"
    using polling_step working_step by (meson r_into_rtranclp rtranclp.rtrancl_into_rtrancl)
  from worker_concurrency_bound [OF plain_new _ this] show ?thesis by (simp add: plain_input_def)
qed

subsection \<open>A task handed out again\<close>

text \<open>
  One waiting task, a worker with room for two, and a lease that expires: what the worker, the reaper
  and the queue can do next is run the task once more beside its other runs.
\<close>

definition pair_config :: worker_config where
  "pair_config = plain_config\<lparr>wc_maxConcurrency := 2\<rparr>"

definition rerunnable :: "nat \<Rightarrow> worker \<times> task_table \<Rightarrow> bool" where
  "rerunnable n s \<longleftrightarrow> (case s of (w, q) \<Rightarrow> wk_config w = pair_config \<and> \<not> wk_stopped w \<and> wk_polls w = [] \<and> set (wk_running w) \<subseteq> {1}
     \<and> length (wk_running w) \<le> 1 \<and> length (wk_runs w) = n \<and> (\<exists>i x. wk_timers w = [(i, x)])
     \<and> (\<exists>r. tt_rows q = [r] \<and> t_id r = 1 \<and> t_status r = TPending \<and> t_queue r = ''default'' \<and> t_runAfter r \<le> 5))"

lemma dequeue_only_row:
  assumes "tt_rows q = [r]" "candidate now input r" "0 < di_limit input"
  shows "dequeue now [] input q = (q\<lparr>tt_rows := [lease_task now input r]\<rparr>, [lease_task now input r])"
  using assms by (simp add: dequeue_def candidates_def update_rows_def)

lemma reclaim_only_row:
  assumes "tt_rows q = [r]" "expired now r" "0 < limit"
  shows "reclaimExpired now [] limit q = (q\<lparr>tt_rows := [release_task r]\<rparr>, [t_id r])"
  using assms by (simp add: reclaimExpired_def Let_def update_rows_def)

lemma rerun:
  assumes "rerunnable n (w, q)"
  shows "\<exists>s. wk_step\<^sup>*\<^sup>* (w, q) s \<and> rerunnable (Suc n) s"
proof -
  from assms obtain i x r where w: "wk_config w = pair_config" "\<not> wk_stopped w" "wk_polls w = []" "set (wk_running w) \<subseteq> {1}"
    "length (wk_running w) \<le> 1" "length (wk_runs w) = n" "wk_timers w = [(i, x)]"
    and r: "tt_rows q = [r]" "t_id r = 1" "t_status r = TPending" "t_queue r = ''default''" "t_runAfter r \<le> 5"
    unfolding rerunnable_def by auto
  let ?c = "2 - length (wk_running w)" and ?p = "poll_begin (w\<lparr>wk_timers := []\<rparr>)"
  have p: "?p = w\<lparr>wk_timers := [], wk_polls := [?c]\<rparr>"
    using w by (simp add: poll_begin_def pair_config_def)
  have poll: "wk_step (w, q) (?p, q)" using wk_timer [of i x w q] w(7) by simp
  let ?in = "poll_input ?c ?p" and ?l = "lease_task 5 (poll_input ?c ?p) r"
  have input: "di_limit ?in = ?c" "di_queue ?in = Some ''default''" "di_taskType ?in = None" "di_leaseSeconds ?in = 30"
    using w(1) by (simp_all add: p poll_input_def pair_config_def plain_config_def)
  have "candidate 5 ?in r" using r by (simp add: candidate_def input or_default_def)
  moreover have "0 < di_limit ?in" using w(5) by (simp add: input)
  ultimately have d: "dequeue 5 [] ?in q = (q\<lparr>tt_rows := [?l]\<rparr>, [?l])" by (rule dequeue_only_row [OF r(1)])
  let ?w = "poll_end [?l] (?p\<lparr>wk_polls := []\<rparr>)" and ?q = "q\<lparr>tt_rows := [release_task ?l]\<rparr>"
  have taken: "wk_step (?p, q) (?w, q\<lparr>tt_rows := [?l]\<rparr>)"
    using wk_dequeued [of ?p "[]" ?c "[]" 5 "[]" q] d by (simp add: p)
  have "expired 100000 ?l" by (simp add: expired_def lease_task_def input seconds_def)
  then have "fst (reclaimExpired 100000 [] 1 (q\<lparr>tt_rows := [?l]\<rparr>)) = ?q"
    using reclaim_only_row [of "q\<lparr>tt_rows := [?l]\<rparr>" ?l 100000 1] by simp
  then have reaped: "wk_step (?w, q\<lparr>tt_rows := [?l]\<rparr>) (?w, ?q)"
    using wk_others [OF step_reclaim, of ?w "q\<lparr>tt_rows := [?l]\<rparr>" 100000 "[]" 1] by simp
  have "wk_running w = [] \<or> wk_running w = [1]" using w(4,5) by (cases "wk_running w") auto
  then have "rerunnable (Suc n) (?w, ?q)"
    using w r by (auto simp: rerunnable_def p poll_end_def Let_def dispatch_def scheduleNextPoll_def release_task_def lease_task_def)
  with poll taken reaped show ?thesis by (meson converse_rtranclp_into_rtranclp r_into_rtranclp)
qed

text \<open>
  The bound on handlers needs its condition: a worker configured for two concurrent tasks, with no
  notifications, can run any number of handlers of one task at the same time, when the lease of the
  task expires under each run and the worker leases it again. The map \<open>running\<close> holds one entry for
  them all, and \<open>pollOnce\<close> takes its size for the number of runs.
\<close>

theorem reruns_exceed_concurrency:
  "\<exists>w0 w q. new_Worker (\<lambda>_. ''n'') ''gen'' (plain_input\<lparr>wi_maxConcurrency := 2\<rparr>) = Inr w0
     \<and> wk_step\<^sup>*\<^sup>* (worker_start w0, one_task) (w, q) \<and> length (wk_runs w) = n \<and> length (wk_running w) \<le> 1"
proof -
  have "resolveWorkerConfig (\<lambda>_. ''n'') ''gen'' (plain_input\<lparr>wi_maxConcurrency := 2\<rparr>) = Inr pair_config"
    by (simp add: resolveWorkerConfig_def plain_input_def plain_config_def pair_config_def is_integer_def or_default_def)
  from new_worker_plain [OF this] obtain w0 where w0: "new_Worker (\<lambda>_. ''n'') ''gen'' (plain_input\<lparr>wi_maxConcurrency := 2\<rparr>) = Inr w0"
    "wk_config w0 = pair_config" "wk_running w0 = []" "wk_runs w0 = []" "\<not> wk_stopped w0" "wk_timers w0 = []" "wk_polls w0 = []"
    by (simp add: pair_config_def plain_config_def)
  have "rerunnable 0 (worker_start w0, one_task)"
    using w0 by (simp add: rerunnable_def worker_start_def scheduleNextPoll_def one_task_rows new_task_def workflow_input_def
        or_default_def default_queue_def)
  then have "\<exists>s. wk_step\<^sup>*\<^sup>* (worker_start w0, one_task) s \<and> rerunnable n s"
  proof (induction n)
    case (Suc n)
    then obtain s where "wk_step\<^sup>*\<^sup>* (worker_start w0, one_task) s" "rerunnable n s" by blast
    with rerun [of n "fst s" "snd s"] show ?case by (metis prod.collapse rtranclp_trans)
  qed auto
  then show ?thesis using w0(1) unfolding rerunnable_def by (auto split: prod.splits)
qed

subsection \<open>Notifications\<close>

text \<open>One notification while a poll is under way starts another poll.\<close>

lemma notified_poll:
  assumes "wk_listening w" "\<not> wk_stopped w" "wk_timers w = []" "wk_running w = []" "0 < wc_maxConcurrency (wk_config w)"
  shows "\<exists>w'. wk_step\<^sup>*\<^sup>* (w, q) (w', q) \<and> wk_listening w' \<and> \<not> wk_stopped w' \<and> wk_timers w' = [] \<and> wk_running w' = []
    \<and> wk_config w' = wk_config w \<and> wk_polls w' = wk_polls w @ [wc_maxConcurrency (wk_config w)]"
proof -
  let ?n = "on_tasks_available w"
  have n: "wk_timers ?n = [(wk_nextTimer w, 0)]" "\<not> wk_stopped ?n" "wk_running ?n = []" "wk_config ?n = wk_config w"
    "wk_polls ?n = wk_polls w" "wk_listening ?n"
    using assms by (auto simp: on_tasks_available_def clear_poll_timer_def scheduleNextPoll_def split: option.splits)
  have "wk_step (w, q) (?n, q)" by (rule wk_notified [OF assms(1)])
  moreover have "wk_step (?n, q) (poll_begin (?n\<lparr>wk_timers := []\<rparr>), q)"
    using wk_timer [of "wk_nextTimer w" 0 ?n q] n(1) by simp
  ultimately have "wk_step\<^sup>*\<^sup>* (w, q) (poll_begin (?n\<lparr>wk_timers := []\<rparr>), q)" by (meson converse_rtranclp_into_rtranclp r_into_rtranclp)
  then show ?thesis
    using n assms(5) by (intro exI [of _ "poll_begin (?n\<lparr>wk_timers := []\<rparr>)"]) (simp add: poll_begin_def)
qed

definition polling :: "worker_config \<Rightarrow> worker \<Rightarrow> bool" where
  "polling c w \<longleftrightarrow> wk_listening w \<and> \<not> wk_stopped w \<and> wk_timers w = [] \<and> wk_running w = [] \<and> wk_config w = c"

lemma polls_grow:
  assumes "polling c w" "0 < wc_maxConcurrency c"
  shows "\<exists>w'. wk_step\<^sup>*\<^sup>* (w, q) (w', q) \<and> polling c w' \<and> wk_polls w' = wk_polls w @ replicate k (wc_maxConcurrency c)"
proof (induction k)
  case 0
  show ?case using assms by (intro exI [of _ w]) simp
next
  case (Suc k)
  then obtain w1 where w1: "wk_step\<^sup>*\<^sup>* (w, q) (w1, q)" "polling c w1"
    "wk_polls w1 = wk_polls w @ replicate k (wc_maxConcurrency c)" by blast
  with notified_poll [of w1 q] assms(2) obtain w2 where
    "wk_step\<^sup>*\<^sup>* (w1, q) (w2, q)" "polling c w2" "wk_polls w2 = wk_polls w1 @ [wc_maxConcurrency c]"
    unfolding polling_def by auto
  with w1 show ?case by (intro exI [of _ w2]) (simp add: replicate_append_same [symmetric])
qed

text \<open>
  With notifications polls pile up. Every notification that arrives while a poll awaits the
  database starts one more poll, and each computes its capacity before any of them dispatched: from a
  started worker with a notify connection, \<open>n\<close> polls can be under way at once with the full
  \<open>maxConcurrency\<close> each, for every \<open>n\<close>, so the tasks asked for are not bounded by the configuration.
\<close>

theorem notified_polls_pile_up:
  assumes "new_Worker num gen input = Inr w0" "wi_notifyConnectionString input \<noteq> None"
  shows "\<exists>w. wk_step\<^sup>*\<^sup>* (worker_start w0, q) (w, q) \<and> wk_config w = wk_config w0 \<and> wk_running w = []
    \<and> wk_polls w = replicate n (wc_maxConcurrency (wk_config w0)) \<and> 0 < wc_maxConcurrency (wk_config w0)"
proof -
  let ?max = "wc_maxConcurrency (wk_config w0)" and ?l = "(worker_start w0)\<lparr>wk_listening := True\<rparr>"
  obtain c where c: "resolveWorkerConfig num gen input = Inr c" "wk_config w0 = c"
    and w0: "wk_timers w0 = []" "wk_polls w0 = []" "wk_running w0 = []" "\<not> wk_stopped w0"
    using assms(1) by (auto simp: new_Worker_def split: sum.splits)
  have pos: "0 < ?max" using resolved_config(1) [OF c(1)] c(2) by simp
  have notify: "wc_notifyConnectionString (wk_config w0) \<noteq> None"
    using resolved_notify [OF c(1)] c(2) assms(2) by simp
  have st: "wk_step (worker_start w0, q) (?l, q)"
    by (rule wk_listen) (use notify in \<open>simp add: worker_start_def\<close>)
  show ?thesis
  proof (cases n)
    case 0
    then show ?thesis using w0 pos by (intro exI [of _ "worker_start w0"]) (simp add: worker_start_def)
  next
    case (Suc m)
    let ?p = "poll_begin (?l\<lparr>wk_timers := []\<rparr>)"
    have "wk_step (?l, q) (?p, q)"
      using wk_timer [of "wk_nextTimer w0" 0 ?l q] w0 by (simp add: worker_start_def)
    with st have reach: "wk_step\<^sup>*\<^sup>* (worker_start w0, q) (?p, q)" by (meson converse_rtranclp_into_rtranclp r_into_rtranclp)
    have "polling (wk_config w0) ?p" "wk_polls ?p = [?max]"
      using w0 pos by (simp_all add: polling_def poll_begin_def worker_start_def)
    with polls_grow [OF _ pos, of ?p q m] obtain w where
      "wk_step\<^sup>*\<^sup>* (?p, q) (w, q)" "polling (wk_config w0) w" "wk_polls w = replicate n ?max"
      using Suc by auto
    with reach pos show ?thesis by (intro exI [of _ w]) (auto simp: polling_def)
  qed
qed

definition notified_input :: worker_config_input where
  "notified_input = plain_input\<lparr>wi_notifyConnectionString := Some ''postgres://db''\<rparr>"

theorem notified_polls_pile_up_witness:
  "\<exists>w0 w. new_Worker (\<lambda>_. ''n'') ''gen'' notified_input = Inr w0
     \<and> wk_step\<^sup>*\<^sup>* (worker_start w0, one_task) (w, one_task) \<and> wk_polls w = [1, 1]"
proof -
  have "resolveWorkerConfig (\<lambda>_. ''n'') ''gen'' notified_input
      = Inr (plain_config\<lparr>wc_notifyConnectionString := Some ''postgres://db''\<rparr>)"
    by (simp add: notified_input_def resolveWorkerConfig_def plain_input_def plain_config_def is_integer_def or_default_def)
  from new_worker_plain [OF this] obtain w0 where w0: "new_Worker (\<lambda>_. ''n'') ''gen'' notified_input = Inr w0"
    "wc_maxConcurrency (wk_config w0) = 1" by (simp add: plain_config_def)
  have "wi_notifyConnectionString notified_input \<noteq> None" by (simp add: notified_input_def)
  from notified_polls_pile_up [OF w0(1) this, of one_task 2] w0 show ?thesis by (auto simp: numeral_2_eq_2)
qed

subsection \<open>Leases that changed hands\<close>

text \<open>Settling a run gives up whatever lease the worker has on the task.\<close>

lemma settled_not_owned:
  assumes inv: "task_inv q" and u: "u \<in> set (tt_rows q)" "leased_to (wc_workerId (wk_config w)) u"
    and t: "t_id t = t_id u" "1 \<le> t_attempt t" and r: "0 \<le> r" "r < 1"
    and run: "run_settles now r w t result q = (q', x)"
  shows "x = Inr True \<and> \<not> isLeaseOwned \<lparr>fn_taskId = t_id u, fn_workerId = wid, fn_attempt = n\<rparr> q'"
proof -
  let ?P = "\<lambda>v. t_id v = t_id t \<and> leased_to (wc_workerId (wk_config w)) v"
  have one: "row_count ?P q = 1" by (rule own_row [OF inv u(1) t(1) [symmetric] u(2)])
  obtain f where f: "q' = update_rows ?P f q" "x = Inr (0 < row_count ?P q)" "\<And>v. t_status (f v) \<noteq> TLeased \<and> t_id (f v) = t_id v"
  proof (cases result)
    case (Inr y)
    with run show thesis
      by (intro that [of "\<lambda>t. t\<lparr>t_status := TCompleted\<rparr>"]) (auto simp: run_settles_def complete_def Let_def)
  next
    case (Inl err)
    obtain dl where "computeRetryDelayWithFloorSeconds default_retry_options r (t_attempt t) (retry_floor err) = Inr dl"
      using retry_delay_range [OF r t(2)] by blast
    with Inl run show thesis
      by (intro that [of "fail_task now dl (error_message err)"])
        (auto simp: run_settles_def fail_def Let_def fail_task_def split: if_splits)
  qed
  have "\<not> (t_id v = t_id u \<and> t_status v = TLeased)" if "v \<in> set (tt_rows q')" for v
  proof -
    from that obtain v0 where v0: "v0 \<in> set (tt_rows q)" "v = (if ?P v0 then f v0 else v0)"
      unfolding f(1) in_rows_update by auto
    show ?thesis
    proof (cases "t_id v0 = t_id u")
      case True
      then have "v0 = u" using same_row [OF inv v0(1) u(1)] by simp
      then show ?thesis using v0(2) f(3) u t by simp
    qed (use v0 f(3) t in auto)
  qed
  then have "\<not> isLeaseOwned \<lparr>fn_taskId = t_id u, fn_workerId = wid, fn_attempt = n\<rparr> q'"
    by (auto simp: isLeaseOwned_def row_count_def filter_empty_conv)
  then show ?thesis using f(2) one by simp
qed

text \<open>
  \<open>complete\<close> and \<open>fail\<close> are fenced by the worker, not by the attempt. When a lease of a worker
  expires during a run and the same worker leases the task again, the end of the old run, with success
  or an error, is accepted (\<open>applied\<close> is true) and ends the new lease: the run of the new attempt, still
  under way, does not own its task any more, and its outcome is refused.
\<close>

theorem stale_run_ends_new_lease:
  assumes "task_inv q" "u \<in> set (tt_rows q)" "leased_to (wc_workerId (wk_config w)) u"
    and "t_id t = t_id u" "1 \<le> t_attempt t" "t_attempt t < t_attempt u" "0 \<le> r" "r < 1"
    and "run_settles now r w t result q = (q', x)"
  shows "isLeaseOwned \<lparr>fn_taskId = t_id u, fn_workerId = wc_workerId (wk_config w), fn_attempt = t_attempt u\<rparr> q
    \<and> x = Inr True
    \<and> \<not> isLeaseOwned \<lparr>fn_taskId = t_id u, fn_workerId = wc_workerId (wk_config w), fn_attempt = t_attempt u\<rparr> q'"
proof -
  have "isLeaseOwned \<lparr>fn_taskId = t_id u, fn_workerId = wc_workerId (wk_config w), fn_attempt = t_attempt u\<rparr> q"
    using assms(2,3) by (auto simp: isLeaseOwned_def row_count_def leased_to_def filter_empty_conv)
  with settled_not_owned [OF assms(1-5,7,8,9)] show ?thesis by blast
qed

lemma leased_twice_row:
  "\<exists>u. u \<in> set (tt_rows leased_twice) \<and> leased_to ''wk'' u \<and> t_id u = 1 \<and> t_attempt u = 2"
  by (simp add: leased_twice_rows leased_to_def new_task_def)

theorem stale_run_ends_new_lease_witness:
  "snd (run_settles 50002 0 plain_worker ((new_task 0 0 workflow_input 1)\<lparr>t_attempt := 1\<rparr>) (Inl (Err ''boom'')) leased_twice)
     = Inr True"
proof -
  let ?t = "(new_task 0 0 workflow_input 1)\<lparr>t_attempt := 1\<rparr>"
  obtain u where u: "u \<in> set (tt_rows leased_twice)" "leased_to (wc_workerId (wk_config plain_worker)) u" "t_id u = 1" "t_attempt u = 2"
    using leased_twice_row by (auto simp: plain_worker_def plain_config_def)
  have "task_inv leased_twice" "t_id ?t = t_id u" "t_attempt ?t = 1"
    using u(3) by (simp_all add: leased_twice_def reclaimed_once_def leased_once_def dequeue_inv reclaim_inv one_task_inv new_task_def)
  with stale_run_ends_new_lease [OF _ u(1,2), of ?t 0 50002 "Inl (Err ''boom'')"] u(4)
  show ?thesis by (metis one_le_numeral one_less_numeral_iff order_refl prod.collapse semiring_norm(76) zero_less_one)
qed

subsection \<open>Stopping\<close>

text \<open>
  Stopping does not stop the poll under way. If a worker is stopped while a poll awaits the
  database, \<open>stop()\<close> may return at once when nothing else runs, yet the tasks of that poll are then
  leased, dispatched and run: they are not among the runs \<open>stop()\<close> waits for, and no heartbeat renews
  their lease.
\<close>

theorem stop_leaves_late_tasks:
  assumes "wk_polls w = [c]" "wk_runs w = []" "wk_running w = []" "\<not> wk_stopped w" "wk_draining w = None"
    and "dequeue now locked (poll_input c w) q = (q', t # ts)"
  shows "\<exists>w' w''. wk_step\<^sup>*\<^sup>* (w, q) (w', q) \<and> stop_returns False w'
    \<and> wk_step (w', q) (w'', q') \<and> wk_runs w'' = t # ts \<and> t_id t \<in> set (wk_running w'') \<and> stop_returns False w''
    \<and> wk_stopped w'' \<and> leased_to (wc_workerId (wk_config w)) t"
proof -
  let ?s = "worker_stop w" and ?w' = "worker_drain (worker_stop w)"
  have s: "wk_polls ?s = [c]" "wk_runs ?s = []" "wk_running ?s = []" "wk_stopped ?s" "wk_draining ?s = None" "wk_config ?s = wk_config w"
    using assms(1-5) by (simp_all add: worker_stop_def) (auto simp: clear_poll_timer_def split: option.splits)
  have "wk_step (w, q) (?s, q)" "wk_step (?s, q) (?w', q)" using s by (auto intro: wk_stop wk_drain)
  then have reach: "wk_step\<^sup>*\<^sup>* (w, q) (?w', q)" by (meson converse_rtranclp_into_rtranclp r_into_rtranclp)
  let ?e = "poll_end (t # ts) (?w'\<lparr>wk_polls := []\<rparr>)"
  have "poll_input c ?w' = poll_input c w" using s(6) by (simp add: poll_input_def worker_drain_def)
  then have late: "wk_step (?w', q) (?e, q')"
    using wk_dequeued [of ?w' "[]" c "[]" now locked q q' "t # ts"] s(1) assms(6) by (simp add: worker_drain_def)
  have "t_id t \<in> set (wk_running (fold dispatch ts x))" if "t_id t \<in> set (wk_running x)" for x
    using that by (induction ts arbitrary: x) (auto simp: dispatch_def)
  then have "t_id t \<in> set (wk_running ?e)" by (simp add: poll_end_def Let_def) (simp add: dispatch_def)
  moreover have drain: "wk_draining (fold dispatch xs x) = wk_draining x" for xs x
    by (induction xs arbitrary: x) (simp_all add: dispatch_def)
  have "stop_returns False ?w'" "stop_returns False ?e"
    using s by (simp_all add: stop_returns_def worker_drain_def in_flight_def poll_end_def Let_def scheduleNextPoll_def
        drain dispatch_all map_filter_simps) (simp_all add: dispatch_def)
  moreover have "leased_to (wc_workerId (wk_config w)) t"
    using assms(6) by (auto simp: dequeue_def Let_def lease_task_def leased_to_def poll_input_def)
  ultimately show ?thesis
    using reach late s(2,4) by (intro exI [of _ ?w'] exI [of _ ?e]) (simp add: poll_end_fields worker_drain_def)
qed

lemma polling_dequeue: "map t_id (snd (dequeue 5 [] (poll_input 1 polling_worker) one_task)) = [1]"
  by (simp add: queue_eval one_task_rows poll_input_def polling_worker_def worker_start_def scheduleNextPoll_def
      plain_worker_def plain_config_def poll_begin_def new_task_def workflow_input_def default_queue_def)

theorem stop_leaves_late_tasks_witness:
  "\<exists>w' w''. wk_step\<^sup>*\<^sup>* (polling_worker, one_task) (w', one_task) \<and> stop_returns False w' \<and> wk_stopped w''
     \<and> wk_step (w', one_task) (w'', fst (dequeue 5 [] (poll_input 1 polling_worker) one_task)) \<and> 1 \<in> set (wk_running w'')"
proof -
  obtain q' ts where d: "dequeue 5 [] (poll_input 1 polling_worker) one_task = (q', ts)" by fastforce
  with polling_dequeue obtain t where t: "ts = [t]" "t_id t = 1" by auto
  have "wk_runs polling_worker = []" "wk_running polling_worker = []" "\<not> wk_stopped polling_worker" "wk_draining polling_worker = None"
    by (simp_all add: polling_worker_def worker_start_def scheduleNextPoll_def plain_worker_def poll_begin_def plain_config_def)
  from stop_leaves_late_tasks [OF polling_polls this d [unfolded t(1)]] d t(2) show ?thesis by auto
qed

end
