(* ===== verification/StepRetry.thy ===== *)
theory StepRetry
  imports LlmHandlerProps WorkerProps
begin

section \<open>The attempts of an LLM step\<close>

text \<open>
  The worker's run loop, the LLM handler and the queue together: a task is leased, its handler runs,
  the run settles, while other processes go on. Whatever the provider does, the step has an outcome
  after at most \<open>max_attempts\<close> attempts that run to their end. An attempt whose worker is killed
  is one of the things that happen between two such attempts: it counts in the row and settles
  nothing (\<open>killed_attempt_meanwhile\<close>), and nothing dead-letters the task for it.
\<close>

subsection \<open>While a run holds its lease\<close>

text \<open>A provider may write its audit, not the workflows.\<close>

definition provider_frame :: "provider \<Rightarrow> bool" where
  "provider_frame p \<longleftrightarrow> (\<forall>rq cx d d' r. p rq cx d = (d', r) \<longrightarrow>
     db_executions d' = db_executions d \<and> db_events d' = db_events d \<and> db_tasks d' = db_tasks d)"

lemma db_inv_tasks:
  assumes "db_inv d" "task_inv q" "\<And>t. t \<in> set (tt_rows q) \<Longrightarrow> \<exists>u \<in> set (tt_rows (db_tasks d)). t_workflowId t = t_workflowId u"
  shows "db_inv (d\<lparr>db_tasks := q\<rparr>)"
proof -
  have wf: "\<forall>t \<in> set (tt_rows q). t_workflowId t \<in> set (execution_ids d)"
    using assms(3) db_invD(5) [OF assms(1)] by metis
  have "execution_ids (d\<lparr>db_tasks := q\<rparr>) = execution_ids d" "log_of v (d\<lparr>db_tasks := q\<rparr>) = log_of v d" for v
    by (simp_all add: execution_ids_def log_of_def)
  with wf assms(1,2) show ?thesis unfolding db_inv_def by simp
qed

text \<open>
  The same step at another time, the row by which \<open>worker\<close> still holds the lease of the attempt it
  was handed, and what may be committed while it does: anything that keeps the invariant, the row's
  owner and attempt, and the events of the workflow.
\<close>

definition same_step :: "task \<Rightarrow> task \<Rightarrow> bool" where
  "same_step t u \<longleftrightarrow> t_id u = t_id t \<and> t_workflowId u = t_workflowId t \<and> t_maxAttempts u = t_maxAttempts t
     \<and> t_scheduledEventSeq u = t_scheduledEventSeq t"

definition holds_lease :: "string \<Rightarrow> task \<Rightarrow> db \<Rightarrow> bool" where
  "holds_lease worker t d \<longleftrightarrow> (\<exists>v \<in> set (tt_rows (db_tasks d)). same_step t v \<and> leased_to worker v \<and> t_attempt v = t_attempt t)"

definition lease_kept :: "string \<Rightarrow> task \<Rightarrow> db \<Rightarrow> db \<Rightarrow> bool" where
  "lease_kept worker t d d' \<longleftrightarrow> (db_inv d \<and> holds_lease worker t d \<longrightarrow> db_inv d' \<and> holds_lease worker t d'
     \<and> prefix (getEvents (t_workflowId t) d) (getEvents (t_workflowId t) d'))"

lemma lease_kept_refl [simp]: "lease_kept worker t d d"
  by (simp add: lease_kept_def)

lemma lease_kept_trans: "lease_kept worker t d e \<Longrightarrow> lease_kept worker t e d' \<Longrightarrow> lease_kept worker t d d'"
  unfolding lease_kept_def using prefix_order.trans by blast

lemma lease_keptD:
  assumes "lease_kept worker t d d'" "db_inv d" "holds_lease worker t d"
  shows "db_inv d'" "holds_lease worker t d'" "prefix (getEvents (t_workflowId t) d) (getEvents (t_workflowId t) d')"
  using assms unfolding lease_kept_def by blast+

lemma provider_keeps:
  assumes "provider_frame p" "p rq cx d = (d', r)"
  shows "lease_kept worker t d d'"
proof -
  have f: "db_executions d' = db_executions d" "db_events d' = db_events d" "db_tasks d' = db_tasks d"
    using assms unfolding provider_frame_def by blast+
  then show ?thesis using same_tables_inv [of d' d] by (simp add: lease_kept_def holds_lease_def getEvents_def)
qed

lemma has_outcome_prefix: "prefix h h' \<Longrightarrow> has_outcome types n h \<Longrightarrow> has_outcome types n h'"
  by (auto simp: has_outcome_def prefix_def)

subsection \<open>One run\<close>

lemma record_outcome_held:
  assumes inv: "db_inv d" and t: "holds_lease worker t d" "leased_to worker t"
    and ev: "event_type ev \<in> set types" "event_ref ev = Some n" "no_proto_events [ev]"
  obtains d' where "record_outcome ck t n ev types d = (d', Inr ())" "lease_kept worker t d d'"
    "has_outcome types n (getEvents (t_workflowId t) d')"
proof -
  from t(1) obtain v where v: "v \<in> set (tt_rows (db_tasks d))" "same_step t v" "leased_to worker v" "t_attempt v = t_attempt t"
    unfolding holds_lease_def by blast
  have own: "isLeaseOwned \<lparr>fn_taskId = t_id t, fn_workerId = worker, fn_attempt = t_attempt t\<rparr> (db_tasks d)"
    using v by (auto simp: isLeaseOwned_def row_count_def leased_to_def same_step_def filter_empty_conv)
  have o: "t_leasedBy t = Some worker" "t_workflowId t \<in> set (execution_ids d)"
    using t(2) v(1,2) db_invD(5) [OF inv v(1)] by (simp_all add: leased_to_def same_step_def)
  show thesis
  proof (cases "has_outcome types n (getEvents (t_workflowId t) d)")
    case True
    from step_outcome_owner(2) [OF inv o ev(3) own True] show thesis
      by (intro that [of d]) (simp_all add: record_outcome_def True)
  next
    case False
    from step_outcome_owner(3) [OF inv o ev(3) own False, of ck] obtain d' where
      d': "appendStepOutcome ck t n ev types d = (d', Inr Written)" "appended ck (t_workflowId t) [ev] d d'" by blast
    have "holds_lease worker t d'" using d'(2) v unfolding appended_def holds_lease_def by auto
    then have "lease_kept worker t d d'"
      using appendedD(1,4) [OF d'(2)] by (simp add: lease_kept_def)
    moreover have "has_outcome types n (getEvents (t_workflowId t) d')"
      unfolding appended_one [OF d'(2)] using ev(1,2) by (simp add: has_outcome_def)
    ultimately show thesis using that d'(1) by (simp add: record_outcome_def)
  qed
qed

text \<open>What the run of a handler leaves: a run that succeeds, or is the last, leaves an outcome.\<close>

definition run_left :: "string \<Rightarrow> task \<Rightarrow> nat \<Rightarrow> db \<Rightarrow> db \<times> (js_error + unit) \<Rightarrow> bool" where
  "run_left worker t n d x \<longleftrightarrow> lease_kept worker t d (fst x)
     \<and> (snd x = Inr () \<or> t_maxAttempts t \<le> t_attempt t \<longrightarrow> has_outcome llm_outcome_types n (getEvents (t_workflowId t) (fst x)))"

lemma run_left_recorded:
  assumes "db_inv d0" "holds_lease worker t d0" "lease_kept worker t d0 d" "leased_to worker t"
    and "event_type ev \<in> set llm_outcome_types" "event_ref ev = Some n" "no_proto_events [ev]"
  shows "run_left worker t n d0 (record_outcome ck t n ev llm_outcome_types d)"
    "run_left worker t n d0 (case record_outcome ck t n ev llm_outcome_types d of (d', Inl e) \<Rightarrow> (d', Inl e) | (d', Inr y) \<Rightarrow> (d', r))"
  by (rule record_outcome_held [OF lease_keptD(1,2) [OF assms(3,1,2)] assms(4-7), of ck],
      use lease_kept_trans [OF assms(3)] in \<open>simp add: run_left_def\<close>)+

lemma llm_event_facts:
  "event_type (llm_failed t q n m c r) \<in> set llm_outcome_types" "event_ref (llm_failed t q n m c r) = Some n"
  "no_proto_events [llm_failed t q n m c r]"
  "event_type (llm_completed cfg t q n rs) \<in> set llm_outcome_types" "event_ref (llm_completed cfg t q n rs) = Some n"
  "no_proto_events [llm_completed cfg t q n rs]"
  by (simp_all add: llm_failed_def llm_completed_def llm_outcome_types_def no_proto_events_def Let_def)


lemma llm_run_left:
  assumes inv: "db_inv d" and t: "holds_lease worker t d" "leased_to worker t" "t_scheduledEventSeq t = Some n"
    and e: "find (\<lambda>e. seq e = n) (getEvents (t_workflowId t) d) = Some e" "llm_requested_of e = Some q"
    and p: "provider_frame p" and gap: "\<And>i e. lease_kept worker t e (gap i e)"
  shows "run_left worker t n d (llmCallHandler ck gap p wfs cfg sha t d)"
proof (cases "has_outcome llm_outcome_types n (getEvents (t_workflowId t) d)")
  case True
  then show ?thesis using t(3) e by (simp add: llmCallHandler_def Let_def run_left_def del: llm_requested_of.simps)
next
  case no: False
  note recorded = run_left_recorded [OF inv t(1) _ t(2)] and handler = llmCallHandler_def Let_def t(3) e no
  show ?thesis
  proof (cases "resolveRequest (getEvents (t_workflowId t) d) q wfs sha")
    case (Inl reason)
    then have "llmCallHandler ck gap p wfs cfg sha t d
        = record_outcome ck t n (llm_failed t q n reason ''request_unavailable'' False) llm_outcome_types (gap 0 d)"
      by (simp add: handler del: llm_requested_of.simps)
    then show ?thesis using recorded(1) [OF gap llm_event_facts(1-3)] by simp
  next
    case (Inr rq)
    obtain d1 r where call: "p rq (llm_context t q) (gap 0 d) = (d1, r)" by fastforce
    have kept: "lease_kept worker t d d1" by (rule lease_kept_trans [OF gap provider_keeps [OF p call]])
    then have kept_gap: "lease_kept worker t d (gap i d1)" for i by (rule lease_kept_trans [OF _ gap])
    show ?thesis
    proof (cases r)
      case (Inr rs)
      then have "llmCallHandler ck gap p wfs cfg sha t d
          = record_outcome ck t n (llm_completed cfg t q n rs) llm_outcome_types (gap 1 d1)"
        using \<open>resolveRequest _ q wfs sha = Inr rq\<close> call by (simp add: handler del: llm_requested_of.simps)
      then show ?thesis using recorded(1) [OF kept_gap llm_event_facts(4-6)] by simp
    next
      case (Inl err)
      obtain m retryable c a where err: "as_provider_error err = (m, retryable, c, a)" by (cases "as_provider_error err") auto
      have h: "llmCallHandler ck gap p wfs cfg sha t d
          = settle_failure ck t n llm_outcome_types retryable (LlmProviderError m retryable c a) (llm_failed t q n m c retryable) (gap 2) d1"
        using Inl err Inr call by (simp add: handler del: llm_requested_of.simps)
      show ?thesis
      proof (cases "retryable \<and> \<not> t_maxAttempts t \<le> t_attempt t")
        case True
        then show ?thesis using kept unfolding h by (simp add: settle_failure_def run_left_def)
      next
        case False
        then show ?thesis unfolding h settle_failure_def if_not_P [OF False]
          by (intro recorded(2) [OF kept_gap llm_event_facts(1-3)])
      qed
    qed
  qed
qed

subsection \<open>What the run loop makes of it\<close>

text \<open>The row of a task.\<close>

definition task_row :: "nat \<Rightarrow> db \<Rightarrow> task \<Rightarrow> bool" where
  "task_row i d u \<longleftrightarrow> u \<in> set (tt_rows (db_tasks d)) \<and> t_id u = i"

lemma one_task_row: "db_inv d \<Longrightarrow> task_row i d v \<Longrightarrow> task_row i d u \<Longrightarrow> v = u"
  using same_row [OF db_invD(3), of d v u] by (simp add: task_row_def)

lemma settled_row:
  assumes v: "v \<in> set (tt_rows q)" "same_step t v" "leased_to (wc_workerId (wk_config w)) v" "t_attempt v = t_attempt t"
    and r: "1 \<le> t_attempt t" "0 \<le> rnd" "rnd < 1"
  obtains u where "u \<in> set (tt_rows (fst (run_settles now rnd w t result q)))" "same_step t u" "t_attempt u = t_attempt t"
    "t_status u = (if result = Inr () then TCompleted else if t_maxAttempts t \<le> t_attempt t then TDead else TPending)"
proof -
  let ?P = "\<lambda>x. t_id x = t_id t \<and> leased_to (wc_workerId (wk_config w)) x"
  have upd: "f v \<in> set (tt_rows (update_rows ?P f q))" for f
    unfolding in_rows_update using v by (intro bexI [of _ v]) (simp_all add: same_step_def)
  show thesis
  proof (cases result)
    case (Inr y)
    then show thesis using upd [of "\<lambda>x. x\<lparr>t_status := TCompleted\<rparr>"] v(2,4)
      by (intro that [of "v\<lparr>t_status := TCompleted\<rparr>"]) (simp_all add: run_settles_def complete_def Let_def same_step_def)
  next
    case (Inl err)
    obtain dl where dl: "computeRetryDelayWithFloorSeconds default_retry_options rnd (t_attempt t) (retry_floor err) = Inr dl"
      using retry_delay_range [OF r(2,3,1)] by blast
    then show thesis using Inl upd [of "fail_task now dl (error_message err)"] v(2,4)
      by (intro that [of "fail_task now dl (error_message err) v"])
         (simp_all add: run_settles_def fail_def Let_def same_step_def fail_task_def)
  qed
qed

lemma settles_inv: "task_inv q \<Longrightarrow> task_inv (fst (run_settles now rnd w t result q))"
  by (cases result) (simp_all add: run_settles_def case_prod_unfold complete_inv fail_inv)

lemma settles_workflows:
  "v \<in> set (tt_rows (fst (run_settles now rnd w t result q))) \<Longrightarrow> \<exists>u \<in> set (tt_rows q). t_workflowId v = t_workflowId u"
  by (cases result)
    (auto simp: run_settles_def complete_def fail_def Let_def rows_update fail_task_def split: sum.splits if_splits)

lemma dequeue_workflows:
  "v \<in> set (tt_rows (fst (dequeue now locked input q))) \<Longrightarrow> \<exists>u \<in> set (tt_rows q). t_workflowId v = t_workflowId u"
  by (fastforce simp: dequeue_def Let_def rows_update lease_task_def)

subsection \<open>Attempts\<close>

text \<open>
  One attempt at task \<open>i\<close> that runs to its end: some \<open>dequeue\<close> of some worker hands it out, its handler
  runs with some provider that answers or throws, and the run settles. Other processes go on before,
  during and after the run, as long as the worker keeps its lease.
\<close>

inductive llm_attempt :: "nat \<Rightarrow> db \<Rightarrow> db \<Rightarrow> bool" for i where
  "dequeue now locked (poll_input capacity w) (db_tasks d) = (q, ts) \<Longrightarrow> t \<in> set ts \<Longrightarrow> t_id t = i
   \<Longrightarrow> lease_kept (wc_workerId (wk_config w)) t (d\<lparr>db_tasks := q\<rparr>) d0
   \<Longrightarrow> provider_frame p \<Longrightarrow> \<forall>j e. lease_kept (wc_workerId (wk_config w)) t e (gap j e)
   \<Longrightarrow> llmCallHandler ck gap p wfs cfg sha t d0 = (d1, r)
   \<Longrightarrow> lease_kept (wc_workerId (wk_config w)) t d1 d2 \<Longrightarrow> 0 \<le> rnd \<Longrightarrow> rnd < 1
   \<Longrightarrow> llm_attempt i d (d2\<lparr>db_tasks := fst (run_settles now' rnd w t r (db_tasks d2))\<rparr>)"

text \<open>
  What may happen between two such attempts at the task of \<open>u\<close>: anything that keeps the invariant and
  the events of its workflow, and leaves the row of the task in its status, with no attempt taken back.
\<close>

definition meanwhile :: "task \<Rightarrow> db \<Rightarrow> db \<Rightarrow> bool" where
  "meanwhile u d d' \<longleftrightarrow> (db_inv d \<longrightarrow> db_inv d' \<and> prefix (getEvents (t_workflowId u) d) (getEvents (t_workflowId u) d')
     \<and> (\<forall>v. task_row (t_id u) d v \<longrightarrow>
          (\<exists>v'. task_row (t_id u) d' v' \<and> same_step v v' \<and> t_status v' = t_status v \<and> t_attempt v \<le> t_attempt v')))"

inductive llm_attempts :: "task \<Rightarrow> db \<Rightarrow> nat \<Rightarrow> db \<Rightarrow> bool" for u d where
  no_attempt: "llm_attempts u d 0 d"
| between_attempts: "llm_attempts u d k d1 \<Longrightarrow> meanwhile u d1 d2 \<Longrightarrow> llm_attempts u d k d2"
| next_attempt: "llm_attempts u d k d1 \<Longrightarrow> llm_attempt (t_id u) d1 d2 \<Longrightarrow> llm_attempts u d (Suc k) d2"

text \<open>
  The step of \<open>u\<close> is recorded at \<open>n\<close>; its task is pending with at least \<open>a\<close> attempts taken; the step has
  an outcome and its task will not run again.
\<close>

definition step_asked :: "task \<Rightarrow> nat \<Rightarrow> stored_event list \<Rightarrow> bool" where
  "step_asked u n h \<longleftrightarrow> t_scheduledEventSeq u = Some n \<and> (\<exists>e q. find (\<lambda>e. seq e = n) h = Some e \<and> llm_requested_of e = Some q)"

definition still_open :: "task \<Rightarrow> nat \<Rightarrow> db \<Rightarrow> bool" where
  "still_open u a d \<longleftrightarrow> db_inv d \<and> (\<exists>v. task_row (t_id u) d v \<and> t_status v = TPending \<and> same_step u v \<and> a \<le> t_attempt v)"

definition settled :: "task \<Rightarrow> nat \<Rightarrow> db \<Rightarrow> bool" where
  "settled u n d \<longleftrightarrow> db_inv d \<and> has_outcome llm_outcome_types n (getEvents (t_workflowId u) d)
     \<and> (\<exists>v. task_row (t_id u) d v \<and> t_status v \<in> {TCompleted, TDead})"

lemma asked_prefix: "step_asked u n h \<Longrightarrow> prefix h h' \<Longrightarrow> step_asked u n h'"
  by (auto simp: step_asked_def prefix_def find_append simp del: llm_requested_of.simps)

lemma same_step_trans: "same_step t u \<Longrightarrow> same_step u v \<Longrightarrow> same_step t v"
  by (simp add: same_step_def)

text \<open>The dequeue that starts an attempt.\<close>

lemma attempt_leased:
  assumes d: "dequeue now locked (poll_input capacity w) (db_tasks d) = (q, ts)" "t \<in> set ts"
    and inv: "db_inv d" and v: "task_row (t_id t) d v"
  shows "t_status v = TPending" "db_inv (d\<lparr>db_tasks := q\<rparr>)" "leased_to (wc_workerId (wk_config w)) t" "same_step v t"
    "t_attempt t = Suc (t_attempt v)" "holds_lease (wc_workerId (wk_config w)) t (d\<lparr>db_tasks := q\<rparr>)"
proof -
  let ?in = "poll_input capacity w"
  obtain x where x: "x \<in> set (candidates now locked ?in (db_tasks d))" "t = lease_task now ?in x"
    using d(1,2) by (auto simp: dequeue_def Let_def)
  note c = candidates_sub [OF x(1)]
  have "task_row (t_id t) d x" using c x(2) by (simp add: task_row_def lease_task_def)
  then have "x = v" by (rule one_task_row [OF inv _ v])
  with x(2) c show pend: "t_status v = TPending" "same_step v t" "t_attempt t = Suc (t_attempt v)"
    by (simp_all add: same_step_def lease_task_def candidate_def)
  show l: "leased_to (wc_workerId (wk_config w)) t" using x(2) by (simp add: leased_to_def lease_task_def poll_input_def)
  have "t \<in> set (tt_rows q)" using dequeue_task_in [of t now locked ?in "db_tasks d"] d by simp
  then show "holds_lease (wc_workerId (wk_config w)) t (d\<lparr>db_tasks := q\<rparr>)" using l by (auto simp: holds_lease_def same_step_def)
  show "db_inv (d\<lparr>db_tasks := q\<rparr>)" using queue_statement_inv(1) [OF inv, of now locked ?in] d(1) by simp
qed

lemma attempt_pending:
  assumes "llm_attempt i d d'" "db_inv d" "task_row i d v"
  shows "t_status v = TPending"
  using assms(1)
proof cases
  case (1 now locked capacity w q ts t d0 p gap ck wfs cfg sha d1 r d2 rnd now')
  show ?thesis by (rule attempt_leased(1) [OF 1(2,3) assms(2)]) (simp add: 1(4) assms(3))
qed

lemma attempt_step:
  assumes att: "llm_attempt (t_id u) d d'" and inv: "db_inv d" and v: "task_row (t_id u) d v" "same_step u v"
    and step: "step_asked u n (getEvents (t_workflowId u) d)"
  shows "t_status v = TPending \<and> prefix (getEvents (t_workflowId u) d) (getEvents (t_workflowId u) d')
    \<and> (settled u n d' \<or> Suc (t_attempt v) < t_maxAttempts u \<and> still_open u (Suc (t_attempt v)) d')"
  using att
proof cases
  case (1 now locked capacity w q ts t d0 p gap ck wfs cfg sha d1 r d2 rnd now')
  let ?k = "wc_workerId (wk_config w)"
  have row: "task_row (t_id t) d v" using v(1) 1(4) by simp
  note t = attempt_leased [OF 1(2,3) inv row]
  have w: "t_workflowId t = t_workflowId u" "t_scheduledEventSeq t = Some n" "t_maxAttempts t = t_maxAttempts u"
    using t(4) v(2) step by (simp_all add: same_step_def step_asked_def)
  note k0 = lease_keptD [OF 1(5) t(2,6), unfolded w(1)]
  have p0: "prefix (getEvents (t_workflowId u) d) (getEvents (t_workflowId u) d0)" using k0(3) by (simp add: getEvents_def)
  from asked_prefix [OF step this] obtain e rq where
    e: "find (\<lambda>e. seq e = n) (getEvents (t_workflowId t) d0) = Some e" "llm_requested_of e = Some rq" unfolding step_asked_def w(1) by blast
  have "run_left ?k t n d0 (d1, r)"
    unfolding 1(8) [symmetric] by (rule llm_run_left [OF k0(1,2) t(3) w(2) e 1(6)]) (use 1(7) in blast)
  then have left: "lease_kept ?k t d0 d1"
    "r = Inr () \<or> t_maxAttempts u \<le> t_attempt t \<Longrightarrow> has_outcome llm_outcome_types n (getEvents (t_workflowId u) d1)"
    by (auto simp: run_left_def w)
  note k1 = lease_keptD [OF left(1) k0(1,2), unfolded w(1)]
  note k2 = lease_keptD [OF 1(9) k1(1,2), unfolded w(1)]
  from k2(2) obtain x where x: "x \<in> set (tt_rows (db_tasks d2))" "same_step t x" "leased_to ?k x" "t_attempt x = t_attempt t"
    unfolding holds_lease_def by blast
  have "1 \<le> t_attempt t" using t(5) by simp
  from settled_row [OF x this 1(10,11), of now' r] obtain y where
    y: "y \<in> set (tt_rows (db_tasks d'))" "same_step t y" "t_attempt y = t_attempt t"
      "t_status y = (if r = Inr () then TCompleted else if t_maxAttempts t \<le> t_attempt t then TDead else TPending)"
    unfolding 1(1) by auto
  have inv': "db_inv d'" unfolding 1(1)
    by (rule db_inv_tasks [OF k2(1) settles_inv [OF db_invD(3) [OF k2(1)]]]) (rule settles_workflows)
  have log: "getEvents (t_workflowId u) d' = getEvents (t_workflowId u) d2" unfolding 1(1) by (simp add: getEvents_def)
  have row': "task_row (t_id u) d' y" "same_step u y"
    using y(1,2) 1(4) same_step_trans [OF v(2) same_step_trans [OF t(4)]] by (simp_all add: task_row_def same_step_def)
  have "settled u n d' \<or> Suc (t_attempt v) < t_maxAttempts u \<and> still_open u (Suc (t_attempt v)) d'"
  proof (cases "r = Inr () \<or> t_maxAttempts u \<le> t_attempt t")
    case True
    then have "t_status y \<in> {TCompleted, TDead}" using y(4) w(3) by auto
    with has_outcome_prefix [OF k2(3) left(2) [OF True]] row' inv' show ?thesis unfolding settled_def log by blast
  next
    case False
    then show ?thesis using y(3,4) w(3) t(5) row' inv' by (auto simp: still_open_def)
  qed
  then show ?thesis using t(1) p0 k1(3) k2(3) prefix_order.trans unfolding log by blast
qed

lemma attempts_end:
  assumes "llm_attempts u d k d'" "db_inv d" "step_asked u n (getEvents (t_workflowId u) d)"
    "still_open u (t_attempt u) d" "t_attempt u < t_maxAttempts u"
  shows "db_inv d' \<and> step_asked u n (getEvents (t_workflowId u) d')
    \<and> (settled u n d' \<and> t_attempt u + k \<le> t_maxAttempts u
       \<or> still_open u (t_attempt u + k) d' \<and> t_attempt u + k < t_maxAttempts u)"
  using assms(1)
proof (induction rule: llm_attempts.induct)
  case (between_attempts k d1 d2)
  then have m: "db_inv d2" "prefix (getEvents (t_workflowId u) d1) (getEvents (t_workflowId u) d2)"
    "\<And>v. task_row (t_id u) d1 v \<Longrightarrow>
       \<exists>v'. task_row (t_id u) d2 v' \<and> same_step v v' \<and> t_status v' = t_status v \<and> t_attempt v \<le> t_attempt v'"
    unfolding meanwhile_def by blast+
  have "settled u n d1 \<Longrightarrow> settled u n d2"
    using m has_outcome_prefix [OF m(2)] unfolding settled_def by metis
  moreover have "still_open u a d1 \<Longrightarrow> still_open u a d2" for a
    using m same_step_trans le_trans unfolding still_open_def by metis
  ultimately show ?case using between_attempts.IH m asked_prefix by blast
next
  case (next_attempt k d1 d2)
  then have d1: "db_inv d1" "step_asked u n (getEvents (t_workflowId u) d1)" by simp_all
  note step = attempt_step [OF next_attempt.hyps(2) d1(1) _ _ d1(2)]
  have inv2: "db_inv d2"
    if "task_row (t_id u) d1 v" "same_step u v" for v using step [OF that] unfolding settled_def still_open_def by blast
  from next_attempt.IH show ?case
  proof (elim conjE disjE)
    assume "settled u n d1"
    then obtain v where v: "task_row (t_id u) d1 v" "t_status v \<in> {TCompleted, TDead}" unfolding settled_def by blast
    from attempt_pending [OF next_attempt.hyps(2) d1(1) v(1)] v(2) show ?case by simp
  next
    assume "still_open u (t_attempt u + k) d1" and lt: "t_attempt u + k < t_maxAttempts u"
    then obtain v where v: "task_row (t_id u) d1 v" "same_step u v" "t_attempt u + k \<le> t_attempt v" unfolding still_open_def by blast
    note s = step [OF v(1,2)]
    have "still_open u (Suc (t_attempt v)) d2 \<Longrightarrow> still_open u (t_attempt u + Suc k) d2"
      using v(3) unfolding still_open_def by fastforce
    then show ?case using s lt v(3) inv2 [OF v(1,2)] asked_prefix [OF d1(2)] by auto
  qed
qed (use assms in simp)

text \<open>
  A worker that is killed in the middle of an attempt, after whatever it and the others committed,
  and whose lease the reaper takes back: one of the things that may happen meanwhile.
\<close>

lemma killed_attempt_meanwhile:
  assumes "dequeue now locked (poll_input capacity w) (db_tasks d) = (q, ts)" "t \<in> set ts" "t_id t = t_id u" "t_workflowId t = t_workflowId u"
    and "lease_kept (wc_workerId (wk_config w)) t (d\<lparr>db_tasks := q\<rparr>) d1"
    and "t_id t \<in> set (snd (reclaimExpired now' locked' limit (db_tasks d1)))"
  shows "meanwhile u d (d1\<lparr>db_tasks := fst (reclaimExpired now' locked' limit (db_tasks d1))\<rparr>)"
  unfolding meanwhile_def
proof (intro impI conjI allI)
  assume inv: "db_inv d"
  let ?d' = "d1\<lparr>db_tasks := fst (reclaimExpired now' locked' limit (db_tasks d1))\<rparr>"
  obtain x where "x \<in> set (tt_rows (db_tasks d))" "t_id x = t_id t"
    using assms(1,2) candidates_sub by (fastforce simp: dequeue_def Let_def lease_task_def)
  then have x: "task_row (t_id t) d x" by (simp add: task_row_def)
  note t = attempt_leased [OF assms(1,2) inv x]
  note k = lease_keptD [OF assms(5) t(2,6)]
  show "db_inv ?d'" by (rule queue_statement_inv(5) [OF k(1)])
  show "prefix (getEvents (t_workflowId u) d) (getEvents (t_workflowId u) ?d')" using k(3) assms(4) by (simp add: getEvents_def)
  fix v assume v: "task_row (t_id u) d v"
  then have "v = x" using one_task_row [OF inv _ x] assms(3) by simp
  from k(2) obtain y where y: "y \<in> set (tt_rows (db_tasks d1))" "same_step t y" "t_attempt y = t_attempt t" unfolding holds_lease_def by blast
  have "release_task y \<in> set (tt_rows (db_tasks ?d'))"
    using y assms(6) by (auto simp: reclaimExpired_def Let_def in_rows_update same_step_def intro!: bexI [of _ y])
  then show "\<exists>v'. task_row (t_id u) ?d' v' \<and> same_step v v' \<and> t_status v' = t_status v \<and> t_attempt v \<le> t_attempt v'"
    using y t \<open>v = x\<close> assms(3) by (intro exI [of _ "release_task y"]) (simp add: task_row_def release_task_def same_step_def)
qed

text \<open>
  C30: An LLM step comes to an end. Take a pending \<open>llm\<close> task with attempts left, whose step is in the
  history. Count the attempts that run to their end: the provider answers or throws, the worker is not
  killed and keeps its lease until the run settles. Whatever the providers answer or throw (as long as
  they leave the workflows to the engine), whichever workers take the task, whatever else is committed
  inside the attempts, and whatever happens between them, killed attempts included: after \<open>k\<close> of them
  either the history has an outcome of the step and its task is completed or dead, or the task is
  pending with at least that many more attempts counted and fewer than \<open>max_attempts\<close> were used. There
  are never more of them than \<open>max_attempts\<close> leaves, so the last one settles the step.
\<close>

theorem llm_step_terminates:
  assumes "llm_attempts u d k d'"
    and "db_inv d" "u \<in> set (tt_rows (db_tasks d))" "t_status u = TPending" "t_attempt u < t_maxAttempts u"
    and "step_asked u n (getEvents (t_workflowId u) d)"
  shows "k \<le> t_maxAttempts u - t_attempt u
    \<and> (settled u n d' \<or> t_attempt u + k < t_maxAttempts u \<and> still_open u (t_attempt u + k) d')"
proof -
  have "still_open u (t_attempt u) d"
    using assms(2-4) by (auto simp: still_open_def task_row_def same_step_def)
  from attempts_end [OF assms(1,2,6) this assms(5)] show ?thesis by auto
qed

definition down :: provider where
  "down rq cx d = (d, Inl (LlmProviderError ''down'' True ''server_error'' None))"

lemma down_frame: "provider_frame down"
  by (simp add: provider_frame_def down_def)

lemma asked_task:
  "map (\<lambda>t. (t_id t, t_status t, t_attempt t, t_maxAttempts t)) (tt_rows (db_tasks asked_db))
     = [(7, TLeased, 1, 3), (100, TPending, 0, 3)]"
  "map (\<lambda>t. (t_workflowId t, t_scheduledEventSeq t)) (tt_rows (db_tasks asked_db)) = [(''w1'', Some 1), (''w1'', Some 2)]"
  "map t_id (snd (dequeue 2000 [] (poll_input 1 plain_worker) (db_tasks asked_db))) = [100]"
  "has_outcome llm_outcome_types 2 (getEvents ''w1'' asked_db) = False"
  by code_simp+

lemma asked_db_inv: "db_inv asked_db"
proof -
  have run: "workflowReplayHandler clock0 id ask_workflows hash_only one_hash (sample_task TWorkflow 1) ask_db = (asked_db, Inr ())"
    using ask_run by (simp add: asked_db_def prod_eq_iff)
  from run show ?thesis
    by (cases rule: handler_runs) (use ask_db_ok(1) in \<open>auto dest!: append_tx_done(1) [OF ask_db_ok(1)] dest: appendedD(1)\<close>)
qed

theorem llm_step_terminates_witness:
  "\<exists>d' u. llm_attempts u asked_db 1 d' \<and> t_id u = 100 \<and> (settled u 2 d' \<or> still_open u 1 d')"
proof -
  have "\<exists>u \<in> set (tt_rows (db_tasks asked_db)). t_id u = 100 \<and> t_status u = TPending \<and> t_attempt u = 0
    \<and> t_maxAttempts u = 3 \<and> t_workflowId u = ''w1'' \<and> t_scheduledEventSeq u = Some 2"
    using asked_task(1,2) by (auto simp: map_eq_Cons_conv)
  then obtain u where u: "u \<in> set (tt_rows (db_tasks asked_db))" "t_id u = 100" "t_status u = TPending" "t_attempt u = 0"
    "t_maxAttempts u = 3" "t_workflowId u = ''w1''" "t_scheduledEventSeq u = Some 2" by blast
  obtain q ts where d: "dequeue 2000 [] (poll_input 1 plain_worker) (db_tasks asked_db) = (q, ts)" by fastforce
  with asked_task(3) obtain t where t: "t \<in> set ts" "t_id t = t_id u" using u(2) by (auto simp: map_eq_Cons_conv)
  obtain d1 r where run: "llmCallHandler clock0 (\<lambda>i. id) down ask_workflows hash_only one_hash t (asked_db\<lparr>db_tasks := q\<rparr>) = (d1, r)"
    by fastforce
  from llm_attempt.intros [OF d t lease_kept_refl down_frame _ run lease_kept_refl, of 0 2500] obtain d' where
    "llm_attempt (t_id u) asked_db d'" by auto
  then have d': "llm_attempts u asked_db 1 d'" using next_attempt [OF no_attempt] by simp
  obtain e1 e2 where log: "getEvents ''w1'' asked_db = [e1, e2]" "seq e1 = 1" "seq e2 = 2" "llm_requested_of e2 = Some ask_requested"
    using asked_log(2,3) by (auto simp del: llm_requested_of.simps)
  have "step_asked u 2 (getEvents (t_workflowId u) asked_db)"
    using u(6,7) log by (simp add: step_asked_def del: llm_requested_of.simps)
  from llm_step_terminates [OF d' asked_db_inv u(1,3) _ this] d' u
  show ?thesis by (intro exI [of _ d'] exI [of _ u]) auto
qed

end
