(* ===== verification/System.thy ===== *)
theory System
  imports ToolSteps StepRetry
begin

section \<open>All processes on one database\<close>

text \<open>
  The engine is a set of processes that share nothing but the database: clients that start, signal and
  cancel workflows, workers of every task type (each with its own registries, provider, configuration
  and version of the code), reapers and operators. \<open>sys_step\<close> is one of their runs. Inside a run,
  \<open>between\<close> and \<open>gap\<close> are what other processes commit meanwhile: any sequence of their steps. A process
  killed at any point leaves what it committed, which is a run that stopped earlier or a step of its
  own (\<open>sys_start_killed\<close>); a run whose transaction did not commit leaves no trace.
\<close>

subsection \<open>What the processes may be\<close>

text \<open>A provider that writes nothing but its audit.\<close>

definition provider_ok :: "provider \<Rightarrow> bool" where
  "provider_ok p \<longleftrightarrow> (\<forall>rq cx d d' r. p rq cx d = (d', r) \<longrightarrow>
     (\<exists>calls. d' = d\<lparr>db_providerCalls := db_providerCalls d @ calls\<rparr>))"

text \<open>Tools that write one row of their step through the transaction they are given.\<close>

definition tools_ok :: "tool_registry \<Rightarrow> bool" where
  "tools_ok reg \<longleftrightarrow> (\<forall>name tool. get_tool reg name = Some tool \<longrightarrow> one_effect (tl_handler tool))"

text \<open>A task as some worker has it: the columns that never change are those of the row.\<close>

definition same_task :: "task \<Rightarrow> task \<Rightarrow> bool" where
  "same_task u t \<longleftrightarrow> t_id t = t_id u \<and> t_taskType t = t_taskType u \<and> t_workflowId t = t_workflowId u
     \<and> t_scheduledEventSeq t = t_scheduledEventSeq u"

definition handed_out :: "task \<Rightarrow> db \<Rightarrow> bool" where
  "handed_out t d \<longleftrightarrow> (\<exists>u \<in> set (tt_rows (db_tasks d)). same_task u t)"

text \<open>The statements on the queue outside the event store, which alone enqueues, and outside the runs.\<close>

inductive lease_step :: "task_table \<Rightarrow> task_table \<Rightarrow> bool" where
  "lease_step q (fst (dequeue now locked inp q))"
| "lease_step q (fst (heartbeat now ids w secs q))"
| "lease_step q (fst (reclaimExpired now locked limit q))"
| "lease_step q (fst (requeueDeadTask now i q))"

subsection \<open>Steps\<close>

text \<open>
  The run of the handler for a task's type, while others commit what \<open>S\<close> allows; a worker has one
  handler for its type.
\<close>

inductive run_of :: "(db \<Rightarrow> db \<Rightarrow> bool) \<Rightarrow> task \<Rightarrow> db \<Rightarrow> unit outcome_db \<Rightarrow> bool" for S where
  run_workflow: "t_taskType t = TWorkflow \<Longrightarrow> \<forall>e. S e (between e) \<Longrightarrow>
     run_of S t d (workflowReplayHandler ck between wfs cfg sha t d)"
| run_activity: "t_taskType t = TActivity \<Longrightarrow> \<forall>e. S e (between e) \<Longrightarrow> run_of S t d (activityHandler ck between acts t d)"
| run_timer: "t_taskType t = TTimer \<Longrightarrow> run_of S t d (timerHandler ck t d)"
| run_llm: "t_taskType t = TLlm \<Longrightarrow> \<forall>i e. S e (gap i e) \<Longrightarrow> provider_ok p \<Longrightarrow>
     run_of S t d (llmCallHandler ck gap p wfs cfg sha t d)"
| run_tool: "t_taskType t = TTool \<Longrightarrow> \<forall>i e. S e (gap i e) \<Longrightarrow> tools_ok reg \<Longrightarrow>
     run_of S t d (toolCallHandler ck gap lat reg sha t d)"

lemma run_of_mono [mono]:
  assumes "\<And>x y. A x y \<longrightarrow> B x y"
  shows "run_of A t d x \<longrightarrow> run_of B t d x"
proof
  assume "run_of A t d x"
  then show "run_of B t d x" by (induction rule: run_of.induct) (use assms in \<open>blast intro: run_of.intros\<close>)+
qed

text \<open>
  A run whose worker is killed before it settles the task (\<open>sys_killed\<close>), and one that settles it
  (\<open>sys_settled\<close>).
\<close>

inductive sys_step :: "db \<Rightarrow> db \<Rightarrow> bool" where
  sys_start: "\<forall>e. sys_step\<^sup>*\<^sup>* e (between e) \<Longrightarrow> startWorkflow ck between w ty inp d = (d', r) \<Longrightarrow> sys_step d d'"
| sys_start_killed: "insert_execution ck w ty inp d = (d', r) \<Longrightarrow> sys_step d d'"
| sys_signal: "sendSignal ck w n p d = (d', r) \<Longrightarrow> sys_step d d'"
| sys_cancel: "cancelWorkflow ck w reason d = (d', r) \<Longrightarrow> sys_step d d'"
| sys_killed: "handed_out t d \<Longrightarrow> run_of sys_step\<^sup>*\<^sup>* t d (d', r) \<Longrightarrow> sys_step d d'"
| sys_settled: "handed_out t d \<Longrightarrow> run_of sys_step\<^sup>*\<^sup>* t d (d1, r) \<Longrightarrow> sys_step\<^sup>*\<^sup>* d1 d2 \<Longrightarrow>
     sys_step d (d2\<lparr>db_tasks := fst (run_settles now rnd w t r (db_tasks d2))\<rparr>)"
| sys_queue: "lease_step (db_tasks d) q \<Longrightarrow> sys_step d (d\<lparr>db_tasks := q\<rparr>)"
| sys_leader: "sys_step d (recordLeadership ck leaderId d)"

text \<open>The database after the migrations.\<close>

definition empty_db :: db where
  "empty_db = \<lparr>db_executions = [], db_events = [], db_tasks = \<lparr>tt_rows = [], tt_nextId = 1\<rparr>, db_toolExecutions = [],
     db_sideEffects = [], db_providerCalls = [], db_leader = None\<rparr>"

definition reachable :: "db \<Rightarrow> bool" where
  "reachable d \<longleftrightarrow> sys_step\<^sup>*\<^sup>* empty_db d"

subsection \<open>The invariant\<close>

text \<open>What an event asks a worker for, and what kind of task an outcome answers.\<close>

fun requests :: "wf_event \<Rightarrow> task_type option" where
  "requests (ActivityScheduled t i) = Some TActivity"
| "requests (TimerScheduled f) = Some TTimer"
| "requests (LLM_REQUESTED a b c d e) = Some TLlm"
| "requests (TOOL_REQUESTED a b c d e) = Some TTool"
| "requests _ = None"

fun answers :: "wf_event \<Rightarrow> task_type option" where
  "answers (ActivityCompleted n r) = Some TActivity"
| "answers (ActivityFailed n e) = Some TActivity"
| "answers (TimerFired n) = Some TTimer"
| "answers (LLM_COMPLETED a n b c d e f g h i j k) = Some TLlm"
| "answers (LLM_FAILED a n b c d e) = Some TLlm"
| "answers (TOOL_COMPLETED a n b c d e) = Some TTool"
| "answers (TOOL_FAILED a n b c d e f) = Some TTool"
| "answers _ = None"

text \<open>Every outcome comes after the request it names; durable steps have at most one.\<close>

definition answers_requests :: "stored_event list \<Rightarrow> bool" where
  "answers_requests h \<longleftrightarrow> (\<forall>e \<in> set h. \<forall>k. answers (event e) = Some k \<longrightarrow>
     (\<exists>r \<in> set h. seq r < seq e \<and> event_ref (event e) = Some (seq r) \<and> requests (event r) = Some k))"

definition one_outcome :: "stored_event list \<Rightarrow> bool" where
  "one_outcome h \<longleftrightarrow> (\<forall>e \<in> set h. \<forall>e' \<in> set h. \<forall>k \<in> {TLlm, TTool}. answers (event e) = Some k
     \<and> answers (event e') = Some k \<and> event_ref (event e) = event_ref (event e') \<longrightarrow> e = e')"

definition request_at :: "task_type \<Rightarrow> nat \<Rightarrow> stored_event list \<Rightarrow> bool" where
  "request_at k n h \<longleftrightarrow> (\<exists>r \<in> set h. seq r = n \<and> requests (event r) = Some k)"

definition answered_at :: "task_type \<Rightarrow> nat \<Rightarrow> stored_event list \<Rightarrow> bool" where
  "answered_at k n h \<longleftrightarrow> (\<exists>e \<in> set h. answers (event e) = Some k \<and> event_ref (event e) = Some n)"

text \<open>
  The tasks of steps and the requests in the logs are the same: every task stands for a request, every
  request has exactly one task.
\<close>

definition tasks_requested :: "db \<Rightarrow> bool" where
  "tasks_requested d \<longleftrightarrow> (\<forall>t \<in> set (tt_rows (db_tasks d)). t_taskType t \<noteq> TWorkflow \<longrightarrow>
     (\<exists>n. t_scheduledEventSeq t = Some n \<and> request_at (t_taskType t) n (getEvents (t_workflowId t) d)))"

definition step_tasks :: "task_type \<Rightarrow> string \<Rightarrow> nat \<Rightarrow> db \<Rightarrow> nat" where
  "step_tasks k w n d = row_count (\<lambda>t. t_taskType t = k \<and> t_workflowId t = w \<and> t_scheduledEventSeq t = Some n) (db_tasks d)"

definition queued_once :: "db \<Rightarrow> bool" where
  "queued_once d \<longleftrightarrow> (\<forall>k w n. request_at k n (getEvents w d) \<longrightarrow> step_tasks k w n d = 1)"

text \<open>A completed task of a step has the outcome of its step.\<close>

definition completed_answered :: "db \<Rightarrow> bool" where
  "completed_answered d \<longleftrightarrow> (\<forall>t \<in> set (tt_rows (db_tasks d)). t_taskType t \<noteq> TWorkflow \<and> t_status t = TCompleted \<longrightarrow>
     (\<exists>n. t_scheduledEventSeq t = Some n \<and> answered_at (t_taskType t) n (getEvents (t_workflowId t) d)))"

definition completed_in_ledger :: "db \<Rightarrow> bool" where
  "completed_in_ledger d \<longleftrightarrow> (\<forall>w. \<forall>e \<in> set (getEvents w d). \<forall>i n tool v lat att.
     event e = TOOL_COMPLETED i n tool v lat att \<longrightarrow> ledger_row w i d \<noteq> None)"

definition effects_in_ledger :: "db \<Rightarrow> bool" where
  "effects_in_ledger d \<longleftrightarrow> (\<forall>w i. length (step_effects w i d) = (if ledger_row w i d = None then 0 else 1))"

definition sys_inv :: "db \<Rightarrow> bool" where
  "sys_inv d \<longleftrightarrow> db_inv d \<and> (\<forall>w. answers_requests (getEvents w d) \<and> one_outcome (getEvents w d))
     \<and> tasks_requested d \<and> queued_once d \<and> completed_answered d \<and> completed_in_ledger d \<and> effects_in_ledger d"

text \<open>What no step takes back.\<close>

definition extends :: "db \<Rightarrow> db \<Rightarrow> bool" where
  "extends d d' \<longleftrightarrow> (\<forall>w. prefix (getEvents w d) (getEvents w d'))
     \<and> (\<forall>w i. ledger_row w i d \<noteq> None \<longrightarrow> ledger_row w i d' \<noteq> None)
     \<and> (\<forall>t. handed_out t d \<longrightarrow> handed_out t d')"

definition sound_step :: "db \<Rightarrow> db \<Rightarrow> bool" where
  "sound_step d d' \<longleftrightarrow> (sys_inv d \<longrightarrow> sys_inv d' \<and> extends d d')"

end
