(* ===== verification/HandlerRaces.thy ===== *)
theory HandlerRaces
  imports HandlerProps
begin

section \<open>Handlers and concurrent commits\<close>

text \<open>
  What happens when other connections commit between the read of a handler and its transaction, or
  between its transaction and the completion of its task: outcomes of activities, tasks completed
  past an event, workflows that continue after their end, workflows that were created but not started.
\<close>

subsection \<open>Activities\<close>

lemma activity_result_facts:
  "no_proto_events [activity_result n r]" "event_ref (activity_result n r) = Some n"
  "event_type (activity_result n r) \<in> set activity_outcome_types" "\<not> is_terminal (activity_result n r)"
  by (cases r; simp add: no_proto_events_def activity_outcome_types_def)+

lemma activity_handler_appends:
  assumes "t_scheduledEventSeq t = Some n"
    and "find (\<lambda>e. seq e = n) (getEvents (t_workflowId t) d) = Some e" "event e = ActivityScheduled ty inp"
    and "\<not> has_outcome activity_outcome_types n (getEvents (t_workflowId t) d)"
    and "registry_get acts ty = Some fn"
    and "db_inv (between d)" "t_workflowId t \<in> set (execution_ids (between d))"
  shows "\<exists>d'. activityHandler ck between acts t d = (d', Inr ())
    \<and> appended ck (t_workflowId t) [activity_result n (fn inp (t_workflowId t @ '':'' @ show_nat n))] (between d) d'"
proof -
  have "activityHandler ck between acts t d
      = append_tx ck (t_workflowId t) [activity_result n (fn inp (t_workflowId t @ '':'' @ show_nat n))] (between d)"
    using assms(1-5) by (simp add: activityHandler_def Let_def)
  with append_tx_ok [OF assms(6) _ assms(7) activity_result_facts(1)] show ?thesis by (metis list.distinct(1))
qed

text \<open>
  What the activity handler does. It refuses a task without a scheduled event, one whose event
  is not an \<open>ActivityScheduled\<close>, or an unregistered type, and changes nothing; it changes nothing if
  the history it read has an outcome; otherwise it calls the activity with the recorded input and
  the key \<open>workflow:seq\<close>, and appends its result, or the message of what it threw, to whatever the
  log has become. It never checks that it still owns the lease.
\<close>

theorem activity_handler_effect:
  assumes "t_scheduledEventSeq t = Some n" "db_inv (between d)" "t_workflowId t \<in> set (execution_ids (between d))"
  shows "case find (\<lambda>e. seq e = n) (getEvents (t_workflowId t) d) of
      Some e \<Rightarrow> (case event e of
          ActivityScheduled ty inp \<Rightarrow>
            if has_outcome activity_outcome_types n (getEvents (t_workflowId t) d)
            then activityHandler ck between acts t d = (d, Inr ())
            else (case registry_get acts ty of
                None \<Rightarrow> \<exists>err. activityHandler ck between acts t d = (d, Inl err)
              | Some fn \<Rightarrow> \<exists>d'. activityHandler ck between acts t d = (d', Inr ()) \<and> db_inv d'
                  \<and> getEvents (t_workflowId t) d' = getEvents (t_workflowId t) (between d)
                      @ [\<lparr>seq = Suc (length (getEvents (t_workflowId t) (between d))),
                          event = event_trip (activity_result n (fn inp (t_workflowId t @ '':'' @ show_nat n)))\<rparr>])
        | _ \<Rightarrow> \<exists>err. activityHandler ck between acts t d = (d, Inl err))
    | None \<Rightarrow> \<exists>err. activityHandler ck between acts t d = (d, Inl err)"
proof (cases "find (\<lambda>e. seq e = n) (getEvents (t_workflowId t) d)")
  case None
  then show ?thesis using assms(1) by (simp add: activityHandler_def Let_def)
next
  case e: (Some e)
  show ?thesis
  proof (cases "activity_of e")
    case None
    then have "\<exists>err. activityHandler ck between acts t d = (d, Inl err)" "\<nexists>ty inp. event e = ActivityScheduled ty inp"
      using assms(1) e by (auto simp: activityHandler_def Let_def)
    then show ?thesis using e by (auto split: wf_event.splits)
  next
    case (Some ti)
    then obtain ty inp where ev: "event e = ActivityScheduled ty inp" by (auto split: wf_event.splits)
    show ?thesis
    proof (cases "has_outcome activity_outcome_types n (getEvents (t_workflowId t) d) \<or> registry_get acts ty = None")
      case True
      then show ?thesis using assms(1) e ev by (auto simp: activityHandler_def Let_def)
    next
      case False
      then obtain fn where fn: "registry_get acts ty = Some fn" by auto
      from activity_handler_appends [where between = between and ck = ck, OF assms(1) e ev _ fn assms(2,3)] False obtain d' where
        "activityHandler ck between acts t d = (d', Inr ())"
        "appended ck (t_workflowId t) [activity_result n (fn inp (t_workflowId t @ '':'' @ show_nat n))] (between d) d'" by auto
      with appended_one [OF this(2)] appendedD(1) [OF this(2)] False fn show ?thesis by (simp add: e ev)
    qed
  qed
qed

definition ok_activity :: activity_fn where
  "ok_activity inp key = Inr (JStr ''ok'')"

definition failing_activity :: activity_fn where
  "failing_activity inp key = Inl ''card declined''"

theorem activity_handler_effect_witness:
  "\<exists>d'. activityHandler clock0 id [(''reserve'', ok_activity)] (sample_task TActivity 2) waiting_db = (d', Inr ())
     \<and> getEvents ''w1'' d' = getEvents ''w1'' waiting_db @ [\<lparr>seq = 3, event = ActivityCompleted 2 (JStr ''ok'')\<rparr>]"
proof -
  have h: "getEvents ''w1'' waiting_db = log_from [WorkflowStarted ''two'' JNull, ActivityScheduled ''reserve'' JNull]"
    by (simp add: waiting_db_def sample_db)
  have "db_inv waiting_db" "''w1'' \<in> set (execution_ids waiting_db)" "t_scheduledEventSeq (sample_task TActivity 2) = Some 2"
    by (simp_all add: waiting_db_def sample_db no_proto_events_def) (simp add: sample_task_def)
  with activity_handler_effect [of "sample_task TActivity 2" 2 id waiting_db clock0 "[(''reserve'', ok_activity)]"]
  show ?thesis
    by (auto simp: h log_from_def has_outcome_def registry_get_def ok_activity_def numeral_2_eq_2 numeral_3_eq_3)
qed

text \<open>
  An activity can get two outcomes, and the later one wins. When the lease of a running activity
  is reclaimed and a second worker runs it too, both record their outcome, since nothing is checked
  in the transaction: the log ends with both, whoever owns the task, and from then on replay serves
  the second, whatever the workflow function has already seen of the first.
\<close>

theorem activity_outcome_not_fenced:
  assumes "t_scheduledEventSeq t = Some n" "t_workflowId u = t_workflowId t" "t_scheduledEventSeq u = Some n"
    and "find (\<lambda>e. seq e = n) (getEvents (t_workflowId t) d) = Some e" "event e = ActivityScheduled ty inp"
    and "\<not> has_outcome activity_outcome_types n (getEvents (t_workflowId t) d)"
    and "registry_get acts ty = Some fn" "registry_get acts' ty = Some fn'"
    and "db_inv d" "t_workflowId t \<in> set (execution_ids d)"
  shows "\<exists>d2. activityHandler ck (\<lambda>d. fst (activityHandler ck' id acts' u d)) acts t d = (d2, Inr ())
    \<and> map event (getEvents (t_workflowId t) d2) = map event (getEvents (t_workflowId t) d)
        @ [event_trip (activity_result n (fn' inp (t_workflowId t @ '':'' @ show_nat n))),
           event_trip (activity_result n (fn inp (t_workflowId t @ '':'' @ show_nat n)))]
    \<and> ri_outcomeBySeq (index_history hash (getEvents (t_workflowId t) d2)) n
        = Some (case fn inp (t_workflowId t @ '':'' @ show_nat n) of Inl m \<Rightarrow> Inl m | Inr v \<Rightarrow> Inr (json_trip v))"
proof -
  let ?k = "t_workflowId t @ '':'' @ show_nat n" and ?w = "t_workflowId t"
  obtain d1 where d1: "activityHandler ck' id acts' u d = (d1, Inr ())"
    "appended ck' ?w [activity_result n (fn' inp ?k)] d d1"
    using activity_handler_appends [OF assms(3), of d e ty inp acts' fn' id ck'] assms by auto
  let ?b = "\<lambda>d. fst (activityHandler ck' id acts' u d)"
  have b: "?b d = d1" using d1(1) by simp
  obtain d2 where d2: "activityHandler ck ?b acts t d = (d2, Inr ())"
    "appended ck ?w [activity_result n (fn inp ?k)] d1 d2"
    using activity_handler_appends [OF assms(1,4,5,6,7), of ?b ck] assms(9,10) appendedD(1,3) [OF d1(2)] unfolding b by auto
  have log: "getEvents ?w d2 = getEvents ?w d @ [\<lparr>seq = Suc (length (getEvents ?w d)), event = event_trip (activity_result n (fn' inp ?k))\<rparr>,
      \<lparr>seq = Suc (Suc (length (getEvents ?w d))), event = event_trip (activity_result n (fn inp ?k))\<rparr>]"
    using appended_one [OF d1(2)] appended_one [OF d2(2)] by simp
  have "ri_outcomeBySeq (index_history hash (getEvents ?w d2)) n
        = Some (case fn inp ?k of Inl m \<Rightarrow> Inl m | Inr v \<Rightarrow> Inr (json_trip v))"
    unfolding log index_history_def by (cases "fn inp ?k") (simp_all add: outcome_step_def)
  with d2(1) log show ?thesis by simp
qed

theorem activity_outcome_not_fenced_witness:
  "\<exists>d2. activityHandler clock0 (\<lambda>d. fst (activityHandler clock0 id [(''reserve'', ok_activity)] (sample_task TActivity 2) d))
       [(''reserve'', failing_activity)] (sample_task TActivity 2) waiting_db = (d2, Inr ())
     \<and> ri_outcomeBySeq (index_history None (getEvents ''w1'' d2)) 2 = Some (Inl ''card declined'')"
proof -
  have h: "getEvents ''w1'' waiting_db = log_from [WorkflowStarted ''two'' JNull, ActivityScheduled ''reserve'' JNull]"
    by (simp add: waiting_db_def sample_db)
  have s: "t_scheduledEventSeq (sample_task TActivity 2) = Some 2" by (simp add: sample_task_def)
  have f: "find (\<lambda>e. seq e = 2) (getEvents ''w1'' waiting_db) = Some \<lparr>seq = 2, event = ActivityScheduled ''reserve'' JNull\<rparr>"
    "\<not> has_outcome activity_outcome_types 2 (getEvents ''w1'' waiting_db)"
    by (simp_all add: h log_from_def has_outcome_def numeral_2_eq_2)
  have i: "db_inv waiting_db" "''w1'' \<in> set (execution_ids waiting_db)"
    by (simp_all add: waiting_db_def sample_db no_proto_events_def)
  from activity_outcome_not_fenced [of "sample_task TActivity 2" 2 "sample_task TActivity 2" waiting_db, unfolded sample_task_w,
      OF s refl s f(1) _ f(2) _ _ i, of "''reserve''" JNull "[(''reserve'', failing_activity)]" failing_activity
      "[(''reserve'', ok_activity)]" ok_activity clock0 clock0 None]
  show ?thesis by (auto simp: registry_get_def failing_activity_def)
qed

subsection \<open>The workflow task\<close>

lemma complete_no_live:
  assumes "task_inv (db_tasks d)" "u \<in> set (tt_rows (db_tasks d))" "live_workflow_task u" "leased_to worker u"
  shows "snd (complete (t_id u) worker (db_tasks d))"
    and "\<not> has_live_workflow_task (t_workflowId u) (d\<lparr>db_tasks := fst (complete (t_id u) worker (db_tasks d))\<rparr>)"
proof -
  let ?P = "\<lambda>t. t_id t = t_id u \<and> leased_to worker t"
  have "filter ?P (tt_rows (db_tasks d)) \<noteq> []" using assms(2,4) by (auto simp: filter_empty_conv)
  then show "snd (complete (t_id u) worker (db_tasks d))" by (simp add: complete_def Let_def row_count_def)
  show "\<not> has_live_workflow_task (t_workflowId u) (d\<lparr>db_tasks := fst (complete (t_id u) worker (db_tasks d))\<rparr>)"
  proof
    assume "has_live_workflow_task (t_workflowId u) (d\<lparr>db_tasks := fst (complete (t_id u) worker (db_tasks d))\<rparr>)"
    then obtain t where t: "t \<in> set (tt_rows (db_tasks d))"
      "live_workflow_task (if ?P t then t\<lparr>t_status := TCompleted\<rparr> else t)" "t_workflowId t = t_workflowId u"
      by (auto simp: has_live_workflow_task_def complete_def Let_def in_rows_update split: if_splits)
    then have not: "\<not> ?P t" by (auto simp: live_workflow_task_def split: if_splits)
    with t have live: "live_workflow_task t" by simp
    have "t_id t = t_id u"
      using assms(1) t(1,3) live assms(2,3) unfolding task_inv_def by blast
    then have "t = u" using inv_distinct [OF assms(1)] t(1) assms(2) by (auto simp: distinct_map inj_on_def)
    with not assms(4) show False by simp
  qed
qed

text \<open>
  A wakeup can be lost. While a worker handles the workflow task of a workflow that waits (its
  replay of the history it read asks for nothing), an event is appended: the append enqueues no
  workflow task, because the leased one is live. When the worker then completes its task, which
  succeeds, the event is in the log, no replay has seen it, and the workflow has no live workflow
  task: it stays as it is until something else is appended.
\<close>

theorem wakeup_lost:
  assumes "db_inv d" "u \<in> set (tt_rows (db_tasks d))" "live_workflow_task u" "leased_to worker u"
    and "find_map started_of (getEvents (t_workflowId u) d) = Some (ty, inp)" "registry_get wfs ty = Some fn"
    and "find_map cancellation_of (getEvents (t_workflowId u) d) = None"
    and "replay fn inp (getEvents (t_workflowId u) d) (Some hash) = Inr r" "rr_commands r = []"
    and "append_tx ck' (t_workflowId u) [ev] d = (d1, Inr ())"
  shows "workflowReplayHandler ck between wfs llm hash u d = (d, Inr ())
    \<and> snd (complete (t_id u) worker (db_tasks d1))
    \<and> (let d2 = d1\<lparr>db_tasks := fst (complete (t_id u) worker (db_tasks d1))\<rparr> in
        getEvents (t_workflowId u) d2 = getEvents (t_workflowId u) d
          @ [\<lparr>seq = Suc (length (getEvents (t_workflowId u) d)), event = event_trip ev\<rparr>]
        \<and> \<not> has_live_workflow_task (t_workflowId u) d2)"
proof -
  note a = append_tx_done(1) [OF assms(1,10)]
  have u: "u \<in> set (tt_rows (db_tasks d1))" using a assms(2) unfolding appended_def by auto
  note c = complete_no_live [OF db_invD(3) [OF appendedD(1) [OF a]] u assms(3,4)]
  show ?thesis
    using handler_waits [OF assms(5,6) disjI1 [OF assms(7)] assms(8,9)] c appended_one [OF a]
    by (simp add: Let_def getEvents_def)
qed

lemma two_steps_waits:
  "replay two_steps JNull (log_from [WorkflowStarted ''two'' JNull, ActivityScheduled ''reserve'' JNull]) (Some id) = Inr
     \<lparr>rr_status = RpRUNNING, rr_result = JUndef, rr_error = None, rr_commands = [], rr_pendingLlmRequests = []\<rparr>"
  by (simp add: replay_eval log_from_def)

definition leased_workflow_db :: db where
  "leased_workflow_db = sample_db [WorkflowStarted ''two'' JNull, ActivityScheduled ''reserve'' JNull] TWorkflow 0"

theorem wakeup_lost_witness:
  "\<exists>d1. append_tx clock0 ''w1'' [ActivityCompleted 2 JNull] leased_workflow_db = (d1, Inr ())
     \<and> \<not> has_live_workflow_task ''w1'' (d1\<lparr>db_tasks := fst (complete 7 ''worker-a'' (db_tasks d1))\<rparr>)"
proof -
  let ?u = "sample_task TWorkflow 0"
  have h: "getEvents ''w1'' leased_workflow_db = log_from [WorkflowStarted ''two'' JNull, ActivityScheduled ''reserve'' JNull]"
    and i: "db_inv leased_workflow_db" and e: "execution_ids leased_workflow_db = [''w1'']"
    by (simp_all add: leased_workflow_db_def sample_db no_proto_events_def)
  have u: "?u \<in> set (tt_rows (db_tasks leased_workflow_db))" "live_workflow_task ?u" "leased_to ''worker-a'' ?u" "t_id ?u = 7"
    by (simp_all add: leased_workflow_db_def sample_db_def db_of_def live_workflow_task_def leased_to_def sample_task_def)
  obtain d1 where d1: "append_tx clock0 ''w1'' [ActivityCompleted 2 JNull] leased_workflow_db = (d1, Inr ())"
    using append_tx_ok [OF i, of "[ActivityCompleted 2 JNull]" "''w1''" clock0] by (auto simp: e no_proto_events_def)
  have s: "find_map started_of (getEvents ''w1'' leased_workflow_db) = Some (''two'', JNull)"
    "find_map cancellation_of (getEvents ''w1'' leased_workflow_db) = None"
    "registry_get [(''two'', two_steps)] ''two'' = Some two_steps"
    by (simp_all add: h log_from_def registry_get_def)
  from wakeup_lost [of leased_workflow_db ?u, unfolded sample_task_w, OF i u(1-3) s(1) s(3) s(2),
      unfolded h, OF two_steps_waits _ d1] d1 u(4)
  show ?thesis by (auto simp: Let_def)
qed

text \<open>
  The end of a workflow is not final. The handler checks for a terminal event only before it
  obeys a cancellation; when any later event (an activity's outcome, a signal) wakes a workflow that
  was canceled, has failed or has completed, the handler replays it and commits what comes out: new
  activities are scheduled, and a workflow whose function now returns becomes \<open>COMPLETED\<close> although
  the log says it was canceled.
\<close>

theorem ended_workflow_continues:
  assumes "find_map started_of (getEvents (t_workflowId t) d) = Some (ty, inp)" "registry_get wfs ty = Some fn"
    and "alreadyTerminal (getEvents (t_workflowId t) d)"
    and "replay fn inp (getEvents (t_workflowId t) d) (Some hash) = Inr r" "rr_commands r \<noteq> []"
    and "commands_events ck llm (rr_commands r) = Inr events"
    and "db_inv (between d)" "t_workflowId t \<in> set (execution_ids (between d))"
  shows "\<exists>d'. workflowReplayHandler ck between wfs llm hash t d = (d', Inr ())
    \<and> map event (getEvents (t_workflowId t) d') = map event (getEvents (t_workflowId t) (between d)) @ map event_trip events
    \<and> (\<forall>v. rr_commands r = [CompleteWorkflow v] \<longrightarrow>
         (\<forall>x \<in> set (db_executions d'). ex_id x = t_workflowId t \<longrightarrow> ex_status x = COMPLETED))"
proof -
  note all2 = commands_events_all2 [OF assms(6)]
  have "no_proto_events events"
    by (rule iffD2 [OF no_proto_events_list]) (use list_all2_in_right [OF all2] commandToEvent_kind in blast)
  moreover have "events \<noteq> []" using all2 assms(5) by auto
  ultimately obtain d' where d': "append_tx ck (t_workflowId t) events (between d) = (d', Inr ())"
    "appended ck (t_workflowId t) events (between d) d'"
    using append_tx_ok [OF assms(7) _ assms(8)] by blast
  have "map event (map trip_stored (number_events n events)) = map event_trip events" for n
    by (induction events arbitrary: n) (simp_all add: trip_stored_def)
  with appendedD(4) [OF d'(2)]
  have log: "map event (getEvents (t_workflowId t) d') = map event (getEvents (t_workflowId t) (between d)) @ map event_trip events"
    by simp
  have "ex_status x = COMPLETED" if "rr_commands r = [CompleteWorkflow v]" "x \<in> set (db_executions d')" "ex_id x = t_workflowId t" for v x
  proof -
    from that(1) assms(6) have ev: "events = [WorkflowCompleted v]" by simp
    from appended_one [OF d'(2) [unfolded ev]] appended_status [OF d'(2) that(2,3)]
    show ?thesis by (simp add: log_status_append)
  qed
  with log handler_commits [OF assms(1,2) disjI2 [OF assms(3)] assms(4-6)] d'(1) show ?thesis by auto
qed

definition canceled_log :: "wf_event list" where
  "canceled_log = [WorkflowStarted ''one'' JNull, ActivityScheduled ''reserve'' JNull, CancellationRequested None,
     WorkflowCanceled None, ActivityCompleted 2 JNull]"

definition one_step :: workflow_fn where
  "one_step inp = await_call (ScheduleActivityCall ''reserve'' inp) Ret"

theorem ended_workflow_continues_witness:
  "\<exists>d'. workflowReplayHandler clock0 id [(''one'', one_step)] small_config id (sample_task TWorkflow 0)
       (sample_db canceled_log TWorkflow 0) = (d', Inr ())
     \<and> (\<forall>x \<in> set (db_executions d'). ex_id x = ''w1'' \<longrightarrow> ex_status x = COMPLETED)"
proof -
  have r: "replay one_step JNull (log_from canceled_log) (Some id) = Inr \<lparr>rr_status = RpCOMPLETED, rr_result = JNull,
      rr_error = None, rr_commands = [CompleteWorkflow JNull], rr_pendingLlmRequests = []\<rparr>"
    by (simp add: replay_eval one_step_def canceled_log_def log_from_def)
  have s: "find_map started_of (log_from canceled_log) = Some (''one'', JNull)" "alreadyTerminal (log_from canceled_log)"
    "registry_get [(''one'', one_step)] ''one'' = Some one_step" "db_inv (sample_db canceled_log TWorkflow 0)"
    by (simp_all add: canceled_log_def log_from_def registry_get_def alreadyTerminal_def sample_db no_proto_events_def)
  from ended_workflow_continues [of "sample_task TWorkflow 0" "sample_db canceled_log TWorkflow 0", unfolded sample_task_w sample_db,
      OF s(1,3,2) r, of clock0 small_config "[WorkflowCompleted JNull]" id] s(4)
  show ?thesis by (auto simp: sample_db)
qed

subsection \<open>Starting, signalling\<close>

lemma insert_execution_ok:
  assumes "db_inv d" "w \<notin> set (execution_ids d)" "stringify inp \<noteq> None"
  obtains d1 where "insert_execution ck w ty inp d = (d1, Inr ())" "db_inv d1" "execution_ids d1 = execution_ids d @ [w]"
    "getEvents w d1 = []" "\<not> has_live_workflow_task w d1" "db_tasks d1 = db_tasks d"
    "\<forall>x \<in> set (db_executions d1). ex_id x = w \<longrightarrow> ex_status x = RUNNING"
proof -
  let ?x = "\<lparr>ex_id = w, ex_workflowType = ty, ex_input = json_trip inp, ex_status = RUNNING,
      ex_createdAt = ck_now ck, ex_updatedAt = ck_now ck\<rparr>"
  let ?d = "d\<lparr>db_executions := db_executions d @ [?x]\<rparr>"
  have log: "log_of v ?d = log_of v d" for v by (simp add: log_of_def)
  have new: "log_of w d = []" using db_invD(4) [OF assms(1)] assms(2) by (auto simp: log_of_def filter_empty_conv)
  have ids: "execution_ids ?d = execution_ids d @ [w]" by (simp add: execution_ids_def)
  have inv: "db_inv ?d" by (rule new_execution_inv [OF assms(1)]) (simp_all add: assms(2))
  have "insert_execution ck w ty inp d = (?d, Inr ())" using assms(2,3) by (auto simp: insert_execution_def)
  moreover have "getEvents w ?d = []" using getEvents_inv [OF inv] log new by simp
  moreover have "\<not> has_live_workflow_task w ?d"
    using db_invD(5) [OF assms(1)] assms(2) by (auto simp: has_live_workflow_task_def)
  moreover have "\<forall>x \<in> set (db_executions ?d). ex_id x = w \<longrightarrow> ex_status x = RUNNING"
    using assms(2) by (auto simp: execution_ids_def)
  ultimately show thesis using that inv ids by simp
qed

text \<open>
  Starting a workflow works, in two commits with a window between them. With a fresh id and an
  input that has a JSON text, \<open>startWorkflow\<close> leaves a \<open>RUNNING\<close> workflow with exactly
  \<open>WorkflowStarted\<close> in its log and a live workflow task. But the row is committed first: a crash
  in between leaves a workflow that is \<open>RUNNING\<close>, has no event and no task, and that nothing will
  ever run. Without a JSON text (the input is \<open>undefined\<close>) it throws and changes nothing.
\<close>

theorem start_workflow_effect:
  assumes "db_inv d" "w \<notin> set (execution_ids d)"
  shows "(stringify inp = None \<longrightarrow> startWorkflow ck id w ty inp d = (d, Inl not_null_violation))
    \<and> (stringify inp \<noteq> None \<longrightarrow>
        (\<exists>d1 d2. insert_execution ck w ty inp d = (d1, Inr ())
          \<and> getEvents w d1 = [] \<and> \<not> has_live_workflow_task w d1 \<and> w \<in> set (execution_ids d1)
          \<and> startWorkflow ck id w ty inp d = (d2, Inr w)
          \<and> getEvents w d2 = [\<lparr>seq = 1, event = WorkflowStarted ty (json_trip inp)\<rparr>]
          \<and> has_live_workflow_task w d2 \<and> db_inv d2
          \<and> (\<forall>x \<in> set (db_executions d2). ex_id x = w \<longrightarrow> ex_status x = RUNNING)))"
proof (cases "stringify inp = None")
  case True
  then show ?thesis by (simp add: startWorkflow_def insert_execution_def)
next
  case False
  obtain d1 where d1: "insert_execution ck w ty inp d = (d1, Inr ())" "db_inv d1" "execution_ids d1 = execution_ids d @ [w]"
    "getEvents w d1 = []" "\<not> has_live_workflow_task w d1"
    using insert_execution_ok [OF assms False, of ck ty] by metis
  obtain d2 where d2: "append_tx ck w [WorkflowStarted ty inp] d1 = (d2, Inr ())" "appended ck w [WorkflowStarted ty inp] d1 d2"
    using append_tx_ok [OF d1(2), of "[WorkflowStarted ty inp]" w ck] d1(3) by (auto simp: no_proto_events_def)
  have log: "getEvents w d2 = [\<lparr>seq = 1, event = WorkflowStarted ty (json_trip inp)\<rparr>]"
    using appended_one [OF d2(2)] d1(4) by simp
  have "\<forall>x \<in> set (db_executions d2). ex_id x = w \<longrightarrow> ex_status x = RUNNING"
    using appended_status [OF d2(2)] log by (simp add: log_status_def)
  moreover have "startWorkflow ck id w ty inp d = (d2, Inr w)" using d1(1) d2(1) by (simp add: startWorkflow_def)
  ultimately show ?thesis
    using False d1 log appendedD(1,2) [OF d2(2)] by auto
qed

theorem start_workflow_effect_witness:
  "\<exists>d2. startWorkflow clock0 id ''w2'' ''two'' JNull fresh_db = (d2, Inr ''w2'') \<and> has_live_workflow_task ''w2'' d2"
  using start_workflow_effect [OF fresh_db_inv, of "''w2''" JNull clock0 "''two''"]
  by (auto simp: fresh_db_def execution_ids_def)

text \<open>
  A signal is delivered or refused. To a workflow that exists, under a name that is not a
  property every object inherits, \<open>sendSignal\<close> commits, the payload becomes the last one of the
  payloads \<open>waitForSignal\<close> of that name reads, those of other names stay, and the workflow has a
  live workflow task; in every other case it throws and no log changes.
\<close>

theorem signal_delivered:
  assumes "db_inv d"
  shows "if w \<in> set (execution_ids d) \<and> name \<notin> set object_prototype_names
    then \<exists>d'. sendSignal ck w name payload d = (d', Inr ())
      \<and> ri_signals (index_history hash (getEvents w d')) name
          = ri_signals (index_history hash (getEvents w d)) name @ [json_trip payload]
      \<and> (\<forall>m. m \<noteq> name \<longrightarrow> ri_signals (index_history hash (getEvents w d')) m = ri_signals (index_history hash (getEvents w d)) m)
      \<and> has_live_workflow_task w d' \<and> db_inv d'
    else \<exists>d' e. sendSignal ck w name payload d = (d', Inl e) \<and> (\<forall>v. getEvents v d' = getEvents v d)"
proof (cases "w \<in> set (execution_ids d) \<and> name \<notin> set object_prototype_names")
  case True
  then obtain d' where d': "append_tx ck w [SignalReceived name payload] d = (d', Inr ())"
    "appended ck w [SignalReceived name payload] d d'"
    using append_tx_ok [OF assms, of "[SignalReceived name payload]" w ck] by (auto simp: no_proto_events_def)
  have "getEvents w d' = getEvents w d @ [\<lparr>seq = Suc (length (getEvents w d)), event = SignalReceived name (json_trip payload)\<rparr>]"
    using appended_one [OF d'(2)] by simp
  with True d' appendedD(1,2) [OF d'(2)] show ?thesis
    by (auto simp: sendSignal_def index_history_def map_filter_append List.map_filter_simps)
next
  case False
  with append_tx_cases [OF assms, of ck w "[SignalReceived name payload]"]
  have "\<exists>d' e. append_tx ck w [SignalReceived name payload] d = (rollback d d', Inl e)"
    by (auto simp: no_proto_events_def)
  with False show ?thesis by (auto simp: sendSignal_def)
qed

theorem signal_delivered_witness:
  "\<exists>d'. sendSignal clock0 ''w1'' ''approve'' (JBool True) leased_workflow_db = (d', Inr ())
     \<and> ri_signals (index_history None (getEvents ''w1'' d')) ''approve'' = [JBool True]"
proof -
  have i: "db_inv leased_workflow_db" "''w1'' \<in> set (execution_ids leased_workflow_db)"
    "''approve'' \<notin> set object_prototype_names"
    by (simp_all add: leased_workflow_db_def sample_db no_proto_events_def object_prototype_names_def)
  have "ri_signals (index_history None (getEvents ''w1'' leased_workflow_db)) ''approve'' = []"
    by (simp add: leased_workflow_db_def sample_db log_from_def index_history_def List.map_filter_simps)
  with signal_delivered [OF i(1), of "''w1''" "''approve''" clock0 "JBool True" None] i(2,3) show ?thesis by auto
qed

end
