(* ===== verification/SystemInv.thy ===== *)
theory SystemInv
  imports System HandlerRaces
begin

section \<open>The invariant of the whole system\<close>

text \<open>
  Every run of every process keeps \<open>sys_inv\<close> and takes nothing back: first what one committed append
  does to it, then each handler, then the step relation by rule induction.
\<close>

subsection \<open>Steps in general\<close>

lemma extends_refl [simp]: "extends d d"
  by (simp add: extends_def)

lemma extends_trans: "extends d e \<Longrightarrow> extends e f \<Longrightarrow> extends d f"
  unfolding extends_def using prefix_order.trans by blast

lemma sound_refl [simp]: "sound_step d d"
  by (simp add: sound_step_def)

lemma sound_trans: "sound_step d e \<Longrightarrow> sound_step e f \<Longrightarrow> sound_step d f"
  unfolding sound_step_def using extends_trans by blast

lemma sound_steps: "sound_step\<^sup>*\<^sup>* d e \<Longrightarrow> sound_step d e"
  by (induction rule: rtranclp_induct) (auto intro: sound_trans)

lemma soundD:
  assumes "sound_step d e" "sys_inv d"
  shows "sys_inv e" "extends d e"
  using assms by (simp_all add: sound_step_def)

lemma extendsD:
  assumes "extends d d'"
  shows "prefix (getEvents w d) (getEvents w d')" "e \<in> set (getEvents w d) \<Longrightarrow> e \<in> set (getEvents w d')"
    "ledger_row w i d \<noteq> None \<Longrightarrow> ledger_row w i d' \<noteq> None" "handed_out t d \<Longrightarrow> handed_out t d'"
  using assms unfolding extends_def by (auto dest: set_mono_prefix)

lemma sys_invD:
  assumes "sys_inv d"
  shows "db_inv d" "answers_requests (getEvents w d)" "one_outcome (getEvents w d)" "tasks_requested d"
    "completed_in_ledger d" "effects_in_ledger d" "queued_once d" "completed_answered d"
  using assms by (simp_all add: sys_inv_def)

text \<open>What the queue may do to a task: change no column that names its step, complete none.\<close>

definition row_kept :: "task \<Rightarrow> task \<Rightarrow> bool" where
  "row_kept u t \<longleftrightarrow> same_task u t \<and> (t_status t = TCompleted \<longrightarrow> t_status u = TCompleted)"

definition rows_kept :: "db \<Rightarrow> db \<Rightarrow> bool" where
  "rows_kept d d' \<longleftrightarrow> list_all2 row_kept (tt_rows (db_tasks d)) (tt_rows (db_tasks d'))"

lemma row_kept_refl [simp]: "row_kept t t"
  by (simp add: row_kept_def same_task_def)

lemma rows_kept_same: "db_tasks d' = db_tasks d \<Longrightarrow> rows_kept d d'"
  by (simp add: rows_kept_def list_all2_refl)

lemma rows_keptD: "rows_kept d d' \<Longrightarrow> t \<in> set (tt_rows (db_tasks d')) \<Longrightarrow> \<exists>u \<in> set (tt_rows (db_tasks d)). row_kept u t"
  unfolding rows_kept_def by (rule list_all2_in_right)

lemma same_task_trans: "same_task t u \<Longrightarrow> same_task u v \<Longrightarrow> same_task t v"
  by (simp add: same_task_def)

lemma same_task_sym: "same_task t u \<Longrightarrow> same_task u t"
  by (simp add: same_task_def)

lemma handed_out_kept:
  assumes "list_all2 same_task xs ys" "u \<in> set xs" "same_task u t"
  shows "\<exists>v \<in> set ys. same_task v t"
  using assms by (induction rule: list_all2_induct) (auto intro: same_task_trans same_task_sym)

lemma same_list: "list_all2 row_kept xs ys \<Longrightarrow> list_all2 same_task xs ys"
  by (erule list_all2_mono) (simp add: row_kept_def)

lemma same_count:
  "list_all2 same_task xs ys \<Longrightarrow> length (filter (\<lambda>t. t_taskType t = k \<and> t_workflowId t = w \<and> t_scheduledEventSeq t = Some n) ys)
     = length (filter (\<lambda>t. t_taskType t = k \<and> t_workflowId t = w \<and> t_scheduledEventSeq t = Some n) xs)"
  by (induction rule: list_all2_induct) (simp_all add: same_task_def)

lemma tasks_kept:
  assumes log: "\<And>w. getEvents w d' = getEvents w d" and same: "list_all2 same_task (tt_rows (db_tasks d)) (tt_rows (db_tasks d'))"
  shows "tasks_requested d \<Longrightarrow> tasks_requested d'" "queued_once d \<Longrightarrow> queued_once d'" "handed_out t d \<Longrightarrow> handed_out t d'"
proof -
  have old: "\<exists>u \<in> set (tt_rows (db_tasks d)). same_task u t" if "t \<in> set (tt_rows (db_tasks d'))" for t
    by (rule list_all2_in_right [OF same that])
  show "tasks_requested d'" if d: "tasks_requested d"
    unfolding tasks_requested_def log
  proof (intro ballI impI)
    fix t assume t: "t \<in> set (tt_rows (db_tasks d'))" "t_taskType t \<noteq> TWorkflow"
    from old [OF t(1)] obtain u where "u \<in> set (tt_rows (db_tasks d))" "same_task u t" by blast
    with d t(2) show "\<exists>n. t_scheduledEventSeq t = Some n \<and> request_at (t_taskType t) n (getEvents (t_workflowId t) d)"
      by (simp add: tasks_requested_def same_task_def)
  qed
  show "queued_once d \<Longrightarrow> queued_once d'" by (simp add: queued_once_def step_tasks_def row_count_def log same_count [OF same])
  show "handed_out t d \<Longrightarrow> handed_out t d'" using handed_out_kept [OF same] unfolding handed_out_def by blast
qed

lemma completed_kept:
  assumes log: "\<And>w. getEvents w d' = getEvents w d" and kept: "rows_kept d d'" and d: "completed_answered d"
  shows "completed_answered d'"
  unfolding completed_answered_def log
proof (intro ballI impI)
  fix t assume t: "t \<in> set (tt_rows (db_tasks d'))" "t_taskType t \<noteq> TWorkflow \<and> t_status t = TCompleted"
  from rows_keptD [OF kept t(1)] obtain u where "u \<in> set (tt_rows (db_tasks d))" "row_kept u t" by blast
  with d t(2) show "\<exists>n. t_scheduledEventSeq t = Some n \<and> answered_at (t_taskType t) n (getEvents (t_workflowId t) d)"
    by (simp add: completed_answered_def row_kept_def same_task_def)
qed

text \<open>Changes of no table the invariant looks at.\<close>

lemma sys_frame:
  assumes "db_events d' = db_events d" "db_toolExecutions d' = db_toolExecutions d" "db_sideEffects d' = db_sideEffects d"
    "db_inv d \<Longrightarrow> db_inv d'" "rows_kept d d'"
  shows "sound_step d d'"
proof -
  have log: "getEvents w d' = getEvents w d" for w using assms(1) by (simp add: getEvents_def)
  have led: "ledger_row w i d' = ledger_row w i d" "step_effects w i d' = step_effects w i d" for w i
    using assms(2,3) by (simp_all add: ledger_row_def step_effects_def)
  note kept = tasks_kept [OF log same_list [OF assms(5) [unfolded rows_kept_def]]] completed_kept [OF log assms(5)]
  show ?thesis
    using assms(4) kept by (simp add: sound_step_def sys_inv_def extends_def completed_in_ledger_def effects_in_ledger_def log led)
qed

lemma rollback_sound: "sound_step d (rollback d d')"
  by (rule sys_frame) (simp_all add: rollback_inv rows_kept_def list_all2_refl)

lemma rollback_after: "sound_step d e \<Longrightarrow> sound_step d (rollback e d')"
  using sound_trans rollback_sound by blast

subsection \<open>One append\<close>

text \<open>An outcome that may be recorded next; \<open>fits\<close> holds of everything that is not an outcome.\<close>

definition fits :: "string \<Rightarrow> db \<Rightarrow> wf_event \<Rightarrow> bool" where
  "fits w d ev \<longleftrightarrow>
     (\<forall>k. answers ev = Some k \<longrightarrow> (\<exists>r \<in> set (getEvents w d). event_ref ev = Some (seq r) \<and> requests (event r) = Some k))
   \<and> (\<forall>k \<in> {TLlm, TTool}. answers ev = Some k \<longrightarrow>
        (\<forall>e \<in> set (getEvents w d). answers (event e) = Some k \<longrightarrow> event_ref (event e) \<noteq> event_ref ev))
   \<and> (\<forall>i n tool v lat att. ev = TOOL_COMPLETED i n tool v lat att \<longrightarrow> ledger_row w i d \<noteq> None)"

lemma trip_requests [simp]: "requests (event_trip ev) = requests ev" "answers (event_trip ev) = answers ev"
  by (cases ev; simp)+

lemma completed_trip: "event_trip ev = TOOL_COMPLETED i n tool v lat att \<Longrightarrow> \<exists>v'. ev = TOOL_COMPLETED i n tool v' lat att"
  by (cases ev) auto

lemma answers_ref: "answers ev = Some k \<Longrightarrow> \<exists>n. event_ref ev = Some n"
  by (cases ev) auto

text \<open>The events an append adds: at most one outcome, which then is the only event.\<close>

definition safe_events :: "string \<Rightarrow> db \<Rightarrow> wf_event list \<Rightarrow> bool" where
  "safe_events w d evs \<longleftrightarrow> (\<forall>ev \<in> set evs. answers ev = None) \<or> (\<exists>ev. evs = [ev] \<and> fits w d ev)"

lemma safe_fits: "safe_events w d evs \<Longrightarrow> ev \<in> set evs \<Longrightarrow> fits w d ev"
  by (auto simp: safe_events_def fits_def)

lemma seq_bound:
  assumes "db_inv d" "e \<in> set (getEvents w d)"
  shows "seq e < Suc (length (getEvents w d))"
proof -
  have "seq e \<in> set (map seq (getEvents w d))" using assms(2) by simp
  then show ?thesis
    using db_invD(2) [OF assms(1), of w] getEvents_log [OF db_invD(2) [OF assms(1)], of w]
    unfolding log_ok_def by auto
qed

lemma appended_event:
  assumes "appended ck w evs d d'" "e \<in> set (getEvents w d')"
  obtains "e \<in> set (getEvents w d)"
  | ev where "ev \<in> set evs" "event e = event_trip ev" "Suc (length (getEvents w d)) \<le> seq e"
      "e \<in> set (map trip_stored (number_events (Suc (length (getEvents w d))) evs))"
  using assms stored_numbered [of e "Suc (length (getEvents w d))" evs] unfolding appendedD(4) [OF assms(1)] by auto

lemma appended_old: "appended ck w evs d d' \<Longrightarrow> e \<in> set (getEvents v d) \<Longrightarrow> e \<in> set (getEvents v d')"
  using appendedD(4,5) [of ck w evs d d'] by (cases "v = w") auto

lemma appended_answers:
  assumes "appended ck w evs d d'" "safe_events w d evs" "db_inv d" "answers_requests (getEvents w d)"
  shows "answers_requests (getEvents w d')"
  unfolding answers_requests_def
proof (intro ballI allI impI)
  fix e k assume e: "e \<in> set (getEvents w d')" and k: "answers (event e) = Some k"
  from assms(1) e show "\<exists>r \<in> set (getEvents w d'). seq r < seq e \<and> event_ref (event e) = Some (seq r) \<and> requests (event r) = Some k"
  proof (cases rule: appended_event)
    case 1
    then show ?thesis using assms(4) k appended_old [OF assms(1)] unfolding answers_requests_def by meson
  next
    case (2 ev)
    then obtain r where r: "r \<in> set (getEvents w d)" "event_ref ev = Some (seq r)" "requests (event r) = Some k"
      using safe_fits [OF assms(2) 2(1)] k unfolding fits_def by auto
    with seq_bound [OF assms(3) r(1)] 2 appended_old [OF assms(1) r(1)] show ?thesis by (intro bexI [of _ r]) auto
  qed
qed

lemma appended_one_outcome:
  assumes "appended ck w evs d d'" "safe_events w d evs" "one_outcome (getEvents w d)"
  shows "one_outcome (getEvents w d')"
  unfolding one_outcome_def
proof (intro ballI impI)
  fix e e' k assume e: "e \<in> set (getEvents w d')" "e' \<in> set (getEvents w d')" and kk: "k \<in> {TLlm, TTool}"
    and k: "answers (event e) = Some k \<and> answers (event e') = Some k \<and> event_ref (event e) = event_ref (event e')"
  have new: "event_ref (event x) \<noteq> event_ref (event y)"
    if "x \<in> set (getEvents w d)" "ev \<in> set evs" "event y = event_trip ev" "answers (event x) = Some k" "answers (event y) = Some k" for x y ev
    using safe_fits [OF assms(2) that(2)] that kk unfolding fits_def by auto
  have single: "y = y'" if "ev \<in> set evs" "event y = event_trip ev" "answers (event y) = Some k"
    "y \<in> set (map trip_stored (number_events (Suc (length (getEvents w d))) evs))"
    "y' \<in> set (map trip_stored (number_events (Suc (length (getEvents w d))) evs))" for y y' ev
  proof -
    have "answers ev = Some k" using that(2,3) by simp
    then have "\<exists>x. evs = [x]" using assms(2) that(1) by (auto simp: safe_events_def)
    then obtain x where "evs = [x]" by blast
    then show ?thesis using that(4,5) by simp
  qed
  have ke: "answers (event e) = Some k" "answers (event e') = Some k" "event_ref (event e) = event_ref (event e')"
    using k by blast+
  from assms(1) e(1) show "e = e'"
  proof (cases rule: appended_event)
    case old: 1
    from assms(1) e(2) show ?thesis
    proof (cases rule: appended_event)
      case 1
      with old ke kk assms(3) show ?thesis unfolding one_outcome_def by blast
    next
      case (2 ev')
      from new [OF old 2(1,2) ke(1,2)] ke(3) show ?thesis by simp
    qed
  next
    case added: (2 ev)
    from assms(1) e(2) show ?thesis
    proof (cases rule: appended_event)
      case 1
      from new [OF 1 added(1,2) ke(2,1)] ke(3) show ?thesis by simp
    next
      case (2 ev')
      from single [OF added(1,2) ke(1) added(4) 2(4)] show ?thesis .
    qed
  qed
qed

lemma task_for_requests:
  assumes "task_for w tr e = Some i"
  shows "ei_workflowId i = w \<and> ei_scheduledEventSeq i = Some (seq e) \<and> requests (event e) = Some (ei_taskType i)"
  using assms by (auto simp: base_input_def split: wf_event.splits)

lemma made_from_in:
  "list_all2 (made_from ck) is ts \<Longrightarrow> t \<in> set ts \<Longrightarrow> \<exists>i \<in> set is. made_from ck i t"
  by (induction rule: list_all2_induct) auto

text \<open>The tasks a batch of events asks for, and its requests.\<close>

lemma count_inputs:
  "length (filter (\<lambda>i. ei_taskType i = k \<and> ei_scheduledEventSeq i = Some n) (List.map_filter (task_for w tr) (number_events m evs)))
   = (if request_at k n (number_events m evs) then 1 else 0)"
proof (induction evs arbitrary: m)
  case (Cons e es)
  have later: "Suc m \<le> seq r" if "r \<in> set (number_events (Suc m) es)" for r
    using stored_numbered [of "trip_stored r" "Suc m" es] that by auto
  have req: "request_at k n (number_events m (e # es)) \<longleftrightarrow> n = m \<and> requests e = Some k \<or> request_at k n (number_events (Suc m) es)"
    by (auto simp: request_at_def)
  have no: "\<not> request_at k m (number_events (Suc m) es)" using later by (force simp: request_at_def)
  show ?case
  proof (cases "task_for w tr \<lparr>seq = m, event = e\<rparr>")
    case None
    then have "requests e = None" by (cases e) auto
    with None Cons [of "Suc m"] show ?thesis unfolding req by (simp add: List.map_filter_simps del: task_for.simps)
  next
    case (Some i)
    with task_for_requests [OF Some] Cons [of "Suc m"] no show ?thesis unfolding req
      by (auto simp: List.map_filter_simps simp del: task_for.simps)
  qed
qed (simp add: request_at_def List.map_filter_simps)

lemma made_columns:
  "made_from ck i t \<Longrightarrow> t_workflowId t = ei_workflowId i \<and> t_taskType t = ei_taskType i
     \<and> t_scheduledEventSeq t = ei_scheduledEventSeq i \<and> t_status t = TPending"
  unfolding made_from_def by (metis new_task_def task.select_convs(2,3,5,6))

lemma count_made:
  "list_all2 (made_from ck) is ts \<Longrightarrow> \<forall>i \<in> set is. ei_workflowId i = w \<Longrightarrow>
   length (filter (\<lambda>t. t_taskType t = k \<and> t_workflowId t = v \<and> t_scheduledEventSeq t = Some n) ts)
   = (if v = w then length (filter (\<lambda>i. ei_taskType i = k \<and> ei_scheduledEventSeq i = Some n) is) else 0)"
  by (induction rule: list_all2_induct) (auto dest: made_columns)

lemma request_trip: "request_at k n (map trip_stored h) \<longleftrightarrow> request_at k n h"
  by (auto simp: request_at_def trip_stored_def)

lemma request_append: "request_at k n (h @ h') \<longleftrightarrow> request_at k n h \<or> request_at k n h'"
  by (auto simp: request_at_def)

lemma appended_made:
  assumes "appended ck w evs d d'"
  obtains "is" ts where "tt_rows (db_tasks d') = tt_rows (db_tasks d) @ ts" "list_all2 (made_from ck) is ts"
    "\<forall>i \<in> set is. ei_workflowId i = w"
    "length (filter (\<lambda>i. ei_taskType i = k \<and> ei_scheduledEventSeq i = Some n) is)
       = (if request_at k n (number_events (Suc (length (getEvents w d))) evs) then 1 else 0)"
    "\<forall>i \<in> set is. ei_taskType i \<noteq> TWorkflow \<longrightarrow> (\<exists>m. ei_scheduledEventSeq i = Some m
       \<and> request_at (ei_taskType i) m (number_events (Suc (length (getEvents w d))) evs))"
proof -
  let ?es = "number_events (Suc (length (getEvents w d))) evs"
  let ?is = "List.map_filter (task_for w (ck_trace ck)) ?es"
  let ?wf = "if has_live_workflow_task w d then [] else [base_input TWorkflow w (ck_trace ck)]"
  from assms obtain ts where ts: "tt_rows (db_tasks d') = tt_rows (db_tasks d) @ ts" "list_all2 (made_from ck) (?is @ ?wf) ts"
    unfolding appended_def by blast
  have inputs: "\<exists>e \<in> set ?es. task_for w (ck_trace ck) e = Some i" if "i \<in> set ?is" for i
    using that by (auto simp: List.map_filter_def)
  have "\<forall>i \<in> set (?is @ ?wf). ei_workflowId i = w"
    using inputs task_for_requests by (fastforce simp: base_input_def simp del: task_for.simps split: if_splits)
  moreover have "length (filter (\<lambda>i. ei_taskType i = k \<and> ei_scheduledEventSeq i = Some n) (?is @ ?wf))
      = (if request_at k n ?es then 1 else 0)"
    using count_inputs [of k n w "ck_trace ck" "Suc (length (getEvents w d))" evs] by (simp add: base_input_def)
  moreover have "\<forall>i \<in> set (?is @ ?wf). ei_taskType i \<noteq> TWorkflow \<longrightarrow>
      (\<exists>m. ei_scheduledEventSeq i = Some m \<and> request_at (ei_taskType i) m ?es)"
  proof (intro ballI impI)
    fix i assume "i \<in> set (?is @ ?wf)" "ei_taskType i \<noteq> TWorkflow"
    then have "i \<in> set ?is" by (auto simp: base_input_def split: if_splits)
    from inputs [OF this] obtain e where "e \<in> set ?es" "task_for w (ck_trace ck) e = Some i" by blast
    with task_for_requests [OF this(2)] show "\<exists>m. ei_scheduledEventSeq i = Some m \<and> request_at (ei_taskType i) m ?es"
      by (auto simp: request_at_def)
  qed
  ultimately show thesis by (rule that [OF ts])
qed

lemma request_grows: "appended ck w evs d d' \<Longrightarrow> request_at k n (getEvents v d) \<Longrightarrow> request_at k n (getEvents v d')"
  using appended_old [of ck w evs d d'] unfolding request_at_def by blast

lemma request_new:
  "appended ck w evs d d' \<Longrightarrow> request_at k n (number_events (Suc (length (getEvents w d))) evs) \<Longrightarrow> request_at k n (getEvents w d')"
  using appendedD(4) [of ck w evs d d'] by (simp add: request_append request_trip)

lemma appended_tasks:
  assumes "appended ck w evs d d'" "tasks_requested d"
  shows "tasks_requested d'"
  unfolding tasks_requested_def
proof (intro ballI impI)
  fix t assume t: "t \<in> set (tt_rows (db_tasks d'))" "t_taskType t \<noteq> TWorkflow"
  obtain "is" ts where ts: "tt_rows (db_tasks d') = tt_rows (db_tasks d) @ ts" "list_all2 (made_from ck) is ts"
    "\<forall>i \<in> set is. ei_workflowId i = w"
    "\<forall>i \<in> set is. ei_taskType i \<noteq> TWorkflow \<longrightarrow> (\<exists>m. ei_scheduledEventSeq i = Some m
       \<and> request_at (ei_taskType i) m (number_events (Suc (length (getEvents w d))) evs))"
    by (rule appended_made [OF assms(1)])
  show "\<exists>n. t_scheduledEventSeq t = Some n \<and> request_at (t_taskType t) n (getEvents (t_workflowId t) d')"
  proof (cases "t \<in> set (tt_rows (db_tasks d))")
    case True
    then show ?thesis using assms(2) t(2) request_grows [OF assms(1)] unfolding tasks_requested_def by blast
  next
    case False
    then have "t \<in> set ts" using t(1) ts(1) by auto
    from made_from_in [OF ts(2) this] obtain i where i: "i \<in> set is" "made_from ck i t" by blast
    with made_columns [OF i(2)] ts(3,4) t(2) request_new [OF assms(1)] show ?thesis by metis
  qed
qed

lemma appended_queued:
  assumes "appended ck w evs d d'" "queued_once d" "tasks_requested d" "db_inv d"
  shows "queued_once d'"
  unfolding queued_once_def
proof (intro allI impI)
  fix k v n assume req: "request_at k n (getEvents v d')"
  let ?es = "number_events (Suc (length (getEvents w d))) evs"
  let ?P = "\<lambda>t. t_taskType t = k \<and> t_workflowId t = v \<and> t_scheduledEventSeq t = Some n"
  obtain "is" ts where ts: "tt_rows (db_tasks d') = tt_rows (db_tasks d) @ ts" "list_all2 (made_from ck) is ts"
    "\<forall>i \<in> set is. ei_workflowId i = w"
    "length (filter (\<lambda>i. ei_taskType i = k \<and> ei_scheduledEventSeq i = Some n) is) = (if request_at k n ?es then 1 else 0)"
    by (rule appended_made [OF assms(1), of k n])
  have count: "step_tasks k v n d' = step_tasks k v n d + (if v = w \<and> request_at k n ?es then 1 else 0)"
    using count_made [OF ts(2,3), of k v n] ts(4) by (simp add: step_tasks_def row_count_def ts(1))
  show "step_tasks k v n d' = 1"
  proof (cases "v = w \<and> request_at k n ?es")
    case True
    then obtain r where r: "r \<in> set ?es" "seq r = n" "requests (event r) = Some k" unfolding request_at_def by blast
    have big: "Suc (length (getEvents w d)) \<le> n" using stored_numbered [of "trip_stored r" _ evs] r by auto
    have "k \<noteq> TWorkflow" using r(3) by (cases "event r") auto
    have "\<not> ?P t" if "t \<in> set (tt_rows (db_tasks d))" for t
    proof
      assume P: "?P t"
      with assms(3) that \<open>k \<noteq> TWorkflow\<close> True have "request_at k n (getEvents w d)" unfolding tasks_requested_def by force
      with seq_bound [OF assms(4)] big show False unfolding request_at_def by fastforce
    qed
    then have "filter ?P (tt_rows (db_tasks d)) = []" by (simp add: filter_empty_conv)
    with count True show ?thesis by (simp add: step_tasks_def row_count_def)
  next
    case False
    then have "request_at k n (getEvents v d)"
      using req appendedD(4) [OF assms(1)] appendedD(5) [OF assms(1), of v]
      by (cases "v = w") (simp_all add: request_append request_trip)
    with count False assms(2) show ?thesis by (simp add: queued_once_def)
  qed
qed

lemma answered_grows: "appended ck w evs d d' \<Longrightarrow> answered_at k n (getEvents v d) \<Longrightarrow> answered_at k n (getEvents v d')"
  using appended_old [of ck w evs d d'] unfolding answered_at_def by blast

lemma appended_completed:
  assumes "appended ck w evs d d'" "completed_answered d"
  shows "completed_answered d'"
  unfolding completed_answered_def
proof (intro ballI impI)
  fix t assume t: "t \<in> set (tt_rows (db_tasks d'))" "t_taskType t \<noteq> TWorkflow \<and> t_status t = TCompleted"
  obtain "is" ts where ts: "tt_rows (db_tasks d') = tt_rows (db_tasks d) @ ts" "list_all2 (made_from ck) is ts"
    by (rule appended_made [OF assms(1)])
  have "t \<in> set (tt_rows (db_tasks d))" using t ts(1) made_from_in [OF ts(2), of t] made_columns [of ck _ t] by auto
  then show "\<exists>n. t_scheduledEventSeq t = Some n \<and> answered_at (t_taskType t) n (getEvents (t_workflowId t) d')"
    using assms(2) t(2) answered_grows [OF assms(1)] unfolding completed_answered_def by blast
qed

lemma appended_sound:
  assumes a: "appended ck w evs d d'" and safe: "safe_events w d evs"
    and row: "\<And>v i. ledger_row v i d' = ledger_row v i d" "\<And>v i. step_effects v i d' = step_effects v i d"
  shows "sound_step d d'"
  unfolding sound_step_def
proof
  assume inv: "sys_inv d"
  note d = sys_invD [OF inv]
  have log: "answers_requests (getEvents v d') \<and> one_outcome (getEvents v d')" for v
    using appended_answers [OF a safe d(1,2)] appended_one_outcome [OF a safe d(3)] appendedD(5) [OF a, of v] d(2,3)
    by (cases "v = w") auto
  have "completed_in_ledger d'"
    unfolding completed_in_ledger_def
  proof (intro allI ballI impI)
    fix v e i n tool x lat att
    assume e: "e \<in> set (getEvents v d')" "event e = TOOL_COMPLETED i n tool x lat att"
    have old: "ledger_row v i d' \<noteq> None" if "e \<in> set (getEvents v d)"
      using that d(5) e(2) unfolding completed_in_ledger_def row by blast
    show "ledger_row v i d' \<noteq> None"
    proof (cases "v = w")
      case True
      from a e(1) [unfolded True] show ?thesis
      proof (cases rule: appended_event)
        case (2 ev)
        with completed_trip [of ev] e(2) obtain x' where "ev = TOOL_COMPLETED i n tool x' lat att" by auto
        then show ?thesis using safe_fits [OF safe 2(1)] unfolding fits_def row True by blast
      qed (use old True in simp)
    qed (use old appendedD(5) [OF a, of v] e(1) in simp)
  qed
  moreover have "prefix (getEvents v d) (getEvents v d')" for v
    using appendedD(4) [OF a] appendedD(5) [OF a, of v] by (cases "v = w") auto
  moreover have "handed_out t d \<Longrightarrow> handed_out t d'" for t using a unfolding appended_def handed_out_def by auto
  ultimately show "sys_inv d' \<and> extends d d'"
    using appendedD(1) [OF a] log appended_tasks [OF a d(4)] appended_queued [OF a d(7,4,1)] appended_completed [OF a d(8)] d(6)
    by (simp add: sys_inv_def extends_def effects_in_ledger_def row)
qed


lemma append_tx_sound:
  assumes "append_tx ck w evs d = (d', r)" "sys_inv d \<Longrightarrow> safe_events w d evs"
  shows "sound_step d d'"
proof (cases "sys_inv d")
  case True
  note inv = sys_invD(1) [OF True]
  from append_tx_cases [OF inv, of ck w evs] show ?thesis
  proof
    assume "\<exists>d''. append_tx ck w evs d = (d'', Inr ()) \<and> evs \<noteq> [] \<and> w \<in> set (execution_ids d) \<and> no_proto_events evs
        \<and> appended ck w evs d d''"
    then have a: "appended ck w evs d d'" using assms(1) by auto
    have "ledger_row v i d' = ledger_row v i d" "step_effects v i d' = step_effects v i d" for v i
      using quietD(2,3) [OF append_tx_quiet [of v i ck w evs], of d] assms(1) by simp_all
    then show ?thesis by (rule appended_sound [OF a assms(2) [OF True]])
  next
    assume "\<exists>d'' e. append_tx ck w evs d = (rollback d d'', Inl e) \<and> (evs = [] \<or> w \<notin> set (execution_ids d) \<or> \<not> no_proto_events evs)"
    then show ?thesis using assms(1) rollback_sound by auto
  qed
qed (simp add: sound_step_def)

lemma append_sound:
  assumes "appendEvents ck w evs d = (d', Inr x)" "sys_inv d \<Longrightarrow> safe_events w d evs"
  shows "sound_step d d'"
proof (cases "sys_inv d")
  case True
  show ?thesis
    by (rule appended_sound [OF appendEvents_appended [OF sys_invD(1) [OF True] assms(1)] assms(2) [OF True]])
      (use appendEvents_ledger [OF assms(1)] in \<open>simp_all add: ledger_row_def step_effects_def\<close>)
qed (simp add: sound_step_def)

subsection \<open>Outcomes\<close>

lemma answers_types:
  "event_type ev \<in> set llm_outcome_types \<longleftrightarrow> answers ev = Some TLlm"
  "event_type ev \<in> set tool_outcome_types \<longleftrightarrow> answers ev = Some TTool"
  "event_type ev \<in> set activity_outcome_types \<longleftrightarrow> answers ev = Some TActivity"
  by (cases ev; simp add: llm_outcome_types_def tool_outcome_types_def activity_outcome_types_def)+

lemma requested_requests:
  "llm_requested_of e = Some q \<Longrightarrow> requests (event e) = Some TLlm"
  "tool_requested_of e = Some tq \<Longrightarrow> requests (event e) = Some TTool"
  "activity_of e = Some x \<Longrightarrow> requests (event e) = Some TActivity"
  by (cases "event e"; simp)+

lemma request_foundI:
  assumes "Option.bind (find (\<lambda>e. seq e = n) h) f = Some x" "\<And>e. f e = Some x \<Longrightarrow> requests (event e) = Some k"
  shows "request_at k n h"
proof -
  from assms(1) obtain e where e: "find (\<lambda>e. seq e = n) h = Some e" "f e = Some x" by (auto simp: bind_eq_Some_conv)
  with find_SomeD [OF e(1)] assms(2) [OF e(2)] show ?thesis unfolding request_at_def by blast
qed

lemma request_found:
  "Option.bind (find (\<lambda>e. seq e = n) h) llm_requested_of = Some q \<Longrightarrow> request_at TLlm n h"
  "Option.bind (find (\<lambda>e. seq e = n) h) tool_requested_of = Some tq \<Longrightarrow> request_at TTool n h"
  "Option.bind (find (\<lambda>e. seq e = n) h) activity_of = Some x \<Longrightarrow> request_at TActivity n h"
  by (erule request_foundI, erule requested_requests)+

lemma request_extends: "request_at k n (getEvents w d) \<Longrightarrow> extends d d' \<Longrightarrow> request_at k n (getEvents w d')"
  using extendsD(2) unfolding request_at_def by blast

lemma outcome_fits:
  assumes "request_at k n (getEvents w d)" "answers ev = Some k" "event_ref ev = Some n"
    and "k \<in> {TLlm, TTool} \<Longrightarrow> \<not> has_outcome types n (getEvents w d)"
    and "\<And>e. k \<in> {TLlm, TTool} \<Longrightarrow> event_type e \<in> set types \<longleftrightarrow> answers e = Some k"
    and "\<And>i n tool v lat att. ev = TOOL_COMPLETED i n tool v lat att \<Longrightarrow> ledger_row w i d \<noteq> None"
  shows "safe_events w d [ev]"
proof -
  have "\<forall>e \<in> set (getEvents w d). answers (event e) = Some k \<longrightarrow> event_ref (event e) \<noteq> event_ref ev" if "k \<in> {TLlm, TTool}"
    using assms(3) assms(4,5) [OF that] unfolding has_outcome_def list_ex_iff by auto
  then have "fits w d ev" using assms(1-3,6) unfolding fits_def request_at_def by fastforce
  then show ?thesis by (auto simp: safe_events_def)
qed

lemma record_outcome_cases:
  "record_outcome ck t n ev types d = (d', r) \<Longrightarrow>
   d' = d \<or> (\<exists>x. d' = rollback d x)
   \<or> (\<exists>x. appendEvents ck (t_workflowId t) [ev] d = (d', Inr x) \<and> \<not> hasStepOutcome (t_workflowId t) n types d)"
  by (auto simp: record_outcome_def appendStepOutcome_def withTransaction_def step_outcome_body_def
      split: prod.splits sum.splits if_splits)

lemma record_outcome_sound:
  assumes "record_outcome ck t n ev types d = (d', r)" "request_at k n (getEvents (t_workflowId t) d)"
    and ev: "answers ev = Some k" "event_ref ev = Some n" "k \<in> {TLlm, TTool}"
    and types: "\<And>e. event_type e \<in> set types \<longleftrightarrow> answers e = Some k"
    and not_done: "\<And>i n tool v lat att. ev \<noteq> TOOL_COMPLETED i n tool v lat att"
  shows "sound_step d d'"
  using record_outcome_cases [OF assms(1)]
proof (elim disjE exE conjE)
  fix x assume x: "appendEvents ck (t_workflowId t) [ev] d = (d', Inr x)" "\<not> hasStepOutcome (t_workflowId t) n types d"
  show ?thesis
  proof (rule append_sound [OF x(1)])
    assume "sys_inv d"
    then have "\<not> has_outcome types n (getEvents (t_workflowId t) d)" using x(2) hasStepOutcome_log sys_invD(1) by blast
    then show "safe_events (t_workflowId t) d [ev]"
      by (intro outcome_fits [OF assms(2) ev(1,2), of types]) (use types not_done in auto)
  qed
qed (simp_all add: rollback_sound)

subsection \<open>The handlers\<close>

lemma command_answers: "commandToEvent ck llm c = Inr ev \<Longrightarrow> answers ev = None"
  by (cases c) (auto simp: Let_def split: sum.splits)

lemma commands_answers: "commands_events ck llm cs = Inr evs \<Longrightarrow> \<forall>ev \<in> set evs. answers ev = None"
  by (induction cs arbitrary: evs) (auto simp: command_answers split: sum.splits)

text \<open>A transaction of a run that appends no outcome, and one that appends the outcome of a request.\<close>

definition plain_append :: "clock \<Rightarrow> string \<Rightarrow> db \<Rightarrow> unit outcome_db \<Rightarrow> bool" where
  "plain_append ck w d x \<longleftrightarrow> (\<exists>evs. (\<forall>ev \<in> set evs. answers ev = None) \<and> append_tx ck w evs d = x)"

lemma plain_append_one: "append_tx ck w [ev] d = x \<Longrightarrow> answers ev = None \<Longrightarrow> plain_append ck w d x"
  unfolding plain_append_def by (intro exI [of _ "[ev]"]) simp

lemma plain_append_commands: "commands_events ck llm cs = Inr evs \<Longrightarrow> append_tx ck w evs d = x \<Longrightarrow> plain_append ck w d x"
  unfolding plain_append_def using commands_answers by blast

lemma plain_append_sound: "plain_append ck w d (d', r) \<Longrightarrow> sound_step d d'"
  by (auto simp: plain_append_def safe_events_def intro: append_tx_sound)

lemma replay_handler_cases:
  assumes "workflowReplayHandler ck between wfs llm hash t d = (d', r)"
  shows "d' = d \<or> plain_append ck (t_workflowId t) (between d) (d', r)"
  using assms unfolding workflowReplayHandler_def Let_def
  by (auto split: option.splits bool.splits sum.splits js_error.splits if_splits prod.splits
      intro: plain_append_one plain_append_commands)

lemma replay_sound:
  assumes "workflowReplayHandler ck between wfs llm hash t d = (d', r)" "sound_step d (between d)"
  shows "sound_step d d'"
  using replay_handler_cases [OF assms(1)] plain_append_sound sound_trans [OF assms(2)] by (elim disjE) auto

text \<open>What a run of a handler for task \<open>t\<close> may be: sound, and normal only with the outcome of the step recorded.\<close>

definition step_answered :: "task \<Rightarrow> db \<Rightarrow> bool" where
  "step_answered t d \<longleftrightarrow> (\<exists>n. t_scheduledEventSeq t = Some n \<and> answered_at (t_taskType t) n (getEvents (t_workflowId t) d))"

definition run_ok :: "task \<Rightarrow> db \<Rightarrow> unit outcome_db \<Rightarrow> bool" where
  "run_ok t d x \<longleftrightarrow> sound_step d (fst x) \<and> (sys_inv d \<and> snd x = Inr () \<and> t_taskType t \<noteq> TWorkflow \<longrightarrow> step_answered t (fst x))"

lemma has_outcome_answered:
  "has_outcome llm_outcome_types n h \<longleftrightarrow> answered_at TLlm n h" "has_outcome tool_outcome_types n h \<longleftrightarrow> answered_at TTool n h"
  "has_outcome activity_outcome_types n h \<longleftrightarrow> answered_at TActivity n h"
  by (auto simp: has_outcome_def answered_at_def answers_types list_ex_iff)

lemma append_tx_answered:
  assumes "append_tx ck w [ev] d = (d', Inr ())" "db_inv d" "answers ev = Some k" "event_ref ev = Some n"
  shows "answered_at k n (getEvents w d')"
  using appended_one [OF append_tx_done(1) [OF assms(2,1)]] assms(3,4) by (simp add: answered_at_def)

definition activity_append :: "clock \<Rightarrow> task \<Rightarrow> stored_event list \<Rightarrow> db \<Rightarrow> unit outcome_db \<Rightarrow> bool" where
  "activity_append ck t h d x \<longleftrightarrow> (\<exists>n y. append_tx ck (t_workflowId t) [activity_result n y] d = x
     \<and> t_scheduledEventSeq t = Some n \<and> request_at TActivity n h)"

lemma activity_appendI:
  "append_tx ck (t_workflowId t) [activity_result n y] d = x \<Longrightarrow> t_scheduledEventSeq t = Some n
   \<Longrightarrow> Option.bind (find (\<lambda>e. seq e = n) h) activity_of = Some z \<Longrightarrow> activity_append ck t h d x"
  unfolding activity_append_def using request_found(3) by blast

lemma activity_handler_cases:
  "activityHandler ck between acts t d = (d', r) \<Longrightarrow>
   d' = d \<and> (r = Inr () \<longrightarrow> (\<exists>n. t_scheduledEventSeq t = Some n \<and> has_outcome activity_outcome_types n (getEvents (t_workflowId t) d)))
   \<or> activity_append ck t (getEvents (t_workflowId t) d) (between d) (d', r)"
  unfolding activityHandler_def Let_def
  by (auto split: option.splits if_splits simp del: activity_of.simps intro: activity_appendI)

lemma activity_ok:
  assumes "activityHandler ck between acts t d = (d', r)" "sound_step d (between d)" "t_taskType t = TActivity"
  shows "run_ok t d (d', r)"
  using activity_handler_cases [OF assms(1)]
proof
  let ?w = "t_workflowId t"
  assume "activity_append ck t (getEvents ?w d) (between d) (d', r)"
  then obtain n y where a: "append_tx ck ?w [activity_result n y] (between d) = (d', r)" "t_scheduledEventSeq t = Some n"
    "request_at TActivity n (getEvents ?w d)" unfolding activity_append_def by blast
  have kind: "answers (activity_result n y) = Some TActivity" "event_ref (activity_result n y) = Some n" by (cases y; simp)+
  have "sound_step d d' \<and> (r = Inr () \<longrightarrow> step_answered t d')" if inv: "sys_inv d"
  proof -
    note b = soundD [OF assms(2) inv]
    have "safe_events ?w (between d) [activity_result n y]"
      by (rule outcome_fits [OF request_extends [OF a(3) b(2)] kind]) (cases y; simp)+
    with sound_trans [OF assms(2) append_tx_sound [OF a(1)]] have "sound_step d d'" by blast
    moreover have "r = Inr () \<Longrightarrow> answered_at TActivity n (getEvents ?w d')"
      using append_tx_answered [OF _ sys_invD(1) [OF b(1)] kind] a(1) by blast
    ultimately show ?thesis using a(2) assms(3) by (simp add: step_answered_def)
  qed
  then show ?thesis unfolding run_ok_def by (auto simp: sound_step_def)
qed (use assms(3) in \<open>auto simp: run_ok_def step_answered_def has_outcome_answered\<close>)

lemma timer_ok:
  assumes "timerHandler ck t d = (d', r)" "handed_out t d" "t_taskType t = TTimer"
  shows "run_ok t d (d', r)"
proof (cases "t_scheduledEventSeq t")
  case (Some n)
  then have a: "append_tx ck (t_workflowId t) [TimerFired n] d = (d', r)" using assms(1) by (simp add: timerHandler_def)
  have "sound_step d d'"
  proof (rule append_tx_sound [OF a])
    assume "sys_inv d"
    with assms(2,3) Some have "request_at TTimer n (getEvents (t_workflowId t) d)"
      using sys_invD(4) unfolding handed_out_def tasks_requested_def same_task_def by fastforce
    then show "safe_events (t_workflowId t) d [TimerFired n]" by (rule outcome_fits) simp_all
  qed
  moreover have "r = Inr () \<Longrightarrow> sys_inv d \<Longrightarrow> answered_at TTimer n (getEvents (t_workflowId t) d')"
    using append_tx_answered [of ck "t_workflowId t" "TimerFired n" d d' TTimer n] a sys_invD(1) by simp
  ultimately show ?thesis using assms(3) Some by (simp add: run_ok_def step_answered_def)
qed (use assms(1) in \<open>auto simp: timerHandler_def run_ok_def\<close>)

subsection \<open>Durable steps\<close>

text \<open>The recording of a step's outcome by a handler that read the history \<open>h\<close>; not that of a tool's result.\<close>

definition step_record :: "task_type \<Rightarrow> clock \<Rightarrow> task \<Rightarrow> stored_event list \<Rightarrow> db \<Rightarrow> unit outcome_db \<Rightarrow> bool" where
  "step_record k ck t h d x \<longleftrightarrow> (\<exists>n ev types r. record_outcome ck t n ev types d = (fst x, r) \<and> (snd x = Inr () \<longrightarrow> r = Inr ())
     \<and> t_scheduledEventSeq t = Some n \<and> request_at k n h
     \<and> answers ev = Some k \<and> event_ref ev = Some n \<and> (\<forall>e. event_type e \<in> set types \<longleftrightarrow> answers e = Some k)
     \<and> (\<forall>i n tool v lat att. ev \<noteq> TOOL_COMPLETED i n tool v lat att))"

lemma step_record_sound:
  assumes "step_record k ck t (getEvents (t_workflowId t) d0) d x" "extends d0 d" "k \<in> {TLlm, TTool}"
  shows "sound_step d (fst x)"
  using assms(1) request_extends [OF _ assms(2)] record_outcome_sound [OF _ _ _ _ assms(3)]
  unfolding step_record_def by blast

lemma record_outcome_done:
  assumes rec: "record_outcome ck t n ev types d = (d', Inr ())" and inv: "db_inv d"
    and ev: "answers ev = Some k" "event_ref ev = Some n" and types: "\<forall>e. event_type e \<in> set types \<longleftrightarrow> answers e = Some k"
  shows "answered_at k n (getEvents (t_workflowId t) d')"
proof (cases "hasStepOutcome (t_workflowId t) n types d")
  case True
  then have "d' = d" using rec
    by (auto simp: record_outcome_def appendStepOutcome_def withTransaction_def step_outcome_body_def split: sum.splits)
  with True show ?thesis
    using types by (auto simp: hasStepOutcome_log [OF inv] has_outcome_def answered_at_def list_ex_iff)
next
  case False
  then obtain x where "appendEvents ck (t_workflowId t) [ev] d = (d', Inr x)" using rec
    by (auto simp: record_outcome_def appendStepOutcome_def withTransaction_def step_outcome_body_def split: sum.splits prod.splits)
  from appended_one [OF appendEvents_appended [OF inv this]] ev show ?thesis by (simp add: answered_at_def)
qed

lemma step_record_ok:
  assumes "step_record (t_taskType t) ck t (getEvents (t_workflowId t) d) e x" "sound_step d e" "t_taskType t \<in> {TLlm, TTool}"
  shows "run_ok t d x"
proof -
  have "sound_step d (fst x) \<and> (snd x = Inr () \<longrightarrow> step_answered t (fst x))" if inv: "sys_inv d"
  proof -
    note e = soundD [OF assms(2) inv]
    have "sound_step d (fst x)" using sound_trans [OF assms(2) step_record_sound [OF assms(1) e(2) assms(3)]] .
    moreover have "snd x = Inr () \<Longrightarrow> step_answered t (fst x)"
      using assms(1) record_outcome_done [OF _ sys_invD(1) [OF e(1)]] unfolding step_record_def step_answered_def by blast
    ultimately show ?thesis by blast
  qed
  then show ?thesis unfolding run_ok_def by (auto simp: sound_step_def)
qed

lemma step_recordI:
  assumes "record_outcome ck t n ev types d = (d', r)" "r' = Inr () \<Longrightarrow> r = Inr ()" "t_scheduledEventSeq t = Some n"
    "request_at k n h" "answers ev = Some k" "event_ref ev = Some n"
    "\<And>e. event_type e \<in> set types \<longleftrightarrow> answers e = Some k" "\<And>i n tool v lat att. ev \<noteq> TOOL_COMPLETED i n tool v lat att"
  shows "step_record k ck t h d (d', r')"
  unfolding step_record_def fst_conv snd_conv using assms by blast

lemma step_events [simp]:
  "answers (llm_failed t q n m c rt) = Some TLlm" "event_ref (llm_failed t q n m c rt) = Some n"
  "answers (llm_completed cfg t q n rs) = Some TLlm" "event_ref (llm_completed cfg t q n rs) = Some n"
  "answers (tool_failed t tq n m c rt) = Some TTool" "event_ref (tool_failed t tq n m c rt) = Some n"
  "llm_failed t q n m c rt \<noteq> TOOL_COMPLETED i k tool v lat att" "llm_completed cfg t q n rs \<noteq> TOOL_COMPLETED i k tool v lat att"
  "tool_failed t tq n m c rt \<noteq> TOOL_COMPLETED i k tool v lat att"
  by (simp_all add: llm_failed_def llm_completed_def tool_failed_def Let_def)

lemma step_record_llm:
  assumes "Option.bind (find (\<lambda>e. seq e = n) h) llm_requested_of = Some q" "t_scheduledEventSeq t = Some n"
  shows "record_outcome ck t n (llm_failed t q n m c rt) llm_outcome_types d = (d', r) \<Longrightarrow> (r' = Inr () \<Longrightarrow> r = Inr ())
      \<Longrightarrow> step_record TLlm ck t h d (d', r')"
    and "record_outcome ck t n (llm_completed cfg t q n rs) llm_outcome_types d = (d', r) \<Longrightarrow> step_record TLlm ck t h d (d', r)"
  by (erule step_recordI; simp add: request_found(1) [OF assms(1)] answers_types assms(2))+

lemma step_record_tool:
  assumes "Option.bind (find (\<lambda>e. seq e = n) h) tool_requested_of = Some q" "t_scheduledEventSeq t = Some n"
  shows "record_outcome ck t n (tool_failed t q n m c rt) tool_outcome_types d = (d', r) \<Longrightarrow> (r' = Inr () \<Longrightarrow> r = Inr ())
      \<Longrightarrow> step_record TTool ck t h d (d', r')"
  by (erule step_recordI; simp add: request_found(2) [OF assms(1)] answers_types assms(2))

lemma settle_failure_cases:
  "settle_failure ck t n types rt err ev gap d = (d', r) \<Longrightarrow>
   d' = d \<and> r \<noteq> Inr () \<or> (\<exists>r'. record_outcome ck t n ev types (gap d) = (d', r') \<and> (r = Inr () \<longrightarrow> r' = Inr ()))"
  by (auto simp: settle_failure_def split: if_splits prod.splits sum.splits)

lemma llm_handler_cases:
  assumes "llmCallHandler ck gap p wfs cfg sha t d = (d', r)"
  obtains n where "d' = d" "r = Inr () \<longrightarrow> t_scheduledEventSeq t = Some n \<and> has_outcome llm_outcome_types n (getEvents (t_workflowId t) d)"
  | "step_record TLlm ck t (getEvents (t_workflowId t) d) (gap 0 d) (d', r)"
  | rq cx y x where "p rq cx (gap 0 d) = (y, x)" "d' = y" "r \<noteq> Inr ()"
  | rq cx y x i where "p rq cx (gap 0 d) = (y, x)" "step_record TLlm ck t (getEvents (t_workflowId t) d) (gap i y) (d', r)"
proof -
  let ?h = "getEvents (t_workflowId t) d"
  show thesis
  proof (cases "(\<exists>n q. t_scheduledEventSeq t = Some n \<and> Option.bind (find (\<lambda>e. seq e = n) ?h) llm_requested_of = Some q
      \<and> \<not> has_outcome llm_outcome_types n ?h)")
    case False
    then have "d' = d \<and> (r = Inr () \<longrightarrow> (\<exists>n. t_scheduledEventSeq t = Some n \<and> has_outcome llm_outcome_types n ?h))"
      using assms by (auto simp: llmCallHandler_def Let_def simp del: llm_requested_of.simps split: option.splits if_splits)
    then show thesis using that(1) by blast
  next
    case True
    then obtain n q where n: "t_scheduledEventSeq t = Some n" "Option.bind (find (\<lambda>e. seq e = n) ?h) llm_requested_of = Some q"
      "\<not> has_outcome llm_outcome_types n ?h" by blast
    note h = assms [unfolded llmCallHandler_def Let_def n option.case if_not_P [OF n(3)]]
    show thesis
    proof (cases "resolveRequest ?h q wfs sha")
      case (Inl reason)
      with h have "record_outcome ck t n (llm_failed t q n reason ''request_unavailable'' False) llm_outcome_types (gap 0 d) = (d', r)"
        by simp
      from that(2) [OF step_record_llm(1) [OF n(2,1) this]] show thesis by blast
    next
      case (Inr rq)
      obtain y x where y: "p rq (llm_context t q) (gap 0 d) = (y, x)" by fastforce
      show thesis
      proof (cases x)
        case (Inl err)
        obtain m rt c a where err: "as_provider_error err = (m, rt, c, a)" by (cases "as_provider_error err") auto
        from h have "settle_failure ck t n llm_outcome_types rt (LlmProviderError m rt c a) (llm_failed t q n m c rt) (gap 2) y = (d', r)"
          by (simp add: Inr y Inl err)
        from settle_failure_cases [OF this] show thesis
          using that(3) [OF y] that(4) [OF y step_record_llm(1) [OF n(2,1)]] by blast
      next
        case (Inr rs)
        from h have "record_outcome ck t n (llm_completed cfg t q n rs) llm_outcome_types (gap 1 y) = (d', r)"
          by (simp add: \<open>resolveRequest ?h q wfs sha = Inr rq\<close> y Inr)
        from that(4) [OF y step_record_llm(2) [OF n(2,1) this]] show thesis .
      qed
    qed
  qed
qed

lemma provider_sound: "provider_ok p \<Longrightarrow> p rq cx d = (d', r) \<Longrightarrow> sound_step d d'"
proof -
  assume "provider_ok p" "p rq cx d = (d', r)"
  then obtain calls where "d' = d\<lparr>db_providerCalls := db_providerCalls d @ calls\<rparr>" unfolding provider_ok_def by blast
  then show ?thesis
    by (intro sys_frame) (simp_all add: rows_kept_same db_inv_frame(1) [of "d\<lparr>db_providerCalls := x\<rparr>" d for x])
qed

lemma sound_record:
  assumes "sound_step d e" "sys_inv d \<Longrightarrow> extends d e \<Longrightarrow> sound_step e d'"
  shows "sound_step d d'"
  using assms unfolding sound_step_def using extends_trans by blast

lemma run_ok_trivial:
  assumes "sound_step d d'" "r = Inr () \<Longrightarrow> False"
  shows "run_ok t d (d', r)"
  using assms by (auto simp: run_ok_def)

lemma llm_ok:
  assumes "llmCallHandler ck gap p wfs cfg sha t d = (d', r)" "provider_ok p" "\<And>i e. sound_step e (gap i e)"
    "t_taskType t = TLlm"
  shows "run_ok t d (d', r)"
  using assms(1)
proof (cases rule: llm_handler_cases)
  case (1 n)
  then show ?thesis using assms(4) by (auto simp: run_ok_def step_answered_def has_outcome_answered)
next
  case 2
  then show ?thesis by (intro step_record_ok [OF _ assms(3)]) (simp_all add: assms(4))
next
  case (3 rq cx y x)
  with sound_trans [OF assms(3) provider_sound [OF assms(2)]] show ?thesis by (intro run_ok_trivial) simp_all
next
  case (4 rq cx y x i)
  have "sound_step d (gap i y)" using sound_trans [OF sound_trans [OF assms(3) provider_sound [OF assms(2) 4(1)]] assms(3)] .
  with 4(2) show ?thesis by (intro step_record_ok) (simp_all add: assms(4))
qed

subsection \<open>Tool steps\<close>

lemma record_tool_sound:
  assumes rec: "record_tool_outcome ck t q n v l d = (d', Inr ())" and req: "request_at TTool n (getEvents (t_workflowId t) d)"
    and led: "ledger_row (t_workflowId t) (trq_stepId q) d \<noteq> None"
  shows "sound_step d d'"
proof (cases "hasStepOutcome (t_workflowId t) n tool_outcome_types d")
  case True
  with rec have "d' = d" by (auto simp: record_tool_outcome_def split: sum.splits)
  then show ?thesis by simp
next
  case False
  let ?ev = "TOOL_COMPLETED (trq_stepId q) n (trq_tool q) (nullish v JNull) l (t_attempt t)"
  from False rec obtain x where app: "appendEvents ck (t_workflowId t) [?ev] d = (d', Inr x)"
    by (auto simp: record_tool_outcome_def split: sum.splits prod.splits)
  show ?thesis
  proof (rule append_sound [OF app])
    assume "sys_inv d"
    then have "\<not> has_outcome tool_outcome_types n (getEvents (t_workflowId t) d)"
      using False hasStepOutcome_log sys_invD(1) by blast
    then show "safe_events (t_workflowId t) d [?ev]"
      by (intro outcome_fits [OF req, of _ tool_outcome_types]) (use led in \<open>simp_all add: answers_types\<close>)
  qed
qed

lemma effects_append:
  "step_effects v j (d\<lparr>db_sideEffects := db_sideEffects d @ [s]\<rparr>)
     = step_effects v j d @ (if se_workflowId s = v \<and> se_stepId s = j then [s] else [])"
  by (simp add: step_effects_def)

lemma claimed_sound:
  assumes cl: "claimToolExecution ck (tool_claim_of t q) d = (d1, Claimed)"
    and s: "se_workflowId s = t_workflowId t" "se_stepId s = trq_stepId q"
    and e_def: "e = completeToolExecution ck' (t_workflowId t) (trq_stepId q) v (d1\<lparr>db_sideEffects := db_sideEffects d1 @ [s]\<rparr>)"
  shows "sound_step d e" "ledger_row (t_workflowId t) (trq_stepId q) e \<noteq> None" "db_events e = db_events d"
proof -
  let ?w = "t_workflowId t" and ?i = "trq_stepId q"
  have c: "tm_workflowId (tool_claim_of t q) = ?w" "tm_stepId (tool_claim_of t q) = ?i" by (simp_all add: tool_claim_of_def)
  note led = ledger_claim [OF cl, unfolded c]
  have row1: "ledger_row v j (d1\<lparr>db_sideEffects := x\<rparr>) = ledger_row v j d1" for v j x by (simp add: ledger_row_def)
  have row: "ledger_row v j e \<noteq> None \<longleftrightarrow> ledger_row v j d \<noteq> None \<or> v = ?w \<and> j = ?i" for v j
    unfolding e_def ledger_complete row1 using led by metis
  then show "ledger_row ?w ?i e \<noteq> None" by blast
  have eff1: "step_effects v j d1 = step_effects v j d" for v j using led by (simp add: step_effects_def)
  have "step_effects v j e = step_effects v j (d1\<lparr>db_sideEffects := db_sideEffects d1 @ [s]\<rparr>)" for v j
    by (simp add: e_def step_effects_def ledger_complete(2))
  then have eff: "step_effects v j e = step_effects v j d @ (if v = ?w \<and> j = ?i then [s] else [])" for v j
    using s by (simp add: effects_append eff1)
  have f: "db_executions e = db_executions d" "db_events e = db_events d" "db_tasks e = db_tasks d"
    using led by (simp_all add: e_def ledger_complete)
  show "db_events e = db_events d" by (rule f(2))
  note log = db_inv_frame(2) [OF f]
  have "effects_in_ledger d \<Longrightarrow> effects_in_ledger e"
    unfolding effects_in_ledger_def eff using row led by fastforce
  moreover have "completed_in_ledger d \<Longrightarrow> completed_in_ledger e"
    unfolding completed_in_ledger_def log using row by blast
  moreover note tasks_kept [of e d, OF log same_list [OF rows_kept_same [OF f(3), unfolded rows_kept_def]]]
    completed_kept [of e d, OF log rows_kept_same [OF f(3)]]
  ultimately show "sound_step d e"
    using row by (simp add: sound_step_def sys_inv_def extends_def log db_inv_frame(1) [OF f])
qed

lemma claim_refused: "claimToolExecution ck c d = (d1, NotClaimed v) \<Longrightarrow> d1 = d"
  by (auto simp: claimToolExecution_def split: option.splits)

text \<open>A transaction that commits: the claim with the effect of the tool, or neither; then the outcome.\<close>

lemma transaction_cases:
  assumes run: "tool_transaction ck others l t q n h d = (d', Inr ())" and h: "one_effect h"
  obtains e v k where "sound_step d e" "db_events e = db_events d" "ledger_row (t_workflowId t) (trq_stepId q) e \<noteq> None"
    "record_tool_outcome ck t q n v k (others e) = (d', Inr ())"
proof -
  let ?w = "t_workflowId t" and ?i = "trq_stepId q"
  obtain d1 r where cl: "claimToolExecution ck (tool_claim_of t q) d = (d1, r)" by fastforce
  show thesis
  proof (cases r)
    case Claimed
    with run cl obtain d2 v where hd: "h (trq_args q) (tool_context_of t q) d1 = (d2, Inr v)"
      and rec: "record_tool_outcome ck t q n v l (others (completeToolExecution ck ?w ?i v d2)) = (d', Inr ())"
      by (auto simp: tool_transaction_def split: sum.splits prod.splits)
    from one_effectD [OF h hd] obtain s where s: "se_workflowId s = ?w" "se_stepId s = ?i"
      "d2 = d1\<lparr>db_sideEffects := db_sideEffects d1 @ [s]\<rparr>" by (auto simp: tool_context_of_def)
    note c = claimed_sound [OF cl [unfolded Claimed] s(1,2) refl, of ck v, folded s(3)]
    show thesis by (rule that [OF c(1,3,2) rec])
  next
    case (NotClaimed v)
    with run cl have rec: "record_tool_outcome ck t q n v 0 (others d1) = (d', Inr ())"
      by (auto simp: tool_transaction_def split: sum.splits)
    have same: "d1 = d" by (rule claim_refused [OF cl [unfolded NotClaimed]])
    have "ledger_row ?w ?i d \<noteq> None"
      using ledger_claim [OF cl] NotClaimed by (simp add: tool_claim_of_def)
    then show thesis by (rule that [OF sound_refl refl _ rec [unfolded same]])
  qed
qed

lemma transaction_sound:
  assumes run: "tool_transaction ck others l t q n h d = (d', Inr ())" and h: "one_effect h"
    and o: "\<And>e. sound_step e (others e)" and req: "request_at TTool n (getEvents (t_workflowId t) d)"
  shows "sound_step d d' \<and> (sys_inv d \<longrightarrow> answered_at TTool n (getEvents (t_workflowId t) d'))"
proof -
  let ?w = "t_workflowId t" and ?i = "trq_stepId q"
  obtain e v k where e: "sound_step d e" "ledger_row ?w ?i e \<noteq> None" "record_tool_outcome ck t q n v k (others e) = (d', Inr ())"
    by (rule transaction_cases [OF run h])
  note oe = sound_trans [OF e(1) o]
  have "sound_step d d'"
  proof (rule sound_record [OF oe])
    assume inv: "sys_inv d" and ext: "extends d (others e)"
    have "ledger_row ?w ?i (others e) \<noteq> None"
      using extendsD(3) [OF soundD(2) [OF o soundD(1) [OF e(1) inv]]] e(2) by blast
    then show "sound_step (others e) d'" by (rule record_tool_sound [OF e(3) request_extends [OF req ext]])
  qed
  moreover have "sys_inv d \<longrightarrow> answered_at TTool n (getEvents ?w d')"
    using record_tool_outcome_done [OF e(3)] sys_invD(1) [OF soundD(1) [OF oe]] by (simp add: has_outcome_answered)
  ultimately show ?thesis by blast
qed

lemma atomic_sound:
  assumes run: "executeAtomically ck others l t q n h d = (d', r)" and h: "one_effect h"
    and o: "\<And>e. sound_step e (others e)" and req: "request_at TTool n (getEvents (t_workflowId t) d)"
  shows "sound_step d d' \<and> (sys_inv d \<and> r = Inr () \<longrightarrow> answered_at TTool n (getEvents (t_workflowId t) d'))"
proof (cases r)
  case (Inl e)
  with run obtain d2 where "d' = rollback (others d) d2" by (auto simp: executeAtomically_def split: prod.splits sum.splits)
  then show ?thesis using rollback_after [OF o] Inl by simp
next
  case (Inr u)
  with run have "tool_transaction ck others l t q n h d = (d', Inr ())"
    by (auto simp: executeAtomically_def split: prod.splits sum.splits)
  from transaction_sound [OF this h o req] show ?thesis by blast
qed

lemma tool_settled:
  assumes "settle_failure ck t n tool_outcome_types rt err (tool_failed t q n m c rt') gap y = (d', r)"
    "Option.bind (find (\<lambda>e. seq e = n) h) tool_requested_of = Some q" "t_scheduledEventSeq t = Some n"
  shows "d' = y \<and> r \<noteq> Inr () \<or> step_record TTool ck t h (gap y) (d', r)"
  using settle_failure_cases [OF assms(1)] step_record_tool [OF assms(2,3)] by blast

lemma tool_handler_cases:
  assumes "toolCallHandler ck gap lat reg sha t d = (d', r)"
  obtains n where "d' = d" "r = Inr () \<longrightarrow> t_scheduledEventSeq t = Some n \<and> has_outcome tool_outcome_types n (getEvents (t_workflowId t) d)"
  | "step_record TTool ck t (getEvents (t_workflowId t) d) (gap 0 d) (d', r)"
  | n q tool y x where "get_tool reg (trq_tool q) = Some tool" "request_at TTool n (getEvents (t_workflowId t) d)"
      "t_scheduledEventSeq t = Some n"
      "executeAtomically ck (gap 1) lat t q n (tl_handler tool) (gap 0 d) = (y, x)"
      "d' = y \<and> (r = Inr () \<longrightarrow> x = Inr ()) \<or> step_record TTool ck t (getEvents (t_workflowId t) d) (gap 2 y) (d', r)"
proof -
  let ?h = "getEvents (t_workflowId t) d"
  show thesis
  proof (cases "(\<exists>n q. t_scheduledEventSeq t = Some n \<and> Option.bind (find (\<lambda>e. seq e = n) ?h) tool_requested_of = Some q
      \<and> \<not> has_outcome tool_outcome_types n ?h)")
    case False
    then have "d' = d \<and> (r = Inr () \<longrightarrow> (\<exists>n. t_scheduledEventSeq t = Some n \<and> has_outcome tool_outcome_types n ?h))"
      using assms by (auto simp: toolCallHandler_def Let_def simp del: tool_requested_of.simps split: option.splits if_splits)
    then show thesis using that(1) by blast
  next
    case True
    then obtain n q where n: "t_scheduledEventSeq t = Some n" "Option.bind (find (\<lambda>e. seq e = n) ?h) tool_requested_of = Some q"
      "\<not> has_outcome tool_outcome_types n ?h" by blast
    note h = assms [unfolded toolCallHandler_def Let_def n option.case if_not_P [OF n(3)]]
    show thesis
    proof (cases "validate reg (trq_tool q) (trq_args q)")
      case (Invalid code message)
      with h have "record_outcome ck t n (tool_failed t q n message code False) tool_outcome_types (gap 0 d) = (d', r)" by simp
      from that(2) [OF step_record_tool [OF n(2,1) this]] show thesis by blast
    next
      case Valid
      show thesis
      proof (cases "hashToolCall sha (trq_tool q) (trq_args q) \<noteq> trq_argsHash q")
        case True
        with h Valid that(2) [OF step_record_tool [OF n(2,1)]] show thesis by simp
      next
        case hash: False
        show thesis
        proof (cases "get_tool reg (trq_tool q)")
          case None
          with h Valid hash have "d' = d" "r \<noteq> Inr ()" by auto
          with that(1) show thesis by blast
        next
          case tool: (Some tool)
          obtain y x where y: "executeAtomically ck (gap 1) lat t q n (tl_handler tool) (gap 0 d) = (y, x)" by fastforce
          have "d' = y \<and> (r = Inr () \<longrightarrow> x = Inr ()) \<or> step_record TTool ck t ?h (gap 2 y) (d', r)"
            using h by (auto simp: Valid hash tool y simp del: One_nat_def split: sum.splits js_error.splits prod.splits
                dest!: tool_settled [OF _ n(2,1)])
          from that(3) [OF tool request_found(2) [OF n(2)] n(1) y this] show thesis .
        qed
      qed
    qed
  qed
qed

lemma tool_ok:
  assumes "toolCallHandler ck gap lat reg sha t d = (d', r)" "tools_ok reg" "\<And>i e. sound_step e (gap i e)"
    "t_taskType t = TTool"
  shows "run_ok t d (d', r)"
  using assms(1)
proof (cases rule: tool_handler_cases)
  case (1 n)
  then show ?thesis using assms(4) by (auto simp: run_ok_def step_answered_def has_outcome_answered)
next
  case 2
  then show ?thesis by (intro step_record_ok [OF _ assms(3)]) (simp_all add: assms(4))
next
  case (3 n q tool y x)
  have h: "one_effect (tl_handler tool)" using assms(2) 3(1) unfolding tools_ok_def by blast
  note at = atomic_sound [OF 3(4) h assms(3) request_extends [OF 3(2)]]
  have y: "sound_step d y" by (rule sound_record [OF assms(3)]) (use at in blast)
  have fin: "sys_inv d \<Longrightarrow> x = Inr () \<Longrightarrow> answered_at TTool n (getEvents (t_workflowId t) y)"
    using at soundD [OF assms(3)] by blast
  from 3(5) show ?thesis
  proof
    assume "d' = y \<and> (r = Inr () \<longrightarrow> x = Inr ())"
    then show ?thesis using y fin 3(3) assms(4) by (auto simp: run_ok_def step_answered_def)
  next
    assume "step_record TTool ck t (getEvents (t_workflowId t) d) (gap 2 y) (d', r)"
    then show ?thesis by (intro step_record_ok [OF _ sound_trans [OF y assms(3)]]) (simp_all add: assms(4))
  qed
qed

subsection \<open>The entry points and the queue\<close>

lemma insert_sound:
  assumes "insert_execution ck w ty inp d = (d', r)"
  shows "sound_step d d'"
proof (rule sys_frame)
  have "w \<notin> set (execution_ids d) \<and> stringify inp \<noteq> None \<or> d' = d"
    using assms by (auto simp: insert_execution_def split: option.splits if_splits)
  then show "db_inv d \<Longrightarrow> db_inv d'" using insert_execution_ok [of d w inp ck ty] assms by force
qed (use assms in \<open>auto simp: insert_execution_def rows_kept_same split: option.splits if_splits\<close>)

lemma start_sound:
  assumes "startWorkflow ck between w ty inp d = (d', r)" "\<And>e. sound_step e (between e)"
  shows "sound_step d d'"
proof -
  obtain d1 x where d1: "insert_execution ck w ty inp d = (d1, x)" by fastforce
  note s1 = insert_sound [OF d1]
  show ?thesis
  proof (cases x)
    case (Inl e)
    with assms(1) d1 s1 show ?thesis by (simp add: startWorkflow_def)
  next
    case (Inr u)
    obtain d2 y where d2: "append_tx ck w [WorkflowStarted ty inp] (between d1) = (d2, y)" by fastforce
    then have "d' = d2" using assms(1) d1 Inr by (auto simp: startWorkflow_def split: sum.splits)
    with sound_trans [OF sound_trans [OF s1 assms(2)] plain_append_sound [OF plain_append_one [OF d2]]] show ?thesis by simp
  qed
qed

lemma update_kept:
  assumes "\<And>u. row_kept u (f u)"
  shows "list_all2 row_kept (tt_rows q) (tt_rows (update_rows P f q))"
  by (simp add: rows_update list_all2_map2 list_all2_refl assms)

lemma kept_rows:
  "row_kept u (lease_task now inp u)" "row_kept u (u\<lparr>t_leaseExpiresAt := x\<rparr>)" "row_kept u (release_task u)"
  "row_kept u (u\<lparr>t_status := TPending, t_attempt := 0, t_runAfter := now, t_lastError := None\<rparr>)"
  "row_kept u (fail_task now d err u)"
  by (simp_all add: row_kept_def same_task_def lease_task_def release_task_def fail_task_def)

lemma lease_step_kept: "lease_step q q' \<Longrightarrow> list_all2 row_kept (tt_rows q) (tt_rows q')"
  by (induction rule: lease_step.induct)
    (simp_all add: dequeue_def heartbeat_def reclaimExpired_def requeueDeadTask_def Let_def update_kept kept_rows list_all2_refl)

lemma lease_step_queue: "lease_step q q' \<Longrightarrow> queue_step q q'"
  by (induction rule: lease_step.induct) (auto intro: queue_step.intros worker_step.intros)

lemma queue_inv:
  assumes "list_all2 same_task (tt_rows (db_tasks d)) (tt_rows q)" "task_inv q" "db_inv d"
  shows "db_inv (d\<lparr>db_tasks := q\<rparr>)"
  by (rule db_inv_tasks [OF assms(3,2)]) (use list_all2_in_right [OF assms(1)] in \<open>auto simp: same_task_def\<close>)

lemma queue_sound: "lease_step (db_tasks d) q \<Longrightarrow> sound_step d (d\<lparr>db_tasks := q\<rparr>)"
  using queue_inv [OF same_list [OF lease_step_kept] queue_step_inv [OF lease_step_queue]] db_invD(3) lease_step_kept
  by (intro sys_frame) (auto simp: rows_kept_def)

text \<open>A worker settles a task it was handed out: \<open>fail\<close> completes nothing, \<open>complete\<close> one row.\<close>

lemma settles_queue: "queue_step q (fst (run_settles now rnd w t r q))"
  by (auto simp: run_settles_def split: sum.splits prod.splits intro: queue_step.intros worker_step.intros)
    (metis fst_conv queue_step.step_worker worker_step.step_complete)

lemma fail_kept: "list_all2 row_kept (tt_rows q) (tt_rows (fst (run_settles now rnd w t (Inl e) q)))"
  by (simp add: run_settles_def fail_def Let_def list_all2_refl update_kept kept_rows split: sum.splits)

lemma settles_same: "list_all2 same_task (tt_rows q) (tt_rows (fst (run_settles now rnd w t r q)))"
proof (cases r)
  case (Inl e)
  then show ?thesis using same_list [OF fail_kept] by simp
next
  case (Inr u)
  then show ?thesis
    by (simp add: run_settles_def complete_def Let_def rows_update list_all2_map2 list_all2_refl same_task_def)
qed

lemma completed_row:
  assumes "t' \<in> set (tt_rows (fst (run_settles now rnd w t (Inr u) q)))" "t_status t' = TCompleted"
  obtains v where "v \<in> set (tt_rows q)" "same_task v t'" "t_status v = TCompleted \<or> t_id v = t_id t"
  using assms by (auto simp: run_settles_def complete_def Let_def in_rows_update same_task_def split: if_splits)

lemma settle_sound:
  assumes "handed_out t d" "run_ok t d (d1, r)" "sound_step d1 d2"
  shows "sound_step d (d2\<lparr>db_tasks := fst (run_settles now rnd w t r (db_tasks d2))\<rparr>)" (is "sound_step d ?d3")
proof (rule sound_record)
  show d2: "sound_step d d2" using assms(2,3) sound_trans unfolding run_ok_def by auto
  assume inv: "sys_inv d" and ext: "extends d d2"
  note inv2 = soundD(1) [OF d2 inv]
  have log: "getEvents v ?d3 = getEvents v d2" for v by (simp add: getEvents_def)
  have same: "list_all2 same_task (tt_rows (db_tasks d2)) (tt_rows (db_tasks ?d3))" using settles_same by simp
  have db: "db_inv ?d3"
    by (rule queue_inv [OF settles_same queue_step_inv [OF settles_queue]]) (use sys_invD(1) [OF inv2] db_invD(3) in auto)
  have "completed_answered ?d3"
  proof (cases r)
    case (Inl e)
    then have "rows_kept d2 ?d3" using fail_kept by (simp add: rows_kept_def)
    from completed_kept [OF log this sys_invD(8) [OF inv2]] show ?thesis .
  next
    case (Inr u)
    show ?thesis
      unfolding completed_answered_def log
    proof (intro ballI impI)
      fix t' assume t': "t' \<in> set (tt_rows (db_tasks ?d3))" "t_taskType t' \<noteq> TWorkflow \<and> t_status t' = TCompleted"
      from t' Inr obtain v where v: "v \<in> set (tt_rows (db_tasks d2))" "same_task v t'" "t_status v = TCompleted \<or> t_id v = t_id t"
        by (auto elim: completed_row)
      show "\<exists>n. t_scheduledEventSeq t' = Some n \<and> answered_at (t_taskType t') n (getEvents (t_workflowId t') d2)"
      proof (cases "t_status v = TCompleted")
        case True
        with v(1,2) t'(2) sys_invD(8) [OF inv2] show ?thesis by (auto simp: completed_answered_def same_task_def)
      next
        case False
        from extendsD(4) [OF ext assms(1)] obtain x where x: "x \<in> set (tt_rows (db_tasks d2))" "same_task x t"
          unfolding handed_out_def by blast
        then have "x = v" using same_row [OF db_invD(3) [OF sys_invD(1) [OF inv2]] x(1) v(1)] v(3) False
          by (simp add: same_task_def)
        with x(2) v(2) have tt: "same_task t t'" by (simp add: same_task_def)
        with t'(2) assms(2) inv Inr have "step_answered t d1" by (simp add: run_ok_def same_task_def)
        moreover have "extends d1 d2" using soundD(2) [OF assms(3)] soundD(1) [of d d1] assms(2) inv by (simp add: run_ok_def)
        ultimately show ?thesis using tt extendsD(2) unfolding step_answered_def answered_at_def same_task_def by metis
      qed
    qed
  qed
  then show "sound_step d2 ?d3"
    using db tasks_kept [of ?d3 d2, OF log same]
    by (simp add: sound_step_def sys_inv_def extends_def log completed_in_ledger_def effects_in_ledger_def)
      (simp add: ledger_row_def step_effects_def)
qed

subsection \<open>Every step\<close>

lemma sound_all:
  "\<forall>e. (\<lambda>x y. sys_step x y \<and> sound_step x y)\<^sup>*\<^sup>* e (f e) \<Longrightarrow> sound_step e (f e)"
proof -
  assume "\<forall>e. (\<lambda>x y. sys_step x y \<and> sound_step x y)\<^sup>*\<^sup>* e (f e)"
  then have "sound_step\<^sup>*\<^sup>* e (f e)" using rtranclp_mono [of "\<lambda>x y. sys_step x y \<and> sound_step x y" sound_step] by blast
  then show ?thesis by (rule sound_steps)
qed

lemma run_of_ok:
  "run_of (\<lambda>x y. (\<lambda>x y. sys_step x y \<and> sound_step x y)\<^sup>*\<^sup>* x y) t d x \<Longrightarrow> handed_out t d \<Longrightarrow> run_ok t d x"
proof (induction rule: run_of.induct)
  case (run_workflow t between d ck wfs cfg sha)
  obtain d' r where x: "workflowReplayHandler ck between wfs cfg sha t d = (d', r)" by fastforce
  with replay_sound [OF x sound_all [OF run_workflow(2)]] run_workflow(1) show ?case by (simp add: run_ok_def)
next
  case (run_activity t between d ck acts)
  obtain d' r where x: "activityHandler ck between acts t d = (d', r)" by fastforce
  with activity_ok [OF x sound_all [OF run_activity(2)] run_activity(1)] show ?case by simp
next
  case (run_timer t d ck)
  obtain d' r where x: "timerHandler ck t d = (d', r)" by fastforce
  with timer_ok [OF x run_timer(2,1)] show ?case by simp
next
  case (run_llm t gap p d ck wfs cfg sha)
  obtain d' r where x: "llmCallHandler ck gap p wfs cfg sha t d = (d', r)" by fastforce
  have "sound_step e (gap i e)" for i e by (rule sound_all) (use run_llm(2) in blast)
  with llm_ok [OF x run_llm(3) _ run_llm(1)] x show ?case by simp
next
  case (run_tool t gap reg d ck lat sha)
  obtain d' r where x: "toolCallHandler ck gap lat reg sha t d = (d', r)" by fastforce
  have "sound_step e (gap i e)" for i e by (rule sound_all) (use run_tool(2) in blast)
  with tool_ok [OF x run_tool(3) _ run_tool(1)] x show ?case by simp
qed

lemma sys_step_sound: "sys_step d d' \<Longrightarrow> sound_step d d'"
proof (induction rule: sys_step.induct)
  case (sys_start between ck w ty inp d d' r)
  show ?case by (rule start_sound [OF sys_start.hyps sound_all [OF sys_start.IH]])
next
  case (sys_start_killed ck w ty inp d d' r)
  then show ?case by (rule insert_sound)
next
  case (sys_signal ck w n p d d' r)
  from plain_append_sound [OF plain_append_one [OF this [unfolded sendSignal_def]]] show ?case by simp
next
  case (sys_cancel ck w reason d d' r)
  from plain_append_sound [OF plain_append_one [OF this [unfolded cancelWorkflow_def]]] show ?case by simp
next
  case (sys_killed t d d' r)
  from run_of_ok [OF sys_killed.IH sys_killed.hyps] show ?case by (simp add: run_ok_def)
next
  case (sys_settled t d d1 r d2 now rnd w)
  have "sound_step d1 d2" using sound_steps [of d1 d2] sys_settled.IH(2)
      rtranclp_mono [of "\<lambda>x y. sys_step x y \<and> sound_step x y" sound_step] by blast
  from settle_sound [OF sys_settled.hyps run_of_ok [OF sys_settled.IH(1) sys_settled.hyps] this] show ?case .
next
  case (sys_queue d q)
  then show ?case by (rule queue_sound)
next
  case (sys_leader d ck leaderId)
  show ?case
    by (rule sys_frame) (simp_all add: recordLeadership_def rows_kept_same db_inv_frame(1) [of "d\<lparr>db_leader := x\<rparr>" d for x])
qed

lemma sys_steps_sound: "sys_step\<^sup>*\<^sup>* d d' \<Longrightarrow> sound_step d d'"
  by (rule sound_steps) (metis (no_types, lifting) rtranclp_mono predicate2D predicate2I sys_step_sound)

lemma empty_inv: "sys_inv empty_db"
proof -
  have "task_inv (db_tasks empty_db)" by (rule task_invI) (simp_all add: empty_db_def)
  then have "db_inv empty_db"
    by (simp add: db_inv_def empty_db_def execution_ids_def log_of_def log_ok_def foldEvents_def initialState_def)
  moreover have "getEvents w empty_db = []" for w by (simp add: getEvents_def empty_db_def)
  ultimately show ?thesis
    by (simp add: sys_inv_def answers_requests_def one_outcome_def tasks_requested_def completed_in_ledger_def queued_once_def
        request_at_def completed_answered_def effects_in_ledger_def step_effects_def ledger_row_def) (simp add: empty_db_def)
qed

lemma reachable_inv: "reachable d \<Longrightarrow> sys_inv d"
  unfolding reachable_def using soundD(1) [OF sys_steps_sound empty_inv] .

end
