(* ===== verification/ReplayOrder.thy ===== *)
theory ReplayOrder
  imports ReplayStable SystemInv
begin

section \<open>Histories of a workflow whose replays do not overlap\<close>

text \<open>
  What extends the history of a workflow run by one version of its code, when no two replays of it
  overlap: what it hears of (\<open>hear_step\<close>: the first outcome of a request, for a timer any, and events that
  are neither requests nor outcomes), and what it decides (\<open>grown_decided\<close>): the commands of a replay, as
  the handler stores them, where the history has only heard of more since that replay read it.
\<close>

definition first_answer :: "stored_event list \<Rightarrow> stored_event \<Rightarrow> bool" where
  "first_answer h e \<longleftrightarrow> (\<forall>k n. answers (event e) = Some k \<and> event_ref (event e) = Some n \<and> k \<noteq> TTimer
     \<longrightarrow> \<not> answered_at k n h)"

inductive hear_step :: "stored_event list \<Rightarrow> stored_event list \<Rightarrow> bool" where
  hear_event: "requests (event e) = None \<Longrightarrow> \<forall>n. event_ref (event e) = Some n \<longrightarrow> n \<le> length h \<Longrightarrow> first_answer h e \<Longrightarrow>
     hear_step h (h @ [e])"

abbreviation stored_after :: "stored_event list \<Rightarrow> wf_event list \<Rightarrow> stored_event list" where
  "stored_after h evs \<equiv> map trip_stored (number_events (Suc (length h)) evs)"

inductive grown :: "workflow_fn \<Rightarrow> jsval \<Rightarrow> (string \<Rightarrow> string) \<Rightarrow> stored_event list \<Rightarrow> bool"
  for f inp sha where
  grown_empty: "grown f inp sha []"
| grown_heard: "grown f inp sha h \<Longrightarrow> hear_step h h' \<Longrightarrow> grown f inp sha h'"
| grown_decided: "grown f inp sha h0 \<Longrightarrow> replay f inp h0 (Some sha) = Inr r \<Longrightarrow> commands_events ck cfg (rr_commands r) = Inr evs
     \<Longrightarrow> hear_step\<^sup>*\<^sup>* h0 h \<Longrightarrow> grown f inp sha (h @ stored_after h evs)"

inductive log_step :: "workflow_fn \<Rightarrow> jsval \<Rightarrow> (string \<Rightarrow> string) \<Rightarrow> stored_event list \<Rightarrow> stored_event list \<Rightarrow> bool"
  for f inp sha where
  log_heard: "hear_step h h' \<Longrightarrow> log_step f inp sha h h'"
| log_decided: "grown f inp sha h0 \<Longrightarrow> replay f inp h0 (Some sha) = Inr r \<Longrightarrow> commands_events ck cfg (rr_commands r) = Inr evs
     \<Longrightarrow> hear_step\<^sup>*\<^sup>* h0 h \<Longrightarrow> log_step f inp sha h (h @ stored_after h evs)"

subsection \<open>Events that are no requests\<close>

lemma outcome_answers:
  "foldl outcome_step Map.empty h n \<noteq> None \<Longrightarrow> answered_at TActivity n h"
  "foldl llm_outcome_step Map.empty h n \<noteq> None \<Longrightarrow> answered_at TLlm n h"
  "foldl tool_outcome_step Map.empty h n \<noteq> None \<Longrightarrow> answered_at TTool n h"
  unfolding answered_at_def
  by (induction h rule: rev_induct; force simp: outcome_step_def llm_outcome_step_def tool_outcome_step_def
      split: wf_event.splits if_splits)+

lemma fired_value: "foldl fired_step Map.empty h n = Some v \<Longrightarrow> v = Inr JUndef"
  by (induction h arbitrary: v rule: rev_induct) (auto simp: fired_step_def split: wf_event.splits if_splits)

lemma heard_maps:
  assumes "first_answer h e"
  shows "foldl outcome_step Map.empty h \<subseteq>\<^sub>m outcome_step (foldl outcome_step Map.empty h) e"
    "foldl llm_outcome_step Map.empty h \<subseteq>\<^sub>m llm_outcome_step (foldl llm_outcome_step Map.empty h) e"
    "foldl tool_outcome_step Map.empty h \<subseteq>\<^sub>m tool_outcome_step (foldl tool_outcome_step Map.empty h) e"
    "foldl fired_step Map.empty h \<subseteq>\<^sub>m fired_step (foldl fired_step Map.empty h) e"
proof -
  have new: "foldl outcome_step Map.empty h n = None" if "answers (event e) = Some TActivity" "event_ref (event e) = Some n" for n
    using assms that outcome_answers(1) unfolding first_answer_def by blast
  have new2: "foldl llm_outcome_step Map.empty h n = None" if "answers (event e) = Some TLlm" "event_ref (event e) = Some n" for n
    using assms that outcome_answers(2) unfolding first_answer_def by blast
  have new3: "foldl tool_outcome_step Map.empty h n = None" if "answers (event e) = Some TTool" "event_ref (event e) = Some n" for n
    using assms that outcome_answers(3) unfolding first_answer_def by blast
  show "foldl outcome_step Map.empty h \<subseteq>\<^sub>m outcome_step (foldl outcome_step Map.empty h) e"
    using new by (cases "event e") (auto simp: outcome_step_def map_le_def)
  show "foldl llm_outcome_step Map.empty h \<subseteq>\<^sub>m llm_outcome_step (foldl llm_outcome_step Map.empty h) e"
    using new2 by (cases "event e") (auto simp: llm_outcome_step_def map_le_def)
  show "foldl tool_outcome_step Map.empty h \<subseteq>\<^sub>m tool_outcome_step (foldl tool_outcome_step Map.empty h) e"
    using new3 by (cases "event e") (auto simp: tool_outcome_step_def map_le_def)
  show "foldl fired_step Map.empty h \<subseteq>\<^sub>m fired_step (foldl fired_step Map.empty h) e"
    by (cases "event e") (auto simp: fired_step_def map_le_def dest: fired_value)
qed

lemma no_request_streams:
  assumes "requests (event e) = None"
  shows "\<not> isActivityScheduled e" "\<not> isTimerScheduled e" "\<not> isLlmRequested e" "\<not> isToolRequested e"
  using assms by (cases "event e"; simp)+

lemma heard_answers:
  assumes "hear_step h h'"
  shows "answered_more (index_history hash h) (index_history hash h')"
  using assms
proof cases
  case (hear_event e)
  then show ?thesis using no_request_streams [OF hear_event(2)] heard_maps [OF hear_event(4)]
    by (simp add: answered_more_def index_history_def map_filter_append
        del: isActivityScheduled.simps isTimerScheduled.simps isLlmRequested.simps isToolRequested.simps signal_payload.simps)
qed

lemma answered_more_refl: "answered_more ix ix"
  by (simp add: answered_more_def)

lemma answered_more_trans: "answered_more ix ix' \<Longrightarrow> answered_more ix' ix'' \<Longrightarrow> answered_more ix ix''"
  unfolding answered_more_def by (elim conjE, intro conjI allI) (simp_all, blast intro: prefix_order.trans, (erule (1) map_le_trans)+)

lemma hears_answers: "hear_step\<^sup>*\<^sup>* h h' \<Longrightarrow> answered_more (index_history hash h) (index_history hash h')"
  by (induction rule: rtranclp_induct) (auto intro: answered_more_refl answered_more_trans heard_answers)

subsection \<open>Every step keeps the pass\<close>

definition good_history :: "workflow_fn \<Rightarrow> jsval \<Rightarrow> (string \<Rightarrow> string) \<Rightarrow> stored_event list \<Rightarrow> bool" where
  "good_history f inp sha h \<longleftrightarrow> settled_pass f inp h (Some sha) \<and> refs_bounded h"

text \<open>What a later replay keeps of an earlier one: its calls, and how it ended.\<close>

definition extends_replay :: "workflow_fn \<Rightarrow> jsval \<Rightarrow> (string \<Rightarrow> string) \<Rightarrow> stored_event list \<Rightarrow> stored_event list \<Rightarrow> bool" where
  "extends_replay f inp sha h h' \<longleftrightarrow> prefix (pass_calls f inp h (Some sha)) (pass_calls f inp h' (Some sha))
     \<and> (snd (pass_end f inp h (Some sha)) \<noteq> None \<longrightarrow> snd (pass_end f inp h' (Some sha)) = snd (pass_end f inp h (Some sha)))"

lemma extends_replay_refl: "extends_replay f inp sha h h"
  by (simp add: extends_replay_def)

lemma extends_replay_trans:
  "extends_replay f inp sha h1 h2 \<Longrightarrow> extends_replay f inp sha h2 h3 \<Longrightarrow> extends_replay f inp sha h1 h3"
  unfolding extends_replay_def by (auto intro: prefix_order.trans)

lemma refs_append:
  assumes "refs_bounded h" "\<forall>e \<in> set es. \<forall>n. event_ref (event e) = Some n \<longrightarrow> n \<le> length h"
  shows "refs_bounded (h @ es)"
  using assms by (fastforce simp: refs_bounded_def)

lemma good_empty: "good_history f inp sha []"
proof -
  have "caught_up (index_history (Some sha) []) initial_pass" by (simp add: caught_up_def)
  from issue_all_caught_up [OF this] have "settled_pass f inp [] (Some sha)"
    by (simp add: settled_pass_def pass_end_state)
  then show ?thesis by (simp add: good_history_def refs_bounded_def)
qed

lemma hear_good:
  assumes "hear_step h h'" "good_history f inp sha h"
  shows "good_history f inp sha h' \<and> extends_replay f inp sha h h'"
proof -
  have "refs_bounded h'" using assms by (auto elim!: hear_step.cases intro: refs_append simp: good_history_def)
  with more_answers [OF heard_answers [OF assms(1)]] assms(2) show ?thesis
    by (auto simp: good_history_def extends_replay_def)
qed

lemma hears_good:
  "hear_step\<^sup>*\<^sup>* h h' \<Longrightarrow> good_history f inp sha h \<Longrightarrow> good_history f inp sha h' \<and> extends_replay f inp sha h h'"
  by (induction rule: rtranclp_induct) (auto intro: extends_replay_refl extends_replay_trans dest: hear_good)

lemma hears_length: "hear_step\<^sup>*\<^sup>* h h' \<Longrightarrow> length h \<le> length h'"
  by (induction rule: rtranclp_induct) (auto elim!: hear_step.cases)

text \<open>Requests added to a history nothing of which refers to them.\<close>

lemma requests_more:
  assumes "answered_more (index_history hash h) (index_history hash h')" "list_all2 (\<lambda>c e. records c (event e)) F evs"
  shows "answered_more (index_history hash (h @ evs)) (index_history hash (h' @ evs))"
  using assms(1) recorded_outcomes_all [OF assms(2)]
  by (simp add: answered_more_def index_history_def map_filter_append
      del: isActivityScheduled.simps isTimerScheduled.simps isLlmRequested.simps isToolRequested.simps signal_payload.simps)

lemma requests_asked:
  assumes "list_all2 (\<lambda>c e. records c (event e)) F evs" "\<forall>e \<in> set evs. \<forall>x \<in> set h. event_ref (event x) \<noteq> Some (seq e)"
  shows "asked_more (index_history hash h) (index_history hash (h @ evs))"
  using assms(2) recorded_outcomes_all [OF assms(1)]
  by (simp add: asked_more_def index_history_def map_filter_append no_outcome
      del: isActivityScheduled.simps isTimerScheduled.simps isLlmRequested.simps isToolRequested.simps signal_payload.simps)

lemma stored_commands_refs:
  assumes "commands_events ck cfg cs = Inr evs" "e \<in> set (map trip_stored (number_events n evs))"
  shows "event_ref (event e) = None"
proof -
  obtain ev where ev: "ev \<in> set evs" "event e = event_trip ev" using stored_numbered [OF assms(2)] by blast
  from list_all2_in_right [OF commands_events_all2 [OF assms(1)] ev(1)] obtain c where "commandToEvent ck cfg c = Inr ev" by blast
  from commandToEvent_kind [OF this] ev(2) show ?thesis by simp
qed

lemma stored_fresh:
  assumes "refs_bounded h0" "length h0 \<le> length h"
  shows "\<forall>e \<in> set (stored_after h evs). \<forall>x \<in> set h0. event_ref (event x) \<noteq> Some (seq e)"
proof (intro ballI notI)
  fix e x assume e: "e \<in> set (stored_after h evs)" "x \<in> set h0" "event_ref (event x) = Some (seq e)"
  then have "seq e \<le> length h0" using assms(1) by (simp add: refs_bounded_def)
  moreover have "Suc (length h) \<le> seq e" using stored_numbered [OF e(1)] by blast
  ultimately show False using assms(2) by simp
qed

lemma ending_heard:
  assumes "replay f inp h0 hash = Inr r" "rr_status r \<noteq> RpRUNNING" "commands_events ck cfg (rr_commands r) = Inr evs"
  shows "hear_step h (h @ stored_after h evs)"
proof -
  obtain c where c: "rr_commands r = [c]" "is_ending c" using finished_commands [OF assms(1,2)] by blast
  obtain e where e: "evs = [e]" "commandToEvent ck cfg c = Inr e"
    using commands_events_all2 [OF assms(3)] c(1) by (auto simp: list_all2_Cons1)
  define x where "x = trip_stored \<lparr>seq = Suc (length h), event = e\<rparr>"
  have "requests (event x) = None \<and> answers (event x) = None \<and> event_ref (event x) = None"
    using e(2) c(2) by (auto simp: is_ending_def x_def trip_stored_def)
  then have "hear_step h (h @ [x])" by (intro hear_event) (simp_all add: first_answer_def)
  then show ?thesis by (simp add: e(1) x_def)
qed

lemma decided_good:
  assumes good: "good_history f inp sha h0" and r: "replay f inp h0 (Some sha) = Inr r"
    and ev: "commands_events ck cfg (rr_commands r) = Inr evs" and heard: "hear_step\<^sup>*\<^sup>* h0 h"
  shows "good_history f inp sha (h @ stored_after h evs) \<and> extends_replay f inp sha h (h @ stored_after h evs)"
proof (cases "rr_status r = RpRUNNING")
  case True
  let ?new = "stored_after h evs"
  have h: "good_history f inp sha h" using hears_good [OF heard good] by blast
  have run: "snd (pass_end f inp h0 (Some sha)) = None" using replay_Inr(2) [OF r] True by simp
  have rec: "list_all2 (\<lambda>c e. records c (event e)) (ps_commands (fst (pass_end f inp h0 (Some sha)))) ?new"
    using commands_stored [OF r True ev] replay_Inr(3) [OF r True] by simp
  have "settled_pass f inp (h0 @ ?new) (Some sha)"
    using commands_recorded(1) [OF _ run rec stored_fresh] good hears_length [OF heard] by (simp add: good_history_def)
  from more_answers(1) [OF requests_more [OF hears_answers [OF heard] rec] this] have "settled_pass f inp (h @ ?new) (Some sha)" .
  moreover have "refs_bounded (h @ ?new)"
    using h stored_commands_refs [OF ev] by (intro refs_append) (auto simp: good_history_def simp del: set_map)
  moreover have "asked_more (index_history (Some sha) h) (index_history (Some sha) (h @ ?new))"
    by (rule requests_asked [OF rec stored_fresh]) (use h in \<open>simp_all add: good_history_def\<close>)
  ultimately show ?thesis using asked_pass by (simp add: good_history_def extends_replay_def)
next
  case False
  from hear_good [OF ending_heard [OF r False ev]] hears_good [OF heard good] show ?thesis by blast
qed

lemma grown_good: "grown f inp sha h \<Longrightarrow> good_history f inp sha h"
  by (induction rule: grown.induct) (use good_empty hear_good decided_good in blast)+

lemma log_step_good:
  "log_step f inp sha h h' \<Longrightarrow> good_history f inp sha h \<Longrightarrow> good_history f inp sha h' \<and> extends_replay f inp sha h h'"
  by (induction rule: log_step.induct) (use hear_good decided_good grown_good in blast)+

lemma log_steps_good:
  "(log_step f inp sha)\<^sup>*\<^sup>* h h' \<Longrightarrow> good_history f inp sha h \<Longrightarrow> good_history f inp sha h' \<and> extends_replay f inp sha h h'"
  by (induction rule: rtranclp_induct) (use extends_replay_refl extends_replay_trans log_step_good in blast)+

lemma log_step_grown: "log_step f inp sha h h' \<Longrightarrow> grown f inp sha h \<Longrightarrow> grown f inp sha h'"
  by (induction rule: log_step.induct) (auto intro: grown.intros)

lemma log_steps_grown: "(log_step f inp sha)\<^sup>*\<^sup>* h h' \<Longrightarrow> grown f inp sha h \<Longrightarrow> grown f inp sha h'"
  by (induction rule: rtranclp_induct) (auto intro: log_step_grown)

lemma hears_log: "hear_step\<^sup>*\<^sup>* h h' \<Longrightarrow> (log_step f inp sha)\<^sup>*\<^sup>* h h'"
  by (rule rtranclp_mono [THEN predicate2D]) (auto intro: log_heard)

lemma grown_replays: "grown f inp sha h \<Longrightarrow> \<exists>r. replay f inp h (Some sha) = Inr r"
  using grown_good by (simp add: good_history_def settled_pass_replay)

subsection \<open>The requests in the history are the calls\<close>

context call_stream begin

lemma recorded_are_calls:
  assumes acc: "list_all (accepted ix) cs" and kept: "well_kept ix" and ok: "ps_nonDeterminismError (issue_all ix cs s) = None"
    and start: "counter s = 0" and all: "length (recorded ix) \<le> counter (issue_all ix cs s)"
  shows "\<exists>qs. prefix qs (List.map_filter request cs) \<and> length qs = length (recorded ix)
    \<and> (\<forall>i < length (recorded ix). matches ix (event (recorded ix ! i)) i (qs ! i))"
proof -
  let ?qs = "List.map_filter request cs"
  have len: "length (recorded ix) \<le> length ?qs" using counter_of_calls [OF acc, of s] start all by simp
  have "matches ix (event (recorded ix ! i)) i (?qs ! i)" if "i < length (recorded ix)" for i
    by (rule matches_of_calls [OF acc kept ok _ that]) (use that len start in \<open>auto simp: in_set_enumerate_eq\<close>)
  with len show ?thesis by (intro exI [of _ "take (length (recorded ix)) ?qs"]) (simp add: take_is_prefix)
qed

end

lemma settled_requests:
  assumes "settled_pass f inp h hash"
  defines "ix \<equiv> index_history hash h" and "calls \<equiv> pass_calls f inp h hash"
  shows "\<exists>qs. prefix qs (List.map_filter activity_request calls) \<and> length qs = length (filter isActivityScheduled h)
      \<and> (\<forall>i < length qs. activity_matches ix (event (filter isActivityScheduled h ! i)) i (qs ! i))"
    and "\<exists>qs. prefix qs (List.map_filter timer_request calls) \<and> length qs = length (filter isTimerScheduled h)"
    and "\<exists>qs. prefix qs (List.map_filter llm_request_of calls) \<and> length qs = length (filter isLlmRequested h)
      \<and> (\<forall>i < length qs. llm_matches ix (event (filter isLlmRequested h ! i)) i (qs ! i))"
    and "\<exists>qs. prefix qs (List.map_filter tool_request calls) \<and> length qs = length (filter isToolRequested h)
      \<and> (\<forall>i < length qs. tool_matches ix (event (filter isToolRequested h ! i)) i (qs ! i))"
proof -
  have ok: "ps_nonDeterminismError (issue_all ix calls initial_pass) = None"
    and up: "length (filter isActivityScheduled h) \<le> ps_callIndex (issue_all ix calls initial_pass)"
      "length (filter isTimerScheduled h) \<le> ps_timerCallIndex (issue_all ix calls initial_pass)"
      "length (filter isLlmRequested h) \<le> ps_llmCallIndex (issue_all ix calls initial_pass)"
      "length (filter isToolRequested h) \<le> ps_toolCallIndex (issue_all ix calls initial_pass)"
    using assms(1) by (simp_all add: settled_pass_def caught_up_def pass_end_state ix_def calls_def)
  have acc: "list_all (accepted ix) calls" "well_indexed ix" by (simp_all add: ix_def calls_def pass_calls_accepted)
  note simps = ix_def index_fields(1-4)
  show "\<exists>qs. prefix qs (List.map_filter activity_request calls) \<and> length qs = length (filter isActivityScheduled h)
      \<and> (\<forall>i < length qs. activity_matches ix (event (filter isActivityScheduled h ! i)) i (qs ! i))"
    using activities.recorded_are_calls [OF acc ok] up(1) unfolding simps by (metis initial_counters(1))
  show "\<exists>qs. prefix qs (List.map_filter timer_request calls) \<and> length qs = length (filter isTimerScheduled h)"
    using timers.recorded_are_calls [OF acc ok] up(2) unfolding simps by (metis initial_counters(2))
  show "\<exists>qs. prefix qs (List.map_filter llm_request_of calls) \<and> length qs = length (filter isLlmRequested h)
      \<and> (\<forall>i < length qs. llm_matches ix (event (filter isLlmRequested h ! i)) i (qs ! i))"
    using llm_calls.recorded_are_calls [OF acc ok] up(3) unfolding simps by (metis initial_counters(3))
  show "\<exists>qs. prefix qs (List.map_filter tool_request calls) \<and> length qs = length (filter isToolRequested h)
      \<and> (\<forall>i < length qs. tool_matches ix (event (filter isToolRequested h ! i)) i (qs ! i))"
    using tool_calls.recorded_are_calls [OF acc ok] up(4) unfolding simps by (metis initial_counters(4))
qed

subsection \<open>Overlapping replays\<close>

text \<open>
  The premise that replays do not overlap is not one the code enforces. The append of the workflow
  handler is not fenced: a worker whose lease has run out while it replayed still commits its
  commands. A second worker that was handed the task and read the same log commits them too; the log
  then holds two requests for the first step, and the replay that asks for the second step diverges.
\<close>

lemma overlapping_replays_break_log:
  "\<exists>d1 d2. workflowReplayHandler clock0 id [(''two'', two_steps)] small_config id (sample_task TWorkflow 0) started_db = (d1, Inr ())
     \<and> workflowReplayHandler clock0 (\<lambda>_. d1) [(''two'', two_steps)] small_config id (sample_task TWorkflow 0) started_db = (d2, Inr ())
     \<and> replay two_steps JNull (getEvents ''w1'' d2 @ [\<lparr>seq = 4, event = ActivityCompleted 2 JNull\<rparr>]) (Some id)
        = Inl (NonDeterminismError 1 ''reserve'' ''charge'')"
proof -
  obtain d1 where d1: "workflowReplayHandler clock0 id [(''two'', two_steps)] small_config id (sample_task TWorkflow 0) started_db = (d1, Inr ())"
    "appended clock0 ''w1'' [ActivityScheduled ''reserve'' JNull] started_db d1"
    using first_run by blast
  obtain d2 where d2: "append_tx clock0 ''w1'' [ActivityScheduled ''reserve'' JNull] d1 = (d2, Inr ())"
    "appended clock0 ''w1'' [ActivityScheduled ''reserve'' JNull] d1 d2"
    using append_tx_ok [OF appendedD(1) [OF d1(2)], of "[ActivityScheduled ''reserve'' JNull]" "''w1''" clock0]
      appendedD(3) [OF d1(2)] by (auto simp: started_db no_proto_events_def)
  have "workflowReplayHandler clock0 (\<lambda>_. d1) [(''two'', two_steps)] small_config id (sample_task TWorkflow 0) started_db = (d2, Inr ())"
    using handler_commits [of "sample_task TWorkflow 0" started_db "''two''" JNull "[(''two'', two_steps)]" two_steps id] d2(1)
    by (simp add: started_db two_steps_first registry_get_def) (simp add: log_from_def)
  moreover have "getEvents ''w1'' d2 = log_from [WorkflowStarted ''two'' JNull, ActivityScheduled ''reserve'' JNull, ActivityScheduled ''reserve'' JNull]"
    using appended_one [OF d2(2)] appended_one [OF d1(2)] by (simp add: started_db log_from_def)
  moreover have "replay two_steps JNull (log_from [WorkflowStarted ''two'' JNull, ActivityScheduled ''reserve'' JNull,
      ActivityScheduled ''reserve'' JNull, ActivityCompleted 2 JNull]) (Some id) = Inl (NonDeterminismError 1 ''reserve'' ''charge'')"
    by (simp add: replay_eval log_from_def)
  ultimately show ?thesis using d1(1) by (simp add: log_from_def eval_nat_numeral)
qed

end
