(* ===== verification/SystemProps.thy ===== *)
theory SystemProps
  imports SystemInv
begin

section \<open>What the system guarantees\<close>

text \<open>
  Consequences of the invariant in every reachable state, whatever the processes did and wherever they
  were killed. The witnesses follow one workflow: started, replayed, its tool run by a worker.
\<close>

subsection \<open>A run of the system\<close>

definition lookup_workflow :: workflow_fn where
  "lookup_workflow inp = await_call (ToolCall ''lookup_customer'' (JObj [(''customerId'', JStr ''C-1'')])) Ret"

definition lookup_tools :: tool_registry where
  "lookup_tools = (let t = \<lparr>tl_name = ''lookup_customer'', tl_description = None, tl_argsSchema = [], tl_handler = lookup_customer one_hash\<rparr>
     in \<lparr>tg_tools = [(''lookup_customer'', t)], tg_validators = [(''lookup_customer'', \<lambda>v. None)]\<rparr>)"

definition lease_of :: "task_type \<Rightarrow> dequeue_input" where
  "lease_of ty = (poll_input 1 plain_worker)\<lparr>di_taskType := Some ty\<rparr>"

definition leased_db :: "task_type \<Rightarrow> db \<Rightarrow> db" where
  "leased_db ty d = d\<lparr>db_tasks := fst (dequeue 2000 [] (lease_of ty) (db_tasks d))\<rparr>"

definition demo1 :: db where
  "demo1 = fst (startWorkflow clock0 id ''w1'' ''lookup'' JNull empty_db)"

definition demo2 :: db where
  "demo2 = leased_db TWorkflow demo1"

definition demo3 :: db where
  "demo3 = fst (workflowReplayHandler clock0 id [(''lookup'', lookup_workflow)] hash_only one_hash (tt_rows (db_tasks demo2) ! 0) demo2)"

definition demo4 :: db where
  "demo4 = leased_db TTool demo3"

definition demo5 :: db where
  "demo5 = fst (toolCallHandler clock0 (\<lambda>i. id) 5 lookup_tools one_hash (tt_rows (db_tasks demo4) ! 1) demo4)"

definition demo6 :: db where
  "demo6 = demo5\<lparr>db_tasks := fst (run_settles 3000 0 plain_worker (tt_rows (db_tasks demo4) ! 1) (Inr ()) (db_tasks demo5))\<rparr>"

lemma demo_rows:
  "length (tt_rows (db_tasks demo2)) = 1" "t_taskType (tt_rows (db_tasks demo2) ! 0) = TWorkflow"
  "length (tt_rows (db_tasks demo4)) = 2" "t_taskType (tt_rows (db_tasks demo4) ! 1) = TTool"
  "snd (toolCallHandler clock0 (\<lambda>i. id) 5 lookup_tools one_hash (tt_rows (db_tasks demo4) ! 1) demo4) = Inr ()"
  by code_simp+

fun tool_done :: "stored_event \<Rightarrow> string option" where
  "tool_done e = (case event e of TOOL_COMPLETED i n tool v l a \<Rightarrow> Some i | _ \<Rightarrow> None)"

lemma demo_logs:
  "map (\<lambda>e. requests (event e)) (getEvents ''w1'' demo3) = [None, Some TTool]"
  "map (\<lambda>e. requests (event e)) (getEvents ''w1'' demo6) = [None, Some TTool, None]"
  "map seq (getEvents ''w1'' demo6) = [1, 2, 3]"
  "Option.is_none (ri_toolOutcomeBySeq (index_history None (getEvents ''w1'' demo5)) 2) = False"
  "map tool_done (getEvents ''w1'' demo5) = [None, None, Some ''tool-0'']"
  "map t_status (tt_rows (db_tasks demo6)) = [TLeased, TCompleted]"
  "map t_taskType (tt_rows (db_tasks demo6)) = [TWorkflow, TTool]"
  by code_simp+

lemma lookup_tools_ok: "tools_ok lookup_tools"
  by (simp add: tools_ok_def lookup_tools_def get_tool_def Let_def lookup_customer_effect)

lemma handed_row: "i < length (tt_rows (db_tasks d)) \<Longrightarrow> handed_out (tt_rows (db_tasks d) ! i) d"
  unfolding handed_out_def by (rule bexI [of _ "tt_rows (db_tasks d) ! i"]) (simp_all add: same_task_def)

lemma lease_reachable: "reachable d \<Longrightarrow> reachable (leased_db ty d)"
  unfolding reachable_def leased_db_def by (rule rtranclp.rtrancl_into_rtrancl) (auto intro: sys_queue lease_step.intros)

lemma demo_reachable: "reachable demo4"
proof -
  have 1: "reachable demo1"
    unfolding reachable_def demo1_def
    by (rule r_into_rtranclp, rule sys_start [where between = id and d' = "fst x" and r = "snd x" for x]) (simp, simp)
  then have 2: "reachable demo2" unfolding demo2_def by (rule lease_reachable)
  have "run_of sys_step\<^sup>*\<^sup>* (tt_rows (db_tasks demo2) ! 0) demo2
     (workflowReplayHandler clock0 id [(''lookup'', lookup_workflow)] hash_only one_hash (tt_rows (db_tasks demo2) ! 0) demo2)"
    by (rule run_workflow) (simp_all add: demo_rows)
  then have "sys_step demo2 demo3" unfolding demo3_def
    by (intro sys_killed [OF handed_row, where r = "snd x" and d' = "fst x" for x]) (simp_all add: demo_rows)
  with 2 have "reachable demo3" unfolding reachable_def by (rule rtranclp.rtrancl_into_rtrancl)
  then show ?thesis unfolding demo4_def by (rule lease_reachable)
qed

lemma demo_tool_run:
  "run_of sys_step\<^sup>*\<^sup>* (tt_rows (db_tasks demo4) ! 1) demo4 (demo5, Inr ())"
proof -
  have "run_of sys_step\<^sup>*\<^sup>* (tt_rows (db_tasks demo4) ! 1) demo4
     (toolCallHandler clock0 (\<lambda>i. id) 5 lookup_tools one_hash (tt_rows (db_tasks demo4) ! 1) demo4)"
    by (rule run_tool) (simp_all add: demo_rows lookup_tools_ok del: One_nat_def)
  then show ?thesis by (metis demo5_def demo_rows(5) prod.collapse)
qed

lemma demo_steps: "sys_step demo4 demo5" "sys_step demo4 demo6"
proof -
  have h: "handed_out (tt_rows (db_tasks demo4) ! 1) demo4" by (rule handed_row) (simp add: demo_rows)
  show "sys_step demo4 demo5" by (rule sys_killed [OF h demo_tool_run])
  show "sys_step demo4 demo6" unfolding demo6_def by (rule sys_settled [OF h demo_tool_run]) simp
qed

lemma demo_done: "reachable demo5" "reachable demo6"
  using demo_reachable demo_steps unfolding reachable_def by (auto intro: rtranclp.rtrancl_into_rtrancl)

subsection \<open>The properties\<close>

text \<open>
  C1: Every state the processes can reach satisfies the invariant of the system: the store is well
  formed, outcomes answer requests and durable steps have one, every request has its one task, every
  completed task its outcome, and the ledger agrees with the histories and with the effects.
\<close>

theorem system_invariant: "reachable d \<Longrightarrow> sys_inv d"
  by (rule reachable_inv)

theorem system_invariant_witness: "sys_inv demo6"
  by (rule system_invariant [OF demo_done(2)])

lemma request_task:
  assumes inv: "sys_inv d" and e: "e \<in> set (getEvents w d)" "requests (event e) = Some k"
  shows "\<exists>t. filter (\<lambda>t. t_taskType t = k \<and> t_workflowId t = w \<and> t_scheduledEventSeq t = Some (seq e)) (tt_rows (db_tasks d)) = [t]
    \<and> (t_status t = TCompleted \<longrightarrow> answered_at k (seq e) (getEvents w d))"
proof -
  let ?P = "\<lambda>t. t_taskType t = k \<and> t_workflowId t = w \<and> t_scheduledEventSeq t = Some (seq e)"
  have "request_at k (seq e) (getEvents w d)" using e by (auto simp: request_at_def)
  with sys_invD(7) [OF inv] have "step_tasks k w (seq e) d = 1" by (simp add: queued_once_def)
  then obtain t where t: "filter ?P (tt_rows (db_tasks d)) = [t]"
    by (auto simp: step_tasks_def row_count_def length_Suc_conv)
  then have in_q: "t \<in> set (tt_rows (db_tasks d))" "?P t" by (auto dest: filter_eq_ConsD)
  have "k \<noteq> TWorkflow" using e(2) by (cases "event e") auto
  with in_q sys_invD(8) [OF inv] have "t_status t = TCompleted \<longrightarrow> answered_at k (seq e) (getEvents w d)"
    by (fastforce simp: completed_answered_def)
  with t show ?thesis by blast
qed

text \<open>
  C2: No step is lost or run under two tasks: a request in a history has exactly one task, and if that
  task is completed the history has the outcome of the step.
\<close>

theorem no_step_lost:
  assumes r: "reachable d" and e: "e \<in> set (getEvents w d)" "requests (event e) = Some k"
  shows "\<exists>t. filter (\<lambda>t. t_taskType t = k \<and> t_workflowId t = w \<and> t_scheduledEventSeq t = Some (seq e)) (tt_rows (db_tasks d)) = [t]
    \<and> (t_status t = TCompleted \<longrightarrow> answered_at k (seq e) (getEvents w d))"
  using request_task [OF reachable_inv [OF r] e] .

theorem no_step_lost_witness: "answered_at TTool 2 (getEvents ''w1'' demo6)"
proof -
  obtain e1 e2 e3 where log: "getEvents ''w1'' demo6 = [e1, e2, e3]" "requests (event e2) = Some TTool" "seq e2 = 2"
    using demo_logs(2,3) by (auto simp: map_eq_Cons_conv)
  obtain t1 t2 where q: "tt_rows (db_tasks demo6) = [t1, t2]" "t_status t1 = TLeased" "t_status t2 = TCompleted"
    using demo_logs(6) by (auto simp: map_eq_Cons_conv)
  have "t_taskType t1 = TWorkflow" using demo_logs(7) q(1) by simp
  with no_step_lost [OF demo_done(2), of e2 "''w1''" TTool] log q show ?thesis by (auto split: if_splits)
qed

lemma reachable_effects:
  assumes "reachable d"
  shows "length (step_effects w i d) = (if ledger_row w i d = None then 0 else 1)"
  using sys_invD(6) [OF reachable_inv [OF assms]] by (simp add: effects_in_ledger_def)

lemma reachable_completed_once:
  assumes r: "reachable d" and e: "e \<in> set (getEvents w d)" "tool_done e = Some i"
  shows "length (step_effects w i d) = 1"
proof -
  have "ledger_row w i d \<noteq> None"
    using sys_invD(5) [OF reachable_inv [OF r]] e unfolding completed_in_ledger_def by (fastforce split: wf_event.splits)
  with reachable_effects [OF r] show ?thesis by simp
qed

text \<open>
  C3: A tool step that is recorded as completed took effect exactly once, and no tool step ever twice,
  whatever runs of it any workers made.
\<close>

theorem system_tool_exactly_once:
  assumes r: "reachable d" and e: "e \<in> set (getEvents w d)" "event e = TOOL_COMPLETED i n tool v lat att"
  shows "length (step_effects w i d) = 1 \<and> length (step_effects w' j d) \<le> 1"
  using reachable_completed_once [OF r e(1)] reachable_effects [OF r, of w' j] e(2) by simp

theorem system_tool_exactly_once_witness: "length (step_effects ''w1'' ''tool-0'' demo5) = 1"
proof -
  obtain e1 e2 e3 where "getEvents ''w1'' demo5 = [e1, e2, e3]" "tool_done e3 = Some ''tool-0''"
    using demo_logs(5) by (auto simp: map_eq_Cons_conv simp del: tool_done.simps)
  moreover from this obtain n tool v l a where "event e3 = TOOL_COMPLETED ''tool-0'' n tool v l a"
    by (auto split: wf_event.splits)
  ultimately show ?thesis using system_tool_exactly_once [OF demo_done(1), of e3 "''w1''" "''tool-0''" n tool v l a] by simp
qed

subsection \<open>Outcomes are final\<close>

lemma outcome_other:
  "event_ref (event e) \<noteq> Some n \<or> answers (event e) \<noteq> Some TLlm \<Longrightarrow> llm_outcome_step m e n = m n"
  "event_ref (event e) \<noteq> Some n \<or> answers (event e) \<noteq> Some TTool \<Longrightarrow> tool_outcome_step m e n = m n"
  by (auto simp: llm_outcome_step_def tool_outcome_step_def split: wf_event.splits)

text \<open>Folding over events that leave entry \<open>n\<close> alone.\<close>

lemma foldl_other: "(\<And>m e. e \<in> set es \<Longrightarrow> f m e n = m n) \<Longrightarrow> foldl f m es n = m n" for f :: "('k \<rightharpoonup> 'v) \<Rightarrow> 'e \<Rightarrow> _"
  by (induction es arbitrary: m) simp_all

lemma foldl_some: "foldl f Map.empty es n = Some v \<Longrightarrow> \<exists>e \<in> set es. \<exists>m. f m e n \<noteq> m n" for f :: "('k \<rightharpoonup> 'v) \<Rightarrow> 'e \<Rightarrow> _"
  by (metis foldl_other option.distinct(1))

lemma outcome_fold_final:
  assumes "prefix h h'" "one_outcome h'" "distinct (map seq h')" "k \<in> {TLlm, TTool}"
    and step: "\<And>m e. event_ref (event e) \<noteq> Some n \<or> answers (event e) \<noteq> Some k \<Longrightarrow> f m e n = m n"
    and some: "foldl f Map.empty h n = Some v"
  shows "foldl f Map.empty h' n = Some v"
proof -
  obtain es where h': "h' = h @ es" using assms(1) by (auto simp: prefix_def)
  obtain e where e: "e \<in> set h" "event_ref (event e) = Some n" "answers (event e) = Some k"
    using foldl_some [OF some] step by metis
  have "f m e' n = m n" if "e' \<in> set es" for m e'
  proof (rule step, rule ccontr)
    assume "\<not> (event_ref (event e') \<noteq> Some n \<or> answers (event e') \<noteq> Some k)"
    with e that h' assms(2,4) have "e' = e" unfolding one_outcome_def by fastforce
    with e(1) that h' assms(3) show False by (auto simp: image_iff)
  qed
  then have "foldl f (foldl f Map.empty h) es n = foldl f Map.empty h n" by (rule foldl_other)
  with some h' show ?thesis by simp
qed

lemma log_distinct: "db_inv d \<Longrightarrow> distinct (map seq (getEvents w d))"
  using db_invD(2) [of d w] by (simp add: getEvents_log log_ok_def del: upt_Suc)

text \<open>
  C4: An outcome of a durable step is final: what replay hands the workflow for an LLM or a tool step
  in some reachable state it hands it in every later one, whatever runs of the step follow.
\<close>

theorem recorded_outcome_is_final:
  assumes r: "reachable d" and later: "sys_step\<^sup>*\<^sup>* d d'"
    and f: "outcomes \<in> {ri_llmOutcomeBySeq, ri_toolOutcomeBySeq}"
    and some: "outcomes (index_history hash (getEvents w d)) n = Some v"
  shows "outcomes (index_history hash (getEvents w d')) n = Some v"
proof -
  note steps = soundD [OF sys_steps_sound [OF later] reachable_inv [OF r]]
  have fin: "foldl g Map.empty (getEvents w d') n = Some v"
    if "k \<in> {TLlm, TTool}" "foldl g Map.empty (getEvents w d) n = Some v"
      "\<And>m e. event_ref (event e) \<noteq> Some n \<or> answers (event e) \<noteq> Some k \<Longrightarrow> g m e n = m n" for k g
    by (rule outcome_fold_final [OF extendsD(1) [OF steps(2)] sys_invD(3) [OF steps(1)]
          log_distinct [OF sys_invD(1) [OF steps(1)]] that(1,3,2)])
  from f consider "outcomes = ri_llmOutcomeBySeq" | "outcomes = ri_toolOutcomeBySeq" by blast
  then show ?thesis
  proof cases
    case 1
    from fin [of TLlm llm_outcome_step] 1 some show ?thesis by (simp add: index_history_def outcome_other)
  next
    case 2
    from fin [of TTool tool_outcome_step] 2 some show ?thesis by (simp add: index_history_def outcome_other)
  qed
qed

theorem recorded_outcome_is_final_witness:
  "ri_toolOutcomeBySeq (index_history None (getEvents ''w1'' (leased_db TTool demo5))) 2 \<noteq> None"
proof -
  have later: "sys_step\<^sup>*\<^sup>* demo5 (leased_db TTool demo5)"
    unfolding leased_db_def by (rule r_into_rtranclp, rule sys_queue, rule lease_step.intros)
  obtain v where "ri_toolOutcomeBySeq (index_history None (getEvents ''w1'' demo5)) 2 = Some v"
    using demo_logs(4) unfolding Option.is_none_def by blast
  from recorded_outcome_is_final [OF demo_done(1) later, of ri_toolOutcomeBySeq, OF _ this] show ?thesis by simp
qed

end
