(* ===== verification/CalmSystem.thy ===== *)
theory CalmSystem
  imports ReplayOrder SystemProps
begin

section \<open>The system while replays of one workflow do not overlap\<close>

text \<open>
  The steps of all processes (\<open>sys_step\<close>) with three restrictions. Workers run one version of the code
  (\<open>code\<close> gives the function of a workflow type; a type that is not in it may be run in any way). While a
  replay runs, its workflow's history only hears of more: no other replay of it commits. And while an
  activity runs no other run of it commits an outcome. LLM and tool steps may overlap in any way: they
  are fenced. In every state such a system reaches each history replays without divergence.
\<close>

subsection \<open>The steps\<close>

inductive calm_run :: "(string \<rightharpoonup> workflow_fn) \<Rightarrow> (string \<Rightarrow> string) \<Rightarrow> (db \<Rightarrow> db \<Rightarrow> bool) \<Rightarrow> task \<Rightarrow> db \<Rightarrow> unit outcome_db \<Rightarrow> bool"
  for code sha S where
  calm_workflow: "t_taskType t = TWorkflow \<Longrightarrow> \<forall>e. S e (between e) \<Longrightarrow> \<forall>ty fn. code ty = Some fn \<longrightarrow> registry_get wfs ty = Some fn
     \<Longrightarrow> hear_step\<^sup>*\<^sup>* (getEvents (t_workflowId t) d) (getEvents (t_workflowId t) (between d))
     \<Longrightarrow> calm_run code sha S t d (workflowReplayHandler ck between wfs cfg sha t d)"
| calm_activity: "t_taskType t = TActivity \<Longrightarrow> \<forall>e. S e (between e)
     \<Longrightarrow> \<forall>n. t_scheduledEventSeq t = Some n \<and> answered_at TActivity n (getEvents (t_workflowId t) (between d))
            \<longrightarrow> answered_at TActivity n (getEvents (t_workflowId t) d)
     \<Longrightarrow> calm_run code sha S t d (activityHandler ck between acts t d)"
| calm_other: "t_taskType t \<notin> {TWorkflow, TActivity} \<Longrightarrow> run_of S t d x \<Longrightarrow> calm_run code sha S t d x"

lemma calm_run_mono [mono]:
  assumes "\<And>x y. A x y \<longrightarrow> B x y"
  shows "calm_run code sha A t d x \<longrightarrow> calm_run code sha B t d x"
proof
  assume "calm_run code sha A t d x"
  then show "calm_run code sha B t d x"
  proof (induction rule: calm_run.induct)
    case (calm_workflow t between wfs d ck cfg)
    then show ?case by (intro calm_run.calm_workflow) (use assms in auto)
  next
    case (calm_activity t between d ck acts)
    then show ?case by (intro calm_run.calm_activity) (use assms in auto)
  next
    case (calm_other t d x)
    then show ?case using run_of_mono [of A B] assms by (blast intro: calm_run.calm_other)
  qed
qed

inductive calm_step :: "(string \<rightharpoonup> workflow_fn) \<Rightarrow> (string \<Rightarrow> string) \<Rightarrow> db \<Rightarrow> db \<Rightarrow> bool" for code sha where
  calm_start: "\<forall>e. (calm_step code sha)\<^sup>*\<^sup>* e (between e) \<Longrightarrow> startWorkflow ck between w ty inp d = (d', r) \<Longrightarrow> calm_step code sha d d'"
| calm_start_killed: "insert_execution ck w ty inp d = (d', r) \<Longrightarrow> calm_step code sha d d'"
| calm_signal: "sendSignal ck w n p d = (d', r) \<Longrightarrow> calm_step code sha d d'"
| calm_cancel: "cancelWorkflow ck w reason d = (d', r) \<Longrightarrow> calm_step code sha d d'"
| calm_killed: "handed_out t d \<Longrightarrow> calm_run code sha (calm_step code sha)\<^sup>*\<^sup>* t d (d', r) \<Longrightarrow> calm_step code sha d d'"
| calm_settled: "handed_out t d \<Longrightarrow> calm_run code sha (calm_step code sha)\<^sup>*\<^sup>* t d (d1, r) \<Longrightarrow> (calm_step code sha)\<^sup>*\<^sup>* d1 d2 \<Longrightarrow>
     calm_step code sha d (d2\<lparr>db_tasks := fst (run_settles now rnd w t r (db_tasks d2))\<rparr>)"
| calm_queue: "lease_step (db_tasks d) q \<Longrightarrow> calm_step code sha d (d\<lparr>db_tasks := q\<rparr>)"
| calm_leader: "calm_step code sha d (recordLeadership ck leaderId d)"

definition calm_reachable :: "(string \<rightharpoonup> workflow_fn) \<Rightarrow> (string \<Rightarrow> string) \<Rightarrow> db \<Rightarrow> bool" where
  "calm_reachable code sha d \<longleftrightarrow> (calm_step code sha)\<^sup>*\<^sup>* empty_db d"

text \<open>They are steps of the system.\<close>

lemma calm_run_sys: "calm_run code sha S t d x \<Longrightarrow> run_of S t d x"
  by (induction rule: calm_run.induct) (auto intro: run_of.intros)

lemma both_steps: "(\<lambda>x y. P x y \<and> Q x y)\<^sup>*\<^sup>* d d' \<Longrightarrow> Q\<^sup>*\<^sup>* d d'"
  by (induction rule: rtranclp_induct) auto

lemma first_steps: "(\<lambda>x y. P x y \<and> Q x y)\<^sup>*\<^sup>* d d' \<Longrightarrow> P\<^sup>*\<^sup>* d d'"
  by (induction rule: rtranclp_induct) auto

lemma calm_sys: "calm_step code sha d d' \<Longrightarrow> sys_step d d'"
proof (induction rule: calm_step.induct)
  case (calm_start between ck w ty inp d d' r)
  have "sys_step\<^sup>*\<^sup>* e (between e)" for e using both_steps [OF calm_start(1) [rule_format]] .
  then show ?case by (intro sys_start [OF _ calm_start(2)]) simp
next
  case (calm_killed t d d' r)
  from calm_run_sys [OF calm_killed(2)] have "run_of sys_step\<^sup>*\<^sup>* t d (d', r)"
    by (rule run_of_mono [THEN mp, rotated]) (blast intro: both_steps)
  from sys_killed [OF calm_killed(1) this] show ?case .
next
  case (calm_settled t d d1 r d2 now rnd w)
  from calm_run_sys [OF calm_settled(2)] have "run_of sys_step\<^sup>*\<^sup>* t d (d1, r)"
    by (rule run_of_mono [THEN mp, rotated]) (blast intro: both_steps)
  from sys_settled [OF calm_settled(1) this both_steps [OF calm_settled(3)]] show ?case .
qed (auto intro: sys_step.intros)

lemma calm_steps_sound: "(calm_step code sha)\<^sup>*\<^sup>* d d' \<Longrightarrow> sound_step d d'"
  by (rule sys_steps_sound) (induction rule: rtranclp_induct, auto dest: calm_sys)

subsection \<open>What a step does to the histories\<close>

text \<open>The workflow whose history has not started, or started with this input, is run by \<open>fn\<close>.\<close>

definition run_by :: "(string \<rightharpoonup> workflow_fn) \<Rightarrow> workflow_fn \<Rightarrow> jsval \<Rightarrow> stored_event list \<Rightarrow> bool" where
  "run_by code fn inp h \<longleftrightarrow> (\<exists>ty. code ty = Some fn \<and> (find_map started_of h = None \<or> find_map started_of h = Some (ty, inp)))"

definition calm_inv :: "(string \<rightharpoonup> workflow_fn) \<Rightarrow> (string \<Rightarrow> string) \<Rightarrow> db \<Rightarrow> bool" where
  "calm_inv code sha d \<longleftrightarrow> sys_inv d \<and> (\<forall>w fn inp. run_by code fn inp (getEvents w d) \<longrightarrow> grown fn inp sha (getEvents w d))"

definition ordered_logs :: "(string \<rightharpoonup> workflow_fn) \<Rightarrow> (string \<Rightarrow> string) \<Rightarrow> db \<Rightarrow> db \<Rightarrow> bool" where
  "ordered_logs code sha d d' \<longleftrightarrow>
     (\<forall>w fn inp. run_by code fn inp (getEvents w d') \<longrightarrow> (log_step fn inp sha)\<^sup>*\<^sup>* (getEvents w d) (getEvents w d'))"

definition keeps_order :: "(string \<rightharpoonup> workflow_fn) \<Rightarrow> (string \<Rightarrow> string) \<Rightarrow> db \<Rightarrow> db \<Rightarrow> bool" where
  "keeps_order code sha d d' \<longleftrightarrow> (calm_inv code sha d \<longrightarrow> ordered_logs code sha d d')"

lemma run_by_prefix: "run_by code fn inp h' \<Longrightarrow> prefix h h' \<Longrightarrow> run_by code fn inp h"
  by (auto simp: run_by_def prefix_def find_map_append split: option.splits)

lemma ordered_refl [simp]: "ordered_logs code sha d d"
  by (simp add: ordered_logs_def)

lemma ordered_trans:
  assumes "ordered_logs code sha d e" "ordered_logs code sha e d'" "extends e d'"
  shows "ordered_logs code sha d d'"
  using assms(1,2) run_by_prefix [OF _ extendsD(1) [OF assms(3)]] rtranclp_trans unfolding ordered_logs_def by meson

lemma calm_inv_next:
  assumes "calm_inv code sha d" "sound_step d d'" "keeps_order code sha d d'"
  shows "calm_inv code sha d'"
proof -
  note d' = soundD [OF assms(2)]
  have "grown fn inp sha (getEvents w d')" if "run_by code fn inp (getEvents w d')" for w fn inp
  proof -
    have "extends d d'" using d'(2) assms(1) by (simp add: calm_inv_def)
    then have "run_by code fn inp (getEvents w d)" using run_by_prefix [OF that] extendsD(1) by blast
    then have "grown fn inp sha (getEvents w d)" using assms(1) by (simp add: calm_inv_def)
    moreover have "(log_step fn inp sha)\<^sup>*\<^sup>* (getEvents w d) (getEvents w d')"
      using assms(1,3) that by (simp add: keeps_order_def ordered_logs_def)
    ultimately show ?thesis using log_steps_grown by blast
  qed
  with d'(1) assms(1) show ?thesis by (simp add: calm_inv_def)
qed

lemma order_trans:
  assumes "keeps_order code sha d e" "sound_step d e" "keeps_order code sha e d'" "sound_step e d'"
  shows "keeps_order code sha d d'"
  unfolding keeps_order_def
proof
  assume d: "calm_inv code sha d"
  note e = calm_inv_next [OF d assms(2,1)]
  have "extends e d'" using soundD(2) [OF assms(4)] e by (simp add: calm_inv_def)
  moreover have "ordered_logs code sha d e" "ordered_logs code sha e d'" using assms(1,3) d e by (simp_all add: keeps_order_def)
  ultimately show "ordered_logs code sha d d'" using ordered_trans by blast
qed

lemma same_logs: "(\<And>w. getEvents w d' = getEvents w e) \<Longrightarrow> keeps_order code sha d e \<Longrightarrow> keeps_order code sha d d'"
  by (simp add: keeps_order_def ordered_logs_def)

lemma order_refl [simp]: "keeps_order code sha d d"
  by (simp add: keeps_order_def)

lemma no_new_events: "(\<And>w. getEvents w d' = getEvents w d) \<Longrightarrow> keeps_order code sha d d'"
  by (rule same_logs [where e = d]) simp_all

subsection \<open>One append\<close>

lemma ref_answers: "event_ref ev = Some n \<Longrightarrow> \<exists>k. answers ev = Some k"
  by (cases ev) auto

lemma appended_hear:
  assumes d: "sys_inv d" "sys_inv d'" and log: "getEvents w d' = getEvents w d @ [e]" and e: "requests (event e) = None"
    and act: "\<And>n. answers (event e) = Some TActivity \<Longrightarrow> event_ref (event e) = Some n \<Longrightarrow> \<not> answered_at TActivity n (getEvents w d)"
  shows "hear_step (getEvents w d) (getEvents w d')"
proof -
  let ?h = "getEvents w d"
  have new: "e \<notin> set ?h" using log_distinct [OF sys_invD(1) [OF d(2)], of w] by (force simp: log)
  have bound: "n \<le> length ?h" if n: "event_ref (event e) = Some n" for n
  proof -
    from ref_answers [OF n] obtain k where "answers (event e) = Some k" by blast
    with sys_invD(2) [OF d(2), of w] n obtain r where r: "r \<in> set (getEvents w d')" "seq r < seq e" "n = seq r"
      by (auto simp: answers_requests_def log)
    then have "r \<in> set ?h" by (auto simp: log)
    from seq_bound [OF sys_invD(1) [OF d(1)] this] r(3) show ?thesis by simp
  qed
  have "\<not> answered_at k n ?h" if k: "answers (event e) = Some k" "event_ref (event e) = Some n" "k \<noteq> TTimer" for k n
  proof (cases "k = TActivity")
    case False
    then have kk: "k \<in> {TLlm, TTool}" using k(1,3) by (cases "event e") auto
    have "x = e" if "x \<in> set ?h" "answers (event x) = Some k" "event_ref (event x) = Some n" for x
      using sys_invD(3) [OF d(2), of w] that k kk unfolding one_outcome_def log by fastforce
    with new show ?thesis unfolding answered_at_def by blast
  qed (use k act in simp)
  then have "first_answer ?h e" by (simp add: first_answer_def)
  with e bound show ?thesis unfolding log by (intro hear_event) auto
qed

lemma hear_order:
  assumes sound: "sound_step d d'"
    and logs: "\<And>w. sys_inv d \<Longrightarrow> getEvents w d' = getEvents w d \<or> (\<exists>e. getEvents w d' = getEvents w d @ [e] \<and> requests (event e) = None
      \<and> (\<forall>n. answers (event e) = Some TActivity \<and> event_ref (event e) = Some n \<longrightarrow> \<not> answered_at TActivity n (getEvents w d)))"
  shows "keeps_order code sha d d'"
  unfolding keeps_order_def ordered_logs_def
proof (intro impI allI)
  fix w fn inp assume "calm_inv code sha d"
  then have inv: "sys_inv d" by (simp add: calm_inv_def)
  note inv' = soundD(1) [OF sound inv]
  from logs [OF inv, of w] show "(log_step fn inp sha)\<^sup>*\<^sup>* (getEvents w d) (getEvents w d')"
  proof (elim disjE exE conjE)
    fix e assume e: "getEvents w d' = getEvents w d @ [e]" "requests (event e) = None"
      "\<forall>n. answers (event e) = Some TActivity \<and> event_ref (event e) = Some n \<longrightarrow> \<not> answered_at TActivity n (getEvents w d)"
    have "hear_step (getEvents w d) (getEvents w d')" by (rule appended_hear [OF inv inv' e(1,2)]) (use e(3) in blast)
    then show ?thesis by (intro r_into_rtranclp log_heard)
  qed simp
qed

text \<open>A transaction that appends one event which asks for nothing.\<close>

lemma append_one_order:
  assumes "append_tx ck w [ev] d = (d', r)" "sound_step d d'" "requests ev = None"
    and "\<And>n. sys_inv d \<Longrightarrow> answers ev = Some TActivity \<Longrightarrow> event_ref ev = Some n \<Longrightarrow> \<not> answered_at TActivity n (getEvents w d)"
  shows "keeps_order code sha d d'"
proof (rule hear_order [OF assms(2)])
  fix v assume inv: "sys_inv d"
  from append_tx_cases [OF sys_invD(1) [OF inv], of ck w "[ev]"]
  show "getEvents v d' = getEvents v d \<or> (\<exists>e. getEvents v d' = getEvents v d @ [e] \<and> requests (event e) = None
      \<and> (\<forall>n. answers (event e) = Some TActivity \<and> event_ref (event e) = Some n \<longrightarrow> \<not> answered_at TActivity n (getEvents v d)))"
  proof
    assume "\<exists>d''. append_tx ck w [ev] d = (d'', Inr ()) \<and> [ev] \<noteq> [] \<and> w \<in> set (execution_ids d) \<and> no_proto_events [ev]
        \<and> appended ck w [ev] d d''"
    then have a: "appended ck w [ev] d d'" using assms(1) by auto
    show ?thesis
    proof (cases "v = w")
      case True
      with appended_one [OF a] assms(3,4) inv show ?thesis by simp
    qed (use appendedD(5) [OF a] in simp)
  qed (use assms(1) in auto)
qed

lemma plain_order: "append_tx ck w [ev] d = (d', r) \<Longrightarrow> requests ev = None \<Longrightarrow> answers ev = None \<Longrightarrow> keeps_order code sha d d'"
  by (rule append_one_order) (auto intro: plain_append_sound plain_append_one)

text \<open>The recording of a durable step's outcome.\<close>

lemma events_order:
  assumes app: "appendEvents ck w [ev] d = (d', Inr x)" and "sound_step d d'" and ev: "answers ev = Some k" "k \<in> {TLlm, TTool}"
  shows "keeps_order code sha d d'"
proof (rule hear_order [OF assms(2)])
  fix v assume inv: "sys_inv d"
  note a = appendEvents_appended [OF sys_invD(1) [OF inv] app]
  have "requests ev = None" "answers ev \<noteq> Some TActivity" using ev by (cases ev; auto)+
  then show "getEvents v d' = getEvents v d \<or> (\<exists>e. getEvents v d' = getEvents v d @ [e] \<and> requests (event e) = None
      \<and> (\<forall>n. answers (event e) = Some TActivity \<and> event_ref (event e) = Some n \<longrightarrow> \<not> answered_at TActivity n (getEvents v d)))"
    using appended_one [OF a] appendedD(5) [OF a, of v] by (cases "v = w") auto
qed

lemma step_record_order:
  assumes "step_record k ck t h d x" "sound_step d (fst x)" "k \<in> {TLlm, TTool}"
  shows "keeps_order code sha d (fst x)"
proof -
  from assms(1) obtain n ev types r where rec: "record_outcome ck t n ev types d = (fst x, r)" and ev: "answers ev = Some k"
    unfolding step_record_def by blast
  from record_outcome_cases [OF rec] show ?thesis
    by (elim disjE exE conjE) (auto intro: no_new_events events_order [OF _ assms(2) ev assms(3)])
qed

subsection \<open>The handlers\<close>

lemma order_record:
  assumes "keeps_order code sha d e" "sound_step d e"
    and "sys_inv d \<Longrightarrow> extends d e \<Longrightarrow> keeps_order code sha e d' \<and> sound_step e d'"
  shows "keeps_order code sha d d'"
proof (cases "sys_inv d")
  case True
  then show ?thesis using order_trans [OF assms(1,2)] assms(3) soundD(2) [OF assms(2)] by blast
qed (simp add: keeps_order_def calm_inv_def)

lemma activity_fresh:
  "activityHandler ck between acts t d = (d', r) \<Longrightarrow> d' = d \<or>
   (\<exists>n y. append_tx ck (t_workflowId t) [activity_result n y] (between d) = (d', r) \<and> t_scheduledEventSeq t = Some n
      \<and> request_at TActivity n (getEvents (t_workflowId t) d) \<and> \<not> answered_at TActivity n (getEvents (t_workflowId t) d))"
  unfolding activityHandler_def Let_def has_outcome_answered [symmetric]
  by (auto split: option.splits if_splits simp del: activity_of.simps dest!: request_found(3))

lemma activity_order:
  assumes run: "activityHandler ck between acts t d = (d', r)" and order: "keeps_order code sha d (between d)" "sound_step d (between d)"
    and alone: "\<forall>n. t_scheduledEventSeq t = Some n \<and> answered_at TActivity n (getEvents (t_workflowId t) (between d))
      \<longrightarrow> answered_at TActivity n (getEvents (t_workflowId t) d)"
  shows "keeps_order code sha d d'"
  using activity_fresh [OF run]
proof (elim disjE exE conjE)
  fix n y assume a: "append_tx ck (t_workflowId t) [activity_result n y] (between d) = (d', r)" "t_scheduledEventSeq t = Some n"
    "request_at TActivity n (getEvents (t_workflowId t) d)" "\<not> answered_at TActivity n (getEvents (t_workflowId t) d)"
  have kind: "answers (activity_result n y) = Some TActivity" "event_ref (activity_result n y) = Some n"
    "requests (activity_result n y) = None" by (cases y; simp)+
  show ?thesis
  proof (rule order_record [OF order])
    assume "extends d (between d)"
    then have "safe_events (t_workflowId t) (between d) [activity_result n y]"
      by (intro outcome_fits [OF request_extends [OF a(3)] kind(1,2)]) (cases y; simp)+
    then have s: "sound_step (between d) d'" by (intro append_tx_sound [OF a(1)])
    moreover have "keeps_order code sha (between d) d'"
      by (rule append_one_order [OF a(1) s kind(3)]) (use alone a(2,4) kind(2) in auto)
    ultimately show "keeps_order code sha (between d) d' \<and> sound_step (between d) d'" by blast
  qed
qed simp

lemma timer_order:
  assumes "timerHandler ck t d = (d', r)" "sound_step d d'"
  shows "keeps_order code sha d d'"
proof (cases "t_scheduledEventSeq t")
  case (Some n)
  then have "append_tx ck (t_workflowId t) [TimerFired n] d = (d', r)" using assms(1) by (simp add: timerHandler_def)
  then show ?thesis by (rule append_one_order [OF _ assms(2)]) simp_all
qed (use assms(1) in \<open>simp add: timerHandler_def\<close>)

lemma record_after:
  assumes order: "keeps_order code sha d e" "sound_step d e" and "k \<in> {TLlm, TTool}"
    and rec: "step_record k ck t (getEvents (t_workflowId t) d) e x"
  shows "keeps_order code sha d (fst x)"
proof (rule order_record [OF order])
  assume "extends d e"
  from step_record_sound [OF rec this assms(3)] show "keeps_order code sha e (fst x) \<and> sound_step e (fst x)"
    using step_record_order [OF rec _ assms(3)] by blast
qed

lemma llm_order:
  assumes "llmCallHandler ck gap p wfs cfg sha' t d = (d', r)" "provider_ok p"
    and o: "\<And>i e. keeps_order code sha e (gap i e)" "\<And>i e. sound_step e (gap i e)"
  shows "keeps_order code sha d d'"
  using assms(1)
proof (cases rule: llm_handler_cases)
  case 2
  from record_after [OF o _ this] show ?thesis by simp
next
  case (3 rq cx y x)
  then obtain calls where "y = (gap 0 d)\<lparr>db_providerCalls := db_providerCalls (gap 0 d) @ calls\<rparr>"
    using assms(2) unfolding provider_ok_def by blast
  then have "getEvents w d' = getEvents w (gap 0 d)" for w using 3(2) by (simp add: getEvents_def)
  then show ?thesis by (rule same_logs) (rule o)
next
  case (4 rq cx y x i)
  then obtain calls where "y = (gap 0 d)\<lparr>db_providerCalls := db_providerCalls (gap 0 d) @ calls\<rparr>"
    using assms(2) unfolding provider_ok_def by blast
  then have "getEvents w y = getEvents w (gap 0 d)" for w by (simp add: getEvents_def)
  then have "keeps_order code sha d y" by (rule same_logs) (rule o)
  moreover note s = sound_trans [OF o(2) provider_sound [OF assms(2) 4(1)]]
  ultimately have "keeps_order code sha d (gap i y)" by (rule order_trans [OF _ _ o])
  from record_after [OF this sound_trans [OF s o(2)] _ 4(2)] show ?thesis by simp
qed simp

lemma atomic_order:
  assumes run: "executeAtomically ck others l t q n h d = (d', r)" and h: "one_effect h"
    and o: "\<And>e. keeps_order code sha e (others e)" "\<And>e. sound_step e (others e)"
    and req: "request_at TTool n (getEvents (t_workflowId t) d)"
  shows "keeps_order code sha d d'"
proof (cases r)
  case (Inl e)
  with run obtain d2 where "d' = rollback (others d) d2" by (auto simp: executeAtomically_def split: prod.splits sum.splits)
  then show ?thesis by (intro same_logs [OF _ o(1)]) simp
next
  case (Inr u)
  with run have "tool_transaction ck others l t q n h d = (d', Inr ())"
    by (auto simp: executeAtomically_def split: prod.splits sum.splits)
  then obtain e v k where e: "sound_step d e" "db_events e = db_events d" "ledger_row (t_workflowId t) (trq_stepId q) e \<noteq> None"
    "record_tool_outcome ck t q n v k (others e) = (d', Inr ())" by (rule transaction_cases [OF _ h])
  have "keeps_order code sha d e" by (rule no_new_events) (simp add: getEvents_def e(2))
  note oe = order_trans [OF this e(1) o] sound_trans [OF e(1) o(2)]
  show ?thesis
  proof (rule order_record [OF oe])
    assume inv: "sys_inv d" and ext: "extends d (others e)"
    have "ledger_row (t_workflowId t) (trq_stepId q) (others e) \<noteq> None"
      using extendsD(3) [OF soundD(2) [OF o(2) soundD(1) [OF e(1) inv]]] e(3) by blast
    then have s: "sound_step (others e) d'" by (rule record_tool_sound [OF e(4) request_extends [OF req ext]])
    from e(4) have "d' = others e \<or> (\<exists>x. appendEvents ck (t_workflowId t)
        [TOOL_COMPLETED (trq_stepId q) n (trq_tool q) (nullish v JNull) k (t_attempt t)] (others e) = (d', Inr x))"
      by (auto simp: record_tool_outcome_def split: sum.splits prod.splits if_splits)
    then have "keeps_order code sha (others e) d'" by (elim disjE exE) (simp_all add: events_order [OF _ s])
    with s show "keeps_order code sha (others e) d' \<and> sound_step (others e) d'" by blast
  qed
qed

lemma tool_order:
  assumes "toolCallHandler ck gap lat reg sha' t d = (d', r)" "tools_ok reg"
    and o: "\<And>i e. keeps_order code sha e (gap i e)" "\<And>i e. sound_step e (gap i e)"
  shows "keeps_order code sha d d'"
  using assms(1)
proof (cases rule: tool_handler_cases)
  case 2
  from record_after [OF o _ this] show ?thesis by simp
next
  case (3 n q tool y x)
  have h: "one_effect (tl_handler tool)" using assms(2) 3(1) unfolding tools_ok_def by blast
  have y: "keeps_order code sha d y \<and> sound_step d y" if "sys_inv d"
  proof -
    have "request_at TTool n (getEvents (t_workflowId t) (gap 0 d))" by (rule request_extends [OF 3(2) soundD(2) [OF o(2) that]])
    note at = atomic_sound [OF 3(4) h o(2) this] atomic_order [OF 3(4) h o this]
    show ?thesis using order_trans [OF o at(2)] sound_trans [OF o(2)] at(1) by blast
  qed
  show ?thesis
  proof (cases "sys_inv d")
    case True
    note yd = y [OF True]
    from 3(5) show ?thesis
    proof
      assume "step_record TTool ck t (getEvents (t_workflowId t) d) (gap 2 y) (d', r)"
      from record_after [OF order_trans [OF _ _ o] sound_trans [OF _ o(2)] _ this] yd show ?thesis by simp
    qed (use yd in simp)
  qed (simp add: keeps_order_def calm_inv_def)
qed simp

text \<open>The replay handler: it commits nothing, an event of its own that asks for nothing, or the commands.\<close>

lemma handler_appends:
  assumes "workflowReplayHandler ck between wfs cfg sha t d = (d', x)"
  obtains "d' = d"
  | ev where "append_tx ck (t_workflowId t) [ev] (between d) = (d', x)" "requests ev = None" "answers ev = None"
  | ty inp fn r evs where "find_map started_of (getEvents (t_workflowId t) d) = Some (ty, inp)" "registry_get wfs ty = Some fn"
      "replay fn inp (getEvents (t_workflowId t) d) (Some sha) = Inr r" "commands_events ck cfg (rr_commands r) = Inr evs"
      "append_tx ck (t_workflowId t) evs (between d) = (d', x)"
proof -
  let ?w = "t_workflowId t"
  have "d' = d \<or> (\<exists>ev. append_tx ck ?w [ev] (between d) = (d', x) \<and> requests ev = None \<and> answers ev = None)
    \<or> (\<exists>ty inp fn r evs. find_map started_of (getEvents ?w d) = Some (ty, inp) \<and> registry_get wfs ty = Some fn
       \<and> replay fn inp (getEvents ?w d) (Some sha) = Inr r \<and> commands_events ck cfg (rr_commands r) = Inr evs
       \<and> append_tx ck ?w evs (between d) = (d', x))"
    using assms unfolding workflowReplayHandler_def Let_def
    by (auto split: option.splits bool.splits sum.splits js_error.splits if_splits) force+
  then show thesis using that by blast
qed

lemma commands_order:
  assumes d: "calm_inv code sha d" "extends d e"
    and app: "append_tx ck w evs e = (d', x)" "sys_inv e"
    and r: "find_map started_of (getEvents w d) = Some (ty, inp)" "\<And>fn'. code ty = Some fn' \<Longrightarrow> fn' = fn"
      "replay fn inp (getEvents w d) (Some sha) = Inr r" "commands_events ck cfg (rr_commands r) = Inr evs"
    and heard: "hear_step\<^sup>*\<^sup>* (getEvents w d) (getEvents w e)"
  shows "ordered_logs code sha e d'"
  unfolding ordered_logs_def
proof (intro allI impI)
  fix v fn' inp' assume runs: "run_by code fn' inp' (getEvents v d')"
  from append_tx_cases [OF sys_invD(1) [OF app(2)], of ck w evs] app(1)
  have "getEvents v d' = getEvents v e \<or> appended ck w evs e d'" by auto
  then show "(log_step fn' inp' sha)\<^sup>*\<^sup>* (getEvents v e) (getEvents v d')"
  proof
    assume a: "appended ck w evs e d'"
    show ?thesis
    proof (cases "v = w")
      case True
      have "prefix (getEvents w d) (getEvents w d')"
        using extendsD(1) [OF d(2), of w] appendedD(4) [OF a] by (metis prefixI prefix_order.trans)
      from run_by_prefix [OF runs [unfolded True] this] have g: "run_by code fn' inp' (getEvents w d)" .
      with r(1) have "inp' = inp" "code ty = Some fn'" by (auto simp: run_by_def)
      moreover from this(2) have "fn' = fn" by (rule r(2))
      moreover have "grown fn' inp' sha (getEvents w d)" using d(1) g by (simp add: calm_inv_def)
      ultimately have "log_step fn' inp' sha (getEvents w e) (getEvents w d')"
        unfolding appendedD(4) [OF a] using log_decided [OF _ _ r(4) heard] r(3) by simp
      then show ?thesis by (simp add: True r_into_rtranclp)
    qed (simp add: appendedD(5) [OF a])
  qed simp
qed

lemma workflow_order:
  assumes run: "workflowReplayHandler ck between wfs cfg sha t d = (d', x)"
    and order: "keeps_order code sha d (between d)" "sound_step d (between d)"
    and code: "\<forall>ty fn. code ty = Some fn \<longrightarrow> registry_get wfs ty = Some fn"
    and heard: "hear_step\<^sup>*\<^sup>* (getEvents (t_workflowId t) d) (getEvents (t_workflowId t) (between d))"
  shows "keeps_order code sha d d'"
  using run
proof (cases rule: handler_appends)
  case (2 ev)
  then have "sound_step (between d) d'" by (auto intro: plain_append_sound plain_append_one)
  with order_trans [OF order plain_order [OF 2]] show ?thesis by blast
next
  case (3 ty inp fn r evs)
  have s: "sound_step (between d) d'"
    by (rule append_tx_sound [OF 3(5)]) (use commands_answers [OF 3(4)] in \<open>auto simp: safe_events_def\<close>)
  show ?thesis
    unfolding keeps_order_def
  proof
    assume d: "calm_inv code sha d"
    then have inv: "sys_inv d" by (simp add: calm_inv_def)
    note e = soundD [OF order(2) inv]
    have fn: "fn' = fn" if "code ty = Some fn'" for fn' using code that 3(2) by simp
    have "ordered_logs code sha (between d) d'"
      by (rule commands_order [OF d e(2) 3(5) e(1) 3(1) fn 3(3,4) heard])
    moreover have "ordered_logs code sha d (between d)" using order(1) d by (simp add: keeps_order_def)
    ultimately show "ordered_logs code sha d d'" using soundD(2) [OF s e(1)] ordered_trans by blast
  qed
qed simp

subsection \<open>Every step\<close>

abbreviation ordered_steps :: "(string \<rightharpoonup> workflow_fn) \<Rightarrow> (string \<Rightarrow> string) \<Rightarrow> db \<Rightarrow> db \<Rightarrow> bool" where
  "ordered_steps code sha \<equiv> (\<lambda>x y. calm_step code sha x y \<and> keeps_order code sha x y)\<^sup>*\<^sup>*"

lemma ordered_steps: "ordered_steps code sha d d' \<Longrightarrow> keeps_order code sha d d' \<and> sound_step d d'"
proof (induction rule: rtranclp_induct)
  case (step y z)
  have "sound_step y z" by (rule sys_steps_sound) (use step(2) calm_sys in blast)
  with step order_trans sound_trans show ?case by blast
qed simp

lemma calm_run_steps: "calm_run code sha (ordered_steps code sha) t d x \<Longrightarrow> calm_run code sha (calm_step code sha)\<^sup>*\<^sup>* t d x"
  using calm_run_mono [of "ordered_steps code sha" "(calm_step code sha)\<^sup>*\<^sup>*"]
    first_steps [where P = "calm_step code sha" and Q = "keeps_order code sha"] by blast

lemma calm_run_order:
  assumes "calm_run code sha (ordered_steps code sha) t d (d', r)" "handed_out t d"
  shows "keeps_order code sha d d'"
  using assms(1)
proof cases
  case (calm_workflow between wfs ck cfg)
  with ordered_steps [of code sha d "between d"] show ?thesis by (intro workflow_order [OF calm_workflow(1) [symmetric]]) auto
next
  case (calm_activity between ck acts)
  with ordered_steps [of code sha d "between d"] show ?thesis by (intro activity_order [OF calm_activity(1) [symmetric]]) auto
next
  case calm_other
  from calm_other(2) show ?thesis
  proof cases
    case (run_timer ck)
    from timer_ok [OF run_timer(1) [symmetric] assms(2) run_timer(2)] have "sound_step d d'" by (simp add: run_ok_def)
    from timer_order [OF run_timer(1) [symmetric] this] show ?thesis .
  next
    case (run_llm gap p ck wfs cfg sha')
    show ?thesis by (rule llm_order [OF run_llm(1) [symmetric] run_llm(4)]) (use run_llm(3) ordered_steps in blast)+
  next
    case (run_tool gap reg ck lat sha')
    show ?thesis by (rule tool_order [OF run_tool(1) [symmetric] run_tool(4)]) (use run_tool(3) ordered_steps in blast)+
  qed (use calm_other(1) in simp_all)
qed

lemma calm_step_order: "calm_step code sha d d' \<Longrightarrow> keeps_order code sha d d'"
proof (induction rule: calm_step.induct)
  case (calm_start between ck w ty inp d d' r)
  obtain d1 x where d1: "insert_execution ck w ty inp d = (d1, x)" by fastforce
  have "db_events d1 = db_events d" using d1 by (auto simp: insert_execution_def split: option.splits if_splits)
  then have s1: "keeps_order code sha d d1" "sound_step d d1"
    using insert_sound [OF d1] by (auto intro!: no_new_events simp: getEvents_def)
  show ?case
  proof (cases x)
    case (Inl e)
    with calm_start(2) d1 s1 show ?thesis by (simp add: startWorkflow_def)
  next
    case (Inr u)
    obtain d2 y where d2: "append_tx ck w [WorkflowStarted ty inp] (between d1) = (d2, y)" by fastforce
    then have "d' = d2" using calm_start(2) d1 Inr by (auto simp: startWorkflow_def split: sum.splits)
    moreover have b: "keeps_order code sha d1 (between d1)" "sound_step d1 (between d1)"
      using ordered_steps [OF calm_start(1) [rule_format]] by blast+
    moreover have "sound_step (between d1) d2" using plain_append_sound [OF plain_append_one [OF d2]] by simp
    moreover have "keeps_order code sha (between d1) d2" by (rule plain_order [OF d2]) simp_all
    ultimately show ?thesis using order_trans [OF s1 order_trans] sound_trans by blast
  qed
next
  case (calm_start_killed ck w ty inp d d' r)
  then have "db_events d' = db_events d" by (auto simp: insert_execution_def split: option.splits if_splits)
  then show ?case by (intro no_new_events) (simp add: getEvents_def)
next
  case (calm_signal ck w n p d d' r)
  then show ?case unfolding sendSignal_def by (rule plain_order) simp_all
next
  case (calm_cancel ck w reason d d' r)
  then show ?case unfolding cancelWorkflow_def by (rule plain_order) simp_all
next
  case (calm_killed t d d' r)
  then show ?case by (intro calm_run_order)
next
  case (calm_settled t d d1 r d2 now rnd w)
  have "calm_step code sha d d1" by (rule calm_killed [OF calm_settled(1) calm_run_steps [OF calm_settled(2)]])
  then have "sound_step d d1" by (intro sys_step_sound calm_sys)
  from order_trans [OF calm_run_order [OF calm_settled(2,1)] this] ordered_steps [OF calm_settled(3)]
  have "keeps_order code sha d d2" by blast
  then show ?case by (rule same_logs [rotated]) (simp add: getEvents_def)
next
  case (calm_queue d q)
  then show ?case by (intro no_new_events) (simp add: getEvents_def)
next
  case (calm_leader d ck leaderId)
  then show ?case by (intro no_new_events) (simp add: getEvents_def recordLeadership_def)
qed

subsection \<open>What holds in every reachable state\<close>

lemma calm_steps_order: "(calm_step code sha)\<^sup>*\<^sup>* d d' \<Longrightarrow> keeps_order code sha d d' \<and> sound_step d d'"
  by (rule ordered_steps) (metis (no_types, lifting) calm_step_order mono_rtranclp)

lemma calm_reachable_inv:
  assumes "calm_reachable code sha d"
  shows "calm_inv code sha d"
proof -
  have "getEvents w empty_db = []" for w by (simp add: getEvents_def empty_db_def)
  then have "calm_inv code sha empty_db" by (simp add: calm_inv_def empty_inv grown_empty)
  from calm_inv_next [OF this] calm_steps_order assms show ?thesis unfolding calm_reachable_def by blast
qed

lemma calm_grown:
  assumes "calm_reachable code sha d" "find_map started_of (getEvents w d) = Some (ty, inp)" "code ty = Some fn"
  shows "grown fn inp sha (getEvents w d)"
  using calm_reachable_inv [OF assms(1)] assms(2,3) by (auto simp: calm_inv_def run_by_def)

text \<open>The run of \<open>SystemProps\<close> is one without overlaps.\<close>

definition demo_code :: "string \<rightharpoonup> workflow_fn" where
  "demo_code = [''lookup'' \<mapsto> lookup_workflow]"

lemma calm_lease: "calm_reachable code sha d \<Longrightarrow> calm_reachable code sha (leased_db ty d)"
  unfolding calm_reachable_def leased_db_def by (rule rtranclp.rtrancl_into_rtrancl) (auto intro: calm_queue lease_step.intros)

lemma demo_calm_start: "calm_reachable demo_code one_hash demo2"
proof -
  have "calm_reachable demo_code one_hash demo1"
    unfolding calm_reachable_def demo1_def
    by (rule r_into_rtranclp, rule calm_start [where between = id and d' = "fst x" and r = "snd x" for x]) (simp, simp)
  then show ?thesis unfolding demo2_def by (rule calm_lease)
qed

lemma demo_calm_steps:
  "(calm_step demo_code one_hash)\<^sup>*\<^sup>* demo2 demo4" "calm_step demo_code one_hash demo4 demo5"
proof -
  let ?S = "(calm_step demo_code one_hash)\<^sup>*\<^sup>*"
  have "calm_run demo_code one_hash ?S (tt_rows (db_tasks demo2) ! 0) demo2
     (workflowReplayHandler clock0 id [(''lookup'', lookup_workflow)] hash_only one_hash (tt_rows (db_tasks demo2) ! 0) demo2)"
    by (rule calm_workflow) (simp_all add: demo_rows demo_code_def registry_get_def)
  then have "calm_step demo_code one_hash demo2 demo3" unfolding demo3_def
    by (intro calm_killed [OF handed_row, where r = "snd x" and d' = "fst x" for x]) (simp_all add: demo_rows)
  moreover have "calm_step demo_code one_hash demo3 demo4"
    unfolding demo4_def leased_db_def by (intro calm_queue lease_step.intros)
  ultimately show "?S demo2 demo4" by simp
  have h: "handed_out (tt_rows (db_tasks demo4) ! 1) demo4" by (rule handed_row) (simp add: demo_rows)
  have "run_of ?S (tt_rows (db_tasks demo4) ! 1) demo4
     (toolCallHandler clock0 (\<lambda>i. id) 5 lookup_tools one_hash (tt_rows (db_tasks demo4) ! 1) demo4)"
    by (rule run_tool) (simp_all add: demo_rows lookup_tools_ok del: One_nat_def)
  then have "run_of ?S (tt_rows (db_tasks demo4) ! 1) demo4 (demo5, Inr ())" by (metis demo5_def demo_rows(5) prod.collapse)
  then have "calm_run demo_code one_hash ?S (tt_rows (db_tasks demo4) ! 1) demo4 (demo5, Inr ())"
    by (intro calm_other) (simp_all add: demo_rows del: One_nat_def)
  from calm_killed [OF h this] show "calm_step demo_code one_hash demo4 demo5" .
qed

lemma demo_calm: "calm_reachable demo_code one_hash demo2" "calm_reachable demo_code one_hash demo5"
  using demo_calm_start demo_calm_steps unfolding calm_reachable_def by (auto intro: rtranclp.rtrancl_into_rtrancl rtranclp_trans)

lemma demo_started:
  "find_map started_of (getEvents ''w1'' demo2) = Some (''lookup'', JNull)"
  "find_map started_of (getEvents ''w1'' demo5) = Some (''lookup'', JNull)"
  by code_simp+

text \<open>
  C6: Unchanged code never diverges. In every state that the processes can reach together while no two
  replays of one workflow and no two runs of one activity overlap - crashed and repeated runs, expired
  leases, signals, cancellations, overlapping runs of LLM and tool steps included - the replay of any
  history by the workflow's function ends without a non-determinism or a mismatch error.
\<close>

theorem unchanged_code_never_diverges:
  assumes "calm_reachable code sha d" "find_map started_of (getEvents w d) = Some (ty, inp)" "code ty = Some fn"
  shows "\<exists>r. replay fn inp (getEvents w d) (Some sha) = Inr r"
  by (rule grown_replays [OF calm_grown [OF assms]])

theorem unchanged_code_never_diverges_witness: "\<exists>r. replay lookup_workflow JNull (getEvents ''w1'' demo5) (Some one_hash) = Inr r"
  by (rule unchanged_code_never_diverges [OF demo_calm(2) demo_started(2)]) (simp add: demo_code_def)

text \<open>The history of a started workflow goes on by the steps of its log.\<close>

lemma calm_log:
  assumes "calm_reachable code sha d" "(calm_step code sha)\<^sup>*\<^sup>* d d'"
    and "find_map started_of (getEvents w d) = Some (ty, inp)" "code ty = Some fn"
  shows "(log_step fn inp sha)\<^sup>*\<^sup>* (getEvents w d) (getEvents w d')" "prefix (getEvents w d) (getEvents w d')"
    "find_map started_of (getEvents w d') = Some (ty, inp)"
proof -
  note inv = calm_reachable_inv [OF assms(1)]
  note steps = calm_steps_order [OF assms(2)]
  show pre: "prefix (getEvents w d) (getEvents w d')" using soundD(2) [of d d'] steps inv extendsD(1) by (simp add: calm_inv_def)
  show started: "find_map started_of (getEvents w d') = Some (ty, inp)"
    using assms(3) pre by (auto simp: prefix_def find_map_append)
  then have "run_by code fn inp (getEvents w d')" using assms(4) by (auto simp: run_by_def)
  then show "(log_step fn inp sha)\<^sup>*\<^sup>* (getEvents w d) (getEvents w d')"
    using steps inv by (simp add: keeps_order_def ordered_logs_def)
qed

text \<open>
  C7: Replays agree for ever, while replays of one workflow and runs of one activity do not overlap and
  the code of the workflow stays the same. The calls that the function makes over a history in a state
  reached like that are the first calls it makes over the history in any state reached later in the same
  way, in the same order, and a function that has returned or thrown does so with the same value or
  message in any such later state. (Overlapping replays break this: \<open>overlapping_replays_break_log\<close>.)
\<close>

theorem replays_agree:
  assumes "calm_reachable code sha d" "(calm_step code sha)\<^sup>*\<^sup>* d d'"
    and "find_map started_of (getEvents w d) = Some (ty, inp)" "code ty = Some fn"
  shows "prefix (pass_calls fn inp (getEvents w d) (Some sha)) (pass_calls fn inp (getEvents w d') (Some sha))
    \<and> (snd (pass_end fn inp (getEvents w d) (Some sha)) \<noteq> None
       \<longrightarrow> snd (pass_end fn inp (getEvents w d') (Some sha)) = snd (pass_end fn inp (getEvents w d) (Some sha)))"
  using log_steps_good [OF calm_log(1) [OF assms] grown_good [OF calm_grown [OF assms(1,3,4)]]] by (simp add: extends_replay_def)

theorem replays_agree_witness:
  "prefix (pass_calls lookup_workflow JNull (getEvents ''w1'' demo2) (Some one_hash))
     (pass_calls lookup_workflow JNull (getEvents ''w1'' demo5) (Some one_hash))"
proof -
  have "(calm_step demo_code one_hash)\<^sup>*\<^sup>* demo2 demo5" using demo_calm_steps by (rule rtranclp.rtrancl_into_rtrancl)
  from replays_agree [OF demo_calm(1) this demo_started(1)] show ?thesis by (simp add: demo_code_def)
qed

text \<open>
  C8: Nothing is asked for that the code does not call, while replays of one workflow and runs of one
  activity do not overlap and the code of the workflow stays the same. In every state reached like that
  the requests recorded of each kind are, one by one and in order, the first calls of that kind that the
  function makes over the history: the activities by name, the LLM and tool steps by step id and request
  hash. So under that condition no step is recorded twice, and none is left over from an abandoned run.
\<close>

theorem recorded_requests_are_calls:
  assumes "calm_reachable code sha d" "find_map started_of (getEvents w d) = Some (ty, inp)" "code ty = Some fn"
  shows "let h = getEvents w d; calls = pass_calls fn inp h (Some sha); ix = index_history (Some sha) h in
      (\<exists>qs. prefix qs (List.map_filter activity_request calls) \<and> length qs = length (filter isActivityScheduled h)
        \<and> (\<forall>i < length qs. activity_matches ix (event (filter isActivityScheduled h ! i)) i (qs ! i)))
    \<and> (\<exists>qs. prefix qs (List.map_filter timer_request calls) \<and> length qs = length (filter isTimerScheduled h))
    \<and> (\<exists>qs. prefix qs (List.map_filter llm_request_of calls) \<and> length qs = length (filter isLlmRequested h)
        \<and> (\<forall>i < length qs. llm_matches ix (event (filter isLlmRequested h ! i)) i (qs ! i)))
    \<and> (\<exists>qs. prefix qs (List.map_filter tool_request calls) \<and> length qs = length (filter isToolRequested h)
        \<and> (\<forall>i < length qs. tool_matches ix (event (filter isToolRequested h ! i)) i (qs ! i)))"
proof -
  have "settled_pass fn inp (getEvents w d) (Some sha)"
    using grown_good [OF calm_grown [OF assms]] by (simp add: good_history_def)
  from settled_requests [OF this] show ?thesis unfolding Let_def by blast
qed

theorem recorded_requests_are_calls_witness:
  "length (filter isToolRequested (getEvents ''w1'' demo5)) = 1
   \<and> (\<exists>qs. prefix qs (List.map_filter tool_request (pass_calls lookup_workflow JNull (getEvents ''w1'' demo5) (Some one_hash))) \<and> length qs = 1)"
proof -
  have "length (filter isToolRequested (getEvents ''w1'' demo5)) = 1" by code_simp
  with recorded_requests_are_calls [OF demo_calm(2) demo_started(2), of lookup_workflow] show ?thesis
    by (auto simp: demo_code_def Let_def simp del: isToolRequested.simps isActivityScheduled.simps isTimerScheduled.simps isLlmRequested.simps)
qed

end
