(* ===== verification/Chaos.thy ===== *)
theory Chaos
  imports SystemProps "HOL-Library.Word" "HOL-Library.AList"
begin

unbundle bit_operations_syntax

section \<open>Fault injection and the chaos harness (packages/worker-sdk/src: faults.ts, chaos/chaosRunner.ts)\<close>

text \<open>
  The fault points a worker kills itself at, the seeded generator of kill times, and what the chaos
  harness computes: the plan of a run, the verdict on what the run left in the database, the summary of
  all runs. Spawning, killing and waiting for processes are left out; what they return is an argument.
\<close>

subsection \<open>Fault points\<close>

datatype fault_point = AfterProviderBeforePersist | AfterPersist | BeforeToolCommit | RandomDelay

fun fault_name :: "fault_point \<Rightarrow> string" where
  "fault_name AfterProviderBeforePersist = ''after_provider_before_persist''"
| "fault_name AfterPersist = ''after_persist''"
| "fault_name BeforeToolCommit = ''before_tool_commit''"
| "fault_name RandomDelay = ''random_delay''"

text \<open>The \<open>KARYAKRAM_FAULT\<close> variables; the numbers are what \<open>Number\<close> makes of the text.\<close>

record fault_env =
  fe_fault :: "string option"
  fe_after :: "js_num option"
  fe_maxMs :: "js_num option"
  fe_seed :: "js_num option"

definition armed :: "fault_env \<Rightarrow> fault_point \<Rightarrow> bool" where
  "armed env point \<longleftrightarrow> fe_fault env = Some (fault_name point)"

text \<open>The new number of hits, and whether the process kills itself.\<close>

definition maybeFault :: "fault_env \<Rightarrow> fault_point \<Rightarrow> nat \<Rightarrow> nat \<times> bool" where
  "maybeFault env point hits =
     (if \<not> armed env point then (hits, False)
      else (Suc hits, case or_default (fe_after env) (JFin 1) of JNaN \<Rightarrow> False | JFin after \<Rightarrow> after \<le> of_nat (Suc hits)))"

subsection \<open>mulberry32\<close>

text \<open>\<open>seed >>> 0\<close>, and one call of the generator: the next state and the 32 bits of the result.\<close>

definition to_uint32 :: "js_num \<Rightarrow> 32 word" where
  "to_uint32 n = (case n of JNaN \<Rightarrow> 0 | JFin x \<Rightarrow> word_of_int (if 0 \<le> x then \<lfloor>x\<rfloor> else \<lceil>x\<rceil>))"

definition mulberry_bits :: "32 word \<Rightarrow> 32 word" where
  "mulberry_bits a = (let t0 = (a XOR drop_bit 15 a) * (1 OR a);
     t = (t0 + (t0 XOR drop_bit 7 t0) * (61 OR t0)) XOR t0 in t XOR drop_bit 14 t)"

definition seeded :: "32 word \<Rightarrow> 32 word \<times> rat" where
  "seeded a = (let a' = a + 0x6d2b79f5 in (a', of_nat (unat (mulberry_bits a')) / 4294967296))"

text \<open>The delay \<open>armRandomDelayFault\<close> schedules the kill after.\<close>

definition random_delay :: "fault_env \<Rightarrow> js_num option" where
  "random_delay env = (if \<not> armed env RandomDelay then None
     else (case or_default (fe_maxMs env) (JFin 1500) of
        JNaN \<Rightarrow> Some JNaN
      | JFin maxMs \<Rightarrow> Some (JFin (of_int \<lfloor>snd (seeded (to_uint32 (or_default (fe_seed env) (JFin 1)))) * maxMs\<rfloor>))))"

subsection \<open>The plan of a run\<close>

definition CHAOS_FAULTS :: "fault_point list" where
  "CHAOS_FAULTS = [AfterProviderBeforePersist, AfterPersist, BeforeToolCommit, RandomDelay]"

definition REFERENCE_TICKETS :: nat where
  "REFERENCE_TICKETS = 8"

record chaos_plan =
  cn_fault :: fault_point
  cn_ticket :: nat
  cn_env :: fault_env

definition plan_run :: "nat \<Rightarrow> 32 word \<Rightarrow> 32 word \<times> chaos_plan" where
  "plan_run run rnd = (case seeded rnd of (r1, x1) \<Rightarrow> (case seeded r1 of (r2, x2) \<Rightarrow>
     let fault = or_default (js_at CHAOS_FAULTS (run mod length CHAOS_FAULTS)) AfterPersist in
     (r2, \<lparr>cn_fault = fault, cn_ticket = run mod REFERENCE_TICKETS,
           cn_env = \<lparr>fe_fault = Some (fault_name fault), fe_after = Some (JFin (1 + of_int \<lfloor>x1 * 2\<rfloor>)),
                     fe_maxMs = Some (JFin 600), fe_seed = Some (JFin (of_int \<lfloor>x2 * 1000000000\<rfloor>))\<rparr>\<rparr>)))"

subsection \<open>The database between and after runs\<close>

fun status_name :: "workflow_status \<Rightarrow> string" where
  "status_name RUNNING = ''RUNNING''"
| "status_name COMPLETED = ''COMPLETED''"
| "status_name FAILED = ''FAILED''"
| "status_name CANCELED = ''CANCELED''"

text \<open>\<open>TRUNCATE ... RESTART IDENTITY CASCADE\<close>: all tables but the leadership row.\<close>

definition resetDb :: "db \<Rightarrow> db" where
  "resetDb d = d\<lparr>db_executions := [], db_events := [], db_tasks := \<lparr>tt_rows = [], tt_nextId = 1\<rparr>,
     db_toolExecutions := [], db_sideEffects := [], db_providerCalls := []\<rparr>"

definition workflowOutcome :: "string \<Rightarrow> db \<Rightarrow> js_error + workflow_status \<times> jsval" where
  "workflowOutcome w d = (case foldEvents (getEvents w d) of
     Inl e \<Rightarrow> Inl e | Inr state \<Rightarrow> Inr (st_status state, st_result state))"

text \<open>One round of \<open>waitTerminal\<close> and of \<open>waitQuiescent\<close>: the end of the wait, if this is it.\<close>

definition terminal_round :: "time \<Rightarrow> time \<Rightarrow> string \<Rightarrow> db \<Rightarrow> js_error + string option" where
  "terminal_round now deadline w d = (case workflowOutcome w d of
     Inl e \<Rightarrow> Inl e
   | Inr (status, r) \<Rightarrow> Inr (if status \<noteq> RUNNING then Some (status_name status)
       else if deadline < now then Some ''TIMEOUT'' else None))"

definition open_tasks :: "db \<Rightarrow> nat" where
  "open_tasks d = row_count (\<lambda>t. t_status t \<in> {TPending, TLeased}) (db_tasks d)"

definition quiescent_round :: "time \<Rightarrow> time \<Rightarrow> db \<Rightarrow> bool option" where
  "quiescent_round now deadline d = (if open_tasks d = 0 then Some True else if deadline < now then Some False else None)"

subsection \<open>The verdict on a run\<close>

datatype step_window = PersistedBeforeCrash | InWindow | AfterCrash

fun window_name :: "step_window \<Rightarrow> string" where
  "window_name PersistedBeforeCrash = ''persisted_before_crash''"
| "window_name InWindow = ''in_window''"
| "window_name AfterCrash = ''after_crash''"

record step_audit =
  sa_stepId :: string
  sa_providerCalls :: nat
  sa_window :: step_window

text \<open>\<open>Some x \<le> killedAt\<close> for a time that may be missing.\<close>

definition by_then :: "time \<Rightarrow> time option \<Rightarrow> bool" where
  "by_then killedAt t = (case t of None \<Rightarrow> False | Some x \<Rightarrow> x \<le> killedAt)"

definition step_window_of :: "time \<Rightarrow> time option \<Rightarrow> time option \<Rightarrow> step_window" where
  "step_window_of killedAt completedAt firstCall =
     (if by_then killedAt completedAt then PersistedBeforeCrash
      else if by_then killedAt firstCall then InWindow else AfterCrash)"

definition calls_violation :: "step_audit \<Rightarrow> string list" where
  "calls_violation a = (let n = sa_providerCalls a in
     if (if sa_window a = InWindow then n < 1 \<or> 2 < n else n \<noteq> 1)
     then [sa_stepId a @ '' ('' @ window_name (sa_window a) @ '') had '' @ show_nat n @ '' provider calls''] else [])"

text \<open>\<open>completedRows\<close>: the times of the \<open>LLM_COMPLETED\<close> rows by step.\<close>

definition audit_step :: "provider_call list \<Rightarrow> (string \<times> time) list \<Rightarrow> time \<Rightarrow> string \<Rightarrow> step_audit" where
  "audit_step calls completedRows killedAt stepId =
     (let stepCalls = filter (\<lambda>c. pr_stepId c = stepId) calls in
      \<lparr>sa_stepId = stepId, sa_providerCalls = length stepCalls,
       sa_window = step_window_of killedAt (map_of completedRows stepId) (map_option pr_calledAt (js_at stepCalls 0))\<rparr>)"

text \<open>The rows of the effects of a workflow, grouped by step and kind.\<close>

definition effect_key :: "string \<times> string \<Rightarrow> string" where
  "effect_key = (\<lambda>(stepId, kind). stepId @ '':'' @ kind)"

definition effect_pairs :: "string \<Rightarrow> db \<Rightarrow> (string \<times> string) list" where
  "effect_pairs w d = map snd (listSideEffects w d)"

definition side_effect_counts :: "string \<Rightarrow> db \<Rightarrow> (string \<times> nat) list" where
  "side_effect_counts w d = (let ps = effect_pairs w d in
     foldl (\<lambda>counts g. AList.update (effect_key g) (count_list ps g) counts) [] (remdups ps))"

definition EXPECTED_EFFECTS :: "string list" where
  "EXPECTED_EFFECTS = [''tool-0:customer_lookup'', ''tool-1:reply_sent'']"

definition effects_exactly_once :: "string list \<Rightarrow> (string \<times> nat) list \<Rightarrow> bool" where
  "effects_exactly_once expected counts \<longleftrightarrow> length counts = length expected
     \<and> list_all (\<lambda>k. map_of counts k = Some 1) expected"

text \<open>What became of the armed worker, and what was observed of the rest of the run.\<close>

datatype worker_exit = StillAlive | Exited (ex_sigkill: bool) (ex_code: string) (ex_stderr: string)

record chaos_observed =
  co_exit :: worker_exit
  co_killedAt :: time
  co_completedBeforeCrash :: bool
  co_status :: string
  co_recoveryMs :: int
  co_quiescent :: bool
  co_result :: jsval
  co_reference :: jsval
  co_completedRows :: "(string \<times> time) list"

record chaos_result =
  cr_run :: nat
  cr_fault :: fault_point
  cr_ticket :: nat
  cr_crashed :: bool
  cr_completedBeforeCrash :: bool
  cr_workflowStatus :: string
  cr_recoveryMs :: "int option"
  cr_outputMatchesReference :: bool
  cr_sideEffectCounts :: "(string \<times> nat) list"
  cr_sideEffectsExactlyOnce :: bool
  cr_steps :: "step_audit list"
  cr_violations :: "string list"

fun crashed :: "worker_exit \<Rightarrow> bool" where
  "crashed StillAlive = True"
| "crashed (Exited sigkill code err) = sigkill"

fun exit_violations :: "worker_exit \<Rightarrow> string list" where
  "exit_violations StillAlive = [''fault point never fired within 20s (killed externally instead)'']"
| "exit_violations (Exited sigkill code err) =
     (if sigkill then [] else [''worker exited without SIGKILL (code='' @ code @ ''): '' @ take 300 err])"

definition counts_js :: "(string \<times> nat) list \<Rightarrow> jsval" where
  "counts_js counts = JObj (map (\<lambda>(k, n). (k, JNum (show_nat n))) counts)"

definition judge_run :: "nat \<Rightarrow> chaos_plan \<Rightarrow> chaos_observed \<Rightarrow> string \<Rightarrow> db \<Rightarrow> chaos_result" where
  "judge_run run plan seen w d =
     (let counts = side_effect_counts w d;
          matches = (stringify (co_result seen) = stringify (co_reference seen));
          once = effects_exactly_once EXPECTED_EFFECTS counts;
          steps = map (audit_step (listProviderCalls w d) (co_completedRows seen) (co_killedAt seen)) [''llm-0'', ''llm-1''] in
      \<lparr>cr_run = run, cr_fault = cn_fault plan, cr_ticket = cn_ticket plan, cr_crashed = crashed (co_exit seen),
       cr_completedBeforeCrash = co_completedBeforeCrash seen, cr_workflowStatus = co_status seen,
       cr_recoveryMs = (if co_status seen = ''COMPLETED'' \<and> \<not> co_completedBeforeCrash seen then Some (co_recoveryMs seen) else None),
       cr_outputMatchesReference = matches, cr_sideEffectCounts = counts, cr_sideEffectsExactlyOnce = once,
       cr_steps = steps,
       cr_violations = exit_violations (co_exit seen)
         @ (if co_quiescent seen then [] else [''tasks still pending/leased 15s after the workflow finished''])
         @ (if co_status seen = ''COMPLETED'' then [] else [''workflow ended '' @ co_status seen])
         @ (if matches then [] else [''final output differs from the no-crash reference''])
         @ (if once then [] else [''side effects not exactly-once: '' @ or_default (stringify (counts_js counts)) ''undefined''])
         @ concat (map calls_violation steps)\<rparr>)"

subsection \<open>The summary\<close>

record window_stats =
  ws_steps :: nat
  ws_callHistogram :: "nat \<rightharpoonup> nat"
  ws_maxCalls :: nat

definition empty_stats :: window_stats where
  "empty_stats = \<lparr>ws_steps = 0, ws_callHistogram = Map.empty, ws_maxCalls = 0\<rparr>"

definition count_step :: "(step_window \<Rightarrow> window_stats) \<Rightarrow> step_audit \<Rightarrow> step_window \<Rightarrow> window_stats" where
  "count_step windows s = (let w = windows (sa_window s); n = sa_providerCalls s in
     windows(sa_window s := \<lparr>ws_steps = Suc (ws_steps w),
       ws_callHistogram = (ws_callHistogram w)(n \<mapsto> or_default (ws_callHistogram w n) 0 + 1),
       ws_maxCalls = max (ws_maxCalls w) n\<rparr>))"

definition count_fault :: "(fault_point \<rightharpoonup> nat \<times> nat) \<Rightarrow> chaos_result \<Rightarrow> fault_point \<rightharpoonup> nat \<times> nat" where
  "count_fault byFault r = (case or_default (byFault (cr_fault r)) (0, 0) of (runs, crashes) \<Rightarrow>
     byFault(cr_fault r \<mapsto> (Suc runs, if cr_crashed r then Suc crashes else crashes)))"

definition percentile :: "rat list \<Rightarrow> nat \<Rightarrow> js_num" where
  "percentile sorted_ms p =
     (if length sorted_ms = 0 then JNaN
      else let idx = min (int (length sorted_ms) - 1) (\<lceil>(of_nat p / 100) * of_nat (length sorted_ms) :: rat\<rceil> - 1) in
        (case js_at sorted_ms (nat (max 0 idx)) of Some v \<Rightarrow> JFin v | None \<Rightarrow> JNaN))"

record recovery_stats =
  rc_count :: nat
  rc_min :: js_num
  rc_p50 :: js_num
  rc_p95 :: js_num
  rc_max :: js_num

record chaos_summary =
  cs_runs :: nat
  cs_seed :: js_num
  cs_results :: "chaos_result list"
  cs_violations :: nat
  cs_byFault :: "fault_point \<rightharpoonup> nat \<times> nat"
  cs_windows :: "step_window \<Rightarrow> window_stats"
  cs_recoveredRuns :: nat
  cs_sideEffectsExactlyOnceRuns :: nat
  cs_outputsMatchedReferenceRuns :: nat
  cs_recoveryMs :: "recovery_stats option"

definition num_at :: "rat list \<Rightarrow> nat \<Rightarrow> js_num" where
  "num_at xs i = (case js_at xs i of Some v \<Rightarrow> JFin v | None \<Rightarrow> JNaN)"

definition summarize :: "chaos_result list \<Rightarrow> js_num \<Rightarrow> chaos_summary" where
  "summarize results seed =
     (let rec = sort (map of_int (List.map_filter cr_recoveryMs results)) in
      \<lparr>cs_runs = length results, cs_seed = seed, cs_results = results,
       cs_violations = foldl (\<lambda>n r. n + length (cr_violations r)) 0 results,
       cs_byFault = foldl count_fault Map.empty results,
       cs_windows = foldl (\<lambda>ws r. foldl count_step ws (cr_steps r)) (\<lambda>x. empty_stats) results,
       cs_recoveredRuns = length (filter (\<lambda>r. \<not> cr_completedBeforeCrash r) results),
       cs_sideEffectsExactlyOnceRuns = length (filter cr_sideEffectsExactlyOnce results),
       cs_outputsMatchedReferenceRuns = length (filter cr_outputMatchesReference results),
       cs_recoveryMs = (if length rec = 0 then None else Some
         \<lparr>rc_count = length rec, rc_min = num_at rec 0, rc_p50 = percentile rec 50, rc_p95 = percentile rec 95,
          rc_max = num_at rec (length rec - 1)\<rparr>)\<rparr>)"

end
