(* ===== verification/ChaosProps.thy ===== *)
theory ChaosProps
  imports Chaos
begin

section \<open>The chaos harness: its counts, percentiles and verdicts\<close>

subsection \<open>Side effects\<close>

lemma dom_update: "dom (map_of (AList.update a b xs)) = insert a (dom (map_of xs))"
  unfolding update_conv' by (auto simp: dom_def)

lemma foldl_update_keys:
  "dom (map_of (foldl (\<lambda>cs g. AList.update (k g) (v g) cs) cs gs)) = dom (map_of cs) \<union> k ` set gs"
  by (induction gs rule: rev_induct) (simp_all add: dom_update)

lemma foldl_update_distinct:
  "distinct (map fst cs) \<Longrightarrow> distinct (map fst (foldl (\<lambda>cs g. AList.update (k g) (v g) cs) cs gs))"
  by (induction gs rule: rev_induct) (simp_all add: distinct_update)

lemma foldl_update_value:
  "g \<in> set gs \<Longrightarrow> inj_on k (set gs) \<Longrightarrow> map_of (foldl (\<lambda>cs g. AList.update (k g) (v g) cs) cs gs) (k g) = Some (v g)"
  by (induction gs rule: rev_induct) (auto simp: update_conv' inj_on_def)

lemma effect_pairs_rows:
  "effect_pairs w d = map (\<lambda>s. (se_stepId s, se_kind s)) (filter (\<lambda>s. se_workflowId s = w) (db_sideEffects d))"
  by (simp add: effect_pairs_def listSideEffects_def)

lemma count_by_step:
  "\<forall>k'. (i, k') \<in> set ps \<longrightarrow> k' = k \<Longrightarrow> count_list ps (i, k) = length (filter (\<lambda>p. fst p = i) ps)"
proof (induction ps)
  case (Cons p ps)
  then have "count_list ps (i, k) = length (filter (\<lambda>p. fst p = i) ps)" by simp
  moreover have "p = (i, k) \<longleftrightarrow> fst p = i" using Cons.prems by (cases p) force
  ultimately show ?case by simp
qed simp

lemma effect_count:
  assumes "\<And>k'. (i, k') \<in> set (effect_pairs w d) \<Longrightarrow> k' = k"
  shows "count_list (effect_pairs w d) (i, k) = length (step_effects w i d)"
proof -
  have "count_list (effect_pairs w d) (i, k) = length (filter (\<lambda>p. fst p = i) (effect_pairs w d))"
    by (rule count_by_step) (use assms in blast)
  then show ?thesis by (simp add: effect_pairs_rows step_effects_def comp_def filter_map conj_commute)
qed

lemma counts_of_single_effects:
  assumes once: "\<And>g. g \<in> set expected \<Longrightarrow> count_list (effect_pairs w d) g = 1"
    and only: "set (effect_pairs w d) \<subseteq> set expected" and keys: "distinct (map effect_key expected)"
  shows "effects_exactly_once (map effect_key expected) (side_effect_counts w d)"
proof -
  let ?ps = "effect_pairs w d" and ?c = "side_effect_counts w d"
  have all: "set ?ps = set expected"
    using only once by (metis count_notin one_neq_zero subsetI subset_antisym)
  have inj: "inj_on effect_key (set (remdups ?ps))" using keys all by (simp add: distinct_map)
  have dist: "distinct (map fst ?c)" unfolding side_effect_counts_def Let_def by (rule foldl_update_distinct) simp
  have "fst ` set ?c = effect_key ` set expected"
    unfolding dom_map_of_conv_image_fst [symmetric] side_effect_counts_def Let_def foldl_update_keys using all by simp
  then have "set (map fst ?c) = set (map effect_key expected)" by simp
  then have "length ?c = length expected" using dist keys by (metis distinct_card length_map)
  moreover have "map_of ?c (effect_key g) = Some 1" if "g \<in> set expected" for g
    using foldl_update_value [OF _ inj, of g "count_list ?ps" "[]"] that all once [OF that]
    by (simp add: side_effect_counts_def Let_def)
  ultimately show ?thesis by (simp add: effects_exactly_once_def list_all_iff)
qed

text \<open>
  The harness never rejects the side effects of a workflow whose tool steps are recorded as completed
  and which wrote no rows but theirs: in every state the processes can reach, wherever they were killed,
  each expected effect is there exactly once.
\<close>

theorem harness_accepts_effects:
  assumes r: "reachable d" and completed: "list_all (\<lambda>i. Some i \<in> tool_done ` set (getEvents w d)) (map fst expected)"
    and only: "set (effect_pairs w d) \<subseteq> set expected"
    and steps: "distinct (map fst expected)" "distinct (map effect_key expected)"
  shows "effects_exactly_once (map effect_key expected) (side_effect_counts w d)"
proof (rule counts_of_single_effects [OF _ only steps(2)])
  fix g assume g: "g \<in> set expected"
  obtain i k where ik: "g = (i, k)" by (cases g)
  with g completed obtain e where e: "e \<in> set (getEvents w d)" "tool_done e = Some i"
    by (force simp: list_all_iff simp del: tool_done.simps)
  have "length (step_effects w i d) = 1"
    using reachable_completed_once [OF r e] .
  moreover have "k' = k" if "(i, k') \<in> set (effect_pairs w d)" for k'
    using that only g steps(1) ik inj_onD [of fst "set expected" "(i, k')" "(i, k)"] by (auto simp: distinct_map)
  ultimately show "count_list (effect_pairs w d) g = 1" using effect_count [of i w d k] ik by simp
qed

theorem harness_accepts_effects_witness:
  "effects_exactly_once [''tool-0:customer_lookup''] (side_effect_counts ''w1'' demo6)"
proof -
  have "effect_pairs ''w1'' demo6 = [(''tool-0'', ''customer_lookup'')]" "Some ''tool-0'' \<in> set (map tool_done (getEvents ''w1'' demo6))"
    by code_simp+
  then show ?thesis
    using harness_accepts_effects [OF demo_done(2), of "''w1''" "[(''tool-0'', ''customer_lookup'')]"]
    by (simp add: effect_key_def)
qed

subsection \<open>Quiescence\<close>

text \<open>
  Once the harness finds no open task (and stops waiting), no step is on its way: every request in a
  history, whatever was killed before, has its outcome in the history or its one task among the dead
  letters.
\<close>

theorem quiescent_steps_settled:
  assumes r: "reachable d" and quiet: "quiescent_round now deadline d = Some True"
    and e: "e \<in> set (getEvents w d)" "requests (event e) = Some k"
  shows "answered_at k (seq e) (getEvents w d)
    \<or> row_count (\<lambda>t. t_taskType t = k \<and> t_workflowId t = w \<and> t_scheduledEventSeq t = Some (seq e) \<and> t_status t = TDead) (db_tasks d) = 1"
proof -
  let ?P = "\<lambda>t. t_taskType t = k \<and> t_workflowId t = w \<and> t_scheduledEventSeq t = Some (seq e)"
  from request_task [OF reachable_inv [OF r] e] obtain t where t: "filter ?P (tt_rows (db_tasks d)) = [t]"
    and fin: "t_status t = TCompleted \<longrightarrow> answered_at k (seq e) (getEvents w d)" by blast
  have in_q: "t \<in> set (tt_rows (db_tasks d))" using t by (auto dest: filter_eq_ConsD)
  have "filter (\<lambda>t. t_status t \<in> {TPending, TLeased}) (tt_rows (db_tasks d)) = []"
    using quiet by (simp add: quiescent_round_def open_tasks_def row_count_def split: if_splits)
  with in_q have "t_status t \<notin> {TPending, TLeased}" unfolding filter_empty_conv by blast
  then consider "t_status t = TCompleted" | "t_status t = TDead" by (cases "t_status t") simp_all
  then show ?thesis
  proof cases
    case 1
    with fin show ?thesis by simp
  next
    case 2
    have "filter (\<lambda>u. t_status u = TDead) (filter ?P (tt_rows (db_tasks d))) = [t]" unfolding t using 2 by simp
    then show ?thesis by (simp add: row_count_def conj_commute conj_left_commute)
  qed
qed

text \<open>The workflow of the witnesses to its end: the leased workflow task replays again and completes.\<close>

definition demo7 :: db where
  "demo7 = fst (workflowReplayHandler clock0 id [(''lookup'', lookup_workflow)] hash_only one_hash (tt_rows (db_tasks demo6) ! 0) demo6)"

definition demo8 :: db where
  "demo8 = demo7\<lparr>db_tasks := fst (run_settles 3000 0 plain_worker (tt_rows (db_tasks demo6) ! 0) (Inr ()) (db_tasks demo7))\<rparr>"

lemma demo_end:
  "length (tt_rows (db_tasks demo6)) = 2" "t_taskType (tt_rows (db_tasks demo6) ! 0) = TWorkflow"
  "snd (workflowReplayHandler clock0 id [(''lookup'', lookup_workflow)] hash_only one_hash (tt_rows (db_tasks demo6) ! 0) demo6) = Inr ()"
  by code_simp+

lemma demo_end2:
  "quiescent_round 0 15000 demo8 = Some True" by code_simp
lemma demo_end3:
  "map (\<lambda>e. (requests (event e), seq e)) (getEvents ''w1'' demo8) = [(None, 1), (Some TTool, 2), (None, 3), (None, 4)]"
  by code_simp

lemma demo_end_reachable: "reachable demo8"
proof -
  have "run_of sys_step\<^sup>*\<^sup>* (tt_rows (db_tasks demo6) ! 0) demo6
     (workflowReplayHandler clock0 id [(''lookup'', lookup_workflow)] hash_only one_hash (tt_rows (db_tasks demo6) ! 0) demo6)"
    by (rule run_workflow) (simp_all add: demo_end)
  then have "run_of sys_step\<^sup>*\<^sup>* (tt_rows (db_tasks demo6) ! 0) demo6 (demo7, Inr ())"
    by (metis demo7_def demo_end(3) prod.collapse)
  moreover have "handed_out (tt_rows (db_tasks demo6) ! 0) demo6" by (rule handed_row) (simp add: demo_end)
  ultimately have "sys_step demo6 demo8" unfolding demo8_def by (rule sys_settled [rotated, OF _ rtranclp.rtrancl_refl])
  with demo_done(2) show ?thesis unfolding reachable_def by (rule rtranclp.rtrancl_into_rtrancl)
qed

theorem quiescent_steps_settled_witness:
  "answered_at TTool 2 (getEvents ''w1'' demo8)
    \<or> row_count (\<lambda>t. t_taskType t = TTool \<and> t_workflowId t = ''w1'' \<and> t_scheduledEventSeq t = Some 2 \<and> t_status t = TDead) (db_tasks demo8) = 1"
proof -
  have "(Some TTool, 2) \<in> set (map (\<lambda>e. (requests (event e), seq e)) (getEvents ''w1'' demo8))"
    by (simp add: demo_end3)
  then obtain e where e: "e \<in> set (getEvents ''w1'' demo8)" "requests (event e) = Some TTool" and n: "seq e = 2" by auto
  from quiescent_steps_settled [OF demo_end_reachable demo_end2 e] show ?thesis unfolding n .
qed

subsection \<open>The summary\<close>

lemma foldl_concat: "foldl (\<lambda>ws r. foldl f ws (g r)) ws rs = foldl f ws (concat (map g rs))"
  by (induction rs arbitrary: ws) simp_all

lemma count_steps:
  "ws_steps (foldl count_step ws ss x) = ws_steps (ws x) + length (filter (\<lambda>s. sa_window s = x) ss)"
  "or_default (ws_callHistogram (foldl count_step ws ss x) n) 0
     = or_default (ws_callHistogram (ws x) n) 0 + length (filter (\<lambda>s. sa_window s = x \<and> sa_providerCalls s = n) ss)"
  "ws_maxCalls (foldl count_step ws ss x) = foldl max (ws_maxCalls (ws x)) (map sa_providerCalls (filter (\<lambda>s. sa_window s = x) ss))"
  by (induction ss arbitrary: ws) (auto simp: count_step_def or_default_def Let_def split: option.splits)

lemma count_faults:
  "or_default (foldl count_fault m rs f) (0, 0) = (fst (or_default (m f) (0, 0)) + length (filter (\<lambda>r. cr_fault r = f) rs),
     snd (or_default (m f) (0, 0)) + length (filter (\<lambda>r. cr_fault r = f \<and> cr_crashed r) rs))"
  by (induction rs arbitrary: m) (auto simp: count_fault_def or_default_def split: option.splits prod.splits)

lemma sum_violations: "foldl (\<lambda>n r. n + length (cr_violations r)) k rs = k + length (concat (map cr_violations rs))"
  by (induction rs arbitrary: k) simp_all

text \<open>
  The summary counts every audited step of every run once: per window the steps, how many had each
  number of provider calls and the largest such number; per fault the runs and the crashes; and all
  violations.
\<close>

theorem summary_counts:
  "let s = summarize results seed; steps = concat (map cr_steps results); sel = (\<lambda>x. filter (\<lambda>a. sa_window a = x) steps) in
     ws_steps (cs_windows s x) = length (sel x)
     \<and> or_default (ws_callHistogram (cs_windows s x) n) 0 = length (filter (\<lambda>a. sa_providerCalls a = n) (sel x))
     \<and> ws_maxCalls (cs_windows s x) = Max (set (0 # map sa_providerCalls (sel x)))
     \<and> or_default (cs_byFault s f) (0, 0)
         = (length (filter (\<lambda>r. cr_fault r = f) results), length (filter (\<lambda>r. cr_fault r = f \<and> cr_crashed r) results))
     \<and> cs_violations s = length (concat (map cr_violations results))
     \<and> ws_steps (cs_windows s PersistedBeforeCrash) + ws_steps (cs_windows s InWindow) + ws_steps (cs_windows s AfterCrash) = length steps"
proof -
  let ?steps = "concat (map cr_steps results)"
  have w: "cs_windows (summarize results seed) = foldl count_step (\<lambda>x. empty_stats) ?steps"
    by (simp add: summarize_def Let_def foldl_concat)
  have fs: "or_default (cs_byFault (summarize results seed) f) (0, 0)
      = (length (filter (\<lambda>r. cr_fault r = f) results), length (filter (\<lambda>r. cr_fault r = f \<and> cr_crashed r) results))"
    using count_faults [of Map.empty results f] by (simp add: summarize_def Let_def or_default_def)
  have v: "cs_violations (summarize results seed) = length (concat (map cr_violations results))"
    by (simp add: summarize_def Let_def sum_violations)
  have "foldl max 0 ns = Max (set (0 # ns))" for ns :: "nat list"
    unfolding Max.set_eq_fold foldl_conv_fold by (simp add: max.commute)
  moreover have "length (filter (\<lambda>a. sa_window a = PersistedBeforeCrash) ss) + length (filter (\<lambda>a. sa_window a = InWindow) ss)
      + length (filter (\<lambda>a. sa_window a = AfterCrash) ss) = length ss" for ss :: "step_audit list"
    by (induction ss) (auto intro: step_window.exhaust)
  ultimately show ?thesis
    by (simp add: w fs v count_steps empty_stats_def or_default_def [of None] conj_commute)
qed

subsection \<open>Percentiles\<close>

lemma rank_at:
  fixes xs :: "'a::linorder list"
  assumes "sorted xs" "i < length xs"
  shows "Suc i \<le> length (filter (\<lambda>y. y \<le> xs ! i) xs)" "length (filter (\<lambda>y. y < xs ! i) xs) \<le> i"
proof -
  have "xs ! j \<le> xs ! i" if "j \<le> i" for j using assms that by (metis sorted_nth_mono)
  then have below: "\<forall>y \<in> set (take (Suc i) xs). y \<le> xs ! i"
    using assms(2) by (auto simp: in_set_conv_nth less_Suc_eq_le)
  have "xs ! i \<le> xs ! j" if "i \<le> j" "j < length xs" for j using assms(1) that by (metis sorted_nth_mono)
  then have above: "\<forall>y \<in> set (drop i xs). xs ! i \<le> y"
    using assms(2) by (auto simp: in_set_conv_nth)
  have "length (filter P xs) = length (filter P (take n xs)) + length (filter P (drop n xs))" for P n
    by (metis append_take_drop_id filter_append length_append)
  note split = this [of "\<lambda>y. y \<le> xs ! i" "Suc i"] this [of "\<lambda>y. y < xs ! i" i]
  have "filter (\<lambda>y. y \<le> xs ! i) (take (Suc i) xs) = take (Suc i) xs" using below by (simp add: filter_id_conv)
  with split(1) assms(2) show "Suc i \<le> length (filter (\<lambda>y. y \<le> xs ! i) xs)" by simp
  have "filter (\<lambda>y. y < xs ! i) (drop i xs) = []" using above by (auto simp: filter_empty_conv leD)
  with split(2) length_filter_le [of "\<lambda>y. y < xs ! i" "take i xs"] show "length (filter (\<lambda>y. y < xs ! i) xs) \<le> i"
    by simp
qed

text \<open>
  \<open>percentile\<close> is the nearest-rank percentile: of a sorted list it takes the smallest element that
  at least \<open>p\<close> per cent of the elements do not exceed.
\<close>

theorem percentile_is_nearest_rank:
  assumes "sorted xs" "xs \<noteq> []" "0 < p" "p \<le> 100"
  shows "\<exists>x \<in> set xs. percentile xs p = JFin x \<and> p * length xs \<le> 100 * length (filter (\<lambda>y. y \<le> x) xs)
    \<and> 100 * length (filter (\<lambda>y. y < x) xs) < p * length xs"
proof -
  let ?n = "length xs" and ?r = "\<lceil>(of_nat p / 100) * of_nat (length xs) :: rat\<rceil>"
  define i where "i = nat (?r - 1)"
  have n: "0 < ?n" using assms(2) by simp
  have pos: "0 < (of_nat p / 100) * (of_nat ?n :: rat)" using assms(3) n by simp
  then have r1: "1 \<le> ?r" by (simp add: le_ceiling_iff)
  have "(of_nat p / 100) * (of_nat ?n :: rat) \<le> of_nat ?n"
    using assms(4) mult_right_mono [of "of_nat p / 100 :: rat" 1 "of_nat ?n"] by simp
  then have rn: "?r \<le> int ?n" by (simp add: ceiling_le_iff)
  have i: "i < ?n" "min (int ?n - 1) (?r - 1) = int i" using r1 rn n unfolding i_def by linarith+
  then have pc: "percentile xs p = JFin (xs ! i)" using n by (simp add: percentile_def js_at_conv)
  have hi: "p * ?n \<le> 100 * Suc i"
  proof -
    have "(of_nat p / 100) * (of_nat ?n :: rat) \<le> of_int ?r" by (rule le_of_int_ceiling)
    also have "of_int ?r = (of_nat (Suc i) :: rat)" using r1 by (simp add: i_def)
    finally have "of_nat (p * ?n) \<le> (of_nat (100 * Suc i) :: rat)" by (simp add: field_simps)
    then show ?thesis by (simp only: of_nat_le_iff)
  qed
  have lo: "100 * i < p * ?n"
  proof -
    have "of_int (?r - 1) < (of_nat p / 100) * (of_nat ?n :: rat)" by linarith
    then have "of_nat i < (of_nat p / 100) * (of_nat ?n :: rat)" using r1 by (simp add: i_def)
    then have "of_nat (100 * i) < (of_nat (p * ?n) :: rat)" by (simp add: field_simps)
    then show ?thesis by (simp only: of_nat_less_iff)
  qed
  note rank_at [OF assms(1) i(1)]
  then show ?thesis using pc hi lo i(1) by (intro bexI [of _ "xs ! i"]) auto
qed

theorem percentile_is_nearest_rank_witness:
  "\<exists>x \<in> {10, 20, 30}. percentile [10, 20, 30] 95 = JFin x"
  using percentile_is_nearest_rank [of "[10, 20, 30]" 95] by auto

end
