(* ===== verification/Direct.thy ===== *)
theory Direct
  imports ReplayStable
begin

section \<open>Durable execution and direct execution\<close>

text \<open>
  The reference for the replay engine: a workflow function run once, from the top, in a world that
  answers every call when it is made. The engine instead runs the function again and again over a
  growing history. A replay ends the way the direct execution ends in the world its history describes.
\<close>

subsection \<open>Direct execution\<close>

text \<open>What a call is answered with, after the calls made before it; \<open>None\<close> is never.\<close>

type_synonym world = "wf_call list \<Rightarrow> wf_call \<Rightarrow> outcome option"

text \<open>
  \<open>cs\<close> are the calls made so far and \<open>as\<close> their answers, in order. The result is what the function
  returns or throws, and \<open>None\<close> when it waits for ever.
\<close>

primrec direct :: "prog \<Rightarrow> world \<Rightarrow> wf_call list \<Rightarrow> outcome option list \<Rightarrow> outcome option" where
  "direct (Ret v) W cs as = Some (Inr v)"
| "direct (Throw m) W cs as = Some (Inl m)"
| "direct (Issue c k) W cs as = direct (k (Inr (length as))) W (cs @ [c]) (as @ [W cs c])"
| "direct (Await q k) W cs as = (case js_at as q of Some (Some r) \<Rightarrow> direct (k r) W cs as | _ \<Rightarrow> None)"
| "direct (Yield p) W cs as = direct p W cs as"

definition direct_run :: "workflow_fn \<Rightarrow> jsval \<Rightarrow> world \<Rightarrow> outcome option" where
  "direct_run f inp W = direct (f inp) W [] []"

text \<open>The microtask ticks the direct execution takes, up to where it ends or waits for ever.\<close>

primrec direct_ticks :: "prog \<Rightarrow> world \<Rightarrow> wf_call list \<Rightarrow> outcome option list \<Rightarrow> nat" where
  "direct_ticks (Ret v) W cs as = 1"
| "direct_ticks (Throw m) W cs as = 2"
| "direct_ticks (Issue c k) W cs as = direct_ticks (k (Inr (length as))) W (cs @ [c]) (as @ [W cs c])"
| "direct_ticks (Await q k) W cs as = (case js_at as q of Some (Some r) \<Rightarrow> Suc (direct_ticks (k r) W cs as) | _ \<Rightarrow> 0)"
| "direct_ticks (Yield p) W cs as = Suc (direct_ticks p W cs as)"

definition run_ticks :: "workflow_fn \<Rightarrow> jsval \<Rightarrow> world \<Rightarrow> nat" where
  "run_ticks f inp W = direct_ticks (f inp) W [] []"

text \<open>The calls it makes within the first \<open>n\<close> ticks.\<close>

primrec direct_calls :: "prog \<Rightarrow> world \<Rightarrow> nat \<Rightarrow> wf_call list \<Rightarrow> outcome option list \<Rightarrow> wf_call list" where
  "direct_calls (Ret v) W n cs as = []"
| "direct_calls (Throw m) W n cs as = []"
| "direct_calls (Issue c k) W n cs as = c # direct_calls (k (Inr (length as))) W n (cs @ [c]) (as @ [W cs c])"
| "direct_calls (Await q k) W n cs as = (case js_at as q of
     Some (Some r) \<Rightarrow> (case n of 0 \<Rightarrow> [] | Suc m \<Rightarrow> direct_calls (k r) W m cs as) | _ \<Rightarrow> [])"
| "direct_calls (Yield p) W n cs as = (case n of 0 \<Rightarrow> [] | Suc m \<Rightarrow> direct_calls p W m cs as)"

subsection \<open>The world of a history\<close>

definition signal_request :: "string \<Rightarrow> wf_call \<Rightarrow> unit option" where
  "signal_request n c = (if c = WaitForSignalCall n then Some () else None)"

text \<open>
  The \<open>n\<close>-th call of a kind is answered with the outcome recorded for the \<open>n\<close>-th request of that kind,
  the \<open>n\<close>-th wait for a signal with the \<open>n\<close>-th signal of that name.
\<close>

fun answer_of :: "replay_index \<Rightarrow> world" where
  "answer_of ix cs (ScheduleActivityCall t i) =
     Option.bind (js_at (ri_scheduledEvents ix) (length (List.map_filter activity_request cs))) (\<lambda>e. ri_outcomeBySeq ix (seq e))"
| "answer_of ix cs (SleepCall d) =
     Option.bind (js_at (ri_timerEvents ix) (length (List.map_filter timer_request cs))) (\<lambda>e. ri_firedTimerSeqs ix (seq e))"
| "answer_of ix cs (LlmCall q) =
     Option.bind (js_at (ri_llmRequestedEvents ix) (length (List.map_filter llm_request_of cs))) (\<lambda>e. ri_llmOutcomeBySeq ix (seq e))"
| "answer_of ix cs (ToolCall t a) =
     Option.bind (js_at (ri_toolRequestedEvents ix) (length (List.map_filter tool_request cs))) (\<lambda>e. ri_toolOutcomeBySeq ix (seq e))"
| "answer_of ix cs (WaitForSignalCall n) =
     map_option Inr (js_at (ri_signals ix n) (length (List.map_filter (signal_request n) cs)))"

definition world_of :: "stored_event list \<Rightarrow> world" where
  "world_of h = answer_of (index_history None h)"

lemma world_of_index: "answer_of (index_history hash h) = world_of h"
proof (intro ext)
  fix cs c
  show "answer_of (index_history hash h) cs c = world_of h cs c" by (cases c) (simp_all add: world_of_def index_history_def)
qed

subsection \<open>One pass\<close>

definition given :: "promise \<Rightarrow> outcome option" where
  "given p = (case p of PPending \<Rightarrow> None | PSettled r \<Rightarrow> Some r)"

lemma given_simps [simp]: "given PPending = None" "given (PSettled r) = Some r" "given (promise_of x) = x"
  by (simp_all add: given_def promise_of_def split: option.split)

lemma js_at_given: "js_at (map given ps) q = map_option given (js_at ps q)"
  by (simp add: js_at_conv)

text \<open>The counters of a pass state count the calls made so far.\<close>

definition counts :: "pass_state \<Rightarrow> wf_call list \<Rightarrow> bool" where
  "counts s cs \<longleftrightarrow> ps_callIndex s = length (List.map_filter activity_request cs)
   \<and> ps_timerCallIndex s = length (List.map_filter timer_request cs)
   \<and> ps_llmCallIndex s = length (List.map_filter llm_request_of cs)
   \<and> ps_toolCallIndex s = length (List.map_filter tool_request cs)
   \<and> (\<forall>n. ps_signalCallIndex s n = length (List.map_filter (signal_request n) cs))"

lemma counts_initial: "counts initial_pass []"
  by (simp add: counts_def List.map_filter_simps initial_pass_def)

lemma map_filter_snoc: "List.map_filter g (xs @ [x]) = List.map_filter g xs @ (case g x of None \<Rightarrow> [] | Some y \<Rightarrow> [y])"
  by (induction xs) (auto simp: List.map_filter_simps split: option.split)

lemma well_indexed_at:
  assumes "well_indexed ix"
  shows "js_at (ri_scheduledEvents ix) n = Some e \<Longrightarrow> \<exists>t i. event e = ActivityScheduled t i"
    and "js_at (ri_llmRequestedEvents ix) n = Some e \<Longrightarrow> \<exists>i h st q m. event e = LLM_REQUESTED i h st q m"
    and "js_at (ri_toolRequestedEvents ix) n = Some e \<Longrightarrow> \<exists>i t a h m. event e = TOOL_REQUESTED i t a h m"
  using well_indexed_nth [OF assms, of n] by (auto simp: js_at_conv split: wf_event.splits if_splits)

text \<open>The promise of each method of \<open>ctx\<close>, when it finds no divergence.\<close>

definition no_error :: "pass_state \<times> promise \<Rightarrow> bool" where
  "no_error x \<longleftrightarrow> ps_nonDeterminismError (fst x) = None"

lemma activity_answer:
  assumes "well_indexed ix" "counts s cs"
  shows "counts (fst (ctx_scheduleActivity ix t i s)) (cs @ [ScheduleActivityCall t i])"
    "no_error (ctx_scheduleActivity ix t i s) \<Longrightarrow> given (snd (ctx_scheduleActivity ix t i s)) = answer_of ix cs (ScheduleActivityCall t i)"
proof -
  have n: "ps_callIndex s = length (List.map_filter activity_request cs)" using assms(2) by (simp add: counts_def)
  have "js_at (ri_scheduledEvents ix) (ps_callIndex s) = None
      \<or> (\<exists>e t' i'. js_at (ri_scheduledEvents ix) (ps_callIndex s) = Some e \<and> event e = ActivityScheduled t' i')"
    using well_indexed_at(1) [OF assms(1)] by (cases "js_at (ri_scheduledEvents ix) (ps_callIndex s)") auto
  then show "counts (fst (ctx_scheduleActivity ix t i s)) (cs @ [ScheduleActivityCall t i])"
    "no_error (ctx_scheduleActivity ix t i s) \<Longrightarrow> given (snd (ctx_scheduleActivity ix t i s)) = answer_of ix cs (ScheduleActivityCall t i)"
    using assms(2) n [symmetric]
    by (auto simp: counts_def map_filter_snoc signal_request_def push_command_def Let_def no_error_def split: if_splits)
qed

lemma sleep_answer:
  assumes "counts s cs"
  shows "counts (fst (ctx_sleep ix d s)) (cs @ [SleepCall d])" "given (snd (ctx_sleep ix d s)) = answer_of ix cs (SleepCall d)"
proof -
  have n: "ps_timerCallIndex s = length (List.map_filter timer_request cs)" using assms by (simp add: counts_def)
  show "counts (fst (ctx_sleep ix d s)) (cs @ [SleepCall d])" "given (snd (ctx_sleep ix d s)) = answer_of ix cs (SleepCall d)"
    using assms n [symmetric] by (cases "js_at (ri_timerEvents ix) (ps_timerCallIndex s)";
      simp add: counts_def map_filter_snoc signal_request_def push_command_def Let_def)+
qed

lemma llm_answer:
  assumes "well_indexed ix" "counts s cs"
  shows "counts (fst (ctx_llmCall ix hash q s)) (cs @ [LlmCall q])"
    "no_error (ctx_llmCall ix hash q s) \<Longrightarrow> given (snd (ctx_llmCall ix hash q s)) = answer_of ix cs (LlmCall q)"
proof -
  have n: "ps_llmCallIndex s = length (List.map_filter llm_request_of cs)" using assms(2) by (simp add: counts_def)
  have "js_at (ri_llmRequestedEvents ix) (ps_llmCallIndex s) = None
      \<or> (\<exists>e i h st rq m. js_at (ri_llmRequestedEvents ix) (ps_llmCallIndex s) = Some e \<and> event e = LLM_REQUESTED i h st rq m)"
    using well_indexed_at(2) [OF assms(1)] by (cases "js_at (ri_llmRequestedEvents ix) (ps_llmCallIndex s)") auto
  then show "counts (fst (ctx_llmCall ix hash q s)) (cs @ [LlmCall q])"
    "no_error (ctx_llmCall ix hash q s) \<Longrightarrow> given (snd (ctx_llmCall ix hash q s)) = answer_of ix cs (LlmCall q)"
    using assms(2) n [symmetric]
    by (auto simp: counts_def map_filter_snoc signal_request_def push_command_def Let_def no_error_def split: if_splits option.split)
qed

lemma tool_answer:
  assumes "well_indexed ix" "counts s cs"
  shows "counts (fst (ctx_toolCall ix hash t a s)) (cs @ [ToolCall t a])"
    "no_error (ctx_toolCall ix hash t a s) \<Longrightarrow> given (snd (ctx_toolCall ix hash t a s)) = answer_of ix cs (ToolCall t a)"
proof -
  have n: "ps_toolCallIndex s = length (List.map_filter tool_request cs)" using assms(2) by (simp add: counts_def)
  have "js_at (ri_toolRequestedEvents ix) (ps_toolCallIndex s) = None
      \<or> (\<exists>e i t' a' h m. js_at (ri_toolRequestedEvents ix) (ps_toolCallIndex s) = Some e \<and> event e = TOOL_REQUESTED i t' a' h m)"
    using well_indexed_at(3) [OF assms(1)] by (cases "js_at (ri_toolRequestedEvents ix) (ps_toolCallIndex s)") auto
  then show "counts (fst (ctx_toolCall ix hash t a s)) (cs @ [ToolCall t a])"
    "no_error (ctx_toolCall ix hash t a s) \<Longrightarrow> given (snd (ctx_toolCall ix hash t a s)) = answer_of ix cs (ToolCall t a)"
    using assms(2) n [symmetric]
    by (auto simp: counts_def map_filter_snoc signal_request_def push_command_def Let_def no_error_def split: if_splits)
qed

lemma signal_answer:
  assumes "counts s cs"
  shows "counts (fst (ctx_waitForSignal ix n s)) (cs @ [WaitForSignalCall n])"
    "given (snd (ctx_waitForSignal ix n s)) = answer_of ix cs (WaitForSignalCall n)"
proof -
  show "counts (fst (ctx_waitForSignal ix n s)) (cs @ [WaitForSignalCall n])"
    using assms by (auto simp: counts_def map_filter_snoc signal_request_def Let_def split: option.split)
  have "length (List.map_filter (signal_request n) cs) = ps_signalCallIndex s n" using assms by (simp add: counts_def)
  then show "given (snd (ctx_waitForSignal ix n s)) = answer_of ix cs (WaitForSignalCall n)"
    by (simp add: Let_def split: option.split)
qed

lemma set_promise_fields:
  "counts (set_outcome_promise x) cs = counts (fst x) cs"
  "ps_nonDeterminismError (set_outcome_promise x) = ps_nonDeterminismError (fst x)"
  "ps_promises (set_outcome_promise x) = ps_promises (fst x) @ [snd x]"
  by (cases x; simp add: counts_def)+

lemma ctx_promises:
  "ps_promises (fst (ctx_scheduleActivity ix t i s)) = ps_promises s" "ps_promises (fst (ctx_sleep ix d s)) = ps_promises s"
  "ps_promises (fst (ctx_llmCall ix hash q s)) = ps_promises s" "ps_promises (fst (ctx_toolCall ix hash t i s)) = ps_promises s"
  "ps_promises (fst (ctx_waitForSignal ix n s)) = ps_promises s"
proof -
  show "ps_promises (fst (ctx_scheduleActivity ix t i s)) = ps_promises s"
    by (cases "js_at (ri_scheduledEvents ix) (ps_callIndex s)") (simp_all add: Let_def push_command_def split: wf_event.split)
  show "ps_promises (fst (ctx_llmCall ix hash q s)) = ps_promises s"
    by (cases "js_at (ri_llmRequestedEvents ix) (ps_llmCallIndex s)") (simp_all add: Let_def push_command_def split: wf_event.split option.split)
  show "ps_promises (fst (ctx_toolCall ix hash t i s)) = ps_promises s"
    by (cases "js_at (ri_toolRequestedEvents ix) (ps_toolCallIndex s)") (simp_all add: Let_def push_command_def split: wf_event.split)
qed (simp_all add: Let_def push_command_def split: option.split)

lemma issue_direct:
  assumes ix: "well_indexed ix" "ri_hash ix = Some hash" and s: "counts s cs"
    and t: "issue ix c s = (t, r)" and ok: "ps_nonDeterminismError t = None"
  shows "r = Inr (length (ps_promises s))" "counts t (cs @ [c])"
    "map given (ps_promises t) = map given (ps_promises s) @ [answer_of ix cs c]"
proof -
  note ans = activity_answer [OF ix(1) s] sleep_answer [OF s] llm_answer [OF ix(1) s] tool_answer [OF ix(1) s] signal_answer [OF s]
  note no_unfold = ctx_scheduleActivity.simps ctx_sleep.simps ctx_waitForSignal.simps ctx_llmCall.simps ctx_toolCall.simps
    set_outcome_promise.simps answer_of.simps
  have all: "r = Inr (length (ps_promises s)) \<and> counts t (cs @ [c])
      \<and> map given (ps_promises t) = map given (ps_promises s) @ [answer_of ix cs c]"
    using t ok ans ix(2)
    by (cases c) (auto simp: issue_eq set_promise_fields ctx_promises no_error_def simp del: no_unfold)
  then show "r = Inr (length (ps_promises s))" "counts t (cs @ [c])"
    "map given (ps_promises t) = map given (ps_promises s) @ [answer_of ix cs c]" by blast+
qed

text \<open>A pass is the direct execution in the world of its index, cut off when the ticks are used up.\<close>

lemma drain_error_kept: "ps_nonDeterminismError s \<noteq> None \<Longrightarrow> ps_nonDeterminismError (fst (drain p ix n s)) \<noteq> None"
  unfolding drain_calls by (rule issue_all_error_kept)

lemma drain_direct:
  assumes ix: "well_indexed ix" "ri_hash ix = Some hash"
    and "counts s cs" "ps_nonDeterminismError (fst (drain p ix n s)) = None"
  shows "snd (drain p ix n s) = (if direct_ticks p (answer_of ix) cs (map given (ps_promises s)) \<le> n
       then direct p (answer_of ix) cs (map given (ps_promises s)) else None)
    \<and> calls_of p ix n s = direct_calls p (answer_of ix) n cs (map given (ps_promises s))"
  using assms(3,4)
proof (induction p arbitrary: n s cs)
  case (Issue c k)
  obtain t r where t: "issue ix c s = (t, r)" by fastforce
  with Issue.prems(2) have ok: "ps_nonDeterminismError (fst (drain (k r) ix n t)) = None" by simp
  then have "ps_nonDeterminismError t = None" using drain_error_kept by blast
  note step = issue_direct [OF ix Issue.prems(1) t this]
  from Issue.IH [OF rangeI step(2) ok] t step(1,3) show ?case by (simp add: map_append [symmetric] del: map_append)
next
  case (Await q k)
  show ?case
  proof (cases "js_at (ps_promises s) q")
    case (Some x)
    then show ?thesis using Await.IH [OF rangeI Await.prems(1)] Await.prems(2)
      by (cases x; cases n) (auto simp: js_at_given)
  qed (use Await.prems in \<open>simp add: js_at_given\<close>)
next
  case (Yield p)
  then show ?case by (cases n) auto
qed auto

text \<open>What a replay says a workflow function came to.\<close>

definition replay_outcome :: "replay_result \<Rightarrow> outcome option" where
  "replay_outcome r = (case rr_status r of RpRUNNING \<Rightarrow> None | RpCOMPLETED \<Rightarrow> Some (Inr (rr_result r))
     | RpFAILED \<Rightarrow> map_option Inl (rr_error r))"

lemma replay_direct:
  assumes "replay f inp h (Some hash) = Inr r"
  shows "snd (pass_end f inp h (Some hash)) = (if run_ticks f inp (world_of h) \<le> MAX_DRAIN_TICKS then direct_run f inp (world_of h) else None)"
    "pass_calls f inp h (Some hash) = direct_calls (f inp) (world_of h) MAX_DRAIN_TICKS [] []"
proof -
  let ?ix = "index_history (Some hash) h"
  have "ps_nonDeterminismError (fst (drain (f inp) ?ix MAX_DRAIN_TICKS initial_pass)) = None"
    using replay_Inr(1) [OF assms] by (simp add: pass_end_def)
  from drain_direct [OF well_indexed_history _ counts_initial this]
  show "snd (pass_end f inp h (Some hash)) = (if run_ticks f inp (world_of h) \<le> MAX_DRAIN_TICKS then direct_run f inp (world_of h) else None)"
    "pass_calls f inp h (Some hash) = direct_calls (f inp) (world_of h) MAX_DRAIN_TICKS [] []"
    by (simp_all add: pass_end_def pass_calls_def world_of_index direct_run_def run_ticks_def)
qed

text \<open>
  C9: Durable execution is direct execution. Whatever history a replay reads without finding a
  divergence, it ends with the value or the error the workflow function comes to when it is run once,
  from the top, in a world that answers each call with the outcome recorded for it; and it leaves the
  workflow running exactly when that execution waits for an answer that is not recorded, or takes more
  than the 1000 ticks of the drain loop.
\<close>

theorem replay_is_direct_execution:
  assumes "replay f inp h (Some hash) = Inr r"
  shows "replay_outcome r = (if run_ticks f inp (world_of h) \<le> 1000 then direct_run f inp (world_of h) else None)"
proof -
  have "replay_outcome r = snd (pass_end f inp h (Some hash))"
    using assms by (auto simp: replay_pass_end finish_pass_def replay_outcome_def split: prod.splits option.splits sum.splits)
  then show ?thesis using replay_direct(1) [OF assms] by (simp add: MAX_DRAIN_TICKS_def)
qed

text \<open>An activity awaited after a sleep that has fired; the timer and the activity were asked for together.\<close>

definition nap_workflow :: workflow_fn where
  "nap_workflow inp = Issue (ScheduleActivityCall ''charge'' inp) (\<lambda>p. await_call (SleepCall (JFin 5))
     (\<lambda>u. case p of Inl e \<Rightarrow> Throw e | Inr q \<Rightarrow> Await q (\<lambda>r. case r of Inl e \<Rightarrow> Throw e | Inr v \<Rightarrow> Ret v)))"

definition nap_history :: "stored_event list" where
  "nap_history = [\<lparr>seq = 1, event = WorkflowStarted ''nap'' (JStr ''o1'')\<rparr>, \<lparr>seq = 2, event = ActivityScheduled ''charge'' (JStr ''o1'')\<rparr>,
     \<lparr>seq = 3, event = TimerScheduled 5\<rparr>, \<lparr>seq = 4, event = ActivityFailed 2 ''declined''\<rparr>, \<lparr>seq = 5, event = TimerFired 3\<rparr>]"

theorem replay_is_direct_execution_witness:
  "\<exists>r. replay nap_workflow (JStr ''o1'') nap_history (Some id) = Inr r \<and> replay_outcome r = Some (Inl ''declined'')"
proof -
  have "(case replay nap_workflow (JStr ''o1'') nap_history (Some id) of Inl _ \<Rightarrow> False | Inr _ \<Rightarrow> True)" by code_simp
  then obtain r where r: "replay nap_workflow (JStr ''o1'') nap_history (Some id) = Inr r" by (auto split: sum.splits)
  have "run_ticks nap_workflow (JStr ''o1'') (world_of nap_history) = 4"
    "direct_run nap_workflow (JStr ''o1'') (world_of nap_history) = Some (Inl ''declined'')" by code_simp+
  with replay_is_direct_execution [OF r] r show ?thesis by simp
qed

subsection \<open>What a pass waits for\<close>

text \<open>A function awaits only promises it was given.\<close>

primrec scoped :: "prog \<Rightarrow> nat \<Rightarrow> bool" where
  "scoped (Ret v) n = True"
| "scoped (Throw m) n = True"
| "scoped (Issue c k) n = (scoped (k (Inr n)) (Suc n) \<and> (\<forall>e. scoped (k (Inl e)) n))"
| "scoped (Await q k) n = (q < n \<and> (\<forall>r. scoped (k r) n))"
| "scoped (Yield p) n = scoped p n"

lemma scoped_await_call: "(\<And>v. scoped (k v) (Suc n)) \<Longrightarrow> scoped (await_call c k) n"
  by (auto simp: await_call_def split: sum.split)

lemma direct_blocked:
  assumes "scoped p (length as)" "direct_ticks p W cs as \<le> n" "direct p W cs as = None"
  shows "None \<in> set as \<or> (\<exists>cs' c rest. direct_calls p W n cs as = cs' @ c # rest \<and> W (cs @ cs') c = None)"
  using assms
proof (induction p arbitrary: n cs as)
  case (Issue c k)
  show ?case
  proof (cases "W cs c")
    case None
    then show ?thesis by (intro disjI2 exI [of _ "[]"]) simp
  next
    case (Some a)
    from Issue.IH [OF rangeI, of "Inr (length as)" "as @ [W cs c]" "cs @ [c]" n] Issue.prems Some
    have "None \<in> set as \<or> (\<exists>cs' d rest. direct_calls (k (Inr (length as))) W n (cs @ [c]) (as @ [Some a]) = cs' @ d # rest \<and> W (cs @ c # cs') d = None)"
      by simp
    then show ?thesis
    proof (elim disjE exE conjE)
      fix cs' d rest
      assume "direct_calls (k (Inr (length as))) W n (cs @ [c]) (as @ [Some a]) = cs' @ d # rest" "W (cs @ c # cs') d = None"
      with Some show ?thesis by (intro disjI2 exI [of _ "c # cs'"] exI [of _ d] exI [of _ rest]) simp
    qed simp
  qed
next
  case (Await q k)
  then have q: "js_at as q = Some (as ! q)" by (simp add: js_at_conv)
  show ?case
  proof (cases "as ! q")
    case None
    then show ?thesis using Await.prems(1) by (auto simp: in_set_conv_nth)
  next
    case (Some r)
    with Await.prems q obtain m where "n = Suc m" by (cases n) auto
    then show ?thesis using Await.IH [OF rangeI, of r as cs m] Await.prems q Some by simp
  qed
next
  case (Yield p)
  then obtain m where "n = Suc m" by (cases n) auto
  then show ?case using Yield.IH [of as cs m] Yield.prems by simp
qed auto

end
