(* ===== verification/Progress.thy ===== *)
theory Progress
  imports CalmSystem ChaosProps Direct
begin

section \<open>Workflows make progress\<close>

text \<open>
  What a workflow can wait for, and that it cannot go on asking for ever: a pass over a history whose
  requests are all answered only waits for signals, and every workflow asks for finitely many steps.
\<close>

subsection \<open>A pass that asks for nothing\<close>

context call_stream begin

lemma asked_all:
  assumes "list_all (accepted ix) cs" "counter s = 0" "filter mine (ps_commands (issue_all ix cs s)) = []"
  shows "length (List.map_filter request cs) \<le> length (recorded ix)"
proof -
  have "map (\<lambda>(i, q). command ix i q) (filter (\<lambda>(i, q). length (recorded ix) \<le> i) (enumerate 0 (List.map_filter request cs))) = []"
    using commands_of_calls [OF assms(1), of s] assms(2,3) by simp
  then have "filter (\<lambda>(i, q). length (recorded ix) \<le> i) (enumerate 0 (List.map_filter request cs)) = []" by simp
  then have "map snd (filter (\<lambda>(i, q). length (recorded ix) \<le> i) (enumerate 0 (List.map_filter request cs))) = []" by simp
  then show ?thesis unfolding enumerate_drop by simp
qed

end

definition all_answered :: "stored_event list \<Rightarrow> bool" where
  "all_answered h \<longleftrightarrow> (\<forall>e \<in> set h. \<forall>k. requests (event e) = Some k \<longrightarrow> answered_at k (seq e) h)"

lemma answered_outcome:
  "answered_at TActivity n h \<Longrightarrow> foldl outcome_step Map.empty h n \<noteq> None"
  "answered_at TTimer n h \<Longrightarrow> foldl fired_step Map.empty h n \<noteq> None"
  "answered_at TLlm n h \<Longrightarrow> foldl llm_outcome_step Map.empty h n \<noteq> None"
  "answered_at TTool n h \<Longrightarrow> foldl tool_outcome_step Map.empty h n \<noteq> None"
  unfolding answered_at_def
  by (induction h rule: rev_induct; force simp: outcome_step_def fired_step_def llm_outcome_step_def tool_outcome_step_def
      split: wf_event.splits)+

text \<open>The number of calls of a kind before one of that kind is less than the number of them all.\<close>

lemma map_filter_position: "cs = cs' @ c # rest \<Longrightarrow> g c = Some q \<Longrightarrow> length (List.map_filter g cs') < length (List.map_filter g cs)"
  by (simp add: map_filter_append List.map_filter_simps)

lemma stream_answered:
  assumes "i < length (filter P h)" "\<And>e. P e \<Longrightarrow> requests (event e) = Some k" "all_answered h"
  shows "\<exists>e. js_at (filter P h) i = Some e \<and> answered_at k (seq e) h"
proof -
  have "filter P h ! i \<in> set (filter P h)" using assms(1) by (rule nth_mem)
  then show ?thesis using assms by (auto simp: js_at_conv all_answered_def)
qed

lemma stream_requests:
  "isActivityScheduled e \<Longrightarrow> requests (event e) = Some TActivity" "isTimerScheduled e \<Longrightarrow> requests (event e) = Some TTimer"
  "isLlmRequested e \<Longrightarrow> requests (event e) = Some TLlm" "isToolRequested e \<Longrightarrow> requests (event e) = Some TTool"
  by (cases "event e"; simp)+

text \<open>A call that has no answer, in a pass that asked for nothing over a history that is all answered.\<close>

lemma unanswered_call:
  assumes cs: "pass_calls f inp h hash = cs' @ c # rest" and none: "world_of h cs' c = None"
    and ans: "all_answered h" and asked: "ps_commands (fst (pass_end f inp h hash)) = []"
  shows "\<exists>n. c = WaitForSignalCall n \<and> length (List.map_filter (signal_payload n) h) \<le> length (List.map_filter (signal_request n) cs')"
proof -
  let ?ix = "index_history hash h" and ?cs = "pass_calls f inp h hash"
  have cmds: "ps_commands (issue_all ?ix ?cs initial_pass) = []" using asked by (simp add: pass_end_state)
  note acc = pass_calls_accepted [of hash h f inp]
  note lens = activities.asked_all [OF acc initial_counters(1)] timers.asked_all [OF acc initial_counters(2)]
    llm_calls.asked_all [OF acc initial_counters(3)] tool_calls.asked_all [OF acc initial_counters(4)]
  note len = lens [unfolded cmds, simplified]
  show ?thesis
  proof (cases c)
    case (ScheduleActivityCall t i)
    then have "length (List.map_filter activity_request cs') < length (filter isActivityScheduled h)"
      using map_filter_position [OF cs, of activity_request] len(1) by simp
    from stream_answered [OF this stream_requests(1) ans] obtain e where
      "js_at (filter isActivityScheduled h) (length (List.map_filter activity_request cs')) = Some e" "answered_at TActivity (seq e) h" by blast
    with none answered_outcome(1) show ?thesis
      by (simp add: ScheduleActivityCall world_of_def index_history_def del: isActivityScheduled.simps isTimerScheduled.simps isLlmRequested.simps isToolRequested.simps)
  next
    case (SleepCall d)
    then have "length (List.map_filter timer_request cs') < length (filter isTimerScheduled h)"
      using map_filter_position [OF cs, of timer_request] len(2) by simp
    from stream_answered [OF this stream_requests(2) ans] obtain e where
      "js_at (filter isTimerScheduled h) (length (List.map_filter timer_request cs')) = Some e" "answered_at TTimer (seq e) h" by blast
    with none answered_outcome(2) show ?thesis
      by (simp add: SleepCall world_of_def index_history_def del: isActivityScheduled.simps isTimerScheduled.simps isLlmRequested.simps isToolRequested.simps)
  next
    case (LlmCall q)
    then have "length (List.map_filter llm_request_of cs') < length (filter isLlmRequested h)"
      using map_filter_position [OF cs, of llm_request_of] len(3) by simp
    from stream_answered [OF this stream_requests(3) ans] obtain e where
      "js_at (filter isLlmRequested h) (length (List.map_filter llm_request_of cs')) = Some e" "answered_at TLlm (seq e) h" by blast
    with none answered_outcome(3) show ?thesis
      by (simp add: LlmCall world_of_def index_history_def del: isActivityScheduled.simps isTimerScheduled.simps isLlmRequested.simps isToolRequested.simps)
  next
    case (ToolCall t a)
    then have "length (List.map_filter tool_request cs') < length (filter isToolRequested h)"
      using map_filter_position [OF cs, of tool_request] len(4) by simp
    from stream_answered [OF this stream_requests(4) ans] obtain e where
      "js_at (filter isToolRequested h) (length (List.map_filter tool_request cs')) = Some e" "answered_at TTool (seq e) h" by blast
    with none answered_outcome(4) show ?thesis
      by (simp add: ToolCall world_of_def index_history_def del: isActivityScheduled.simps isTimerScheduled.simps isLlmRequested.simps isToolRequested.simps)
  next
    case (WaitForSignalCall n)
    with none show ?thesis by (simp add: world_of_def index_history_def js_at_None_iff del: signal_payload.simps)
  qed
qed

text \<open>It waits for the \<open>m\<close>-th signal of a name, and fewer are recorded.\<close>

definition waits_for_signal :: "workflow_fn \<Rightarrow> jsval \<Rightarrow> stored_event list \<Rightarrow> string \<Rightarrow> bool" where
  "waits_for_signal f inp h n \<longleftrightarrow> (\<exists>cs' rest. direct_calls (f inp) (world_of h) MAX_DRAIN_TICKS [] [] = cs' @ WaitForSignalCall n # rest
     \<and> length (List.map_filter (signal_payload n) h) \<le> length (List.map_filter (signal_request n) cs'))"

lemma waits_only_for_signals:
  assumes r: "replay f inp h (Some hash) = Inr r" "rr_commands r = []" and p: "scoped (f inp) 0"
    and ans: "all_answered h" and ticks: "run_ticks f inp (world_of h) \<le> 1000"
  shows "rr_status r = RpRUNNING \<and> (\<exists>n. waits_for_signal f inp h n)"
proof -
  have run: "rr_status r = RpRUNNING" using finished_commands [OF r(1)] r(2) by fastforce
  then have "direct_run f inp (world_of h) = None"
    using replay_direct(1) [OF r(1)] replay_Inr(2) [OF r(1)] ticks by (simp add: MAX_DRAIN_TICKS_def)
  with direct_blocked [of "f inp" "[]" "world_of h" "[]" 1000] p ticks obtain cs' c rest where
    c: "direct_calls (f inp) (world_of h) 1000 [] [] = cs' @ c # rest" "world_of h cs' c = None"
    by (auto simp: run_ticks_def direct_run_def)
  have "ps_commands (fst (pass_end f inp h (Some hash))) = []" using replay_Inr(3) [OF r(1) run] r(2) by simp
  from unanswered_call [OF _ c(2) ans this, of rest] c(1) replay_direct(2) [OF r(1)] obtain n where
    "c = WaitForSignalCall n" "length (List.map_filter (signal_payload n) h) \<le> length (List.map_filter (signal_request n) cs')"
    by (auto simp: MAX_DRAIN_TICKS_def simp del: signal_payload.simps)
  with c(1) run show ?thesis unfolding waits_for_signal_def MAX_DRAIN_TICKS_def by blast
qed

subsection \<open>When no task is open\<close>

lemma calm_is_reachable: "calm_reachable code sha d \<Longrightarrow> reachable d"
  unfolding calm_reachable_def reachable_def by (erule rtranclp_mono [THEN predicate2D, rotated]) (auto dest: calm_sys)

text \<open>A dead letter of the workflow.\<close>

definition dead_letters :: "string \<Rightarrow> db \<Rightarrow> task list" where
  "dead_letters w d = filter (\<lambda>t. t_workflowId t = w \<and> t_status t = TDead) (tt_rows (db_tasks d))"

lemma quiet_all_answered:
  assumes r: "reachable d" and quiet: "open_tasks d = 0" "dead_letters w d = []"
  shows "all_answered (getEvents w d)"
  unfolding all_answered_def
proof (intro ballI allI impI)
  fix e k assume e: "e \<in> set (getEvents w d)" "requests (event e) = Some k"
  from request_task [OF reachable_inv [OF r] e] obtain t where
    t: "filter (\<lambda>t. t_taskType t = k \<and> t_workflowId t = w \<and> t_scheduledEventSeq t = Some (seq e)) (tt_rows (db_tasks d)) = [t]"
    and fin: "t_status t = TCompleted \<longrightarrow> answered_at k (seq e) (getEvents w d)" by blast
  have t': "t \<in> set (tt_rows (db_tasks d))" "t_workflowId t = w" using t by (auto dest: filter_eq_ConsD)
  have "t_status t \<notin> {TPending, TLeased}"
    using quiet(1) t'(1) by (auto simp: open_tasks_def row_count_def filter_empty_conv)
  moreover have "t_status t \<noteq> TDead" using quiet(2) t' by (auto simp: dead_letters_def filter_empty_conv)
  ultimately have "t_status t = TCompleted" by (cases "t_status t") simp_all
  with fin show "answered_at k (seq e) (getEvents w d)" by blast
qed

text \<open>A workflow that waits for one signal: started, replayed once, its task completed.\<close>

definition approval_workflow :: workflow_fn where
  "approval_workflow inp = await_call (WaitForSignalCall ''approve'') Ret"

definition approval_code :: "string \<rightharpoonup> workflow_fn" where
  "approval_code = [''approval'' \<mapsto> approval_workflow]"

definition asked1 :: db where
  "asked1 = leased_db TWorkflow (fst (startWorkflow clock0 id ''w1'' ''approval'' JNull empty_db))"

definition asked2 :: db where
  "asked2 = fst (workflowReplayHandler clock0 id [(''approval'', approval_workflow)] hash_only one_hash (tt_rows (db_tasks asked1) ! 0) asked1)"

definition asked3 :: db where
  "asked3 = asked2\<lparr>db_tasks := fst (run_settles 3000 0 plain_worker (tt_rows (db_tasks asked1) ! 0) (Inr ()) (db_tasks asked2))\<rparr>"

lemma asked_rows:
  "length (tt_rows (db_tasks asked1)) = 1" "t_taskType (tt_rows (db_tasks asked1) ! 0) = TWorkflow"
  "snd (workflowReplayHandler clock0 id [(''approval'', approval_workflow)] hash_only one_hash (tt_rows (db_tasks asked1) ! 0) asked1) = Inr ()"
  by code_simp+

lemma asked_quiet:
  "open_tasks asked3 = 0" "dead_letters ''w1'' asked3 = []" "find_map started_of (getEvents ''w1'' asked3) = Some (''approval'', JNull)"
  "List.map_filter (signal_payload ''approve'') (getEvents ''w1'' asked3) = []"
  by code_simp+

lemma asked_calm: "calm_reachable approval_code one_hash asked3"
proof -
  let ?S = "(calm_step approval_code one_hash)\<^sup>*\<^sup>*"
  have "calm_reachable approval_code one_hash asked1" unfolding asked1_def
    by (rule calm_lease, unfold calm_reachable_def,
        rule r_into_rtranclp, rule calm_start [where between = id and d' = "fst x" and r = "snd x" for x]) (simp, simp)
  moreover have "calm_run approval_code one_hash ?S (tt_rows (db_tasks asked1) ! 0) asked1
     (workflowReplayHandler clock0 id [(''approval'', approval_workflow)] hash_only one_hash (tt_rows (db_tasks asked1) ! 0) asked1)"
    by (rule calm_workflow) (simp_all add: asked_rows approval_code_def registry_get_def)
  then have "calm_run approval_code one_hash ?S (tt_rows (db_tasks asked1) ! 0) asked1 (asked2, Inr ())"
    by (metis asked2_def asked_rows(3) prod.collapse)
  then have "calm_step approval_code one_hash asked1 asked3" unfolding asked3_def
    by (rule calm_settled [OF handed_row, rotated]) (simp_all add: asked_rows)
  ultimately show ?thesis unfolding calm_reachable_def by (rule rtranclp.rtrancl_into_rtrancl)
qed

text \<open>
  C10: Nothing else can hold a workflow up. In every state that the processes can reach while replays of
  one workflow and runs of one activity do not overlap and the code of the workflow stays the same, when
  no task is open and the workflow has no dead letter, the replay of a workflow
  whose function awaits only promises it was given (\<open>scoped\<close>) ends it, or asks for a step (an event that arrived
  during the last replay), or takes more than the 1000 ticks of the drain loop, or the function waits for
  a signal that nobody has sent: its \<open>m\<close>-th wait for a name, with fewer than \<open>m\<close> such signals in the log.
\<close>

theorem quiet_workflow_waits_for_signals:
  assumes "calm_reachable code sha d" "find_map started_of (getEvents w d) = Some (ty, inp)" "code ty = Some fn"
    and "open_tasks d = 0" "dead_letters w d = []" "scoped (fn inp) 0"
  shows "\<exists>r. replay fn inp (getEvents w d) (Some sha) = Inr r
    \<and> (rr_commands r \<noteq> [] \<or> 1000 < run_ticks fn inp (world_of (getEvents w d)) \<or> (\<exists>n. waits_for_signal fn inp (getEvents w d) n))"
proof -
  obtain r where r: "replay fn inp (getEvents w d) (Some sha) = Inr r" using grown_replays [OF calm_grown [OF assms(1-3)]] by blast
  have "all_answered (getEvents w d)" by (rule quiet_all_answered [OF calm_is_reachable [OF assms(1)] assms(4,5)])
  from waits_only_for_signals [OF r _ assms(6) this] r show ?thesis using not_le by blast
qed

theorem quiet_workflow_waits_for_signals_witness:
  "waits_for_signal approval_workflow JNull (getEvents ''w1'' asked3) ''approve''"
proof -
  have sc: "scoped (approval_workflow JNull) 0"
    unfolding approval_workflow_def by (rule scoped_await_call) simp
  have code: "approval_code ''approval'' = Some approval_workflow" by (simp add: approval_code_def)
  from quiet_workflow_waits_for_signals [OF asked_calm asked_quiet(3) code asked_quiet(1,2) sc] obtain r where
    r: "replay approval_workflow JNull (getEvents ''w1'' asked3) (Some one_hash) = Inr r"
      "rr_commands r \<noteq> [] \<or> 1000 < run_ticks approval_workflow JNull (world_of (getEvents ''w1'' asked3))
       \<or> (\<exists>n. waits_for_signal approval_workflow JNull (getEvents ''w1'' asked3) n)" by blast
  have "map_option rr_commands (case replay approval_workflow JNull (getEvents ''w1'' asked3) (Some one_hash) of Inl _ \<Rightarrow> None | Inr x \<Rightarrow> Some x) = Some []"
    by code_simp
  then have "rr_commands r = []" using r(1) by simp
  moreover have "run_ticks approval_workflow JNull (world_of (getEvents ''w1'' asked3)) = 0" by code_simp
  ultimately obtain n where n: "waits_for_signal approval_workflow JNull (getEvents ''w1'' asked3) n" using r(2) by auto
  have "direct_calls (approval_workflow JNull) (world_of (getEvents ''w1'' asked3)) MAX_DRAIN_TICKS [] [] = [WaitForSignalCall ''approve'']"
    by code_simp
  with n have "n = ''approve''" by (auto simp: waits_for_signal_def Cons_eq_append_conv)
  with n show ?thesis by simp
qed

subsection \<open>Worlds that hear more\<close>

text \<open>Whatever one world answers, the other answers with the same.\<close>

definition world_le :: "world \<Rightarrow> world \<Rightarrow> bool" where
  "world_le W W' \<longleftrightarrow> (\<forall>cs c r. W cs c = Some r \<longrightarrow> W' cs c = Some r)"

lemma world_le_refl [simp]: "world_le W W"
  by (simp add: world_le_def)

lemma world_le_trans: "world_le W W' \<Longrightarrow> world_le W' W'' \<Longrightarrow> world_le W W''"
  by (simp add: world_le_def)

lemma map_le_at: "m \<subseteq>\<^sub>m m' \<Longrightarrow> m x = Some r \<Longrightarrow> m' x = Some r"
  by (auto simp: map_le_def dom_def)

lemma answered_world:
  assumes "answered_more ix ix'"
  shows "world_le (answer_of ix) (answer_of ix')"
  unfolding world_le_def
proof (intro allI impI)
  fix cs c r assume "answer_of ix cs c = Some r"
  then show "answer_of ix' cs c = Some r" using assms
    by (cases c) (auto simp: answered_more_def bind_eq_Some_conv intro: js_at_prefix_more map_le_at)
qed

lemma js_at_appended: "js_at xs i = Some x \<Longrightarrow> js_at (xs @ ys) i = Some x"
  by (rule js_at_prefix_more [of xs]) simp_all

lemma asked_world:
  assumes "asked_more ix ix'"
  shows "world_le (answer_of ix) (answer_of ix')"
  unfolding world_le_def
proof (intro allI impI)
  fix cs c r assume "answer_of ix cs c = Some r"
  then show "answer_of ix' cs c = Some r" using assms
    by (cases c) (auto simp: asked_more_def bind_eq_Some_conv js_at_appended)
qed

lemma heard_world: "hear_step h h' \<Longrightarrow> world_le (world_of h) (world_of h')"
  unfolding world_of_def by (intro answered_world heard_answers)

lemma decided_world:
  assumes good: "good_history f inp sha h0" and r: "replay f inp h0 (Some sha) = Inr r"
    and ev: "commands_events ck cfg (rr_commands r) = Inr evs" and heard: "hear_step\<^sup>*\<^sup>* h0 h"
  shows "world_le (world_of h) (world_of (h @ stored_after h evs))"
proof (cases "rr_status r = RpRUNNING")
  case True
  have h: "good_history f inp sha h" using hears_good [OF heard good] by blast
  have "asked_more (index_history None h) (index_history None (h @ stored_after h evs))"
    by (rule requests_asked [OF commands_stored [OF r True ev] stored_fresh]) (use h in \<open>simp_all add: good_history_def\<close>)
  then show ?thesis unfolding world_of_def by (rule asked_world)
qed (use heard_world [OF ending_heard [OF r _ ev]] in blast)

lemma log_world: "log_step f inp sha h h' \<Longrightarrow> world_le (world_of h) (world_of h')"
  by (induction rule: log_step.induct) (use heard_world decided_world grown_good in blast)+

lemma log_worlds: "(log_step f inp sha)\<^sup>*\<^sup>* h h' \<Longrightarrow> world_le (world_of h) (world_of h')"
  by (induction rule: rtranclp_induct) (auto intro: world_le_trans log_world)

subsection \<open>Calls settle\<close>

text \<open>
  In a sequence of worlds that hear more and more, the calls of a function come to a last list: each of
  its awaits is settled for good from some world on, or in none.
\<close>

definition later :: "outcome option \<Rightarrow> outcome option \<Rightarrow> bool" where
  "later x y \<longleftrightarrow> x = None \<or> y = x"

lemma later_at: "list_all2 later as bs \<Longrightarrow> js_at as q = Some (Some r) \<Longrightarrow> js_at bs q = Some (Some r)"
  by (auto simp: js_at_conv later_def list_all2_conv_all_nth split: if_splits)

lemma calls_settle:
  fixes W :: "nat \<Rightarrow> world" and as :: "nat \<Rightarrow> outcome option list"
  assumes "\<And>i j. i \<le> j \<Longrightarrow> world_le (W i) (W j)" "\<And>i j. i \<le> j \<Longrightarrow> list_all2 later (as i) (as j)"
  shows "\<exists>N C. \<forall>i \<ge> N. direct_calls p (W i) n cs (as i) = C"
  using assms
proof (induction p arbitrary: W n cs as)
  case (Issue c k)
  define L where "L = length (as 0)"
  have len: "length (as i) = L" for i using list_all2_lengthD [OF Issue.prems(2) [of 0 i]] by (simp add: L_def)
  have "list_all2 later (as i @ [W i cs c]) (as j @ [W j cs c])" if "i \<le> j" for i j
  proof -
    have "later (W i cs c) (W j cs c)" using Issue.prems(1) [OF that] by (cases "W i cs c") (simp_all add: world_le_def later_def)
    with Issue.prems(2) [OF that] show ?thesis by (intro list_all2_appendI) simp_all
  qed
  from Issue.IH [OF rangeI [of k "Inr L"], of W "\<lambda>i. as i @ [W i cs c]" n "cs @ [c]", OF Issue.prems(1) this] obtain N C where
    "\<forall>i \<ge> N. direct_calls (k (Inr L)) (W i) n (cs @ [c]) (as i @ [W i cs c]) = C" by blast
  then show ?case using len by (intro exI [of _ N] exI [of _ "c # C"]) simp
next
  case (Await q k)
  show ?case
  proof (cases "(\<exists>i r. js_at (as i) q = Some (Some r)) \<and> n \<noteq> 0")
    case True
    then obtain i r m where i: "js_at (as i) q = Some (Some r)" and m: "n = Suc m" using not0_implies_Suc by blast
    have at: "js_at (as j) q = Some (Some r)" if "i \<le> j" for j using later_at [OF Await.prems(2) [OF that] i] .
    from Await.IH [OF rangeI [of k r], of "\<lambda>j. W (i + j)" "\<lambda>j. as (i + j)"] Await.prems obtain N C where
      "\<forall>j \<ge> N. direct_calls (k r) (W (i + j)) m cs (as (i + j)) = C" by fastforce
    then have "direct_calls (k r) (W j) m cs (as j) = C" if "i + N \<le> j" for j using that
      by (metis add_leD1 le_add_diff_inverse nat_add_left_cancel_le)
    with at m show ?thesis by (intro exI [of _ "i + N"] exI [of _ C]) simp
  next
    case False
    then have "direct_calls (Await q k) (W i) n cs (as i) = []" for i by (auto split: option.split nat.split)
    then show ?thesis by blast
  qed
next
  case (Yield p)
  show ?case
  proof (cases n)
    case (Suc m)
    with Yield show ?thesis by simp
  qed auto
qed auto

lemma prefix_chain_settles:
  fixes xs :: "nat \<Rightarrow> 'a list"
  assumes "\<And>i j. i \<le> j \<Longrightarrow> prefix (xs i) (xs j)" "\<And>i. N \<le> i \<Longrightarrow> length (xs i) \<le> b"
  shows "\<exists>M. \<forall>i \<ge> M. xs i = xs M"
proof -
  have "\<exists>M \<ge> N. \<forall>i \<ge> N. length (xs i) \<le> length (xs M)"
  proof -
    let ?S = "(\<lambda>i. length (xs i)) ` {N..}"
    have fin: "finite ?S" using assms(2) by (intro finite_subset [of ?S "{..b}"]) auto
    have "Max ?S \<in> ?S" by (rule Max_in [OF fin]) auto
    then obtain M where "M \<ge> N" "Max ?S = length (xs M)" by auto
    then show ?thesis using Max_ge [OF fin] by force
  qed
  then obtain M where M: "M \<ge> N" "\<forall>i \<ge> N. length (xs i) \<le> length (xs M)" by blast
  have "xs i = xs M" if i: "M \<le> i" for i
  proof -
    obtain zs where "xs i = xs M @ zs" using assms(1) [OF i] by (auto simp: prefix_def)
    moreover have "length (xs i) \<le> length (xs M)" using M i by simp
    ultimately show ?thesis by simp
  qed
  then show ?thesis by blast
qed

subsection \<open>Every workflow asks for finitely many steps\<close>

definition request_events :: "stored_event list \<Rightarrow> stored_event list" where
  "request_events h = filter (\<lambda>e. requests (event e) \<noteq> None) h"

lemma request_events_split:
  "length (request_events h) = length (filter isActivityScheduled h) + length (filter isTimerScheduled h)
     + length (filter isLlmRequested h) + length (filter isToolRequested h)"
proof (induction h)
  case (Cons e h)
  then show ?case by (cases "event e") (simp_all add: request_events_def)
qed (simp add: request_events_def)

lemma map_filter_le: "length (List.map_filter g xs) \<le> length xs"
  by (induction xs) (auto simp: List.map_filter_simps split: option.split)

lemma request_events_le:
  assumes "good_history f inp sha h"
  shows "length (request_events h) \<le> 4 * length (pass_calls f inp h (Some sha))"
proof -
  note qs = settled_requests [of f inp h "Some sha"]
  have s: "settled_pass f inp h (Some sha)" using assms by (simp add: good_history_def)
  have "length (filter isActivityScheduled h) \<le> length (List.map_filter activity_request (pass_calls f inp h (Some sha)))"
    using qs(1) [OF s] prefix_length_le by metis
  moreover have "length (filter isTimerScheduled h) \<le> length (List.map_filter timer_request (pass_calls f inp h (Some sha)))"
    using qs(2) [OF s] prefix_length_le by metis
  moreover have "length (filter isLlmRequested h) \<le> length (List.map_filter llm_request_of (pass_calls f inp h (Some sha)))"
    using qs(3) [OF s] prefix_length_le by metis
  moreover have "length (filter isToolRequested h) \<le> length (List.map_filter tool_request (pass_calls f inp h (Some sha)))"
    using qs(4) [OF s] prefix_length_le by metis
  moreover note map_filter_le [of activity_request "pass_calls f inp h (Some sha)"] map_filter_le [of timer_request "pass_calls f inp h (Some sha)"]
    map_filter_le [of llm_request_of "pass_calls f inp h (Some sha)"] map_filter_le [of tool_request "pass_calls f inp h (Some sha)"]
  ultimately show ?thesis unfolding request_events_split by linarith
qed

lemma steps_between:
  assumes "\<forall>i. S\<^sup>*\<^sup>* (D i) (D (Suc i))" "i \<le> j"
  shows "S\<^sup>*\<^sup>* (D i) (D j)"
  using assms(2) by (induction j rule: dec_induct) (use assms(1) rtranclp_trans in fastforce)+

text \<open>
  C11: Every workflow comes to an end of its requests, while its replays and the runs of one activity do
  not overlap and its code stays the same. However the processes go on like that from a state in which the
  workflow is started (any sequence of states, each reached from the one before), from some state on no further step is recorded in its history, whatever answers, signals,
  crashes and repeated runs follow. A function that awaits for ever is cut off by the drain loop; one that
  calls for ever without awaiting, whose pass would not return, is not a \<open>prog\<close>.
\<close>

theorem workflow_asks_finitely:
  assumes "calm_reachable code sha (D 0)" "\<forall>i. (calm_step code sha)\<^sup>*\<^sup>* (D i) (D (Suc i))"
    and "find_map started_of (getEvents w (D 0)) = Some (ty, inp)" "code ty = Some fn"
  shows "\<exists>N. \<forall>i \<ge> N. request_events (getEvents w (D i)) = request_events (getEvents w (D N))"
proof -
  let ?h = "\<lambda>i. getEvents w (D i)"
  note from0 = steps_between [OF assms(2), of 0, OF le0]
  have r: "calm_reachable code sha (D i)" for i
    using assms(1) from0 [of i] rtranclp_trans unfolding calm_reachable_def by fastforce
  have started: "find_map started_of (?h i) = Some (ty, inp)" for i by (rule calm_log(3) [OF assms(1) from0 assms(3,4)])
  note logs = calm_log [OF r steps_between [OF assms(2)] started assms(4)]
  note good = grown_good [OF calm_grown [OF r started assms(4)]]
  have calls: "pass_calls fn inp (?h i) (Some sha) = direct_calls (fn inp) (world_of (?h i)) MAX_DRAIN_TICKS [] []" for i
    using grown_replays [OF calm_grown [OF r started assms(4)]] replay_direct(2) by blast
  have "\<exists>N C. \<forall>i \<ge> N. direct_calls (fn inp) (world_of (?h i)) MAX_DRAIN_TICKS [] [] = C"
    by (rule calls_settle [OF log_worlds [OF logs(1)]]) simp_all
  then obtain N C where C: "\<forall>i \<ge> N. direct_calls (fn inp) (world_of (?h i)) MAX_DRAIN_TICKS [] [] = C" by blast
  have bound: "length (request_events (?h i)) \<le> 4 * length C" if "N \<le> i" for i
    using request_events_le [OF good, of i] C that by (simp add: calls)
  have "prefix (request_events (?h i)) (request_events (?h j))" if "i \<le> j" for i j
    using logs(2) [OF that] by (auto simp: request_events_def prefix_def)
  from prefix_chain_settles [of "\<lambda>i. request_events (?h i)" N, OF this bound] show ?thesis by blast
qed

theorem workflow_asks_finitely_witness:
  "\<exists>N. \<forall>i \<ge> N. request_events (getEvents ''w1'' (case i of 0 \<Rightarrow> demo2 | Suc 0 \<Rightarrow> demo4 | _ \<Rightarrow> demo5))
     = request_events (getEvents ''w1'' (case N of 0 \<Rightarrow> demo2 | Suc 0 \<Rightarrow> demo4 | _ \<Rightarrow> demo5))"
proof -
  let ?D = "\<lambda>i. case i of 0 \<Rightarrow> demo2 | Suc 0 \<Rightarrow> demo4 | _ \<Rightarrow> demo5"
  have steps: "\<forall>i. (calm_step demo_code one_hash)\<^sup>*\<^sup>* (?D i) (?D (Suc i))"
    using demo_calm_steps by (auto split: nat.split)
  have "calm_reachable demo_code one_hash (?D 0)" using demo_calm(1) by simp
  from workflow_asks_finitely [OF this steps, of "''w1''"] demo_started(1) show ?thesis by (simp add: demo_code_def)
qed

end
