(* ===== verification/Spans.thy ===== *)
theory Spans
  imports Progress
begin

section \<open>Trace spans of durable steps (packages/worker-sdk/src/stepSpans.ts, observability/src/tracing.ts)\<close>

text \<open>
  The spans the handlers emit: their names, their attributes and the error they end with. The tracer, the
  exporter and the ids of traces belong to OpenTelemetry. What a run emits is a function of what its
  handler reads and of how it ends; nothing reads it back.
\<close>

subsection \<open>Spans\<close>

datatype attr = AStr string | ANat nat | AInt int | ANum js_num | ABool bool

type_synonym attributes = "(string \<times> attr) list"

text \<open>\<open>sp_error\<close> is the error recorded as the exception of the span.\<close>

record span =
  sp_name :: string
  sp_attributes :: attributes
  sp_error :: "js_error option"

text \<open>\<open>span.setAttributes\<close>: a key that is there is overwritten.\<close>

definition setAttributes :: "attributes \<Rightarrow> attributes \<Rightarrow> attributes" where
  "setAttributes as new = foldl (\<lambda>bs kv. AList.update (fst kv) (snd kv) bs) as new"

text \<open>
  \<open>withStepSpan\<close> and \<open>withSpan\<close>: whatever \<open>fn\<close> comes to, the span ends, with the error \<open>fn\<close> threw if it
  threw, and the result is that of \<open>fn\<close>. \<open>added\<close> are the attributes \<open>fn\<close> sets.
\<close>

definition withStepSpan :: "string \<Rightarrow> attributes \<Rightarrow> attributes \<Rightarrow> 'a outcome_db \<Rightarrow> span \<times> 'a outcome_db" where
  "withStepSpan name attributes added result =
     (\<lparr>sp_name = name, sp_attributes = setAttributes attributes added,
       sp_error = (case snd result of Inl err \<Rightarrow> Some err | Inr _ \<Rightarrow> None)\<rparr>, result)"

definition withSpan :: "string \<Rightarrow> 'a outcome_db \<Rightarrow> span \<times> 'a outcome_db" where
  "withSpan name result =
     (\<lparr>sp_name = name, sp_attributes = [], sp_error = (case snd result of Inl err \<Rightarrow> Some err | Inr _ \<Rightarrow> None)\<rparr>, result)"

definition llmCompletedAttributes :: "string \<Rightarrow> nat \<Rightarrow> nat \<Rightarrow> int \<Rightarrow> js_num option \<Rightarrow> nat \<Rightarrow> attributes" where
  "llmCompletedAttributes model tokensIn tokensOut latencyMs estimatedCostUsd attempt =
     [(''llm.model'', AStr model), (''llm.tokens_in'', ANat tokensIn), (''llm.tokens_out'', ANat tokensOut),
      (''llm.latency_ms'', AInt latencyMs)]
     @ (case estimatedCostUsd of None \<Rightarrow> [] | Some c \<Rightarrow> [(''llm.cost_usd'', ANum c)])
     @ [(''attempt'', ANat attempt)]"

fun replayed_step :: "string \<Rightarrow> wf_event \<Rightarrow> span option" where
  "replayed_step workflowId (LLM_COMPLETED stepId n h txt calls truncated model tin tout lat cost att) =
     Some \<lparr>sp_name = ''llm_call'', sp_attributes = llmCompletedAttributes model tin tout lat cost att
        @ [(''replayed'', ABool True), (''step.id'', AStr stepId), (''workflow.id'', AStr workflowId)], sp_error = None\<rparr>"
| "replayed_step workflowId (TOOL_COMPLETED stepId n tool r lat att) =
     Some \<lparr>sp_name = ''tool_call'', sp_attributes =
        [(''tool.name'', AStr tool), (''tool.latency_ms'', AInt lat), (''attempt'', ANat att), (''replayed'', ABool True),
         (''step.id'', AStr stepId), (''workflow.id'', AStr workflowId)], sp_error = None\<rparr>"
| "replayed_step workflowId ev = None"

definition recordReplayedSteps :: "stored_event list \<Rightarrow> string \<Rightarrow> span list" where
  "recordReplayedSteps history workflowId = List.map_filter (\<lambda>e. replayed_step workflowId (event e)) history"

subsection \<open>The trace context of a task\<close>

text \<open>
  \<open>inject\<close> and \<open>extract\<close> are those of OpenTelemetry: the text of the active context, if there is a span, and
  the context a text stands for.
\<close>

definition injectTraceContext :: "('c \<Rightarrow> string option) \<Rightarrow> 'c \<Rightarrow> string option" where
  "injectTraceContext inject active = inject active"

definition extractTraceContext :: "('c \<Rightarrow> string \<Rightarrow> 'c) \<Rightarrow> 'c \<Rightarrow> string option \<Rightarrow> 'c" where
  "extractTraceContext extract active traceContext =
     (case traceContext of None \<Rightarrow> active | Some tc \<Rightarrow> if tc = [] then active else extract active tc)"

fun task_type_name :: "task_type \<Rightarrow> string" where
  "task_type_name TWorkflow = ''workflow''"
| "task_type_name TActivity = ''activity''"
| "task_type_name TTimer = ''timer''"
| "task_type_name TLlm = ''llm''"
| "task_type_name TTool = ''tool''"

text \<open>The parent and the name of the span a worker with tracing runs a task in.\<close>

definition execute_span :: "('c \<Rightarrow> string \<Rightarrow> 'c) \<Rightarrow> 'c \<Rightarrow> task \<Rightarrow> unit outcome_db \<Rightarrow> 'c \<times> span" where
  "execute_span extract active t result =
     (extractTraceContext extract active (t_traceContext t), fst (withSpan (''execute '' @ task_type_name (t_taskType t)) result))"

lemma task_for_trace: "task_for w tr e = Some i \<Longrightarrow> ei_traceContext i = tr"
  by (auto simp: base_input_def split: wf_event.splits)

text \<open>
  Every task an append enqueues carries the context the append was made in, and keeps it when it is
  leased: the handler runs in a child of the span that asked for it.
\<close>

lemma appended_trace:
  assumes inv: "db_inv d" "events \<noteq> []" "w \<in> set (execution_ids d)"
    and ok: "\<forall>e \<in> set events. \<forall>m p. e = SignalReceived m p \<longrightarrow> m \<notin> set object_prototype_names"
    and trace: "ck_trace ck = injectTraceContext inject active"
  shows "\<exists>ts. tt_rows (db_tasks (fst (appendEvents ck w events d))) = tt_rows (db_tasks d) @ ts
    \<and> (\<forall>t \<in> set ts. \<forall>now input result. fst (execute_span extract idle (lease_task now input t) result)
         = extractTraceContext extract idle (injectTraceContext inject active))"
proof -
  from append_events_full [OF inv ok] obtain d' es s ts where a: "appendEvents ck w events d = (d', Inr (es, s))"
    "tt_rows (db_tasks d') = tt_rows (db_tasks d) @ ts"
    "list_all2 (made_from ck) (List.map_filter (task_for w (ck_trace ck)) es
       @ (if has_live_workflow_task w d then [] else [base_input TWorkflow w (ck_trace ck)])) ts" by blast
  have "t_traceContext t = ck_trace ck" if "t \<in> set ts" for t
  proof -
    from list_all2_in_right [OF a(3) that] obtain i where
      i: "i \<in> set (List.map_filter (task_for w (ck_trace ck)) es @ (if has_live_workflow_task w d then [] else [base_input TWorkflow w (ck_trace ck)]))"
        "made_from ck i t" by blast
    then have "ei_traceContext i = ck_trace ck"
      by (auto simp: List.map_filter_def base_input_def task_for_trace simp del: task_for.simps split: if_splits)
    with i(2) show ?thesis by (metis made_from_def new_task_def task.select_convs(14))
  qed
  with a trace show ?thesis by (intro exI [of _ ts]) (simp add: lease_task_def execute_span_def)
qed

subsection \<open>What each handler emits\<close>

text \<open>A run of the workflow handler, of an LLM step and of a tool step, on the same arguments as the handler.\<close>

definition workflow_spans :: "(string \<times> workflow_fn) list \<Rightarrow> (string \<Rightarrow> string) \<Rightarrow> task \<Rightarrow> db \<Rightarrow> span list" where
  "workflow_spans workflows hash t d =
     (let w = t_workflowId t; history = getEvents w d in
      case find_map started_of history of
        None \<Rightarrow> []
      | Some (workflowType, inp) \<Rightarrow>
     (case registry_get workflows workflowType of
        None \<Rightarrow> []
      | Some fn \<Rightarrow>
     (case (find_map cancellation_of history, alreadyTerminal history) of
        (Some reason, False) \<Rightarrow> []
      | _ \<Rightarrow> (case replay fn inp history (Some hash) of Inl _ \<Rightarrow> [] | Inr _ \<Rightarrow> recordReplayedSteps history w))))"

definition find_outcome :: "string list \<Rightarrow> nat \<Rightarrow> stored_event list \<Rightarrow> stored_event option" where
  "find_outcome types scheduledSeq history =
     find (\<lambda>e. event_type (event e) \<in> set types \<and> event_ref (event e) = Some scheduledSeq) history"

text \<open>The attributes \<open>fn\<close> sets: those of the completed event, once the provider has answered.\<close>

definition llm_set_attributes :: "provider \<Rightarrow> (string \<times> workflow_fn) list \<Rightarrow> llm_step_config \<Rightarrow> (string \<Rightarrow> string) \<Rightarrow> task
    \<Rightarrow> stored_event list \<Rightarrow> llm_requested \<Rightarrow> nat \<Rightarrow> db \<Rightarrow> attributes" where
  "llm_set_attributes provider workflows config sha256Hex t history requested scheduledSeq d =
     (case resolveRequest history requested workflows sha256Hex of
        Inl reason \<Rightarrow> []
      | Inr request \<Rightarrow> (case provider request (llm_context t requested) d of
          (d', Inl err) \<Rightarrow> []
        | (d', Inr response) \<Rightarrow> (case llm_completed config t requested scheduledSeq response of
            LLM_COMPLETED stepId n h txt calls truncated model tin tout lat cost att \<Rightarrow> llmCompletedAttributes model tin tout lat cost att
          | _ \<Rightarrow> [])))"

definition llm_spans :: "clock \<Rightarrow> (nat \<Rightarrow> db \<Rightarrow> db) \<Rightarrow> provider \<Rightarrow> (string \<times> workflow_fn) list \<Rightarrow> llm_step_config
    \<Rightarrow> (string \<Rightarrow> string) \<Rightarrow> task \<Rightarrow> db \<Rightarrow> span list" where
  "llm_spans ck gap provider workflows config sha256Hex t d =
     (case t_scheduledEventSeq t of
        None \<Rightarrow> []
      | Some scheduledSeq \<Rightarrow>
     (let history = getEvents (t_workflowId t) d in
      case Option.bind (find (\<lambda>e. seq e = scheduledSeq) history) llm_requested_of of
        None \<Rightarrow> []
      | Some requested \<Rightarrow>
          (case find_outcome llm_outcome_types scheduledSeq history of
             Some outcome \<Rightarrow> recordReplayedSteps [outcome] (t_workflowId t)
           | None \<Rightarrow> [fst (withStepSpan ''llm_call''
               [(''step.id'', AStr (lrq_stepId requested)), (''workflow.id'', AStr (t_workflowId t)), (''replayed'', ABool False),
                (''attempt'', ANat (t_attempt t))]
               (llm_set_attributes provider workflows config sha256Hex t history requested scheduledSeq (gap 0 d))
               (llmCallHandler ck gap provider workflows config sha256Hex t d))])))"

definition tool_spans :: "clock \<Rightarrow> (nat \<Rightarrow> db \<Rightarrow> db) \<Rightarrow> int \<Rightarrow> tool_registry \<Rightarrow> (string \<Rightarrow> string) \<Rightarrow> task \<Rightarrow> db \<Rightarrow> span list" where
  "tool_spans ck gap latencyMs reg sha256Hex t d =
     (case t_scheduledEventSeq t of
        None \<Rightarrow> []
      | Some scheduledSeq \<Rightarrow>
     (let history = getEvents (t_workflowId t) d in
      case Option.bind (find (\<lambda>e. seq e = scheduledSeq) history) tool_requested_of of
        None \<Rightarrow> []
      | Some requested \<Rightarrow>
          (case find_outcome tool_outcome_types scheduledSeq history of
             Some outcome \<Rightarrow> recordReplayedSteps [outcome] (t_workflowId t)
           | None \<Rightarrow> (case validate reg (trq_tool requested) (trq_args requested) of
               Invalid code message \<Rightarrow> []
             | Valid \<Rightarrow>
                 if hashToolCall sha256Hex (trq_tool requested) (trq_args requested) \<noteq> trq_argsHash requested then []
                 else (case get_tool reg (trq_tool requested) of
                    None \<Rightarrow> []
                  | Some tool \<Rightarrow> [fst (withStepSpan ''tool_call''
                      [(''tool.name'', AStr (trq_tool requested)), (''step.id'', AStr (trq_stepId requested)),
                       (''workflow.id'', AStr (t_workflowId t)), (''replayed'', ABool False), (''attempt'', ANat (t_attempt t))] []
                      (executeAtomically ck (gap 1) latencyMs t requested scheduledSeq (tl_handler tool) (gap 0 d)))])))))"

subsection \<open>Replayed spans are calls that were served\<close>

text \<open>What a completed step hands the workflow.\<close>

fun served_outcome :: "wf_event \<Rightarrow> outcome option" where
  "served_outcome (LLM_COMPLETED stepId n h txt calls truncated model tin tout lat cost att) =
     Some (Inr (call_result_js \<lparr>cr_text = txt, cr_toolCalls = calls, cr_model = model,
       cr_tokensIn = tin, cr_tokensOut = tout, cr_truncated = truncated\<rparr>))"
| "served_outcome (TOOL_COMPLETED stepId n tool r lat att) = Some (Inr r)"
| "served_outcome ev = None"

lemma replayed_kinds:
  assumes "replayed_step w ev = Some s"
  obtains (llm) n where "answers ev = Some TLlm" "event_ref ev = Some n" "sp_name s = ''llm_call''"
  | (tool) n where "answers ev = Some TTool" "event_ref ev = Some n" "sp_name s = ''tool_call''"
  using assms by (cases ev) auto

lemma fold_only:
  fixes f :: "('k \<Rightarrow> 'v) \<Rightarrow> 'e \<Rightarrow> 'k \<Rightarrow> 'v"
  assumes "\<And>m x. P x \<Longrightarrow> f m x n = v x" "\<And>m x. \<not> P x \<Longrightarrow> f m x n = m n"
    and "e \<in> set h" "P e" "\<forall>x \<in> set h. P x \<longrightarrow> x = e"
  shows "foldl f m h n = v e"
  using assms(3,5)
proof (induction h rule: rev_induct)
  case (snoc x h)
  show ?case
  proof (cases "P x")
    case True
    then have "x = e" using snoc.prems(2) by simp
    with assms(1) [OF True] show ?thesis by simp
  next
    case False
    then have "e \<in> set h" using snoc.prems(1) assms(4) by auto
    from snoc.IH [OF this] snoc.prems(2) assms(2) [OF False] show ?thesis by simp
  qed
qed simp

definition outcome_at :: "task_type \<Rightarrow> nat \<Rightarrow> stored_event \<Rightarrow> bool" where
  "outcome_at k n e \<longleftrightarrow> answers (event e) = Some k \<and> event_ref (event e) = Some n"

lemma only_outcome:
  assumes "e \<in> set h" "served_outcome (event e) = Some v"
  shows "outcome_at TLlm n e \<Longrightarrow> \<forall>x \<in> set h. outcome_at TLlm n x \<longrightarrow> x = e \<Longrightarrow> foldl llm_outcome_step Map.empty h n = Some v"
    "outcome_at TTool n e \<Longrightarrow> \<forall>x \<in> set h. outcome_at TTool n x \<longrightarrow> x = e \<Longrightarrow> foldl tool_outcome_step Map.empty h n = Some v"
proof -
  have llm: "outcome_at TLlm n x \<Longrightarrow> llm_outcome_step m x n = llm_outcome_step Map.empty x n"
    "\<not> outcome_at TLlm n x \<Longrightarrow> llm_outcome_step m x n = m n" for m x
    by (cases "event x"; simp add: llm_outcome_step_def outcome_at_def)+
  have tool: "outcome_at TTool n x \<Longrightarrow> tool_outcome_step m x n = tool_outcome_step Map.empty x n"
    "\<not> outcome_at TTool n x \<Longrightarrow> tool_outcome_step m x n = m n" for m x
    by (cases "event x"; simp add: tool_outcome_step_def outcome_at_def)+
  have val: "outcome_at TLlm n e \<Longrightarrow> llm_outcome_step Map.empty e n = Some v" "outcome_at TTool n e \<Longrightarrow> tool_outcome_step Map.empty e n = Some v"
    using assms(2) by (cases "event e"; simp add: llm_outcome_step_def tool_outcome_step_def outcome_at_def)+
  show "outcome_at TLlm n e \<Longrightarrow> \<forall>x \<in> set h. outcome_at TLlm n x \<longrightarrow> x = e \<Longrightarrow> foldl llm_outcome_step Map.empty h n = Some v"
    using fold_only [where f = llm_outcome_step and n = n, OF llm assms(1)] val(1) by metis
  show "outcome_at TTool n e \<Longrightarrow> \<forall>x \<in> set h. outcome_at TTool n x \<longrightarrow> x = e \<Longrightarrow> foldl tool_outcome_step Map.empty h n = Some v"
    using fold_only [where f = tool_outcome_step and n = n, OF tool assms(1)] val(2) by metis
qed

lemma nth_call:
  "i < length (List.map_filter g cs) \<Longrightarrow> \<exists>cs' c rest. cs = cs' @ c # rest \<and> length (List.map_filter g cs') = i \<and> g c \<noteq> None"
proof (induction cs arbitrary: i)
  case (Cons c cs)
  show ?case
  proof (cases "i = 0 \<and> g c \<noteq> None")
    case True
    then show ?thesis by (intro exI [of _ "[]"]) (simp add: List.map_filter_simps)
  next
    case False
    define j where "j = (if g c = None then i else i - 1)"
    have "j < length (List.map_filter g cs)" using Cons.prems False by (auto simp: j_def List.map_filter_simps split: option.splits)
    from Cons.IH [OF this] obtain cs' d rest where "cs = cs' @ d # rest" "length (List.map_filter g cs') = j" "g d \<noteq> None" by blast
    then show ?thesis using False
      by (intro exI [of _ "c # cs'"] exI [of _ d] exI [of _ rest]) (auto simp: j_def List.map_filter_simps split: option.split)
  qed
qed (simp add: List.map_filter_simps)

lemma recorded_index:
  assumes "r \<in> set h" "P r"
  shows "\<exists>i < length (filter P h). filter P h ! i = r"
  using assms by (simp add: in_set_conv_nth [symmetric] conj_commute)

lemma request_kinds:
  "requests (event r) = Some TLlm \<Longrightarrow> isLlmRequested r" "requests (event r) = Some TTool \<Longrightarrow> isToolRequested r"
  by (cases "event r"; simp)+

text \<open>An outcome in a good history is what a call of the pass is answered with.\<close>

lemma outcome_served:
  assumes good: "good_history fn inp sha h" and one: "one_outcome h" and ans: "answers_requests h"
    and e: "e \<in> set h" "served_outcome (event e) = Some v" "answers (event e) = Some k" "event_ref (event e) = Some n" "k \<in> {TLlm, TTool}"
  shows "\<exists>cs' c rest. pass_calls fn inp h (Some sha) = cs' @ c # rest \<and> world_of h cs' c = Some v"
proof -
  let ?cs = "pass_calls fn inp h (Some sha)"
  have set: "settled_pass fn inp h (Some sha)" using good by (simp add: good_history_def)
  obtain r where r: "r \<in> set h" "n = seq r" "requests (event r) = Some k"
    using ans e(1,3,4) unfolding answers_requests_def by fastforce
  have "\<forall>x \<in> set h. outcome_at k n x \<longrightarrow> x = e"
  proof (intro ballI impI)
    fix x assume x: "x \<in> set h" "outcome_at k n x"
    from one [unfolded one_outcome_def, rule_format, OF x(1) e(1,5)] x(2) e(3,4) show "x = e" by (simp add: outcome_at_def)
  qed
  moreover have "outcome_at k n e" using e by (simp add: outcome_at_def)
  moreover note only = only_outcome [OF e(1,2), of n]
  consider "k = TLlm" | "k = TTool" using e(5) by blast
  then show ?thesis
  proof cases
    case 1
    obtain i where i: "i < length (filter isLlmRequested h)" "filter isLlmRequested h ! i = r"
      using recorded_index [of r h isLlmRequested] r(1,3) request_kinds(1) [of r] 1 by blast
    have "i < length (List.map_filter llm_request_of ?cs)"
      using settled_requests(3) [OF set] i(1) prefix_length_le by fastforce
    from nth_call [OF this] obtain cs' c rest where c: "?cs = cs' @ c # rest" "length (List.map_filter llm_request_of cs') = i" "llm_request_of c \<noteq> None"
      by blast
    have "js_at (filter isLlmRequested h) i = Some r" using i by (simp add: js_at_conv)
    then have "world_of h cs' c = Some v"
      using c(2,3) only(1) calculation 1 r(2) by (cases c) (auto simp: world_of_def index_history_def)
    with c(1) show ?thesis by blast
  next
    case 2
    obtain i where i: "i < length (filter isToolRequested h)" "filter isToolRequested h ! i = r"
      using recorded_index [of r h isToolRequested] r(1,3) request_kinds(2) [of r] 2 by blast
    have "i < length (List.map_filter tool_request ?cs)"
      using settled_requests(4) [OF set] i(1) prefix_length_le by fastforce
    from nth_call [OF this] obtain cs' c rest where c: "?cs = cs' @ c # rest" "length (List.map_filter tool_request cs') = i" "tool_request c \<noteq> None"
      by blast
    have "js_at (filter isToolRequested h) i = Some r" using i by (simp add: js_at_conv)
    then have "world_of h cs' c = Some v"
      using c(2,3) only(2) calculation 2 r(2) by (cases c) (auto simp: world_of_def index_history_def)
    with c(1) show ?thesis by blast
  qed
qed

lemma workflow_spans_replayed:
  "s \<in> set (workflow_spans wfs hash t d) \<Longrightarrow> \<exists>e \<in> set (getEvents (t_workflowId t) d). replayed_step (t_workflowId t) (event e) = Some s"
  by (auto simp: workflow_spans_def recordReplayedSteps_def List.map_filter_def Let_def split: option.splits sum.splits if_splits bool.splits)

text \<open>
  C38: A span marked as replayed is a call that was served from the log. In every state that the processes
  can reach while replays of one workflow and runs of one activity do not overlap and the code of the
  workflow stays the same, each such span of a run of the workflow handler stands for a
  completed LLM or tool step, and the replay of that run makes a call which resolves with the result that
  the step recorded.
\<close>

theorem replayed_spans_are_served:
  assumes "calm_reachable code sha d" "find_map started_of (getEvents (t_workflowId t) d) = Some (ty, inp)" "code ty = Some fn"
    and "s \<in> set (workflow_spans wfs sha t d)"
  shows "\<exists>e cs c rest v. e \<in> set (getEvents (t_workflowId t) d) \<and> replayed_step (t_workflowId t) (event e) = Some s
    \<and> pass_calls fn inp (getEvents (t_workflowId t) d) (Some sha) = cs @ c # rest
    \<and> served_outcome (event e) = Some v \<and> world_of (getEvents (t_workflowId t) d) cs c = Some v"
proof -
  let ?h = "getEvents (t_workflowId t) d"
  obtain e where e: "e \<in> set ?h" "replayed_step (t_workflowId t) (event e) = Some s"
    using workflow_spans_replayed [OF assms(4)] by blast
  obtain v where v: "served_outcome (event e) = Some v" using e(2) by (cases "event e") auto
  have inv: "sys_inv d" using calm_reachable_inv [OF assms(1)] by (simp add: calm_inv_def)
  note good = grown_good [OF calm_grown [OF assms(1-3)]]
  note served = outcome_served [OF good sys_invD(3) [OF inv] sys_invD(2) [OF inv] e(1) v]
  from e(2) obtain k n where "answers (event e) = Some k" "event_ref (event e) = Some n" "k \<in> {TLlm, TTool}"
    by (rule replayed_kinds) auto
  from served [OF this] e v show ?thesis by blast
qed

lemma demo_spans:
  "map sp_name (workflow_spans [(''lookup'', lookup_workflow)] one_hash (tt_rows (db_tasks demo5) ! 0) demo5) = [''tool_call'']"
  "t_workflowId (tt_rows (db_tasks demo5) ! 0) = ''w1''"
  by code_simp+

theorem replayed_spans_are_served_witness:
  "\<exists>cs c rest v. pass_calls lookup_workflow JNull (getEvents ''w1'' demo5) (Some one_hash) = cs @ c # rest
     \<and> world_of (getEvents ''w1'' demo5) cs c = Some v"
proof -
  obtain s where s: "s \<in> set (workflow_spans [(''lookup'', lookup_workflow)] one_hash (tt_rows (db_tasks demo5) ! 0) demo5)"
    using demo_spans(1) by (cases "workflow_spans [(''lookup'', lookup_workflow)] one_hash (tt_rows (db_tasks demo5) ! 0) demo5") auto
  have "demo_code ''lookup'' = Some lookup_workflow" by (simp add: demo_code_def)
  from replayed_spans_are_served [OF demo_calm(2) demo_started(2) [folded demo_spans(2)] this s] show ?thesis
    unfolding demo_spans(2) by blast
qed

end
