(* ===== verification/Scheduler.thy ===== *)
theory Scheduler
  imports TaskProps
begin

section \<open>Reaper, leader election and scheduler (worker-sdk/src/reaper.ts, packages/scheduler)\<close>

text \<open>
  The classes \<open>Reaper\<close>, \<open>LeaderElection\<close> and \<open>Scheduler\<close>: their fields are records, each synchronous
  stretch of a method a function, and one step relation runs a replica against any answers of the
  database: connections come up or fail, the advisory lock is granted or not, the leadership row is
  written or not, the connection is lost at any time. Timers fire in any order. Log lines are
  left out; the metrics are in \<open>Metrics\<close>.
\<close>

subsection \<open>The reaper\<close>

record reaper =
  rp_intervalMs :: rat
  rp_limit :: nat
  rp_stopped :: bool
  rp_timers :: "nat list"
  rp_timer :: "nat option"
  rp_nextTimer :: nat
  rp_ticks :: nat

definition new_Reaper :: "rat option \<Rightarrow> nat option \<Rightarrow> reaper" where
  "new_Reaper intervalMs limit = \<lparr>rp_intervalMs = or_default intervalMs 5000, rp_limit = or_default limit 100,
     rp_stopped = False, rp_timers = [], rp_timer = None, rp_nextTimer = 0, rp_ticks = 0\<rparr>"

definition scheduleNext :: "reaper \<Rightarrow> reaper" where
  "scheduleNext r = (if rp_stopped r then r
     else r\<lparr>rp_timers := rp_timers r @ [rp_nextTimer r], rp_timer := Some (rp_nextTimer r), rp_nextTimer := Suc (rp_nextTimer r)\<rparr>)"

definition reaper_start :: "reaper \<Rightarrow> reaper" where
  "reaper_start r = scheduleNext r"

definition reaper_stop :: "reaper \<Rightarrow> reaper" where
  "reaper_stop r = r\<lparr>rp_stopped := True,
     rp_timers := (case rp_timer r of None \<Rightarrow> rp_timers r | Some i \<Rightarrow> removeAll i (rp_timers r))\<rparr>"

text \<open>\<open>tick\<close>: up to its \<open>await\<close> (a timer fired) and from there on.\<close>

definition tick_begin :: "nat \<Rightarrow> reaper \<Rightarrow> reaper" where
  "tick_begin i r = r\<lparr>rp_timers := removeAll i (rp_timers r), rp_ticks := Suc (rp_ticks r)\<rparr>"

definition tick_end :: "reaper \<Rightarrow> reaper" where
  "tick_end r = scheduleNext (r\<lparr>rp_ticks := rp_ticks r - 1\<rparr>)"

subsection \<open>Leader election\<close>

text \<open>
  Connections are numbered. \<open>el_connecting\<close> are those that await \<open>connect\<close>, \<open>el_trying\<close> and
  \<open>el_recording\<close> count the calls of \<open>attemptAcquire\<close> that await the lock and the leadership row.
\<close>

record election =
  el_leaderId :: string
  el_electionPollMs :: rat
  el_reconnectDelayMs :: rat
  el_client :: "nat option"
  el_stopped :: bool
  el_leader :: bool
  el_connecting :: "nat list"
  el_nextClient :: nat
  el_trying :: nat
  el_recording :: nat
  el_pollTimers :: "nat list"
  el_pollTimer :: "nat option"
  el_reconnectTimers :: "nat list"
  el_reconnectTimer :: "nat option"
  el_nextTimer :: nat

datatype election_callback = OnAcquire | OnLose

definition new_LeaderElection :: "string \<Rightarrow> rat option \<Rightarrow> rat option \<Rightarrow> election" where
  "new_LeaderElection leaderId electionPollMs reconnectDelayMs =
     \<lparr>el_leaderId = leaderId, el_electionPollMs = or_default electionPollMs 1000,
      el_reconnectDelayMs = or_default reconnectDelayMs 500, el_client = None, el_stopped = False, el_leader = False,
      el_connecting = [], el_nextClient = 0, el_trying = 0, el_recording = 0, el_pollTimers = [], el_pollTimer = None,
      el_reconnectTimers = [], el_reconnectTimer = None, el_nextTimer = 0\<rparr>"

definition scheduleReconnect :: "election \<Rightarrow> election" where
  "scheduleReconnect e = (if el_stopped e then e
     else e\<lparr>el_reconnectTimers := el_reconnectTimers e @ [el_nextTimer e], el_reconnectTimer := Some (el_nextTimer e),
            el_nextTimer := Suc (el_nextTimer e)\<rparr>)"

text \<open>\<open>connect\<close> up to its \<open>await\<close>.\<close>

definition connect_begin :: "election \<Rightarrow> election" where
  "connect_begin e = (if el_stopped e then e
     else e\<lparr>el_connecting := el_connecting e @ [el_nextClient e], el_nextClient := Suc (el_nextClient e)\<rparr>)"

text \<open>\<open>attemptAcquire\<close> up to its first \<open>await\<close>.\<close>

definition attemptAcquire :: "election \<Rightarrow> election" where
  "attemptAcquire e = (if el_stopped e \<or> el_client e = None then e else e\<lparr>el_trying := Suc (el_trying e)\<rparr>)"

text \<open>\<open>connect\<close> from its \<open>await\<close> on: connection \<open>c\<close> came up or failed.\<close>

definition connect_end :: "nat \<Rightarrow> bool \<Rightarrow> election \<Rightarrow> election" where
  "connect_end c up e0 =
     (let e = e0\<lparr>el_connecting := removeAll c (el_connecting e0)\<rparr> in
      if \<not> up then scheduleReconnect e
      else if el_stopped e then e
      else attemptAcquire (e\<lparr>el_client := Some c\<rparr>))"

text \<open>The lock was granted, or it was not (or the query failed).\<close>

definition lock_answered :: "bool \<Rightarrow> election \<Rightarrow> election" where
  "lock_answered acquired e0 =
     (let e = e0\<lparr>el_trying := el_trying e0 - 1\<rparr> in
      if el_stopped e then e
      else if acquired then e\<lparr>el_recording := Suc (el_recording e)\<rparr>
      else e\<lparr>el_pollTimers := el_pollTimers e @ [el_nextTimer e], el_pollTimer := Some (el_nextTimer e),
             el_nextTimer := Suc (el_nextTimer e)\<rparr>)"

text \<open>The leadership row was written, or the write failed: the code goes on in the same way.\<close>

definition leadership_recorded :: "election \<Rightarrow> election \<times> election_callback list" where
  "leadership_recorded e0 =
     (let e = e0\<lparr>el_recording := el_recording e0 - 1\<rparr> in
      if el_stopped e then (e, []) else (e\<lparr>el_leader := True\<rparr>, [OnAcquire]))"

text \<open>The handler of the events \<open>error\<close> and \<open>end\<close> of connection \<open>c\<close>.\<close>

definition handleDisconnect :: "nat \<Rightarrow> election \<Rightarrow> election \<times> election_callback list" where
  "handleDisconnect c e =
     (if el_client e \<noteq> Some c then (e, [])
      else let e1 = e\<lparr>el_client := None, el_pollTimers := (case el_pollTimer e of None \<Rightarrow> el_pollTimers e
                 | Some i \<Rightarrow> removeAll i (el_pollTimers e))\<rparr> in
        if el_leader e then (scheduleReconnect (e1\<lparr>el_leader := False\<rparr>), [OnLose]) else (scheduleReconnect e1, []))"

text \<open>\<open>stop\<close>; its \<open>onLose\<close> comes after the connection has ended.\<close>

definition election_stop :: "election \<Rightarrow> election \<times> election_callback list" where
  "election_stop e =
     (e\<lparr>el_stopped := True, el_client := None, el_leader := False,
        el_pollTimers := (case el_pollTimer e of None \<Rightarrow> el_pollTimers e | Some i \<Rightarrow> removeAll i (el_pollTimers e)),
        el_reconnectTimers := (case el_reconnectTimer e of None \<Rightarrow> el_reconnectTimers e
          | Some i \<Rightarrow> removeAll i (el_reconnectTimers e))\<rparr>,
      if el_leader e then [OnLose] else [])"

subsection \<open>The scheduler\<close>

text \<open>
  \<open>sc_depthTimers\<close> and \<open>sc_refreshes\<close> belong to the refresh of the queue-depth gauge, which runs only
  with metrics; \<open>sc_losing\<close> are the calls of \<open>onLose\<close> that \<open>stop\<close> still has to make.
\<close>

record scheduler =
  sc_election :: election
  sc_reaper :: reaper
  sc_metrics :: bool
  sc_depthTimers :: "nat list"
  sc_depthTimer :: "nat option"
  sc_nextDepth :: nat
  sc_refreshes :: nat
  sc_losing :: "election_callback list"

definition new_Scheduler :: "string \<Rightarrow> rat option \<Rightarrow> rat option \<Rightarrow> rat option \<Rightarrow> nat option \<Rightarrow> bool \<Rightarrow> scheduler" where
  "new_Scheduler leaderId electionPollMs reconnectDelayMs intervalMs limit metrics =
     \<lparr>sc_election = new_LeaderElection leaderId electionPollMs reconnectDelayMs, sc_reaper = new_Reaper intervalMs limit,
      sc_metrics = metrics, sc_depthTimers = [], sc_depthTimer = None, sc_nextDepth = 0, sc_refreshes = 0, sc_losing = []\<rparr>"

definition scheduleQueueDepthRefresh :: "scheduler \<Rightarrow> scheduler" where
  "scheduleQueueDepthRefresh s = s\<lparr>sc_depthTimers := sc_depthTimers s @ [sc_nextDepth s],
     sc_depthTimer := Some (sc_nextDepth s), sc_nextDepth := Suc (sc_nextDepth s)\<rparr>"

definition sched_onAcquire :: "scheduler \<Rightarrow> scheduler" where
  "sched_onAcquire s = (let s1 = s\<lparr>sc_reaper := reaper_start (sc_reaper s)\<rparr> in
     if sc_metrics s then scheduleQueueDepthRefresh s1 else s1)"

definition sched_onLose :: "scheduler \<Rightarrow> scheduler" where
  "sched_onLose s = s\<lparr>sc_reaper := reaper_stop (sc_reaper s),
     sc_depthTimers := (case sc_depthTimer s of None \<Rightarrow> sc_depthTimers s | Some i \<Rightarrow> removeAll i (sc_depthTimers s)),
     sc_depthTimer := None\<rparr>"

fun sched_callback :: "election_callback \<Rightarrow> scheduler \<Rightarrow> scheduler" where
  "sched_callback OnAcquire s = sched_onAcquire s"
| "sched_callback OnLose s = sched_onLose s"

definition after_election :: "election \<times> election_callback list \<Rightarrow> scheduler \<Rightarrow> scheduler" where
  "after_election x s = fold sched_callback (snd x) (s\<lparr>sc_election := fst x\<rparr>)"

definition scheduler_start :: "scheduler \<Rightarrow> scheduler" where
  "scheduler_start s = s\<lparr>sc_election := connect_begin (sc_election s)\<rparr>"

text \<open>The end of \<open>refreshQueueDepth\<close>, whether or not the query failed.\<close>

definition refresh_end :: "scheduler \<Rightarrow> scheduler" where
  "refresh_end s0 = (let s = s0\<lparr>sc_refreshes := sc_refreshes s0 - 1\<rparr> in
     if el_leader (sc_election s) then scheduleQueueDepthRefresh s else s)"

definition scheduler_stop :: "scheduler \<Rightarrow> scheduler" where
  "scheduler_stop s = (case election_stop (sc_election s) of (e, cbs) \<Rightarrow>
     s\<lparr>sc_election := e, sc_losing := sc_losing s @ cbs\<rparr>)"

text \<open>A step of a replica and the queue its reaper works on.\<close>

inductive sched_step :: "scheduler \<times> task_table \<Rightarrow> scheduler \<times> task_table \<Rightarrow> bool" where
  sc_connected: "c \<in> set (el_connecting (sc_election s)) \<Longrightarrow>
     sched_step (s, q) (s\<lparr>sc_election := connect_end c ok (sc_election s)\<rparr>, q)"
| sc_locked: "0 < el_trying (sc_election s) \<Longrightarrow>
     sched_step (s, q) (s\<lparr>sc_election := lock_answered acquired (sc_election s)\<rparr>, q)"
| sc_recorded: "0 < el_recording (sc_election s) \<Longrightarrow>
     sched_step (s, q) (after_election (leadership_recorded (sc_election s)) s, q)"
| sc_disconnected: "sched_step (s, q) (after_election (handleDisconnect c (sc_election s)) s, q)"
| sc_poll: "i \<in> set (el_pollTimers (sc_election s)) \<Longrightarrow>
     sched_step (s, q) (s\<lparr>sc_election := attemptAcquire ((sc_election s)
       \<lparr>el_pollTimers := removeAll i (el_pollTimers (sc_election s))\<rparr>)\<rparr>, q)"
| sc_reconnect: "i \<in> set (el_reconnectTimers (sc_election s)) \<Longrightarrow>
     sched_step (s, q) (s\<lparr>sc_election := connect_begin ((sc_election s)
       \<lparr>el_reconnectTimers := removeAll i (el_reconnectTimers (sc_election s))\<rparr>)\<rparr>, q)"
| sc_tick: "i \<in> set (rp_timers (sc_reaper s)) \<Longrightarrow>
     sched_step (s, q) (s\<lparr>sc_reaper := tick_begin i (sc_reaper s)\<rparr>, q)"
| sc_reclaim: "0 < rp_ticks (sc_reaper s) \<Longrightarrow> reclaimExpired now locked (rp_limit (sc_reaper s)) q = (q', ids) \<Longrightarrow>
     sched_step (s, q) (s\<lparr>sc_reaper := tick_end (sc_reaper s)\<rparr>, q')"
| sc_reclaim_failed: "0 < rp_ticks (sc_reaper s) \<Longrightarrow>
     sched_step (s, q) (s\<lparr>sc_reaper := tick_end (sc_reaper s)\<rparr>, q)"
| sc_refresh: "i \<in> set (sc_depthTimers s) \<Longrightarrow>
     sched_step (s, q) (s\<lparr>sc_depthTimers := removeAll i (sc_depthTimers s), sc_refreshes := Suc (sc_refreshes s)\<rparr>, q)"
| sc_refreshed: "0 < sc_refreshes s \<Longrightarrow> sched_step (s, q) (refresh_end s, q)"
| sc_stop: "sched_step (s, q) (scheduler_stop s, q)"
| sc_ended: "sc_losing s = cb # cbs \<Longrightarrow> sched_step (s, q) (sched_callback cb (s\<lparr>sc_losing := cbs\<rparr>), q)"
| sc_others: "worker_step q q' \<Longrightarrow> sched_step (s, q) (s, q')"

end
