(* ===== verification/SchedulerProps.thy ===== *)
theory SchedulerProps
  imports Scheduler
begin

section \<open>What the scheduler guarantees\<close>

text \<open>
  A running replica always has something under way that leads on to leadership, and a lost connection
  ends its leadership at once; but a replica can become leader of a connection it has lost, and one
  that stepped down never reaps again.
\<close>

subsection \<open>Progress\<close>

definition sc_live :: "scheduler \<Rightarrow> bool" where
  "sc_live s \<longleftrightarrow> (let e = sc_election s in \<not> el_stopped e \<longrightarrow>
     (case el_client e of
        None \<Rightarrow> el_connecting e \<noteq> [] \<or> el_reconnectTimers e \<noteq> []
      | Some c \<Rightarrow> 0 < el_trying e \<or> 0 < el_recording e \<or> el_pollTimers e \<noteq> [] \<or> el_leader e))"

lemma callbacks_election [simp]:
  "sc_election (sched_callback cb s) = sc_election s" "sc_election (fold sched_callback cbs s) = sc_election s"
proof -
  show one: "sc_election (sched_callback cb s) = sc_election s" for cb s
    by (cases cb) (simp_all add: sched_onAcquire_def sched_onLose_def scheduleQueueDepthRefresh_def Let_def)
  show "sc_election (fold sched_callback cbs s) = sc_election s"
    by (induction cbs arbitrary: s) (simp_all add: one)
qed

lemma after_election_fst [simp]: "sc_election (after_election x s) = fst x"
  by (simp add: after_election_def)

lemmas election_defs = scheduleReconnect_def connect_begin_def attemptAcquire_def connect_end_def lock_answered_def
  leadership_recorded_def handleDisconnect_def election_stop_def Let_def

lemma refresh_election [simp]: "sc_election (refresh_end s) = sc_election s" "sc_reaper (refresh_end s) = sc_reaper s"
  by (simp_all add: refresh_end_def scheduleQueueDepthRefresh_def Let_def)

lemma sched_step_live: "sched_step x x' \<Longrightarrow> sc_live (fst x) \<Longrightarrow> sc_live (fst x')"
proof (induction rule: sched_step.induct)
  case (sc_stop s q)
  then show ?case by (simp add: sc_live_def scheduler_stop_def election_stop_def)
qed (auto simp: sc_live_def election_defs split: option.splits if_splits)

lemma sched_steps_live: "sched_step\<^sup>*\<^sup>* x x' \<Longrightarrow> sc_live (fst x) \<Longrightarrow> sc_live (fst x')"
  by (induction rule: rtranclp_induct) (auto dest: sched_step_live)

text \<open>
  C34: A replica never stops trying. Whatever connections fail or drop, whatever the lock answers and in
  whatever order timers fire, a started replica that was not stopped has, without a connection, a
  connection attempt under way or scheduled, and, with one, a request for the lock or for the
  leadership row under way, the next poll scheduled, or the leadership. A leader told of the loss of its
  connection is leader no more, its reaper is stopped, and a reconnect is scheduled.
\<close>

theorem election_always_progresses:
  assumes "sched_step\<^sup>*\<^sup>* (scheduler_start (new_Scheduler leaderId poll delay interval limit metrics), q0) (s, q)"
    and "\<not> el_stopped (sc_election s)" "e = sc_election s"
  shows "(case el_client e of
        None \<Rightarrow> el_connecting e \<noteq> [] \<or> el_reconnectTimers e \<noteq> []
      | Some c \<Rightarrow> 0 < el_trying e \<or> 0 < el_recording e \<or> el_pollTimers e \<noteq> []
          \<or> el_leader e \<and> (let s' = after_election (handleDisconnect c e) s in
              \<not> el_leader (sc_election s') \<and> rp_stopped (sc_reaper s') \<and> el_reconnectTimers (sc_election s') \<noteq> []))"
proof -
  have "sc_live (scheduler_start (new_Scheduler leaderId poll delay interval limit metrics))"
    by (simp add: sc_live_def scheduler_start_def new_Scheduler_def new_LeaderElection_def connect_begin_def)
  with sched_steps_live [OF assms(1)] have live: "sc_live s" by simp
  have "el_client e = Some c \<Longrightarrow> el_leader e \<Longrightarrow> handleDisconnect c e
      = (scheduleReconnect (e\<lparr>el_client := None, el_pollTimers := (case el_pollTimer e of None \<Rightarrow> el_pollTimers e
                 | Some i \<Rightarrow> removeAll i (el_pollTimers e)), el_leader := False\<rparr>), [OnLose])" for c
    by (simp add: handleDisconnect_def)
  then have "el_client e = Some c \<Longrightarrow> el_leader e \<Longrightarrow> (let s' = after_election (handleDisconnect c e) s in
      \<not> el_leader (sc_election s') \<and> rp_stopped (sc_reaper s') \<and> el_reconnectTimers (sc_election s') \<noteq> [])" for c
    using assms(2,3) by (simp add: scheduleReconnect_def after_election_def sched_onLose_def reaper_stop_def Let_def)
  then show ?thesis using live assms(2,3) by (auto simp: sc_live_def Let_def split: option.splits)
qed

subsection \<open>Concrete replicas\<close>

definition fresh_scheduler :: scheduler where
  "fresh_scheduler = scheduler_start (new_Scheduler ''a'' None None None None False)"

definition up_scheduler :: scheduler where
  "up_scheduler = fresh_scheduler\<lparr>sc_election := connect_end 0 True (sc_election fresh_scheduler)\<rparr>"

definition locked_scheduler :: scheduler where
  "locked_scheduler = up_scheduler\<lparr>sc_election := lock_answered True (sc_election up_scheduler)\<rparr>"

definition leading_scheduler :: scheduler where
  "leading_scheduler = after_election (leadership_recorded (sc_election locked_scheduler)) locked_scheduler"

lemmas sched_eval = fresh_scheduler_def up_scheduler_def locked_scheduler_def leading_scheduler_def scheduler_start_def
  new_Scheduler_def new_LeaderElection_def new_Reaper_def after_election_def election_defs sched_onAcquire_def
  sched_onLose_def reaper_start_def reaper_stop_def scheduleNext_def

lemma leading_run: "sched_step\<^sup>*\<^sup>* (fresh_scheduler, q) (locked_scheduler, q)" "sched_step (locked_scheduler, q) (leading_scheduler, q)"
proof -
  have "sched_step (fresh_scheduler, q) (up_scheduler, q)"
    unfolding up_scheduler_def by (rule sc_connected) (simp add: sched_eval)
  moreover have "sched_step (up_scheduler, q) (locked_scheduler, q)"
    unfolding locked_scheduler_def by (rule sc_locked) (simp add: sched_eval)
  ultimately show "sched_step\<^sup>*\<^sup>* (fresh_scheduler, q) (locked_scheduler, q)" by (meson converse_rtranclp_into_rtranclp r_into_rtranclp)
  show "sched_step (locked_scheduler, q) (leading_scheduler, q)"
    unfolding leading_scheduler_def by (rule sc_recorded) (simp add: sched_eval)
qed

lemma leading_facts: "el_leader (sc_election leading_scheduler)" "el_client (sc_election leading_scheduler) = Some 0"
  "rp_timers (sc_reaper leading_scheduler) = [0]" "rp_timer (sc_reaper leading_scheduler) = Some 0"
  "rp_ticks (sc_reaper leading_scheduler) = 0" "\<not> el_stopped (sc_election leading_scheduler)"
  "el_trying (sc_election leading_scheduler) = 0" "el_recording (sc_election leading_scheduler) = 0"
  "el_pollTimers (sc_election leading_scheduler) = []"
  by (simp_all add: sched_eval)

theorem election_always_progresses_witness:
  "\<not> el_leader (sc_election (after_election (handleDisconnect 0 (sc_election leading_scheduler)) leading_scheduler))"
proof -
  have "sched_step\<^sup>*\<^sup>* (scheduler_start (new_Scheduler ''a'' None None None None False), empty_table) (leading_scheduler, empty_table)"
    using leading_run [of empty_table] by (simp add: fresh_scheduler_def)
  from election_always_progresses [OF this leading_facts(6) refl] leading_facts show ?thesis by (simp add: Let_def)
qed

subsection \<open>Stepping down\<close>

text \<open>
  A stopped reaper whose timers are among \<open>T\<close> and that has at most \<open>m\<close> sweeps left, under way or set.
\<close>

definition reaper_over :: "nat set \<Rightarrow> nat \<Rightarrow> reaper \<Rightarrow> bool" where
  "reaper_over T m r \<longleftrightarrow> rp_stopped r \<and> set (rp_timers r) \<subseteq> T \<and> rp_ticks r + length (rp_timers r) \<le> m"

lemma reaper_over_start: "reaper_over T m r \<Longrightarrow> reaper_start r = r"
  by (simp add: reaper_over_def reaper_start_def scheduleNext_def)

lemma reaper_over_stop:
  assumes "reaper_over T m r"
  shows "reaper_over T m (reaper_stop r)"
proof (cases "rp_timer r")
  case (Some i)
  with assms show ?thesis
    by (auto simp: reaper_over_def reaper_stop_def intro: order_trans [OF add_left_mono [OF length_removeAll_less_eq]])
qed (use assms in \<open>simp add: reaper_over_def reaper_stop_def\<close>)

lemma reaper_over_tick:
  assumes "reaper_over T m r" "i \<in> set (rp_timers r)"
  shows "reaper_over T m (tick_begin i r)"
proof -
  have "length (removeAll i (rp_timers r)) < length (rp_timers r)" by (rule length_removeAll_less [OF assms(2)])
  with assms(1) show ?thesis by (auto simp: reaper_over_def tick_begin_def)
qed

lemma reaper_over_end: "reaper_over T m r \<Longrightarrow> reaper_over T m (tick_end r)"
  by (auto simp: reaper_over_def tick_end_def scheduleNext_def)

lemma reaper_over_callback: "reaper_over T m (sc_reaper s) \<Longrightarrow> reaper_over T m (sc_reaper (sched_callback cb s))"
  by (cases cb) (simp_all add: sched_onAcquire_def sched_onLose_def scheduleQueueDepthRefresh_def Let_def reaper_over_start reaper_over_stop)

lemma reaper_over_callbacks: "reaper_over T m (sc_reaper s) \<Longrightarrow> reaper_over T m (sc_reaper (fold sched_callback cbs s))"
  by (induction cbs arbitrary: s) (simp_all add: reaper_over_callback)

lemma sched_step_over: "sched_step x x' \<Longrightarrow> reaper_over T m (sc_reaper (fst x)) \<Longrightarrow> reaper_over T m (sc_reaper (fst x'))"
proof (induction rule: sched_step.induct)
  case (sc_stop s q)
  then show ?case by (simp add: scheduler_stop_def case_prod_unfold)
qed (simp_all add: after_election_def reaper_over_callbacks reaper_over_callback reaper_over_tick reaper_over_end)

lemma sched_steps_over: "sched_step\<^sup>*\<^sup>* x x' \<Longrightarrow> reaper_over T m (sc_reaper (fst x)) \<Longrightarrow> reaper_over T m (sc_reaper (fst x'))"
  by (induction rule: rtranclp_induct) (auto dest: sched_step_over)

text \<open>
  C35: A replica that stepped down never starts to reap again. Take a replica in any state, with sweeps
  under way and timers set or not, and let it step down (\<open>onLose\<close>: its connection was lost, or \<open>stop\<close>).
  Whatever happens afterwards, also when the replica gets the lock back and is leader again, its reaper
  stays stopped and never sets a timer: the timers that still wait were set before and are not the one
  that \<open>stop\<close> cleared, and there are never more sweeps left than were under way or set at that moment.
  So once those have run, expired leases stay leased while this replica leads.
\<close>

theorem reaper_never_restarts:
  assumes "sched_step\<^sup>*\<^sup>* (sched_onLose s, q) (s', q')"
  shows "rp_stopped (sc_reaper s')
    \<and> set (rp_timers (sc_reaper s')) \<subseteq> set (rp_timers (sc_reaper s)) - set_option (rp_timer (sc_reaper s))
    \<and> rp_ticks (sc_reaper s') + length (rp_timers (sc_reaper s'))
        \<le> rp_ticks (sc_reaper s) + length (rp_timers (sc_reaper (sched_onLose s)))"
proof -
  have "reaper_over (set (rp_timers (sc_reaper s)) - set_option (rp_timer (sc_reaper s)))
      (rp_ticks (sc_reaper s) + length (rp_timers (sc_reaper (sched_onLose s)))) (sc_reaper (sched_onLose s))"
    by (auto simp: reaper_over_def sched_onLose_def reaper_stop_def split: option.splits)
  from sched_steps_over [OF assms, unfolded fst_conv, OF this] show ?thesis unfolding reaper_over_def .
qed

definition stepped_down :: scheduler where
  "stepped_down = after_election (handleDisconnect 0 (sc_election leading_scheduler)) leading_scheduler"

definition reconnecting :: scheduler where
  "reconnecting = stepped_down\<lparr>sc_election := connect_begin ((sc_election stepped_down)\<lparr>el_reconnectTimers := []\<rparr>)\<rparr>"

definition up_again :: scheduler where
  "up_again = reconnecting\<lparr>sc_election := connect_end 1 True (sc_election reconnecting)\<rparr>"

definition locked_again :: scheduler where
  "locked_again = up_again\<lparr>sc_election := lock_answered True (sc_election up_again)\<rparr>"

definition leading_again :: scheduler where
  "leading_again = after_election (leadership_recorded (sc_election locked_again)) locked_again"

lemmas again_eval = stepped_down_def reconnecting_def up_again_def locked_again_def leading_again_def sched_eval

lemma leading_again_run: "sched_step\<^sup>*\<^sup>* (stepped_down, q) (leading_again, q)"
proof -
  have "sched_step (stepped_down, q) (reconnecting, q)"
    using sc_reconnect [of 0 stepped_down q] by (simp add: reconnecting_def) (simp add: again_eval)
  moreover have "sched_step (reconnecting, q) (up_again, q)"
    unfolding up_again_def by (rule sc_connected) (simp add: again_eval)
  moreover have "sched_step (up_again, q) (locked_again, q)"
    unfolding locked_again_def by (rule sc_locked) (simp add: again_eval)
  moreover have "sched_step (locked_again, q) (leading_again, q)"
    unfolding leading_again_def by (rule sc_recorded) (simp add: again_eval)
  ultimately show ?thesis by (meson converse_rtranclp_into_rtranclp r_into_rtranclp)
qed

theorem reaper_never_restarts_witness:
  "el_leader (sc_election leading_again) \<and> rp_stopped (sc_reaper leading_again)
   \<and> rp_timers (sc_reaper leading_again) = [] \<and> rp_ticks (sc_reaper leading_again) = 0"
proof -
  let ?s = "leading_scheduler\<lparr>sc_election := fst (handleDisconnect 0 (sc_election leading_scheduler))\<rparr>"
  have "el_leader (sc_election leading_again)" by (simp add: again_eval)
  moreover have "stepped_down = sched_onLose ?s"
    by (simp add: stepped_down_def after_election_def) (simp add: handleDisconnect_def leading_facts(1,2) Let_def)
  moreover have "length (rp_timers (sc_reaper (sched_onLose ?s))) = 0"
    using leading_facts(3,4) by (simp add: sched_onLose_def reaper_stop_def)
  ultimately show ?thesis
    using reaper_never_restarts [of ?s empty_table leading_again empty_table] leading_again_run [of empty_table] leading_facts(3,4,5)
    by simp
qed

text \<open>
  Leadership can outlive the connection that holds the lock. A replica that loses its connection
  while the leadership row is being written is not yet leader, so nothing steps it down; when the write
  then fails, the error is ignored and the replica makes itself leader and starts its reaper, without a
  connection and without the lock, which another replica may hold.
\<close>

theorem leader_without_connection:
  "\<exists>s. sched_step\<^sup>*\<^sup>* (scheduler_start (new_Scheduler ''a'' None None None None False), q) (s, q)
     \<and> el_leader (sc_election s) \<and> el_client (sc_election s) = None \<and> el_recording (sc_election s) = 0
     \<and> rp_timers (sc_reaper s) \<noteq> [] \<and> \<not> rp_stopped (sc_reaper s)"
proof -
  let ?d = "after_election (handleDisconnect 0 (sc_election locked_scheduler)) locked_scheduler"
  let ?s = "after_election (leadership_recorded (sc_election ?d)) ?d"
  have "sched_step (locked_scheduler, q) (?d, q)" by (rule sc_disconnected)
  moreover have "sched_step (?d, q) (?s, q)" by (rule sc_recorded) (simp add: sched_eval)
  ultimately have "sched_step\<^sup>*\<^sup>* (fresh_scheduler, q) (?s, q)"
    using leading_run(1) [of q] by (meson rtranclp.rtrancl_into_rtrancl)
  then show ?thesis unfolding fresh_scheduler_def by (intro exI [of _ ?s]) (simp add: sched_eval)
qed

end
