(* ===== verification/Metrics.thy ===== *)
theory Metrics
  imports WorkerProps SchedulerProps
begin

section \<open>Metrics (packages/observability/src/metrics.ts and its call sites)\<close>

text \<open>
  \<open>createTaskMetrics\<close> and the calls that worker.ts, reaper.ts and scheduler.ts make on the metrics. The
  counters, the histogram and the gauge are those of prom-client: the model keeps the sequence of calls
  made on them, next to the state of the process that makes them. The two warnings of a worker whose
  lease was lost stand in the same sequence.
\<close>

subsection \<open>The definitions\<close>

datatype metric_kind = Counter | Histogram "rat list" | Gauge

record metric_def =
  md_kind :: metric_kind
  md_name :: string
  md_help :: string
  md_labels :: "string list"

definition em_dash :: string where
  "em_dash = [CHR 0xE2, CHR 0x80, CHR 0x94]"

definition createTaskMetrics :: "metric_def list" where
  "createTaskMetrics =
     [\<lparr>md_kind = Counter, md_name = ''karyakram_tasks_dequeued_total'',
        md_help = ''Tasks leased by dequeue(), by task type'', md_labels = [''task_type'']\<rparr>,
      \<lparr>md_kind = Counter, md_name = ''karyakram_tasks_completed_total'',
        md_help = ''Tasks that finished successfully, by task type'', md_labels = [''task_type'']\<rparr>,
      \<lparr>md_kind = Counter, md_name = ''karyakram_tasks_failed_total'',
        md_help = ''Tasks whose handler threw, by task type'', md_labels = [''task_type'']\<rparr>,
      \<lparr>md_kind = Counter, md_name = ''karyakram_tasks_reclaimed_total'',
        md_help = ''Expired leases put back to pending by the reaper'', md_labels = []\<rparr>,
      \<lparr>md_kind = Histogram [5/1000, 1/100, 25/1000, 5/100, 1/10, 1/4, 1/2, 1, 5/2, 5, 10],
        md_name = ''karyakram_task_wait_seconds'',
        md_help = ''Time between a task being created and a worker leasing it '' @ em_dash @ '' the metric LISTEN/NOTIFY exists to shrink'',
        md_labels = [''task_type'']\<rparr>,
      \<lparr>md_kind = Gauge, md_name = ''karyakram_queue_depth'',
        md_help = ''Current task count by status '' @ em_dash @ '' published only by the current leader, see docs/06-scheduler.md'',
        md_labels = [''status'']\<rparr>]"

text \<open>The answer of \<open>MetricsServer\<close>: \<open>metrics\<close> is the text of the registry, or what it throws.\<close>

definition metrics_response :: "string \<Rightarrow> string + string \<Rightarrow> nat \<times> string" where
  "metrics_response url metrics = (if url = ''/metrics''
     then (case metrics of Inr body \<Rightarrow> (200, body) | Inl err \<Rightarrow> (500, err)) else (404, ''''))"

text \<open>A registry takes one metric of a name; the bounds of a histogram are increasing.\<close>

lemma metric_definitions:
  "distinct (map md_name createTaskMetrics)"
  "\<forall>m \<in> set createTaskMetrics. case md_kind m of Histogram bs \<Rightarrow> sorted bs \<and> distinct bs | _ \<Rightarrow> True"
  by (simp_all add: createTaskMetrics_def)

datatype metric_call =
    IncDequeued task_type
  | ObserveWait task_type rat
  | IncCompleted task_type
  | IncFailed task_type
  | LeaseWarning task_type
  | IncReclaimed nat
  | SetDepth task_status nat

subsection \<open>The worker\<close>

text \<open>\<open>pollOnce\<close>, for each task it dispatches.\<close>

definition dequeued_calls :: "time \<Rightarrow> task list \<Rightarrow> metric_call list" where
  "dequeued_calls now tasks = concat (map (\<lambda>t. [IncDequeued (t_taskType t), ObserveWait (t_taskType t) ((now - t_createdAt t) / 1000)]) tasks)"

text \<open>\<open>dispatch\<close>, once \<open>complete\<close> or \<open>fail\<close> has answered.\<close>

definition settled_calls :: "task \<Rightarrow> js_error + unit \<Rightarrow> js_error + bool \<Rightarrow> metric_call list" where
  "settled_calls t result applied = (case applied of
     Inl _ \<Rightarrow> []
   | Inr True \<Rightarrow> (case result of Inr _ \<Rightarrow> [IncCompleted (t_taskType t)] | Inl _ \<Rightarrow> [IncFailed (t_taskType t)])
   | Inr False \<Rightarrow> [LeaseWarning (t_taskType t)])"

text \<open>
  A worker with metrics: the steps of \<open>wk_step\<close> with the calls they make. Steps other than the answer to a
  poll and the end of a run make none (those two are the ones that change \<open>wk_runs\<close>).
\<close>

type_synonym observed = "(worker \<times> task_table) \<times> metric_call list"

inductive observed_step :: "observed \<Rightarrow> observed \<Rightarrow> bool" where
  observed_dequeued: "wk_polls w = ps @ capacity # ps' \<Longrightarrow> dequeue now locked (poll_input capacity w) q = (q', tasks) \<Longrightarrow>
     observed_step ((w, q), calls) ((poll_end tasks (w\<lparr>wk_polls := ps @ ps'\<rparr>), q'), calls @ dequeued_calls now' tasks)"
| observed_run_ends: "t \<in> set (wk_runs w) \<Longrightarrow> run_settles now random w t result q = (q', applied) \<Longrightarrow>
     observed_step ((w, q), calls) ((run_ends t w, q'), calls @ settled_calls t result applied)"
| observed_other: "wk_step x x' \<Longrightarrow> wk_runs (fst x') = wk_runs (fst x) \<Longrightarrow> observed_step (x, calls) (x', calls)"

lemma observed_plain: "observed_step (x, calls) (x', calls') \<Longrightarrow> wk_step x x'"
  by (erule observed_step.cases) (auto intro: wk_step.intros)

lemma plain_observed: "wk_step x x' \<Longrightarrow> \<exists>calls'. observed_step (x, calls) (x', calls')"
proof (induction rule: wk_step.induct)
  case (wk_dequeued w ps capacity ps' now locked q q' tasks)
  from observed_dequeued [OF this] show ?case by blast
next
  case (wk_run_ends t w now random result q q' applied)
  from observed_run_ends [OF this] show ?case by blast
next
  case (wk_timer i delay w q)
  show ?case by (rule exI, rule observed_other [OF wk_step.wk_timer [OF wk_timer]]) (simp add: poll_begin_def)
next
  case (wk_dequeue_failed w ps capacity ps' q)
  show ?case by (rule exI, rule observed_other [OF wk_step.wk_dequeue_failed [OF wk_dequeue_failed]]) (simp add: poll_end_def)
next
  case (wk_notified w q)
  show ?case by (rule exI, rule observed_other [OF wk_step.wk_notified [OF wk_notified, of q]]) (auto simp: on_tasks_available_def clear_poll_timer_def split: option.splits)
next
  case (wk_stop w q)
  show ?case by (rule exI, rule observed_other [OF wk_step.wk_stop [of w q]]) (auto simp: worker_stop_def clear_poll_timer_def split: option.splits if_splits)
next
  case (wk_drain w q)
  show ?case by (rule exI, rule observed_other [OF wk_step.wk_drain [OF wk_drain, of q]]) (auto simp: worker_drain_def)
next
  case (wk_listen w q)
  from observed_other [OF wk_step.wk_listen [OF wk_listen, of q]] show ?case by auto
next
  case (wk_heartbeat w q now)
  from observed_other [OF wk_step.wk_heartbeat [OF wk_heartbeat, of q now]] show ?case by auto
next
  case (wk_others q q' w)
  from observed_other [OF wk_step.wk_others [OF wk_others, of w]] show ?case by auto
qed

text \<open>Metrics change nothing: a worker with them does what one without them does, and the other way round.\<close>

lemma metrics_do_not_interfere:
  "(\<exists>calls'. observed_step\<^sup>*\<^sup>* (x, calls) (x', calls')) \<longleftrightarrow> wk_step\<^sup>*\<^sup>* x x'"
proof
  assume "\<exists>calls'. observed_step\<^sup>*\<^sup>* (x, calls) (x', calls')"
  then obtain calls' where "observed_step\<^sup>*\<^sup>* (x, calls) (x', calls')" by blast
  then show "wk_step\<^sup>*\<^sup>* x x'"
    by (induction "(x', calls')" arbitrary: x' calls' rule: rtranclp_induct) (auto intro: rtranclp.rtrancl_into_rtrancl observed_plain)
next
  assume "wk_step\<^sup>*\<^sup>* x x'"
  then show "\<exists>calls'. observed_step\<^sup>*\<^sup>* (x, calls) (x', calls')"
  proof (induction rule: rtranclp_induct)
    case (step y z)
    then obtain cs where "observed_step\<^sup>*\<^sup>* (x, calls) (y, cs)" by blast
    moreover obtain cs' where "observed_step (y, cs) (z, cs')" using plain_observed [OF step(2)] by blast
    ultimately show ?case by (meson rtranclp.rtrancl_into_rtrancl)
  qed blast
qed

subsection \<open>The counters add up\<close>

definition made :: "metric_call \<Rightarrow> metric_call list \<Rightarrow> nat" where
  "made c calls = length (filter (\<lambda>c'. c' = c) calls)"

lemma made_append [simp]: "made c (xs @ ys) = made c xs + made c ys"
  by (simp add: made_def)

definition in_progress :: "task_type \<Rightarrow> worker \<Rightarrow> nat" where
  "in_progress ty w = length (filter (\<lambda>t. t_taskType t = ty) (wk_runs w))"

lemma dequeued_made:
  "made (IncDequeued ty) (dequeued_calls now ts) = length (filter (\<lambda>t. t_taskType t = ty) ts)"
  "made (IncCompleted ty) (dequeued_calls now ts) = 0" "made (IncFailed ty) (dequeued_calls now ts) = 0"
  "made (LeaseWarning ty) (dequeued_calls now ts) = 0"
  by (induction ts) (simp_all add: dequeued_calls_def made_def)

lemma settled_made:
  assumes "applied = Inr b"
  shows "made (IncDequeued ty) (settled_calls t result applied) = 0"
    "made (IncCompleted ty) (settled_calls t result applied) + made (IncFailed ty) (settled_calls t result applied)
       + made (LeaseWarning ty) (settled_calls t result applied) = (if t_taskType t = ty then 1 else 0)"
  using assms by (cases b; cases result; simp add: settled_calls_def made_def)+

lemma filter_remove1_length:
  "x \<in> set xs \<Longrightarrow> length (filter P xs) = length (filter P (remove1 x xs)) + (if P x then 1 else 0)"
  by (induction xs) auto

lemma in_progress_steps:
  "in_progress ty (poll_end ts w) = in_progress ty w + length (filter (\<lambda>t. t_taskType t = ty) ts)"
  "t \<in> set (wk_runs w) \<Longrightarrow> in_progress ty w = in_progress ty (run_ends t w) + (if t_taskType t = ty then 1 else 0)"
proof -
  show "in_progress ty (poll_end ts w) = in_progress ty w + length (filter (\<lambda>t. t_taskType t = ty) ts)"
    by (simp add: in_progress_def poll_end_def Let_def dispatch_all)
  show "t \<in> set (wk_runs w) \<Longrightarrow> in_progress ty w = in_progress ty (run_ends t w) + (if t_taskType t = ty then 1 else 0)"
    using filter_remove1_length [of t "wk_runs w" "\<lambda>t. t_taskType t = ty"] by (simp add: in_progress_def run_ends_def)
qed

lemma dequeued_attempts:
  assumes "dequeue now locked input q = (q', ts)" "t \<in> set ts"
  shows "1 \<le> t_attempt t"
  using assms by (auto simp: dequeue_def lease_task_def Let_def split: if_splits)

lemma settles_answered:
  assumes "1 \<le> t_attempt t" "run_settles now random w t result q = (q', applied)"
  shows "\<exists>b. applied = Inr b"
  using assms by (auto simp: run_settles_def fail_def computeRetryDelayWithFloorSeconds_def computeRetryDelaySeconds_def
    Let_def split: sum.splits prod.splits if_splits)

definition balanced :: "observed \<Rightarrow> bool" where
  "balanced x \<longleftrightarrow> (\<forall>t \<in> set (wk_runs (fst (fst x))). 1 \<le> t_attempt t) \<and> (\<forall>ty. made (IncDequeued ty) (snd x)
     = made (IncCompleted ty) (snd x) + made (IncFailed ty) (snd x) + made (LeaseWarning ty) (snd x) + in_progress ty (fst (fst x)))"

lemma observed_step_balanced: "observed_step x x' \<Longrightarrow> balanced x \<Longrightarrow> balanced x'"
proof (induction rule: observed_step.induct)
  case (observed_dequeued w ps capacity ps' now locked q q' tasks calls now')
  have "wk_runs (poll_end tasks (w\<lparr>wk_polls := ps @ ps'\<rparr>)) = wk_runs w @ tasks" by (simp add: poll_end_def Let_def dispatch_all)
  with observed_dequeued dequeued_attempts [OF observed_dequeued(2)] show ?case
    by (auto simp: balanced_def dequeued_made in_progress_steps(1)) (simp add: in_progress_def)
next
  case (observed_run_ends t w now random result q q' applied calls)
  have "1 \<le> t_attempt t" using observed_run_ends(1,3) by (simp add: balanced_def)
  then obtain b where b: "applied = Inr b" using settles_answered observed_run_ends(2) by blast
  have "set (wk_runs (run_ends t w)) \<subseteq> set (wk_runs w)" by (simp add: run_ends_def set_remove1_subset)
  with observed_run_ends(3) have "\<forall>t \<in> set (wk_runs (run_ends t w)). 1 \<le> t_attempt t" by (auto simp: balanced_def)
  moreover have "made (IncDequeued ty) (calls @ settled_calls t result applied) = made (IncCompleted ty) (calls @ settled_calls t result applied)
      + made (IncFailed ty) (calls @ settled_calls t result applied) + made (LeaseWarning ty) (calls @ settled_calls t result applied)
      + in_progress ty (run_ends t w)" for ty
    using observed_run_ends(3) settled_made [OF b, of ty t result] in_progress_steps(2) [OF observed_run_ends(1), of ty]
    by (simp add: balanced_def)
  ultimately show ?case by (simp add: balanced_def)
next
  case (observed_other x x' calls)
  then show ?case by (simp add: balanced_def in_progress_def)
qed

lemma observed_balanced: "observed_step\<^sup>*\<^sup>* x x' \<Longrightarrow> balanced x \<Longrightarrow> balanced x'"
  by (induction rule: rtranclp_induct) (auto intro: observed_step_balanced)

text \<open>
  C39: The counters of a worker add up. Whatever the worker and all other processes do, the tasks of a type
  it has counted as dequeued are those it has counted as completed, those it has counted as failed, those
  whose lease it warned to have lost before their end was recorded, and those whose handlers still run.
\<close>

theorem counters_add_up:
  assumes "observed_step\<^sup>*\<^sup>* ((w0, q0), []) ((w, q), calls)" "wk_runs w0 = []"
  shows "made (IncDequeued ty) calls
    = made (IncCompleted ty) calls + made (IncFailed ty) calls + made (LeaseWarning ty) calls + in_progress ty w"
proof -
  have "balanced ((w0, q0), [])" using assms(2) by (simp add: balanced_def made_def in_progress_def)
  from observed_balanced [OF assms(1) this] show ?thesis by (simp add: balanced_def)
qed

text \<open>A worker that takes one task and completes it.\<close>

definition taken :: "task list" where
  "taken = snd (dequeue 5 [] (poll_input 1 polling_worker) one_task)"

definition taken_table :: task_table where
  "taken_table = fst (dequeue 5 [] (poll_input 1 polling_worker) one_task)"

definition settled_table :: "task_table \<times> (js_error + bool)" where
  "settled_table = run_settles 9 0 working_worker (hd taken) (Inr ()) taken_table"

lemma taken_one: "taken = [hd taken]" "t_taskType (hd taken) = TWorkflow" "hd taken \<in> set (wk_runs working_worker)"
  "snd settled_table = Inr True" "in_progress TWorkflow (run_ends (hd taken) working_worker) = 0"
  by code_simp+

lemma observed_demo:
  "observed_step\<^sup>*\<^sup>* ((worker_start plain_worker, one_task), [])
     ((run_ends (hd taken) working_worker, fst settled_table), dequeued_calls 7 taken @ settled_calls (hd taken) (Inr ()) (Inr True))"
proof -
  have "observed_step ((worker_start plain_worker, one_task), []) ((polling_worker, one_task), [])"
    by (rule observed_other [OF polling_step])
      (simp add: polling_worker_def worker_start_def scheduleNextPoll_def plain_worker_def poll_begin_def plain_config_def)
  moreover have "observed_step ((polling_worker, one_task), []) ((working_worker, taken_table), dequeued_calls 7 taken)"
    using observed_dequeued [of polling_worker "[]" 1 "[]" 5 "[]" one_task taken_table taken "[]" 7]
    by (simp add: working_worker_def polling_polls taken_def taken_table_def)
  moreover have "observed_step ((working_worker, taken_table), dequeued_calls 7 taken)
      ((run_ends (hd taken) working_worker, fst settled_table), dequeued_calls 7 taken @ settled_calls (hd taken) (Inr ()) (Inr True))"
    by (rule observed_run_ends [OF taken_one(3), where now = 9 and random = 0])
      (simp add: settled_table_def [symmetric] prod_eq_iff taken_one(4))
  ultimately show ?thesis by (meson r_into_rtranclp rtranclp.rtrancl_into_rtrancl)
qed

theorem counters_add_up_witness:
  "made (IncDequeued TWorkflow) (dequeued_calls 7 taken @ settled_calls (hd taken) (Inr ()) (Inr True))
    = made (IncCompleted TWorkflow) (dequeued_calls 7 taken @ settled_calls (hd taken) (Inr ()) (Inr True))
      + made (IncFailed TWorkflow) (dequeued_calls 7 taken @ settled_calls (hd taken) (Inr ()) (Inr True))
      + made (LeaseWarning TWorkflow) (dequeued_calls 7 taken @ settled_calls (hd taken) (Inr ()) (Inr True))"
proof -
  have "wk_runs (worker_start plain_worker) = []" by (simp add: worker_start_def scheduleNextPoll_def plain_worker_def)
  from counters_add_up [OF observed_demo this, of TWorkflow] taken_one(5) show ?thesis by simp
qed

subsection \<open>The reaper and the depth of the queue\<close>

text \<open>The end of \<open>tick\<close>: the ids it reclaimed.\<close>

definition reclaimed_calls :: "nat list \<Rightarrow> metric_call list" where
  "reclaimed_calls ids = (if ids = [] then [] else [IncReclaimed (length ids)])"

text \<open>\<open>refreshQueueDepth\<close>, for each status of \<open>getQueueDepth\<close> in the order of the object.\<close>

definition depth_calls :: "task_table \<Rightarrow> metric_call list" where
  "depth_calls tbl = map (\<lambda>s. SetDepth s (getQueueDepth tbl s)) [TPending, TLeased, TCompleted, TDead]"

text \<open>The replica's steps with the calls they make: the end of a tick, and the end of a refresh whose query answered.\<close>

type_synonym observed_replica = "(scheduler \<times> task_table) \<times> metric_call list"

inductive replica_step :: "observed_replica \<Rightarrow> observed_replica \<Rightarrow> bool" where
  replica_reclaim: "0 < rp_ticks (sc_reaper s) \<Longrightarrow> reclaimExpired now locked (rp_limit (sc_reaper s)) q = (q', ids) \<Longrightarrow>
     replica_step ((s, q), calls) ((s\<lparr>sc_reaper := tick_end (sc_reaper s)\<rparr>, q'), calls @ reclaimed_calls ids)"
| replica_refreshed: "0 < sc_refreshes s \<Longrightarrow> sc_metrics s \<Longrightarrow>
     replica_step ((s, q), calls) ((refresh_end s, q), calls @ depth_calls q)"
| replica_reclaim_failed: "0 < rp_ticks (sc_reaper s) \<Longrightarrow>
     replica_step ((s, q), calls) ((s\<lparr>sc_reaper := tick_end (sc_reaper s)\<rparr>, q), calls)"
| replica_refresh_failed: "0 < sc_refreshes s \<Longrightarrow> replica_step ((s, q), calls) ((refresh_end s, q), calls)"
| replica_other: "sched_step x x' \<Longrightarrow> rp_ticks (sc_reaper (fst x')) \<ge> rp_ticks (sc_reaper (fst x)) \<Longrightarrow>
     sc_refreshes (fst x') \<ge> sc_refreshes (fst x) \<Longrightarrow> replica_step (x, calls) (x', calls)"

text \<open>What the gauge shows: the last value set.\<close>

definition depth_shown :: "metric_call list \<Rightarrow> task_status \<Rightarrow> nat option" where
  "depth_shown calls s = foldl (\<lambda>v c. case c of SetDepth s' n \<Rightarrow> if s' = s then Some n else v | _ \<Rightarrow> v) None calls"

lemma depth_shown_refreshed: "depth_shown (calls @ depth_calls q) s = Some (getQueueDepth q s)"
  by (cases s) (simp_all add: depth_shown_def depth_calls_def)

text \<open>The depths are those of the table at one moment: they add up to its rows.\<close>

lemma depth_total: "sum_list (map (getQueueDepth tbl) [TPending, TLeased, TCompleted, TDead]) = length (tt_rows tbl)"
proof -
  have "length (filter (\<lambda>t. t_status t = TPending) ts) + (length (filter (\<lambda>t. t_status t = TLeased) ts)
      + (length (filter (\<lambda>t. t_status t = TCompleted) ts) + length (filter (\<lambda>t. t_status t = TDead) ts))) = length ts" for ts
  proof (induction ts)
    case (Cons t ts)
    then show ?case by (cases "t_status t") simp_all
  qed simp
  then show ?thesis by (simp add: getQueueDepth_def row_count_def)
qed

subsection \<open>A gauge that outlives its leadership\<close>

text \<open>A replica with metrics becomes leader and publishes the depth once.\<close>

definition publisher0 :: scheduler where
  "publisher0 = scheduler_start (new_Scheduler ''a'' None None None None True)"

definition publisher1 :: scheduler where
  "publisher1 = publisher0\<lparr>sc_election := connect_end 0 True (sc_election publisher0)\<rparr>"

definition publisher2 :: scheduler where
  "publisher2 = publisher1\<lparr>sc_election := lock_answered True (sc_election publisher1)\<rparr>"

definition publisher3 :: scheduler where
  "publisher3 = after_election (leadership_recorded (sc_election publisher2)) publisher2"

definition publisher4 :: scheduler where
  "publisher4 = publisher3\<lparr>sc_depthTimers := removeAll 0 (sc_depthTimers publisher3), sc_refreshes := Suc (sc_refreshes publisher3)\<rparr>"

definition publisher5 :: scheduler where
  "publisher5 = refresh_end publisher4"

definition publisher6 :: scheduler where
  "publisher6 = after_election (handleDisconnect 0 (sc_election publisher5)) publisher5"

lemma publisher_facts:
  "0 \<in> set (el_connecting (sc_election publisher0))" "0 < el_trying (sc_election publisher1)" "0 < el_recording (sc_election publisher2)"
  "0 \<in> set (sc_depthTimers publisher3)" "0 < sc_refreshes publisher4" "sc_metrics publisher4"
  "\<not> el_leader (sc_election publisher6)" "sc_depthTimers publisher6 = []" "sc_refreshes publisher6 = 0"
  "map (\<lambda>s. rp_ticks (sc_reaper s)) [publisher0, publisher1, publisher2, publisher3, publisher4, publisher5, publisher6] = [0, 0, 0, 0, 0, 0, 0]"
  "map sc_refreshes [publisher0, publisher1, publisher2, publisher3, publisher4, publisher5, publisher6] = [0, 0, 0, 0, 1, 0, 0]"
  by code_simp+

lemma publisher_run:
  "replica_step\<^sup>*\<^sup>* ((publisher0, one_task), []) ((publisher6, taken_table), depth_calls one_task)"
proof -
  have ticks: "rp_ticks (sc_reaper publisher0) = 0" "rp_ticks (sc_reaper publisher1) = 0" "rp_ticks (sc_reaper publisher2) = 0"
    "rp_ticks (sc_reaper publisher3) = 0" "rp_ticks (sc_reaper publisher4) = 0" "rp_ticks (sc_reaper publisher5) = 0"
    "sc_refreshes publisher0 = 0" "sc_refreshes publisher1 = 0" "sc_refreshes publisher2 = 0" "sc_refreshes publisher3 = 0"
    "sc_refreshes publisher5 = 0"
    using publisher_facts(10,11) by simp_all
  have "replica_step ((publisher0, one_task), []) ((publisher1, one_task), [])"
    unfolding publisher1_def by (rule replica_other [OF sc_connected [OF publisher_facts(1)]]) (simp_all add: ticks)
  moreover have "replica_step ((publisher1, one_task), []) ((publisher2, one_task), [])"
    unfolding publisher2_def by (rule replica_other [OF sc_locked [OF publisher_facts(2)]]) (simp_all add: ticks)
  moreover have "replica_step ((publisher2, one_task), []) ((publisher3, one_task), [])"
    unfolding publisher3_def by (rule replica_other [OF sc_recorded [OF publisher_facts(3)]]) (simp_all add: ticks)
  moreover have "replica_step ((publisher3, one_task), []) ((publisher4, one_task), [])"
    unfolding publisher4_def by (rule replica_other [OF sc_refresh [OF publisher_facts(4)]]) (simp_all add: ticks)
  moreover have "replica_step ((publisher4, one_task), []) ((publisher5, one_task), depth_calls one_task)"
    unfolding publisher5_def using replica_refreshed [OF publisher_facts(5,6), of one_task "[]"] by simp
  moreover have "replica_step ((publisher5, one_task), depth_calls one_task) ((publisher6, one_task), depth_calls one_task)"
    unfolding publisher6_def by (rule replica_other [OF sc_disconnected]) (simp_all add: ticks)
  moreover have "worker_step one_task taken_table" unfolding taken_table_def by (intro worker_step.intros)
  then have "replica_step ((publisher6, one_task), depth_calls one_task) ((publisher6, taken_table), depth_calls one_task)"
    by (intro replica_other [OF sc_others]) simp_all
  ultimately show ?thesis by (meson r_into_rtranclp rtranclp.rtrancl_into_rtrancl)
qed

text \<open>
  The gauge is never taken back. A replica that published the depth of the queue and lost its leadership
  goes on exposing what it published last, with no refresh under way or scheduled, while the queue has
  moved on and another replica publishes its depth.
\<close>

theorem stale_depth_exposed:
  "\<exists>s q calls. replica_step\<^sup>*\<^sup>* ((scheduler_start (new_Scheduler ''a'' None None None None True), one_task), []) ((s, q), calls)
     \<and> \<not> el_leader (sc_election s) \<and> sc_depthTimers s = [] \<and> sc_refreshes s = 0
     \<and> depth_shown calls TPending = Some 1 \<and> getQueueDepth q TPending = 0"
proof -
  have "getQueueDepth one_task TPending = 1" "getQueueDepth taken_table TPending = 0" by code_simp+
  then show ?thesis
    using publisher_run publisher_facts(7-9) depth_shown_refreshed [of "[]" one_task TPending] unfolding publisher0_def by fastforce
qed

subsection \<open>Refreshes that pile up\<close>

text \<open>
  A replica that loses its leadership while a refresh awaits its query, and is leader again when the
  answer comes, has two refreshes scheduled from then on; \<open>onLose\<close> clears the later one only.
\<close>

definition again1 :: scheduler where
  "again1 = after_election (handleDisconnect 0 (sc_election publisher4)) publisher4"

definition again2 :: scheduler where
  "again2 = again1\<lparr>sc_election := connect_begin ((sc_election again1)\<lparr>el_reconnectTimers := removeAll 0 (el_reconnectTimers (sc_election again1))\<rparr>)\<rparr>"

definition again3 :: scheduler where
  "again3 = again2\<lparr>sc_election := connect_end 1 True (sc_election again2)\<rparr>"

definition again4 :: scheduler where
  "again4 = again3\<lparr>sc_election := lock_answered True (sc_election again3)\<rparr>"

definition again5 :: scheduler where
  "again5 = after_election (leadership_recorded (sc_election again4)) again4"

definition again6 :: scheduler where
  "again6 = refresh_end again5"

definition again7 :: scheduler where
  "again7 = after_election (handleDisconnect 1 (sc_election again6)) again6"

lemma again_facts:
  "0 \<in> set (el_reconnectTimers (sc_election again1))" "1 \<in> set (el_connecting (sc_election again2))"
  "0 < el_trying (sc_election again3)" "0 < el_recording (sc_election again4)" "0 < sc_refreshes again5"
  "length (sc_depthTimers again6) = 2" "el_leader (sc_election again6)"
  "length (sc_depthTimers again7) = 1" "\<not> el_leader (sc_election again7)"
  by code_simp+

theorem refreshes_pile_up:
  "\<exists>s s'. sched_step\<^sup>*\<^sup>* (scheduler_start (new_Scheduler ''a'' None None None None True), q) (s, q) \<and> el_leader (sc_election s)
     \<and> length (sc_depthTimers s) = 2 \<and> sched_step (s, q) (s', q) \<and> \<not> el_leader (sc_election s') \<and> length (sc_depthTimers s') = 1"
proof -
  have "sched_step (publisher0, q) (publisher1, q)" unfolding publisher1_def by (rule sc_connected [OF publisher_facts(1)])
  moreover have "sched_step (publisher1, q) (publisher2, q)" unfolding publisher2_def by (rule sc_locked [OF publisher_facts(2)])
  moreover have "sched_step (publisher2, q) (publisher3, q)" unfolding publisher3_def by (rule sc_recorded [OF publisher_facts(3)])
  moreover have "sched_step (publisher3, q) (publisher4, q)" unfolding publisher4_def by (rule sc_refresh [OF publisher_facts(4)])
  moreover have "sched_step (publisher4, q) (again1, q)" unfolding again1_def by (rule sc_disconnected)
  moreover have "sched_step (again1, q) (again2, q)" unfolding again2_def by (rule sc_reconnect [OF again_facts(1)])
  moreover have "sched_step (again2, q) (again3, q)" unfolding again3_def by (rule sc_connected [OF again_facts(2)])
  moreover have "sched_step (again3, q) (again4, q)" unfolding again4_def by (rule sc_locked [OF again_facts(3)])
  moreover have "sched_step (again4, q) (again5, q)" unfolding again5_def by (rule sc_recorded [OF again_facts(4)])
  moreover have "sched_step (again5, q) (again6, q)" unfolding again6_def by (rule sc_refreshed [OF again_facts(5)])
  ultimately have "sched_step\<^sup>*\<^sup>* (publisher0, q) (again6, q)" by (meson r_into_rtranclp rtranclp.rtrancl_into_rtrancl)
  moreover have "sched_step (again6, q) (again7, q)" unfolding again7_def by (rule sc_disconnected)
  ultimately show ?thesis using again_facts(6-9) unfolding publisher0_def by blast
qed

end
