(* ===== verification/Cluster.thy ===== *)
theory Cluster
  imports SchedulerProps
begin

section \<open>Several replicas and one lock (packages/scheduler, db/src/leadership.ts)\<close>

text \<open>
  All replicas of the scheduler against one Postgres: the sessions its connections have open, the
  session that holds the advisory lock, and the requests for the lock that are under way. The elections
  are those of \<open>Scheduler\<close>; here the answers they get are those of the lock. A session can end on the
  server at any time, before or after the replica hears of it.
\<close>

subsection \<open>The lock\<close>

text \<open>A session is a replica and the number of its connection.\<close>

type_synonym session = "nat \<times> nat"

definition LEADER_LOCK_KEY :: int where
  "LEADER_LOCK_KEY = 727310"

text \<open>
  Session-level advisory locks: granted when nobody or the same session holds the key, and gone when the
  session ends.
\<close>

type_synonym advisory_locks = "int \<rightharpoonup> session"

definition tryAcquireLeaderLock :: "session \<Rightarrow> advisory_locks \<Rightarrow> advisory_locks \<times> bool" where
  "tryAcquireLeaderLock s locks = (case locks LEADER_LOCK_KEY of
     None \<Rightarrow> (locks(LEADER_LOCK_KEY \<mapsto> s), True) | Some s' \<Rightarrow> (locks, s' = s))"

definition release_session :: "session \<Rightarrow> advisory_locks \<Rightarrow> advisory_locks" where
  "release_session s locks = (\<lambda>k. if locks k = Some s then None else locks k)"

subsection \<open>The state and its steps\<close>

text \<open>
  \<open>cl_asked\<close> are the requests for the lock a replica awaits: the connection each was sent on, and what
  the server answered, once it has.
\<close>

record cluster =
  cl_elections :: "nat \<Rightarrow> election"
  cl_asked :: "nat \<Rightarrow> (nat \<times> bool option) list"
  cl_locks :: advisory_locks
  cl_open :: "session set"

definition new_cluster :: "(nat \<Rightarrow> string) \<Rightarrow> cluster" where
  "new_cluster ids = \<lparr>cl_elections = \<lambda>i. connect_begin (new_LeaderElection (ids i) None None), cl_asked = \<lambda>i. [],
     cl_locks = Map.empty, cl_open = {}\<rparr>"

text \<open>A replica's election after one of its steps; a call of \<open>attemptAcquire\<close> sends a request on its connection.\<close>

definition set_election :: "nat \<Rightarrow> election \<Rightarrow> cluster \<Rightarrow> cluster" where
  "set_election i e' x = (let e = cl_elections x i in
     x\<lparr>cl_elections := (cl_elections x)(i := e'),
       cl_asked := (if el_trying e < el_trying e' then (case el_client e' of
           None \<Rightarrow> cl_asked x | Some c \<Rightarrow> (cl_asked x)(i := cl_asked x i @ [(c, None)])) else cl_asked x)\<rparr>)"

text \<open>
  A request is answered to a replica that still holds the connection (or was stopped), and fails after it
  has heard that the connection is lost: the driver rejects what is pending before the replica can go on.
\<close>

inductive cl_step :: "cluster \<Rightarrow> cluster \<Rightarrow> bool" where
  cl_connected: "c \<in> set (el_connecting (cl_elections x i)) \<Longrightarrow>
     cl_step x ((set_election i (connect_end c True (cl_elections x i)) x)\<lparr>cl_open := insert (i, c) (cl_open x)\<rparr>)"
| cl_connect_failed: "c \<in> set (el_connecting (cl_elections x i)) \<Longrightarrow>
     cl_step x (set_election i (connect_end c False (cl_elections x i)) x)"
| cl_query: "cl_asked x i = qs @ (c, None) # qs' \<Longrightarrow> (i, c) \<in> cl_open x \<Longrightarrow> tryAcquireLeaderLock (i, c) (cl_locks x) = (l, b) \<Longrightarrow>
     cl_step x (x\<lparr>cl_locks := l, cl_asked := (cl_asked x)(i := qs @ (c, Some b) # qs')\<rparr>)"
| cl_answered: "cl_asked x i = qs @ (c, Some b) # qs' \<Longrightarrow> el_client (cl_elections x i) = Some c \<or> el_stopped (cl_elections x i) \<Longrightarrow>
     cl_step x ((set_election i (lock_answered b (cl_elections x i)) x)\<lparr>cl_asked := (cl_asked x)(i := qs @ qs')\<rparr>)"
| cl_query_failed: "cl_asked x i = qs @ (c, a) # qs' \<Longrightarrow>
     cl_step x ((set_election i (lock_answered False (cl_elections x i)) x)\<lparr>cl_asked := (cl_asked x)(i := qs @ qs')\<rparr>)"
| cl_recorded: "0 < el_recording (cl_elections x i) \<Longrightarrow>
     cl_step x (set_election i (fst (leadership_recorded (cl_elections x i))) x)"
| cl_session_ends: "cl_step x (x\<lparr>cl_open := cl_open x - {(i, c)}, cl_locks := release_session (i, c) (cl_locks x)\<rparr>)"
| cl_disconnected: "cl_step x (set_election i (fst (handleDisconnect c (cl_elections x i))) x)"
| cl_poll: "n \<in> set (el_pollTimers (cl_elections x i)) \<Longrightarrow>
     cl_step x (set_election i (attemptAcquire ((cl_elections x i)\<lparr>el_pollTimers := removeAll n (el_pollTimers (cl_elections x i))\<rparr>)) x)"
| cl_reconnect: "n \<in> set (el_reconnectTimers (cl_elections x i)) \<Longrightarrow>
     cl_step x (set_election i (connect_begin ((cl_elections x i)\<lparr>el_reconnectTimers := removeAll n (el_reconnectTimers (cl_elections x i))\<rparr>)) x)"
| cl_stop: "cl_step x (set_election i (fst (election_stop (cl_elections x i))) x)"

text \<open>
  The steps in which no replica that awaits the leadership row loses its connection, other than by its
  own \<open>stop\<close>.
\<close>

definition quiet_step :: "cluster \<Rightarrow> cluster \<Rightarrow> bool" where
  "quiet_step x x' \<longleftrightarrow> cl_step x x' \<and> (\<forall>i. 0 < el_recording (cl_elections x i) \<longrightarrow>
     el_client (cl_elections x' i) = el_client (cl_elections x i) \<or> el_stopped (cl_elections x' i))"

subsection \<open>One leader\<close>

text \<open>A leader whose connection is open, as far as it and the server know.\<close>

definition live_leader :: "cluster \<Rightarrow> nat \<Rightarrow> bool" where
  "live_leader x i \<longleftrightarrow> el_leader (cl_elections x i) \<and> (\<exists>c. el_client (cl_elections x i) = Some c \<and> (i, c) \<in> cl_open x)"

text \<open>
  A replica has one connection, or one on its way or scheduled, and is leader or about to be only with
  one; the connections it knows of have been counted.
\<close>

definition election_ok :: "election \<Rightarrow> bool" where
  "election_ok e \<longleftrightarrow> length (el_connecting e) + length (el_reconnectTimers e) + (if el_client e = None then 0 else 1) \<le> 1
     \<and> (el_stopped e \<longrightarrow> el_client e = None \<and> \<not> el_leader e)
     \<and> (el_client e = None \<and> \<not> el_stopped e \<longrightarrow> el_recording e = 0 \<and> \<not> el_leader e)
     \<and> (\<forall>c \<in> set (el_connecting e). c < el_nextClient e)
     \<and> (\<forall>c. el_client e = Some c \<longrightarrow> c < el_nextClient e)"

definition replica_ok :: "advisory_locks \<Rightarrow> session set \<Rightarrow> nat \<Rightarrow> election \<Rightarrow> (nat \<times> bool option) list \<Rightarrow> bool" where
  "replica_ok locks opened i e asked \<longleftrightarrow> election_ok e
     \<and> (\<forall>c. (i, c) \<in> opened \<or> c \<in> fst ` set asked \<or> el_client e = Some c \<longrightarrow> c < el_nextClient e \<and> c \<notin> set (el_connecting e))
     \<and> (\<forall>c. (i, c) \<in> opened \<and> (el_client e = Some c \<and> (el_leader e \<or> 0 < el_recording e) \<or> (c, Some True) \<in> set asked)
          \<longrightarrow> locks LEADER_LOCK_KEY = Some (i, c))"

definition cl_inv :: "cluster \<Rightarrow> bool" where
  "cl_inv x \<longleftrightarrow> (\<forall>i. replica_ok (cl_locks x) (cl_open x) i (cl_elections x i) (cl_asked x i))"

text \<open>A step of one replica that opens no session and leaves the locks alone.\<close>

lemma replica_step:
  assumes "cl_inv x" "replica_ok (cl_locks x) (cl_open x) i e' as"
  shows "cl_inv (x\<lparr>cl_elections := (cl_elections x)(i := e'), cl_asked := (cl_asked x)(i := as)\<rparr>)"
  using assms by (simp add: cl_inv_def)

lemma set_election_asked:
  "set_election i e' x = x\<lparr>cl_elections := (cl_elections x)(i := e'), cl_asked := (cl_asked x)(i :=
     (if el_trying (cl_elections x i) < el_trying e' then (case el_client e' of None \<Rightarrow> cl_asked x i | Some c \<Rightarrow> cl_asked x i @ [(c, None)])
      else cl_asked x i))\<rparr>"
  by (simp add: set_election_def Let_def split: option.split)

lemma attempt_ok:
  "replica_ok locks opened i e as \<Longrightarrow> replica_ok locks opened i (attemptAcquire (e\<lparr>el_pollTimers := ts\<rparr>))
     (if el_trying e < el_trying (attemptAcquire (e\<lparr>el_pollTimers := ts\<rparr>)) then (case el_client (attemptAcquire (e\<lparr>el_pollTimers := ts\<rparr>)) of
        None \<Rightarrow> as | Some c \<Rightarrow> as @ [(c, None)]) else as)"
  by (force simp: replica_ok_def election_ok_def attemptAcquire_def)

lemma connect_begin_ok:
  assumes ok: "replica_ok locks opened i e as" and n: "n \<in> set (el_reconnectTimers e)"
  shows "replica_ok locks opened i (connect_begin (e\<lparr>el_reconnectTimers := removeAll n (el_reconnectTimers e)\<rparr>)) as"
proof -
  have "el_reconnectTimers e = [n] \<and> el_connecting e = [] \<and> el_client e = None"
    using ok n by (cases "el_reconnectTimers e") (auto simp: replica_ok_def election_ok_def split: if_splits)
  then show ?thesis using ok by (auto simp: replica_ok_def election_ok_def connect_begin_def)
qed

lemma connect_end_ok:
  assumes ok: "replica_ok locks opened i e as" and c: "c \<in> set (el_connecting e)"
  shows "replica_ok locks opened i (connect_end c False e) as"
    "el_trying e < el_trying (connect_end c True e) \<Longrightarrow> replica_ok locks (insert (i, c) opened) i (connect_end c True e) (as @ [(c, None)])"
    "\<not> el_trying e < el_trying (connect_end c True e) \<Longrightarrow> replica_ok locks (insert (i, c) opened) i (connect_end c True e) as"
proof -
  have e: "el_connecting e = [c] \<and> el_reconnectTimers e = [] \<and> el_client e = None"
    using ok c by (cases "el_connecting e") (auto simp: replica_ok_def election_ok_def split: if_splits)
  have new: "(i, c) \<notin> opened" "c \<notin> fst ` set as" "c < el_nextClient e" "(c, Some True) \<notin> set as"
    using ok c e by (force simp: replica_ok_def election_ok_def)+
  show "replica_ok locks opened i (connect_end c False e) as"
    using ok e by (auto simp: replica_ok_def election_ok_def connect_end_def scheduleReconnect_def Let_def)
  show "el_trying e < el_trying (connect_end c True e) \<Longrightarrow> replica_ok locks (insert (i, c) opened) i (connect_end c True e) (as @ [(c, None)])"
    using ok e new by (auto simp: replica_ok_def election_ok_def connect_end_def attemptAcquire_def Let_def split: if_splits)
  show "\<not> el_trying e < el_trying (connect_end c True e) \<Longrightarrow> replica_ok locks (insert (i, c) opened) i (connect_end c True e) as"
    using ok e new by (auto simp: replica_ok_def election_ok_def connect_end_def attemptAcquire_def Let_def split: if_splits)
qed

lemma answered_ok:
  assumes ok: "replica_ok locks opened i e (qs @ (c, a) # qs')" and a: "b \<Longrightarrow> a = Some True \<and> (el_client e = Some c \<or> el_stopped e)"
  shows "replica_ok locks opened i (lock_answered b e) (qs @ qs')"
  using ok a by (auto simp: replica_ok_def election_ok_def lock_answered_def Let_def)

lemma recorded_ok: "replica_ok locks opened i e as \<Longrightarrow> 0 < el_recording e \<Longrightarrow> replica_ok locks opened i (fst (leadership_recorded e)) as"
  by (auto simp: replica_ok_def election_ok_def leadership_recorded_def Let_def)

lemma disconnected_ok:
  "replica_ok locks opened i e as \<Longrightarrow> 0 < el_recording e \<longrightarrow> el_client (fst (handleDisconnect c e)) = el_client e \<or> el_stopped (fst (handleDisconnect c e))
    \<Longrightarrow> replica_ok locks opened i (fst (handleDisconnect c e)) as"
  by (auto simp: replica_ok_def election_ok_def handleDisconnect_def scheduleReconnect_def Let_def split: option.splits if_splits)

lemma stop_ok:
  assumes "replica_ok locks opened i e as"
  shows "replica_ok locks opened i (fst (election_stop e)) as"
proof -
  have "length (el_reconnectTimers (fst (election_stop e))) \<le> length (el_reconnectTimers e)"
    by (auto simp: election_stop_def removeAll_filter_not_eq split: option.split)
  with assms show ?thesis by (auto simp: replica_ok_def election_ok_def election_stop_def)
qed

lemma locks_ok:
  assumes "replica_ok locks opened i e as" "opened' \<subseteq> opened" "\<And>c. (i, c) \<in> opened' \<Longrightarrow> locks LEADER_LOCK_KEY = Some (i, c)
    \<Longrightarrow> locks' LEADER_LOCK_KEY = Some (i, c)"
  shows "replica_ok locks' opened' i e as"
  using assms unfolding replica_ok_def by (intro conjI) blast+

lemma query_ok:
  assumes "replica_ok locks opened i e (qs @ (c, None) # qs')" "tryAcquireLeaderLock (i, c) locks = (l, b)"
  shows "replica_ok l opened i e (qs @ (c, Some b) # qs')"
proof -
  have keep: "locks LEADER_LOCK_KEY = Some s \<Longrightarrow> l LEADER_LOCK_KEY = Some s" for s
    using assms(2) by (auto simp: tryAcquireLeaderLock_def split: option.splits)
  have "b \<Longrightarrow> l LEADER_LOCK_KEY = Some (i, c)"
    using assms(2) by (auto simp: tryAcquireLeaderLock_def split: option.splits)
  with assms(1) keep show ?thesis by (auto simp: replica_ok_def)
qed

lemma query_others: "tryAcquireLeaderLock s locks = (l, b) \<Longrightarrow> locks LEADER_LOCK_KEY = Some s' \<Longrightarrow> l LEADER_LOCK_KEY = Some s'"
  by (auto simp: tryAcquireLeaderLock_def split: option.splits)

lemma other_session: "j \<noteq> i \<Longrightarrow> replica_ok locks (insert (i, c) opened) j e as = replica_ok locks opened j e as"
  by (simp add: replica_ok_def)

lemma quiet_step_inv:
  assumes "quiet_step x x'" "cl_inv x"
  shows "cl_inv x'"
proof -
  have quiet: "0 < el_recording (cl_elections x i) \<Longrightarrow>
     el_client (cl_elections x' i) = el_client (cl_elections x i) \<or> el_stopped (cl_elections x' i)" for i
    using assms(1) by (simp add: quiet_step_def)
  have ok: "replica_ok (cl_locks x) (cl_open x) i (cl_elections x i) (cl_asked x i)" for i using assms(2) by (simp add: cl_inv_def)
  have "cl_step x x'" using assms(1) by (simp add: quiet_step_def)
  then show ?thesis
  proof cases
    case (cl_connected c i)
    let ?e = "connect_end c True (cl_elections x i)"
    have "el_trying (cl_elections x i) < el_trying ?e \<Longrightarrow> el_client ?e = Some c"
      by (auto simp: connect_end_def attemptAcquire_def Let_def split: if_splits)
    with connect_end_ok(2,3) [OF ok cl_connected(2)] have
      "replica_ok (cl_locks x) (insert (i, c) (cl_open x)) i ?e (if el_trying (cl_elections x i) < el_trying ?e
         then (case el_client ?e of None \<Rightarrow> cl_asked x i | Some d \<Rightarrow> cl_asked x i @ [(d, None)]) else cl_asked x i)" by simp
    moreover have "j \<noteq> i \<Longrightarrow> replica_ok (cl_locks x) (insert (i, c) (cl_open x)) j (cl_elections x j) (cl_asked x j)" for j
      using ok by (simp add: other_session)
    ultimately show ?thesis unfolding cl_connected(1) set_election_asked cl_inv_def by (simp split: if_splits)
  next
    case (cl_query i qs c qs' l b)
    have "replica_ok l (cl_open x) j (cl_elections x j) (cl_asked x j)" for j
      by (rule locks_ok [OF ok order_refl]) (rule query_others [OF cl_query(4)])
    with query_ok [OF ok [of i, unfolded cl_query(2)] cl_query(4)] show ?thesis by (simp add: cl_inv_def cl_query(1))
  next
    case (cl_session_ends i c)
    have "replica_ok (release_session (i, c) (cl_locks x)) (cl_open x - {(i, c)}) j (cl_elections x j) (cl_asked x j)" for j
      by (rule locks_ok [OF ok]) (auto simp: release_session_def)
    then show ?thesis by (simp add: cl_inv_def cl_session_ends)
  next
    case (cl_disconnected i c)
    show ?thesis unfolding cl_disconnected set_election_asked
      by (rule replica_step [OF assms(2)])
        (use disconnected_ok [OF ok, of i c] quiet [of i] in \<open>auto simp: cl_disconnected set_election_asked handleDisconnect_def scheduleReconnect_def Let_def\<close>)
  next
    case (cl_poll n i)
    show ?thesis unfolding cl_poll(1) set_election_asked by (rule replica_step [OF assms(2) attempt_ok [OF ok]])
  next
    case (cl_answered i qs c b qs')
    have "replica_ok (cl_locks x) (cl_open x) i (lock_answered b (cl_elections x i)) (qs @ qs')"
      by (rule answered_ok [OF ok [of i, unfolded cl_answered(2)]]) (use cl_answered(3) in auto)
    from replica_step [OF assms(2) this] show ?thesis by (simp add: cl_answered(1) set_election_asked)
  next
    case (cl_query_failed i qs c a qs')
    have "replica_ok (cl_locks x) (cl_open x) i (lock_answered False (cl_elections x i)) (qs @ qs')"
      by (rule answered_ok [OF ok [of i, unfolded cl_query_failed(2)]]) simp
    from replica_step [OF assms(2) this] show ?thesis by (simp add: cl_query_failed(1) set_election_asked)
  next
    case (cl_connect_failed c i)
    have "\<not> el_trying (cl_elections x i) < el_trying (connect_end c False (cl_elections x i))"
      by (simp add: connect_end_def scheduleReconnect_def Let_def)
    then show ?thesis unfolding cl_connect_failed(1) set_election_asked
      using replica_step [OF assms(2) connect_end_ok(1) [OF ok cl_connect_failed(2)]] by simp
  next
    case (cl_recorded i)
    have "\<not> el_trying (cl_elections x i) < el_trying (fst (leadership_recorded (cl_elections x i)))"
      by (simp add: leadership_recorded_def Let_def)
    then show ?thesis unfolding cl_recorded(1) set_election_asked
      using replica_step [OF assms(2) recorded_ok [OF ok cl_recorded(2)]] by simp
  next
    case (cl_reconnect n i)
    have "\<not> el_trying (cl_elections x i) < el_trying (connect_begin ((cl_elections x i)\<lparr>el_reconnectTimers := ts\<rparr>))" for ts
      by (simp add: connect_begin_def)
    then show ?thesis unfolding cl_reconnect(1) set_election_asked
      using replica_step [OF assms(2) connect_begin_ok [OF ok cl_reconnect(2)]] by simp
  next
    case (cl_stop i)
    have "\<not> el_trying (cl_elections x i) < el_trying (fst (election_stop (cl_elections x i)))"
      by (simp add: election_stop_def)
    then show ?thesis unfolding cl_stop set_election_asked
      using replica_step [OF assms(2) stop_ok [OF ok]] by simp
  qed
qed

lemma quiet_steps_inv: "quiet_step\<^sup>*\<^sup>* x x' \<Longrightarrow> cl_inv x \<Longrightarrow> cl_inv x'"
  by (induction rule: rtranclp_induct) (auto intro: quiet_step_inv)

lemma new_cluster_inv: "cl_inv (new_cluster ids)"
  by (simp add: cl_inv_def replica_ok_def election_ok_def new_cluster_def connect_begin_def new_LeaderElection_def)

text \<open>
  C33: One leader at a time. However many replicas run, whatever connections come and go, whoever is
  stopped and in whatever order requests are answered, as long as no replica loses its connection between
  the grant of the lock and the end of its write to the leadership row: two replicas that both lead with
  an open connection are the same, and the session of the one that does holds the lock.
\<close>

theorem one_live_leader:
  assumes "quiet_step\<^sup>*\<^sup>* (new_cluster ids) x" "live_leader x i" "live_leader x j"
  shows "i = j \<and> (\<exists>c. el_client (cl_elections x i) = Some c \<and> cl_locks x LEADER_LOCK_KEY = Some (i, c))"
proof -
  have inv: "cl_inv x" by (rule quiet_steps_inv [OF assms(1) new_cluster_inv])
  have "\<exists>c. el_client (cl_elections x k) = Some c \<and> cl_locks x LEADER_LOCK_KEY = Some (k, c)" if "live_leader x k" for k
    using inv that by (auto simp: live_leader_def cl_inv_def replica_ok_def)
  from this [OF assms(2)] this [OF assms(3)] show ?thesis by auto
qed

subsection \<open>A concrete cluster\<close>

definition cl1 :: cluster where
  "cl1 = (let x = new_cluster show_nat in (set_election 0 (connect_end 0 True (cl_elections x 0)) x)\<lparr>cl_open := insert (0, 0) (cl_open x)\<rparr>)"

definition cl2 :: cluster where
  "cl2 = cl1\<lparr>cl_locks := fst (tryAcquireLeaderLock (0, 0) (cl_locks cl1)), cl_asked := (cl_asked cl1)(0 := [(0, Some True)])\<rparr>"

definition cl3 :: cluster where
  "cl3 = (set_election 0 (lock_answered True (cl_elections cl2 0)) cl2)\<lparr>cl_asked := (cl_asked cl2)(0 := [])\<rparr>"

definition cl4 :: cluster where
  "cl4 = set_election 0 (fst (leadership_recorded (cl_elections cl3 0))) cl3"

lemmas cl_eval = cl1_def cl2_def cl3_def cl4_def new_cluster_def set_election_def connect_begin_def connect_end_def
  new_LeaderElection_def attemptAcquire_def lock_answered_def leadership_recorded_def tryAcquireLeaderLock_def Let_def

lemma cl_steps: "cl_step (new_cluster show_nat) cl1" "cl_step cl1 cl2" "cl_step cl2 cl3" "cl_step cl3 cl4"
proof -
  show "cl_step (new_cluster show_nat) cl1"
    unfolding cl1_def Let_def by (rule cl_connected) (simp add: new_cluster_def connect_begin_def new_LeaderElection_def)
  show "cl_step cl1 cl2"
    unfolding cl2_def using cl_query [of cl1 0 "[]" 0 "[]"] by (simp add: cl_eval)
  show "cl_step cl2 cl3"
    unfolding cl3_def using cl_answered [of cl2 0 "[]" 0 True "[]"] by (simp add: cl_eval)
  show "cl_step cl3 cl4" unfolding cl4_def by (rule cl_recorded) (simp add: cl_eval)
qed

lemma quiet_run: "quiet_step\<^sup>*\<^sup>* (new_cluster show_nat) cl4"
proof -
  have "quiet_step (new_cluster show_nat) cl1" "quiet_step cl1 cl2" "quiet_step cl2 cl3" "quiet_step cl3 cl4"
    using cl_steps unfolding quiet_step_def by (simp_all add: cl_eval)
  then show ?thesis by (meson rtranclp.rtrancl_into_rtrancl rtranclp.rtrancl_refl)
qed

theorem one_live_leader_witness: "live_leader cl4 0 \<and> cl_locks cl4 LEADER_LOCK_KEY = Some (0, 0)"
proof -
  have "live_leader cl4 0" by (simp add: live_leader_def cl_eval)
  moreover have "el_client (cl_elections cl4 0) = Some 0" by (simp add: cl_eval)
  ultimately show ?thesis using one_live_leader [OF quiet_run, of 0 0] by simp
qed

subsection \<open>Two leaders\<close>

text \<open>
  Without that restriction the lock does not keep leaders apart. Replica 0 is granted the lock and loses
  its session while its write to the leadership row is under way: it is not leader yet, so nothing steps it
  down; its write fails and it makes itself leader, and stays leader when it has connected again. Replica 1
  is granted the free lock meanwhile. Now both lead, with open connections.
\<close>

definition sb1 :: cluster where
  "sb1 = cl3\<lparr>cl_open := cl_open cl3 - {(0, 0)}, cl_locks := release_session (0, 0) (cl_locks cl3)\<rparr>"

definition sb2 :: cluster where
  "sb2 = set_election 0 (fst (handleDisconnect 0 (cl_elections sb1 0))) sb1"

definition sb3 :: cluster where
  "sb3 = set_election 0 (fst (leadership_recorded (cl_elections sb2 0))) sb2"

definition sb4 :: cluster where
  "sb4 = (set_election 1 (connect_end 0 True (cl_elections sb3 1)) sb3)\<lparr>cl_open := insert (1, 0) (cl_open sb3)\<rparr>"

definition sb5 :: cluster where
  "sb5 = sb4\<lparr>cl_locks := fst (tryAcquireLeaderLock (1, 0) (cl_locks sb4)), cl_asked := (cl_asked sb4)(1 := [(0, Some True)])\<rparr>"

definition sb6 :: cluster where
  "sb6 = (set_election 1 (lock_answered True (cl_elections sb5 1)) sb5)\<lparr>cl_asked := (cl_asked sb5)(1 := [])\<rparr>"

definition sb7 :: cluster where
  "sb7 = set_election 1 (fst (leadership_recorded (cl_elections sb6 1))) sb6"

definition sb8 :: cluster where
  "sb8 = set_election 0 (connect_begin ((cl_elections sb7 0)\<lparr>el_reconnectTimers := removeAll 0 (el_reconnectTimers (cl_elections sb7 0))\<rparr>)) sb7"

definition sb9 :: cluster where
  "sb9 = (set_election 0 (connect_end 1 True (cl_elections sb8 0)) sb8)\<lparr>cl_open := insert (0, 1) (cl_open sb8)\<rparr>"

lemma set_election_fields [simp]:
  "cl_elections (set_election i e x) = (cl_elections x)(i := e)" "cl_open (set_election i e x) = cl_open x"
  "cl_locks (set_election i e x) = cl_locks x"
  by (simp_all add: set_election_asked)

text \<open>The elections of the two replicas, in the order of the steps.\<close>

definition connected_el :: "string \<Rightarrow> election" where
  "connected_el n = connect_end 0 True (connect_begin (new_LeaderElection n None None))"

definition granted_el :: "string \<Rightarrow> election" where
  "granted_el n = lock_answered True (connected_el n)"

definition ghost_el :: "string \<Rightarrow> election" where
  "ghost_el n = fst (leadership_recorded (fst (handleDisconnect 0 (granted_el n))))"

definition back_el :: "string \<Rightarrow> election" where
  "back_el n = connect_begin ((ghost_el n)\<lparr>el_reconnectTimers := removeAll 0 (el_reconnectTimers (ghost_el n))\<rparr>)"

lemmas el_eval = connected_el_def granted_el_def ghost_el_def back_el_def connect_begin_def connect_end_def new_LeaderElection_def
  attemptAcquire_def lock_answered_def leadership_recorded_def handleDisconnect_def scheduleReconnect_def Let_def

lemma el_facts:
  "el_trying (connect_begin (new_LeaderElection n None None)) = 0" "el_trying (connected_el n) = 1" "el_client (connected_el n) = Some 0"
  "0 < el_recording (fst (handleDisconnect 0 (granted_el n)))" "0 \<in> set (el_connecting (connect_begin (new_LeaderElection n None None)))"
  "0 < el_recording (granted_el n)" "0 \<in> set (el_reconnectTimers (ghost_el n))" "1 \<in> set (el_connecting (back_el n))"
  "el_leader (connect_end 1 True (back_el n))" "el_client (connect_end 1 True (back_el n)) = Some 1"
  "el_leader (fst (leadership_recorded (granted_el n)))" "el_client (fst (leadership_recorded (granted_el n))) = Some 0"
  "el_trying (granted_el n) = 0" "el_trying (ghost_el n) = 0" "el_trying (fst (handleDisconnect 0 (granted_el n))) = 0"
  by (simp_all add: el_eval)

lemma sb_elections:
  "cl_elections cl3 0 = granted_el (show_nat 0)" "cl_elections cl3 1 = connect_begin (new_LeaderElection (show_nat 1) None None)"
  by (simp_all add: cl3_def cl2_def cl1_def new_cluster_def connected_el_def granted_el_def Let_def)

lemma sb_elections2:
  "cl_elections sb2 0 = fst (handleDisconnect 0 (granted_el (show_nat 0)))" "cl_elections sb3 0 = ghost_el (show_nat 0)"
  "cl_elections sb3 1 = connect_begin (new_LeaderElection (show_nat 1) None None)"
  "cl_elections sb4 1 = connected_el (show_nat 1)" "cl_elections sb5 1 = connected_el (show_nat 1)"
  "cl_elections sb6 1 = granted_el (show_nat 1)" "cl_elections sb7 0 = ghost_el (show_nat 0)"
  "cl_elections sb8 0 = back_el (show_nat 0)"
  "cl_elections sb9 0 = connect_end 1 True (back_el (show_nat 0))" "cl_elections sb9 1 = fst (leadership_recorded (granted_el (show_nat 1)))"
  using sb_elections
  by (simp_all add: sb1_def sb2_def sb3_def sb4_def sb5_def sb6_def sb7_def sb8_def sb9_def ghost_el_def back_el_def connected_el_def granted_el_def)

lemma sb_locks: "cl_locks sb4 LEADER_LOCK_KEY = None" "cl_asked sb4 1 = [(0, None)]" "(1, 0) \<in> cl_open sb4"
proof -
  have "cl_locks cl3 LEADER_LOCK_KEY = Some (0, 0)"
    by (simp add: cl3_def cl2_def cl1_def new_cluster_def tryAcquireLeaderLock_def Let_def)
  then show "cl_locks sb4 LEADER_LOCK_KEY = None" by (simp add: sb4_def sb3_def sb2_def sb1_def release_session_def)
  have "cl_asked cl3 1 = []"
    by (simp add: cl3_def cl2_def cl1_def new_cluster_def set_election_asked Let_def)
  then have "cl_asked sb3 1 = []" by (simp add: sb3_def sb2_def sb1_def set_election_asked)
  then show "cl_asked sb4 1 = [(0, None)]"
    using sb_elections2(3) el_facts(1-3) [of "show_nat 1"] by (simp add: sb4_def set_election_asked connected_el_def [symmetric])
  show "(1, 0) \<in> cl_open sb4" by (simp add: sb4_def)
qed

lemma sb_facts:
  "0 < el_recording (cl_elections sb2 0)" "0 \<in> set (el_connecting (cl_elections sb3 1))" "cl_asked sb4 1 = [(0, None)]"
  "(1, 0) \<in> cl_open sb4" "snd (tryAcquireLeaderLock (1, 0) (cl_locks sb4))" "el_client (cl_elections sb5 1) = Some 0"
  "cl_asked sb5 1 = [(0, Some True)]" "0 < el_recording (cl_elections sb6 1)" "0 \<in> set (el_reconnectTimers (cl_elections sb7 0))"
  "1 \<in> set (el_connecting (cl_elections sb8 0))"
  using el_facts sb_locks unfolding sb_elections2 by (simp_all add: tryAcquireLeaderLock_def sb5_def)

lemma sb_end:
  "el_leader (cl_elections sb9 0)" "el_client (cl_elections sb9 0) = Some 1" "(0, 1) \<in> cl_open sb9"
  "el_leader (cl_elections sb9 1)" "el_client (cl_elections sb9 1) = Some 0" "(1, 0) \<in> cl_open sb9"
  "cl_locks sb9 LEADER_LOCK_KEY = Some (1, 0)"
  using el_facts sb_locks unfolding sb_elections2
  by (simp_all add: sb9_def sb8_def sb7_def sb6_def sb5_def sb4_def tryAcquireLeaderLock_def)

lemma sb_steps: "cl_step cl3 sb1" "cl_step sb1 sb2" "cl_step sb2 sb3" "cl_step sb3 sb4" "cl_step sb4 sb5" "cl_step sb5 sb6"
  "cl_step sb6 sb7" "cl_step sb7 sb8" "cl_step sb8 sb9"
proof -
  show "cl_step cl3 sb1" unfolding sb1_def by (rule cl_session_ends)
  show "cl_step sb1 sb2" unfolding sb2_def by (rule cl_disconnected)
  show "cl_step sb2 sb3" unfolding sb3_def by (rule cl_recorded [OF sb_facts(1)])
  show "cl_step sb3 sb4" unfolding sb4_def by (rule cl_connected [OF sb_facts(2)])
  show "cl_step sb4 sb5" unfolding sb5_def using cl_query [of sb4 1 "[]" 0 "[]" "fst (tryAcquireLeaderLock (1, 0) (cl_locks sb4))" True] sb_facts(3-5)
    by (simp add: prod_eq_iff)
  show "cl_step sb5 sb6" unfolding sb6_def using cl_answered [of sb5 1 "[]" 0 True "[]"] sb_facts(6,7) by simp
  show "cl_step sb6 sb7" unfolding sb7_def by (rule cl_recorded [OF sb_facts(8)])
  show "cl_step sb7 sb8" unfolding sb8_def by (rule cl_reconnect [OF sb_facts(9)])
  show "cl_step sb8 sb9" unfolding sb9_def by (rule cl_connected [OF sb_facts(10)])
qed

theorem two_live_leaders:
  "\<exists>x. cl_step\<^sup>*\<^sup>* (new_cluster show_nat) x \<and> live_leader x 0 \<and> live_leader x 1 \<and> cl_locks x LEADER_LOCK_KEY = Some (1, 0)"
proof -
  have "cl_step\<^sup>*\<^sup>* (new_cluster show_nat) sb9"
    using cl_steps(1-3) sb_steps by (meson rtranclp.rtrancl_into_rtrancl rtranclp.rtrancl_refl)
  with sb_end show ?thesis unfolding live_leader_def by blast
qed

end
