(* ===== verification/EventStream.thy ===== *)
theory EventStream
  imports StoreProps Handlers Examples
begin

section \<open>The API and the live view of a log (packages/api/src/server.ts, packages/web/src)\<close>

text \<open>
  The routes of the API, the event stream it serves by polling, and the hook of the debugger that
  fetches a log once and then appends what the stream sends. HTTP, JSON on the wire and React are left
  out: a message on the wire is the event it carries, and the wire keeps the order of one connection.
\<close>

subsection \<open>Routes\<close>

definition get_workflows :: "db \<Rightarrow> execution_summary list" where
  "get_workflows d = listWorkflowExecutions 50 d"

definition get_workflow_events :: "string \<Rightarrow> db \<Rightarrow> stored_event list" where
  "get_workflow_events workflowId d = getEvents workflowId d"

text \<open>\<open>date\<close> is \<open>Date.now()\<close> in milliseconds, \<open>workflowId\<close> the random id.\<close>

definition post_workflows :: "clock \<Rightarrow> (db \<Rightarrow> db) \<Rightarrow> string \<Rightarrow> string option \<Rightarrow> nat \<Rightarrow> db \<Rightarrow> string outcome_db" where
  "post_workflows ck between workflowId orderId date d =
     startWorkflow ck between workflowId ''reserve-charge-ship''
       (JObj [(''orderId'', JStr (or_default orderId (''order-'' @ show_nat date)))]) d"

subsection \<open>The stream\<close>

text \<open>
  One connection: \<open>lastSeq\<close>, the polls that await the database (with the \<open>lastSeq\<close> each was issued
  with), and the answers whose loop has not run yet. Polls overlap when a query takes longer than the
  interval.
\<close>

record stream_conn =
  sn_lastSeq :: nat
  sn_queries :: "nat list"
  sn_answers :: "stored_event list list"

definition stream_open :: "nat \<Rightarrow> stream_conn" where
  "stream_open since = \<lparr>sn_lastSeq = since, sn_queries = [], sn_answers = []\<rparr>"

definition stream_tick :: "stream_conn \<Rightarrow> stream_conn" where
  "stream_tick c = c\<lparr>sn_queries := sn_queries c @ [sn_lastSeq c]\<rparr>"

text \<open>\<open>for (const stored of events) { lastSeq = stored.seq; write(stored) }\<close>\<close>

definition stream_write :: "stored_event list \<Rightarrow> stream_conn \<Rightarrow> stream_conn \<times> stored_event list" where
  "stream_write events c = fold (\<lambda>stored (c, out). (c\<lparr>sn_lastSeq := seq stored\<rparr>, out @ [stored])) events (c, [])"

subsection \<open>The view\<close>

text \<open>
  The hook for one workflow: the answer of the first fetch while it is on its way, the events shown,
  the messages on the wire, the \<open>since\<close> of the stream's URL, the connection.
\<close>

record viewer =
  vr_fetched :: "stored_event list option"
  vr_events :: "stored_event list"
  vr_inbox :: "stored_event list"
  vr_since :: nat
  vr_conn :: "stream_conn option"

definition new_viewer :: viewer where
  "new_viewer = \<lparr>vr_fetched = None, vr_events = [], vr_inbox = [], vr_since = 0, vr_conn = None\<rparr>"

definition last_seq :: "stored_event list \<Rightarrow> nat" where
  "last_seq initial = (if 0 < length initial then seq (last initial) else 0)"

text \<open>The continuation of \<open>getWorkflowEvents(workflowId)\<close>.\<close>

definition viewer_loaded :: "stored_event list \<Rightarrow> viewer \<Rightarrow> viewer" where
  "viewer_loaded initial v = v\<lparr>vr_fetched := None, vr_events := initial, vr_since := last_seq initial,
     vr_conn := Some (stream_open (last_seq initial))\<rparr>"

text \<open>The argument of \<open>setEvents\<close>.\<close>

definition merge_event :: "stored_event \<Rightarrow> stored_event list \<Rightarrow> stored_event list" where
  "merge_event ev prev = (if list_ex (\<lambda>e. seq e = seq ev) prev then prev else sort_key seq (prev @ [ev]))"

subsection \<open>Steps\<close>

text \<open>
  A step of the view of workflow \<open>w\<close>, its stream and the database: the fetch is answered and applied, a
  poll is issued, answered and written, a message arrives, the browser reconnects (with the same URL,
  the messages on the wire lost), or someone appends to the store.
\<close>

inductive view_step :: "string \<Rightarrow> viewer \<times> db \<Rightarrow> viewer \<times> db \<Rightarrow> bool" for w where
  view_fetch: "vr_fetched v = None \<Longrightarrow> vr_conn v = None \<Longrightarrow>
     view_step w (v, d) (v\<lparr>vr_fetched := Some (get_workflow_events w d)\<rparr>, d)"
| view_loaded: "vr_fetched v = Some initial \<Longrightarrow> view_step w (v, d) (viewer_loaded initial v, d)"
| view_tick: "vr_conn v = Some c \<Longrightarrow> view_step w (v, d) (v\<lparr>vr_conn := Some (stream_tick c)\<rparr>, d)"
| view_answer: "vr_conn v = Some c \<Longrightarrow> sn_queries c = qs @ s # qs' \<Longrightarrow>
     view_step w (v, d) (v\<lparr>vr_conn := Some (c\<lparr>sn_queries := qs @ qs', sn_answers := sn_answers c @ [getEventsSince w s d]\<rparr>)\<rparr>, d)"
| view_write: "vr_conn v = Some c \<Longrightarrow> sn_answers c = as @ batch # as' \<Longrightarrow>
     stream_write batch (c\<lparr>sn_answers := as @ as'\<rparr>) = (c', out) \<Longrightarrow>
     view_step w (v, d) (v\<lparr>vr_conn := Some c', vr_inbox := vr_inbox v @ out\<rparr>, d)"
| view_deliver: "vr_inbox v = m # ms \<Longrightarrow>
     view_step w (v, d) (v\<lparr>vr_inbox := ms, vr_events := merge_event m (vr_events v)\<rparr>, d)"
| view_reconnect: "vr_conn v = Some c \<Longrightarrow>
     view_step w (v, d) (v\<lparr>vr_conn := Some (stream_open (vr_since v)), vr_inbox := []\<rparr>, d)"
| view_append: "pg_log.grows d d' \<Longrightarrow> view_step w (v, d) (v, d')"

subsection \<open>The specification\<close>

text \<open>What a live view promises: it shows a prefix of the log, which never shrinks while the log grows.\<close>

inductive shows_step :: "nat \<times> stored_event list \<Rightarrow> nat \<times> stored_event list \<Rightarrow> bool" where
  "prefix h h' \<Longrightarrow> k \<le> k' \<Longrightarrow> k' \<le> length h' \<Longrightarrow> shows_step (k, h) (k', h')"

definition shown :: "string \<Rightarrow> viewer \<times> db \<Rightarrow> nat \<times> stored_event list" where
  "shown w x = (length (vr_events (fst x)), getEvents w (snd x))"

end
