(* ===== verification/EventStreamProps.thy ===== *)
theory EventStreamProps
  imports EventStream
begin

section \<open>The live view refines a growing prefix\<close>

text \<open>
  Overlapping polls, messages sent twice, reconnects: the view of the debugger always shows the first
  events of the log without a gap, never goes back, and catches up with one more poll.
\<close>

subsection \<open>Logs as numbered lists\<close>

definition numbered :: "stored_event list \<Rightarrow> bool" where
  "numbered h \<longleftrightarrow> map seq h = [1..<Suc (length h)]"

lemma numbered_log: "db_inv d \<Longrightarrow> numbered (getEvents w d)"
  using db_invD(2) [of d w] by (simp add: numbered_def getEvents_inv log_ok_def)

lemma numbered_seq:
  assumes "numbered h" "i < length h"
  shows "seq (h ! i) = Suc i"
proof -
  have "map seq h ! i = [1..<Suc (length h)] ! i" using assms(1) by (simp add: numbered_def)
  then show ?thesis using assms(2) by (simp del: upt_Suc)
qed

lemma numbered_since:
  assumes "db_inv d"
  shows "getEventsSince w s d = drop s (getEvents w d)"
proof -
  let ?h = "getEvents w d"
  have h: "map snd (filter (\<lambda>r. fst r = w) (db_events d)) = ?h"
    using getEvents_inv [OF assms, of w] by (simp add: log_of_def)
  have n: "numbered ?h" by (rule numbered_log [OF assms])
  have pull: "map snd (filter (\<lambda>r. fst r = w \<and> s < seq (snd r)) xs) = filter (\<lambda>e. s < seq e) (map snd (filter (\<lambda>r. fst r = w) xs))" for xs
    by (induction xs) auto
  have f: "getEventsSince w s d = sort_key seq (filter (\<lambda>e. s < seq e) ?h)"
    unfolding getEventsSince_def pull h ..
  have drop: "filter (\<lambda>e. s < seq e) es = drop (s - m) es" if "map seq es = [Suc m..<Suc m + length es]" for m es
    using that
  proof (induction es arbitrary: m)
    case (Cons e es)
    then have "seq e = Suc m" "map seq es = [Suc (Suc m)..<Suc (Suc m) + length es]"
      by (simp_all add: upt_rec [of "Suc m"] del: upt_Suc)
    with Cons.IH [of "Suc m"] Suc_diff_Suc [of m s] show ?case by (cases "m < s") (simp_all add: Suc_diff_Suc [symmetric])
  qed simp
  have "filter (\<lambda>e. s < seq e) ?h = drop s ?h" using drop [of ?h 0] n by (simp add: numbered_def)
  moreover have "sorted (map seq (drop s ?h))"
    using n unfolding numbered_def drop_map [symmetric] by (metis sorted_wrt_drop sorted_upt)
  ultimately show ?thesis using f by (simp add: sort_key_id_if_sorted)
qed

subsection \<open>Messages on the wire\<close>

text \<open>Messages that, delivered to a view of \<open>k\<close> events, never leave a gap; how far they lead.\<close>

fun gapless :: "stored_event list \<Rightarrow> nat \<Rightarrow> stored_event list \<Rightarrow> bool" where
  "gapless h k [] = True"
| "gapless h k (m # ms) = (\<exists>i < length h. m = h ! i \<and> i \<le> k \<and> gapless h (max k (Suc i)) ms)"

definition reached :: "nat \<Rightarrow> stored_event list \<Rightarrow> nat" where
  "reached k ms = fold (\<lambda>m c. max c (seq m)) ms k"

lemma reached_simps [simp]: "reached k [] = k" "reached k (m # ms) = reached (max k (seq m)) ms"
  by (simp_all add: reached_def)

lemma reached_append [simp]: "reached k (ms @ ns) = reached (reached k ms) ns"
  by (simp add: reached_def)

lemma reached_ge: "k \<le> reached k ms"
proof (induction ms arbitrary: k)
  case (Cons m ms)
  from Cons [of "max k (seq m)"] show ?case by simp
qed simp

lemma gapless_append:
  assumes "numbered h"
  shows "gapless h k (ms @ ns) \<longleftrightarrow> gapless h k ms \<and> gapless h (reached k ms) ns"
proof (induction ms arbitrary: k)
  case (Cons m ms)
  have "i < length h \<Longrightarrow> m = h ! i \<Longrightarrow> seq m = Suc i" for i using numbered_seq [OF assms] by simp
  then show ?case unfolding append_Cons gapless.simps reached_simps Cons by fastforce
qed simp

lemma gapless_grows:
  "gapless h k ms \<Longrightarrow> prefix h h' \<Longrightarrow> gapless h' k ms"
proof (induction ms arbitrary: k)
  case (Cons m ms)
  then obtain i where i: "i < length h" "m = h ! i" "i \<le> k" "gapless h (max k (Suc i)) ms" by auto
  with Cons have "gapless h' (max k (Suc i)) ms" by blast
  moreover have "h ! i = h' ! i" "i < length h'" using i(1) Cons.prems(2) by (auto simp: prefix_def nth_append)
  ultimately show ?case using i by auto
qed simp

lemma gapless_slice:
  assumes "numbered h" "s \<le> k"
  shows "gapless h k (take n (drop s h)) \<and> reached k (take n (drop s h)) = (if take n (drop s h) = [] then k else max k (min (s + n) (length h)))"
  using assms(2)
proof (induction n arbitrary: s k)
  case (Suc n)
  show ?case
  proof (cases "s < length h")
    case True
    then have eq: "take (Suc n) (drop s h) = h ! s # take n (drop (Suc s) h)" by (simp add: Cons_nth_drop_Suc [symmetric])
    have "Suc s \<le> max k (Suc s)" by simp
    note IH = Suc.IH [OF this]
    have "gapless h k (take (Suc n) (drop s h))"
      using IH True Suc.prems unfolding eq by (auto intro!: exI [of _ s])
    moreover have "reached k (take (Suc n) (drop s h)) = max k (min (s + Suc n) (length h))"
      using IH True numbered_seq [OF assms(1) True] unfolding eq
      by (cases "take n (drop (Suc s) h) = []") (auto simp: min_def max_def)
    ultimately show ?thesis using True by simp
  qed simp
qed simp

lemma merge_next:
  assumes n: "numbered h" and k: "k \<le> length h" and i: "i < length h" "i \<le> k"
  shows "merge_event (h ! i) (take k h) = take (max k (Suc i)) h"
proof (cases "i < k")
  case True
  then have "h ! i \<in> set (take k h)" using i k by (auto simp: in_set_conv_nth intro!: exI [of _ i])
  then have "list_ex (\<lambda>e. seq e = seq (h ! i)) (take k h)" by (auto simp: list_ex_iff)
  moreover have "max k (Suc i) = k" using True by simp
  ultimately show ?thesis by (simp add: merge_event_def)
next
  case False
  then have ik: "i = k" using i by simp
  have "seq e \<noteq> Suc k" if "e \<in> set (take k h)" for e
    using that numbered_seq [OF n] k by (auto simp: in_set_conv_nth)
  then have "\<not> list_ex (\<lambda>e. seq e = seq (h ! i)) (take k h)"
    using numbered_seq [OF n i(1)] ik by (auto simp: list_ex_iff)
  moreover have "take k h @ [h ! i] = take (Suc k) h" using i ik by (simp add: take_Suc_conv_app_nth)
  moreover have "sorted (map seq (take (Suc k) h))"
    using n unfolding numbered_def take_map [symmetric] by (metis sorted_wrt_take sorted_upt)
  ultimately show ?thesis using ik by (simp add: merge_event_def sort_key_id_if_sorted)
qed

subsection \<open>The invariant of the view\<close>

definition slice_of :: "stored_event list \<Rightarrow> nat \<Rightarrow> stored_event list \<Rightarrow> bool" where
  "slice_of h c batch \<longleftrightarrow> (\<exists>s n. s \<le> c \<and> batch = take n (drop s h))"

definition conn_ok :: "stored_event list \<Rightarrow> nat \<Rightarrow> stream_conn \<Rightarrow> bool" where
  "conn_ok h c x \<longleftrightarrow> sn_lastSeq x \<le> c \<and> list_all (\<lambda>s. s \<le> c) (sn_queries x) \<and> list_all (slice_of h c) (sn_answers x)"

definition view_inv :: "stored_event list \<Rightarrow> viewer \<Rightarrow> bool" where
  "view_inv h v \<longleftrightarrow> length (vr_events v) \<le> length h \<and> vr_events v = take (length (vr_events v)) h
     \<and> vr_since v \<le> length (vr_events v) \<and> gapless h (length (vr_events v)) (vr_inbox v)
     \<and> (case vr_fetched v of None \<Rightarrow> True | Some f \<Rightarrow> prefix f h)
     \<and> (case vr_conn v of None \<Rightarrow> vr_events v = [] \<and> vr_inbox v = []
        | Some x \<Rightarrow> vr_fetched v = None \<and> conn_ok h (reached (length (vr_events v)) (vr_inbox v)) x)"

lemma slice_mono: "slice_of h c batch \<Longrightarrow> c \<le> c' \<Longrightarrow> slice_of h c' batch"
  unfolding slice_of_def using order_trans by blast

lemma slice_grows:
  assumes "slice_of h c batch" "prefix h h'"
  shows "slice_of h' c batch"
proof -
  obtain s n t where s: "s \<le> c" "batch = take n (drop s h)" "h' = h @ t" using assms by (auto simp: slice_of_def prefix_def)
  have "batch = take (length batch) (drop s h')"
    using s(2,3) by (cases "s \<le> length h") (auto simp: min_def)
  with s(1) show ?thesis unfolding slice_of_def by blast
qed

lemma conn_ok_mono: "conn_ok h c x \<Longrightarrow> c \<le> c' \<Longrightarrow> conn_ok h c' x"
  unfolding conn_ok_def list_all_iff using slice_mono by (meson order_trans)

lemma view_inv_grows:
  assumes "view_inv h v" "prefix h h'"
  shows "view_inv h' v"
proof -
  obtain t where "h' = h @ t" using assms(2) by (auto simp: prefix_def)
  then have "vr_events v = take (length (vr_events v)) h'" "length (vr_events v) \<le> length h'"
    using assms(1) by (simp_all add: view_inv_def)
  moreover have "conn_ok h c x \<Longrightarrow> conn_ok h' c x" for c x
    unfolding conn_ok_def list_all_iff using slice_grows [OF _ assms(2)] by blast
  moreover have "prefix f h'" if "prefix f h" for f using that assms(2) by (rule prefix_order.trans)
  ultimately show ?thesis
    using assms(1) gapless_grows [OF _ assms(2)] by (auto simp: view_inv_def split: option.splits)
qed

lemma stream_write_all:
  "stream_write batch c = (c', out) \<Longrightarrow> out = batch \<and> c' = c\<lparr>sn_lastSeq := (if batch = [] then sn_lastSeq c else seq (last batch))\<rparr>"
proof -
  have "fold (\<lambda>stored (c, out). (c\<lparr>sn_lastSeq := seq stored\<rparr>, out @ [stored])) batch (c :: stream_conn, o0)
      = (c\<lparr>sn_lastSeq := (if batch = [] then sn_lastSeq c else seq (last batch))\<rparr>, o0 @ batch)" for c o0
    by (induction batch arbitrary: c o0) auto
  from this [of c "[]"] show "stream_write batch c = (c', out) \<Longrightarrow> ?thesis"
    unfolding stream_write_def by (simp only: append_Nil prod.inject) auto
qed

lemma slice_last:
  assumes "numbered h" "take n (drop s h) \<noteq> []"
  shows "seq (last (take n (drop s h))) = min (s + n) (length h)"
proof -
  let ?b = "take n (drop s h)"
  have len: "length ?b = min n (length h - s)" "0 < length ?b" using assms(2) by simp_all
  have j: "length ?b - 1 < n" "s + (length ?b - 1) < length h" using len by linarith+
  have "last ?b = ?b ! (length ?b - 1)" using assms(2) by (rule last_conv_nth)
  also have "\<dots> = h ! (s + (length ?b - 1))" using j by simp
  finally have "last ?b = h ! (s + (length ?b - 1))" .
  moreover note j(2)
  ultimately have "seq (last ?b) = Suc (s + (length ?b - 1))" using numbered_seq [OF assms(1)] by simp
  then show ?thesis using len by linarith
qed

lemma view_write_inv:
  assumes n: "numbered h" and inv: "view_inv h v" and c: "vr_conn v = Some c" "sn_answers c = as @ batch # as'"
    and w: "stream_write batch (c\<lparr>sn_answers := as @ as'\<rparr>) = (c', out)"
  shows "view_inv h (v\<lparr>vr_conn := Some c', vr_inbox := vr_inbox v @ out\<rparr>)"
proof -
  let ?k = "length (vr_events v)" and ?r = "reached (length (vr_events v)) (vr_inbox v)"
  have ok: "conn_ok h ?r c" using inv c by (simp add: view_inv_def)
  then obtain s m where b: "s \<le> ?r" "batch = take m (drop s h)" using c(2) by (auto simp: conn_ok_def slice_of_def)
  note sl = gapless_slice [OF n b(1), of m, folded b(2)] and cw = stream_write_all [OF w]
  have last: "batch \<noteq> [] \<Longrightarrow> seq (last batch) \<le> reached ?r batch"
    using slice_last [OF n, of m s] sl b(2) by simp
  have ge: "?r \<le> reached ?r batch" by (rule reached_ge)
  have "conn_ok h (reached ?r batch) (c\<lparr>sn_answers := as @ as'\<rparr>)"
    using conn_ok_mono [OF ok ge] c(2) by (simp add: conn_ok_def)
  then have "conn_ok h (reached ?r batch) c'" using cw last by (auto simp: conn_ok_def)
  moreover have "gapless h ?k (vr_inbox v @ out)"
    using inv sl cw by (simp add: view_inv_def gapless_append [OF n])
  ultimately show ?thesis using inv c cw by (simp add: view_inv_def)
qed

lemma view_deliver_inv:
  assumes n: "numbered h" and inv: "view_inv h v" and m: "vr_inbox v = m # ms"
  shows "view_inv h (v\<lparr>vr_inbox := ms, vr_events := merge_event m (vr_events v)\<rparr>)"
    and "length (vr_events v) \<le> length (merge_event m (vr_events v))"
    and "reached (length (merge_event m (vr_events v))) ms = reached (length (vr_events v)) (vr_inbox v)"
proof -
  let ?k = "length (vr_events v)"
  have k: "?k \<le> length h" "vr_events v = take ?k h" using inv by (simp_all add: view_inv_def)
  obtain i where i: "i < length h" "m = h ! i" "i \<le> ?k" "gapless h (max ?k (Suc i)) ms"
    using inv m by (auto simp: view_inv_def)
  have e: "merge_event m (vr_events v) = take (max ?k (Suc i)) h"
    using merge_next [OF n k(1) i(1,3)] k(2) i(2) by simp
  then have len: "length (merge_event m (vr_events v)) = max ?k (Suc i)" using k(1) i(1) by simp
  then show "?k \<le> length (merge_event m (vr_events v))" by simp
  have sq: "seq m = Suc i" using numbered_seq [OF n i(1)] i(2) by simp
  then show "reached (length (merge_event m (vr_events v))) ms = reached ?k (vr_inbox v)" using len m by simp
  then show "view_inv h (v\<lparr>vr_inbox := ms, vr_events := merge_event m (vr_events v)\<rparr>)"
    using inv i e len k(1) m by (auto simp: view_inv_def split: option.splits)
qed

lemma last_seq_prefix:
  assumes "numbered h" "prefix f h"
  shows "last_seq f = length f"
proof (cases "f = []")
  case False
  obtain t where h: "h = f @ t" using assms(2) by (auto simp: prefix_def)
  have "seq (h ! (length f - 1)) = Suc (length f - 1)"
    by (rule numbered_seq [OF assms(1)]) (use False h in \<open>cases f; simp\<close>)
  moreover have "h ! (length f - 1) = last f" using False h by (simp add: nth_append last_conv_nth)
  ultimately show ?thesis using False by (simp add: last_seq_def)
qed (simp add: last_seq_def)

lemma view_loaded_inv:
  assumes "numbered h" "view_inv h v" "vr_fetched v = Some f"
  shows "view_inv h (viewer_loaded f v)" "vr_events v = []"
proof -
  have f: "prefix f h" "vr_conn v = None" using assms(2,3) by (auto simp: view_inv_def split: option.splits)
  then show "vr_events v = []" using assms(2) by (simp add: view_inv_def)
  from f(1) have "f = take (length f) h" "length f \<le> length h" by (auto simp: prefix_def)
  then show "view_inv h (viewer_loaded f v)"
    using assms(2) f(2) last_seq_prefix [OF assms(1) f(1)]
    by (simp add: view_inv_def viewer_loaded_def stream_open_def conn_ok_def)
qed

lemma view_step_keeps:
  "view_step w x y \<Longrightarrow> db_inv (snd x) \<Longrightarrow> view_inv (getEvents w (snd x)) (fst x) \<Longrightarrow>
   db_inv (snd y) \<and> view_inv (getEvents w (snd y)) (fst y)
   \<and> prefix (getEvents w (snd x)) (getEvents w (snd y)) \<and> length (vr_events (fst x)) \<le> length (vr_events (fst y))"
proof (induction rule: view_step.induct)
  case (view_fetch v d)
  then show ?case by (auto simp: view_inv_def get_workflow_events_def)
next
  case (view_loaded v f d)
  with view_loaded_inv [OF numbered_log [of d w], of v f] show ?case by simp
next
  case (view_tick v c d)
  then show ?case by (simp add: view_inv_def conn_ok_def stream_tick_def)
next
  case (view_answer v c qs s qs' d)
  then have "slice_of (getEvents w d) (reached (length (vr_events v)) (vr_inbox v)) (getEventsSince w s d)"
    unfolding slice_of_def view_inv_def conn_ok_def
    by (intro exI [of _ s] exI [of _ "length (getEvents w d)"]) (simp add: numbered_since)
  with view_answer show ?case by (simp add: view_inv_def conn_ok_def)
next
  case (view_write v c as batch as' c' out d)
  with view_write_inv [OF numbered_log [of d w], of v c as batch as' c' out] show ?case by simp
next
  case (view_deliver v m ms d)
  with view_deliver_inv [OF numbered_log [of d w], of v m ms] show ?case by simp
next
  case (view_reconnect v c d)
  then show ?case by (auto simp: view_inv_def conn_ok_def stream_open_def)
next
  case (view_append d d' v)
  then have d': "db_inv d'" "prefix (getEvents w d) (getEvents w d')"
    using pg_log.grows_good [OF r_into_rtranclp] pg_log.grow_prefix by auto
  with view_inv_grows [OF _ d'(2)] view_append show ?case by simp
qed

lemma view_start: "view_inv h new_viewer"
  by (simp add: view_inv_def new_viewer_def)

lemma view_steps_keep:
  assumes "(view_step w)\<^sup>*\<^sup>* (new_viewer, d0) x" "db_inv d0"
  shows "db_inv (snd x) \<and> view_inv (getEvents w (snd x)) (fst x)"
  using assms(1)
proof (induction rule: rtranclp_induct)
  case base
  show ?case using assms(2) view_start by simp
next
  case (step y z)
  with view_step_keeps [OF step.hyps(2)] show ?case by simp
qed

lemma view_example:
  "\<exists>d'. (view_step ''w1'')\<^sup>*\<^sup>* (new_viewer, fresh_db) (viewer_loaded [] new_viewer, d') \<and> getEvents ''w1'' d' \<noteq> []"
proof -
  have empty: "getEvents ''w1'' fresh_db = []" by (simp add: getEvents_def fresh_db_def)
  from append_events_full [OF fresh_db_inv, of "[WorkflowStarted ''two'' JNull]" "''w1''" clock0]
  obtain d' r where d': "appendEvents clock0 ''w1'' [WorkflowStarted ''two'' JNull] fresh_db = (d', Inr r)"
    "getEvents ''w1'' d' \<noteq> []"
    by (auto simp: fresh_db_def execution_ids_def)
  then have g: "pg_log.grows fresh_db d'" unfolding pg_log.grows_def appends_db_def by blast
  have "view_step ''w1'' (new_viewer, fresh_db) (new_viewer\<lparr>vr_fetched := Some []\<rparr>, fresh_db)"
    using view_fetch [of new_viewer "''w1''" fresh_db] empty by (simp add: new_viewer_def get_workflow_events_def)
  moreover have "view_step ''w1'' (new_viewer\<lparr>vr_fetched := Some []\<rparr>, fresh_db) (viewer_loaded [] new_viewer, fresh_db)"
    using view_loaded [of "new_viewer\<lparr>vr_fetched := Some []\<rparr>" "[]" "''w1''" fresh_db]
    by (simp add: viewer_loaded_def new_viewer_def)
  moreover note view_append [OF g, of "''w1''" "viewer_loaded [] new_viewer"]
  ultimately show ?thesis using d'(2) by (meson converse_rtranclp_into_rtranclp rtranclp.rtrancl_refl)
qed

text \<open>
  C31: The live view refines a growing prefix of the log. In every state the view and its stream can
  reach, with overlapping polls, repeated messages, reconnects and concurrent appends, the events shown
  are the first events of the log, and every further step is a step of the specification: the log only
  grows, the number of events shown never goes down, and it never exceeds the log.
\<close>

theorem view_refines_log:
  assumes "db_inv d0" "(view_step w)\<^sup>*\<^sup>* (new_viewer, d0) x" "view_step w x y"
  shows "vr_events (fst x) = take (fst (shown w x)) (snd (shown w x)) \<and> shows_step (shown w x) (shown w y)"
proof -
  have inv: "db_inv (snd x)" "view_inv (getEvents w (snd x)) (fst x)" using view_steps_keep [OF assms(2,1)] by simp_all
  note k = view_step_keeps [OF assms(3) inv]
  have "vr_events (fst x) = take (fst (shown w x)) (snd (shown w x))" using inv(2) by (simp add: view_inv_def shown_def)
  moreover have "shows_step (shown w x) (shown w y)"
    unfolding shown_def by (rule shows_step.intros) (use k in \<open>simp_all add: view_inv_def\<close>)
  ultimately show ?thesis by blast
qed

theorem view_refines_log_witness:
  "\<exists>d' y. getEvents ''w1'' d' \<noteq> [] \<and> view_step ''w1'' (viewer_loaded [] new_viewer, d') y
     \<and> shows_step (shown ''w1'' (viewer_loaded [] new_viewer, d')) (shown ''w1'' y)"
proof -
  obtain d' where d': "(view_step ''w1'')\<^sup>*\<^sup>* (new_viewer, fresh_db) (viewer_loaded [] new_viewer, d')" "getEvents ''w1'' d' \<noteq> []"
    using view_example by blast
  have "vr_conn (viewer_loaded [] new_viewer) = Some (stream_open 0)" by (simp add: viewer_loaded_def last_seq_def)
  note st = view_tick [OF this, of "''w1''" d']
  from view_refines_log [OF fresh_db_inv d'(1) st] d'(2) st show ?thesis by blast
qed

subsection \<open>Catching up\<close>

text \<open>
  One poll of an open stream against the database \<open>d\<close>, as the code makes it: issued with the stream's
  \<open>lastSeq\<close>, answered, its events written to the wire; and the delivery of all messages on the wire.
\<close>

definition one_poll :: "string \<Rightarrow> db \<Rightarrow> viewer \<Rightarrow> viewer" where
  "one_poll w d v = (case vr_conn v of
     None \<Rightarrow> v
   | Some c \<Rightarrow> (case stream_write (getEventsSince w (sn_lastSeq c) d) c of
       (c', out) \<Rightarrow> v\<lparr>vr_conn := Some c', vr_inbox := vr_inbox v @ out\<rparr>))"

definition deliver_all :: "viewer \<Rightarrow> viewer" where
  "deliver_all v = v\<lparr>vr_inbox := [], vr_events := fold merge_event (vr_inbox v) (vr_events v)\<rparr>"

lemma one_poll_steps:
  assumes "vr_conn v = Some c"
  shows "(view_step w)\<^sup>*\<^sup>* (v, d) (one_poll w d v, d)"
proof -
  let ?b = "getEventsSince w (sn_lastSeq c) d"
  let ?c2 = "c\<lparr>sn_answers := sn_answers c @ [?b]\<rparr>"
  obtain c3 out where w: "stream_write ?b c = (c3, out)" by fastforce
  let ?v1 = "v\<lparr>vr_conn := Some (stream_tick c)\<rparr>" and ?v2 = "v\<lparr>vr_conn := Some ?c2\<rparr>"
  have "view_step w (v, d) (?v1, d)" "view_step w (?v1, d) (?v2, d)" "view_step w (?v2, d) (one_poll w d v, d)"
    using view_tick [OF assms, of w d] view_answer [of ?v1 "stream_tick c" "sn_queries c" "sn_lastSeq c" "[]" w d]
      view_write [of ?v2 ?c2 "sn_answers c" ?b "[]" c3 out w d] w assms
    by (simp_all add: stream_tick_def one_poll_def)
  then show ?thesis by (meson converse_rtranclp_into_rtranclp rtranclp.rtrancl_refl)
qed

lemma deliver_all_steps:
  assumes "numbered (getEvents w d)" "view_inv (getEvents w d) v"
  shows "(view_step w)\<^sup>*\<^sup>* (v, d) (deliver_all v, d) \<and> view_inv (getEvents w d) (deliver_all v)
    \<and> length (vr_events (deliver_all v)) = reached (length (vr_events v)) (vr_inbox v)"
  using assms(2)
proof (induction "vr_inbox v" arbitrary: v)
  case Nil
  then have "deliver_all v = v" by (cases v) (simp add: deliver_all_def)
  with Nil show ?case by simp
next
  case (Cons m ms)
  let ?v = "v\<lparr>vr_inbox := ms, vr_events := merge_event m (vr_events v)\<rparr>"
  have m: "vr_inbox v = m # ms" using Cons(2) by simp
  note dl = view_deliver_inv [OF assms(1) Cons(3) m]
  have eq: "deliver_all ?v = deliver_all v" by (simp add: deliver_all_def m)
  have "(view_step w)\<^sup>*\<^sup>* (?v, d) (deliver_all v, d)" using Cons(1) [of ?v] dl(1) by (simp add: eq)
  with view_deliver [OF m, of w d] have "(view_step w)\<^sup>*\<^sup>* (v, d) (deliver_all v, d)" by (rule converse_rtranclp_into_rtranclp)
  then show ?case using Cons(1) [of ?v] dl by (simp add: eq)
qed

text \<open>
  C32: The live view catches up with one poll. In every reachable state with an open stream, whatever is
  still under way, let the stream poll once and the messages on the wire arrive, with no further append:
  these are steps of the system, and afterwards the view shows the whole log.
\<close>

theorem view_catches_up:
  assumes "db_inv d0" "(view_step w)\<^sup>*\<^sup>* (new_viewer, d0) (v, d)" "vr_conn v \<noteq> None"
  shows "(view_step w)\<^sup>*\<^sup>* (v, d) (deliver_all (one_poll w d v), d)
    \<and> vr_events (deliver_all (one_poll w d v)) = getEvents w d"
proof -
  let ?h = "getEvents w d" and ?r = "reached (length (vr_events v)) (vr_inbox v)"
  obtain c where c: "vr_conn v = Some c" using assms(3) by blast
  have inv: "db_inv d" "view_inv ?h v" using view_steps_keep [OF assms(2,1)] by simp_all
  note n = numbered_log [OF inv(1), of w] and polled = one_poll_steps [OF c, of w d]
  let ?s = "sn_lastSeq c" and ?b = "drop (sn_lastSeq c) ?h"
  obtain c3 out where w: "stream_write ?b c = (c3, out)" by fastforce
  then have p: "one_poll w d v = v\<lparr>vr_conn := Some c3, vr_inbox := vr_inbox v @ out\<rparr>"
    by (simp add: one_poll_def c numbered_since [OF inv(1)])
  have "view_inv ?h (one_poll w d v)" using view_steps_keep [OF rtranclp_trans [OF assms(2) polled] assms(1)] by simp
  from deliver_all_steps [OF n this] have dl: "(view_step w)\<^sup>*\<^sup>* (one_poll w d v, d) (deliver_all (one_poll w d v), d)"
    and all: "view_inv ?h (deliver_all (one_poll w d v))"
    and len: "length (vr_events (deliver_all (one_poll w d v))) = reached (length (vr_events (one_poll w d v))) (vr_inbox (one_poll w d v))"
    by simp_all
  have ok: "?s \<le> ?r" using inv(2) c by (simp add: view_inv_def conn_ok_def)
  have "length ?h \<le> reached ?r ?b"
    using gapless_slice [OF n ok, of "length ?h"] ok by (auto simp: max_def min_def)
  then have "length ?h \<le> length (vr_events (deliver_all (one_poll w d v)))"
    using len stream_write_all [OF w] by (simp add: p)
  then have "vr_events (deliver_all (one_poll w d v)) = ?h" using all by (simp add: view_inv_def)
  with polled dl show ?thesis by (meson rtranclp_trans)
qed

theorem view_catches_up_witness:
  "\<exists>d'. getEvents ''w1'' d' \<noteq> [] \<and> vr_events (viewer_loaded [] new_viewer) = []
     \<and> vr_events (deliver_all (one_poll ''w1'' d' (viewer_loaded [] new_viewer))) = getEvents ''w1'' d'"
proof -
  obtain d' where d': "(view_step ''w1'')\<^sup>*\<^sup>* (new_viewer, fresh_db) (viewer_loaded [] new_viewer, d')" "getEvents ''w1'' d' \<noteq> []"
    using view_example by blast
  have "vr_conn (viewer_loaded [] new_viewer) \<noteq> None" by (simp add: viewer_loaded_def)
  from view_catches_up [OF fresh_db_inv d'(1) this] d'(2) show ?thesis by (auto simp: viewer_loaded_def new_viewer_def)
qed

end
