(* ===== verification/Requests.thy ===== *)
theory Requests
  imports CalmSystem LlmHandlerProps
begin

section \<open>The request of an open LLM step at any later time\<close>

text \<open>
  \<open>llm_request_recovered\<close> speaks of the history a replay run leaves. The LLM worker reads the history
  later, when other events may have followed. While replays of one workflow do not overlap and its code
  stays the same, what it derives for a step without an outcome is still the request of the call.
\<close>

definition llm_calls_of :: "wf_call list \<Rightarrow> llm_request list" where
  "llm_calls_of cs = List.map_filter llm_request_of cs"

lemma llm_calls_snoc: "llm_calls_of (cs @ [c]) = llm_calls_of cs @ (case llm_request_of c of Some r \<Rightarrow> [r] | None \<Rightarrow> [])"
  by (simp add: llm_calls_of_def map_filter_append List.map_filter_simps split: option.splits)

text \<open>
  After the calls \<open>cs\<close>: the recorded LLM step \<open>i\<close> has the step id and the hash of the \<open>i\<close>-th LLM call, and
  that call is pending if the step has no outcome.
\<close>

definition llm_in_flight :: "replay_index \<Rightarrow> (string \<Rightarrow> string) \<Rightarrow> pass_state \<Rightarrow> llm_request list \<Rightarrow> bool" where
  "llm_in_flight ix sha s rs \<longleftrightarrow> ps_llmCallIndex s = length rs
     \<and> (ps_nonDeterminismError s = None \<longrightarrow>
         (\<forall>i < length rs. i < length (ri_llmRequestedEvents ix) \<longrightarrow>
           (\<exists>h st rq m. event (ri_llmRequestedEvents ix ! i) = LLM_REQUESTED (llm_step_id i) h st rq m \<and> h = hashLlmRequest sha (rs ! i))
           \<and> (ri_llmOutcomeBySeq ix (seq (ri_llmRequestedEvents ix ! i)) = None \<longrightarrow>
               (llm_step_id i, rs ! i) \<in> set (ps_pendingLlmRequests s))))"

lemma no_llm_in_flight:
  assumes "llm_in_flight ix sha s rs" "llm_request_of c = None"
  shows "llm_in_flight ix sha (fst (issue ix c s)) rs"
proof -
  have "\<forall>r. c \<noteq> LlmCall r" using assms(2) by auto
  from issue_no_llm_call [OF this, of ix s] have "ps_llmCallIndex (fst (issue ix c s)) = ps_llmCallIndex s"
    "ps_pendingLlmRequests (fst (issue ix c s)) = ps_pendingLlmRequests s" by blast+
  moreover have "ps_nonDeterminismError s = None" if "ps_nonDeterminismError (fst (issue ix c s)) = None"
    using that issue_error_kept by blast
  ultimately show ?thesis using assms(1) unfolding llm_in_flight_def by auto
qed

lemma llm_recorded_event:
  assumes "well_indexed ix" "i < length (ri_llmRequestedEvents ix)"
  obtains j h st rq m where "event (ri_llmRequestedEvents ix ! i) = LLM_REQUESTED j h st rq m"
proof -
  have "isLlmRequested (ri_llmRequestedEvents ix ! i)" using assms by (simp add: well_indexed_def list_all_length)
  then show thesis using that by (cases "event (ri_llmRequestedEvents ix ! i)") auto
qed

lemma one_llm_in_flight:
  assumes h: "ri_hash ix = Some sha" and w: "well_indexed ix" and s: "llm_in_flight ix sha s rs"
  shows "llm_in_flight ix sha (fst (issue ix (LlmCall r) s)) (rs @ [r])"
proof -
  let ?t = "fst (issue ix (LlmCall r) s)" and ?R = "ri_llmRequestedEvents ix" and ?n = "length rs"
  have n: "ps_llmCallIndex s = ?n" using s by (simp add: llm_in_flight_def)
  have keep: "ps_nonDeterminismError s = None" if "ps_nonDeterminismError ?t = None" using that issue_error_kept by blast
  have sub: "set (ps_pendingLlmRequests s) \<subseteq> set (ps_pendingLlmRequests ?t)"
    using issue_llm_call(2) [OF h, of r s] by auto
  have new: "(\<exists>h st rq m. event (?R ! ?n) = LLM_REQUESTED (llm_step_id ?n) h st rq m \<and> h = hashLlmRequest sha r)
      \<and> (ri_llmOutcomeBySeq ix (seq (?R ! ?n)) = None \<longrightarrow> (llm_step_id ?n, r) \<in> set (ps_pendingLlmRequests ?t))"
    if "ps_nonDeterminismError ?t = None" "?n < length ?R"
  proof -
    note rec = llm_recorded_event [OF w that(2)]
    obtain j x st rq m where e: "event (?R ! ?n) = LLM_REQUESTED j x st rq m" by (rule rec)
    show ?thesis using that n e
      by (auto simp: issue_eq(4) [OF h] Let_def js_at_conv hashLlmRequest_def split: if_splits option.splits)
  qed
  have "ps_llmCallIndex ?t = length (rs @ [r])" using issue_llm_call(1) [OF h] n by simp
  moreover have "(\<exists>h st rq m. event (?R ! i) = LLM_REQUESTED (llm_step_id i) h st rq m \<and> h = hashLlmRequest sha ((rs @ [r]) ! i))
      \<and> (ri_llmOutcomeBySeq ix (seq (?R ! i)) = None \<longrightarrow> (llm_step_id i, (rs @ [r]) ! i) \<in> set (ps_pendingLlmRequests ?t))"
    if t: "ps_nonDeterminismError ?t = None" and i: "i < length (rs @ [r])" "i < length ?R" for i
  proof (cases "i = ?n")
    case True
    then show ?thesis using new t i by simp
  next
    case False
    then have "i < ?n" using i(1) by simp
    then show ?thesis using s keep [OF t] i(2) sub unfolding llm_in_flight_def by (auto simp: nth_append)
  qed
  ultimately show ?thesis unfolding llm_in_flight_def by blast
qed

lemma pass_in_flight:
  assumes "ri_hash ix = Some sha" "well_indexed ix"
  shows "llm_in_flight ix sha (issue_all ix cs initial_pass) (llm_calls_of cs)"
proof (induction cs rule: rev_induct)
  case Nil
  show ?case by (simp add: llm_in_flight_def initial_pass_def llm_calls_of_def List.map_filter_simps)
next
  case (snoc c cs)
  have eq: "issue_all ix (cs @ [c]) initial_pass = fst (issue ix c (issue_all ix cs initial_pass))" by (simp add: issue_all_def)
  show ?case
  proof (cases "llm_request_of c")
    case None
    then show ?thesis unfolding eq llm_calls_snoc using no_llm_in_flight [OF snoc.IH] by simp
  next
    case (Some r)
    then have "c = LlmCall r" by (cases c) simp_all
    then show ?thesis unfolding eq llm_calls_snoc using one_llm_in_flight [OF assms snoc.IH] by simp
  qed
qed

text \<open>The keys of the pending requests of a pass are distinct.\<close>

lemma pending_distinct:
  assumes "replay f inp h (Some sha) = Inr r"
  shows "distinct (map fst (rr_pendingLlmRequests r))"
proof -
  have "llm_steps_ok sha initial_pass" by (simp add: llm_steps_ok_def llm_pairs_def initial_pass_def List.map_filter_simps)
  then have "llm_steps_ok sha (fst (pass_end f inp h (Some sha)))"
    unfolding pass_end_state by (rule issue_all_llm_steps [rotated]) simp
  then show ?thesis using replay_Inr [OF assms] by (simp add: llm_steps_ok_def llm_pairs_def)
qed

text \<open>
  The LLM worker finds the request again, however late. In every state that the processes can reach while
  replays of one workflow and runs of one activity do not overlap and the code of the workflow stays the
  same, a recorded LLM step is the \<open>i\<close>-th LLM call of the function for some \<open>i\<close>: it has its step id and the
  hash of its request. While the step has no outcome, the request derived for it is that of the call; so the
  LLM worker resolves the step to exactly it, unless the prompt was stored in full.
\<close>

theorem open_request_derived:
  assumes "calm_reachable code sha d" "find_map started_of (getEvents w d) = Some (ty, inp)" "code ty = Some fn"
    and "registry_get wfs ty = Some fn" "e \<in> set (getEvents w d)" "llm_requested_of e = Some q"
  shows "\<exists>i. i < length (llm_calls_of (pass_calls fn inp (getEvents w d) (Some sha)))
    \<and> lrq_stepId q = llm_step_id i
    \<and> lrq_requestHash q = hashLlmRequest sha (llm_calls_of (pass_calls fn inp (getEvents w d) (Some sha)) ! i)
    \<and> (\<not> has_outcome llm_outcome_types (seq e) (getEvents w d) \<longrightarrow>
        derive_request (getEvents w d) q wfs sha = Inr (llm_calls_of (pass_calls fn inp (getEvents w d) (Some sha)) ! i)
      \<and> (lrq_requestStorage q \<noteq> StFull \<longrightarrow>
          resolveRequest (getEvents w d) q wfs sha = Inr (llm_calls_of (pass_calls fn inp (getEvents w d) (Some sha)) ! i)))"
proof -
  let ?h = "getEvents w d" and ?ix = "index_history (Some sha) (getEvents w d)"
  let ?rs = "llm_calls_of (pass_calls fn inp ?h (Some sha))" and ?R = "filter isLlmRequested ?h"
  let ?s = "fst (pass_end fn inp ?h (Some sha))"
  have settled: "settled_pass fn inp ?h (Some sha)"
    using grown_good [OF calm_grown [OF assms(1-3)]] by (simp add: good_history_def)
  obtain r where r: "replay fn inp ?h (Some sha) = Inr r" using settled_pass_replay [OF settled] by blast
  have fl: "llm_in_flight ?ix sha ?s ?rs"
    unfolding pass_end_state by (rule pass_in_flight) simp_all
  have ok: "ps_nonDeterminismError ?s = None" "length ?R \<le> length ?rs"
    using settled fl by (simp_all add: settled_pass_def caught_up_def llm_in_flight_def index_fields(3))
  have "isLlmRequested e" using assms(6) by (cases "event e") auto
  then have "e \<in> set ?R" using assms(5) by simp
  then obtain i where i: "i < length ?R" "?R ! i = e" by (metis in_set_conv_nth)
  with fl ok have step: "\<exists>h st rq m. event e = LLM_REQUESTED (llm_step_id i) h st rq m \<and> h = hashLlmRequest sha (?rs ! i)"
    "ri_llmOutcomeBySeq ?ix (seq e) = None \<Longrightarrow> (llm_step_id i, ?rs ! i) \<in> set (ps_pendingLlmRequests ?s)"
    unfolding llm_in_flight_def index_fields by auto
  have q: "lrq_stepId q = llm_step_id i" "lrq_requestHash q = hashLlmRequest sha (?rs ! i)"
    using step(1) assms(6) by auto
  have derived: "derive_request ?h q wfs sha = Inr (?rs ! i)" if "\<not> has_outcome llm_outcome_types (seq e) ?h"
  proof -
    have "\<not> answered_at TLlm (seq e) ?h"
    proof
      assume "answered_at TLlm (seq e) ?h"
      then obtain x where "x \<in> set ?h" "answers (event x) = Some TLlm" "event_ref (event x) = Some (seq e)" unfolding answered_at_def by blast
      with that show False by (cases "event x") (auto simp: has_outcome_def list_ex_iff llm_outcome_types_def)
    qed
    then have "ri_llmOutcomeBySeq ?ix (seq e) = None"
      using outcome_answers(2) [of ?h "seq e"] unfolding index_history_def by (cases "foldl llm_outcome_step Map.empty ?h (seq e)") simp_all
    from step(2) [OF this] have "map_of (rr_pendingLlmRequests r) (llm_step_id i) = Some (?rs ! i)"
      using pending_distinct [OF r] replay_Inr [OF r] by (simp add: map_of_eq_Some_iff)
    then show ?thesis using assms(2,4) r q by (simp add: derive_request_def)
  qed
  then have "resolveRequest ?h q wfs sha = Inr (?rs ! i)"
    if "\<not> has_outcome llm_outcome_types (seq e) ?h" "lrq_requestStorage q \<noteq> StFull"
    using that by (auto simp: resolveRequest_def split: llm_request_storage.splits)
  with i(1) ok(2) q derived show ?thesis by (intro exI [of _ i]) auto
qed

end
