(* ===== verification/DebugView.thy ===== *)
theory DebugView
  imports SystemInv EventStream
begin

section \<open>The debugger's view of a history (packages/web/src: llmView.ts, DagView.tsx, WorkflowDetail.tsx)\<close>

text \<open>
  The view models of the debugger: the DAG of the steps with their status at a position of the
  scrubber, the details of LLM and tool events, the badge of a completion that a later replay reused,
  and what the page of a workflow computes from them. Markup, styles and React are left out: a node is
  its id, row, label and colour.
\<close>

subsection \<open>Texts\<close>

definition show_int :: "int \<Rightarrow> string" where
  "show_int i = (if i < 0 then ''-'' @ show_nat (nat (- i)) else show_nat (nat i))"

definition pad0 :: "nat \<Rightarrow> int \<Rightarrow> string" where
  "pad0 n i = padStart n (CHR ''0'') (show_int i)"

text \<open>\<open>Date.prototype.toISOString\<close> of an instant: the proleptic Gregorian calendar, days counted from March.\<close>

definition civil_date :: "int \<Rightarrow> int \<times> int \<times> int" where
  "civil_date days = (let z = days + 719468; doe = z mod 146097;
     yoe = (doe - doe div 1460 + doe div 36524 - doe div 146096) div 365;
     doy = doe - (365 * yoe + yoe div 4 - yoe div 100);
     mp = (5 * doy + 2) div 153; m = (if mp < 10 then mp + 3 else mp - 9) in
     (yoe + 400 * (z div 146097) + (if m \<le> 2 then 1 else 0), m, doy - (153 * mp + 2) div 5 + 1))"

definition iso_string :: "int \<Rightarrow> string" where
  "iso_string t = (case civil_date (t div 86400000) of (y, m, d) \<Rightarrow> let r = t mod 86400000 in
     (if 0 \<le> y \<and> y \<le> 9999 then pad0 4 y else (if y < 0 then ''-'' else ''+'') @ pad0 6 \<bar>y\<bar>)
     @ ''-'' @ pad0 2 m @ ''-'' @ pad0 2 d @ ''T'' @ pad0 2 (r div 3600000) @ '':'' @ pad0 2 (r div 60000 mod 60)
     @ '':'' @ pad0 2 (r div 1000 mod 60) @ ''.'' @ pad0 3 (r mod 1000) @ ''Z'')"

text \<open>\<open>n.toFixed(6)\<close> of a number below \<open>10^21\<close>: the nearest multiple of a millionth, the larger of two.\<close>

definition to_fixed6 :: "js_num \<Rightarrow> string" where
  "to_fixed6 n = (case n of JNaN \<Rightarrow> ''NaN'' | JFin x \<Rightarrow>
     (let k = nat \<lfloor>\<bar>x\<bar> * 1000000 + 1 / 2\<rfloor> in
      (if x < 0 then ''-'' else '''') @ show_nat (k div 1000000) @ ''.'' @ padStart 6 (CHR ''0'') (show_nat (k mod 1000000))))"

text \<open>\<open>JSON.stringify(v, null, 2)\<close>: members on lines of their own, indented by two spaces per level.\<close>

definition json_block :: "string \<Rightarrow> string \<Rightarrow> string \<Rightarrow> string list \<Rightarrow> string" where
  "json_block indent l r parts = (if parts = [] then l @ r
     else l @ newline @ indent @ ''  '' @ js_join ('','' @ newline @ indent @ ''  '') parts @ newline @ indent @ r)"

definition pretty_member :: "string \<times> string option \<Rightarrow> string option" where
  "pretty_member kv = map_option (\<lambda>t. json_string (fst kv) @ '': '' @ t) (snd kv)"

fun pretty :: "string \<Rightarrow> jsval \<Rightarrow> string option" where
  "pretty indent JUndef = None"
| "pretty indent (JArr vs) = Some (json_block indent ''['' '']''
     (map (\<lambda>v. case pretty (indent @ ''  '') v of None \<Rightarrow> ''null'' | Some t \<Rightarrow> t) vs))"
| "pretty indent (JObj kvs) = Some (json_block indent ''{'' ''}'' (List.map_filter pretty_member
     (obj_order (map (\<lambda>(k, v). (k, pretty (indent @ ''  '') v)) kvs))))"
| "pretty indent (JToJson v) = (case v of JToJson w \<Rightarrow> Some ''{}'' | _ \<Rightarrow> pretty indent v)"
| "pretty indent v = stringify v"

definition json_text :: "jsval \<Rightarrow> string" where
  "json_text v = or_default (pretty '''' v) ''null''"

subsection \<open>The steps of the DAG\<close>

datatype step_kind = KindActivity | KindTimer | KindLlm | KindTool

record dag_step =
  dg_seq :: nat
  dg_kind :: step_kind
  dg_label :: string

definition toDagStep :: "stored_event \<Rightarrow> dag_step option" where
  "toDagStep e = (case event e of
     ActivityScheduled activityType i \<Rightarrow> Some \<lparr>dg_seq = seq e, dg_kind = KindActivity, dg_label = activityType\<rparr>
   | TimerScheduled fireAt \<Rightarrow>
       Some \<lparr>dg_seq = seq e, dg_kind = KindTimer, dg_label = ''timer (fires '' @ iso_string fireAt @ '')''\<rparr>
   | LLM_REQUESTED stepId h st rq m \<Rightarrow> Some \<lparr>dg_seq = seq e, dg_kind = KindLlm, dg_label = ''LLM '' @ stepId\<rparr>
   | TOOL_REQUESTED stepId tool a h m \<Rightarrow>
       Some \<lparr>dg_seq = seq e, dg_kind = KindTool, dg_label = ''tool '' @ tool @ '' ('' @ stepId @ '')''\<rparr>
   | _ \<Rightarrow> None)"

subsection \<open>Replayed completions\<close>

definition DECISION_TYPES :: "string list" where
  "DECISION_TYPES = [''ActivityScheduled'', ''TimerScheduled'', ''LLM_REQUESTED'', ''TOOL_REQUESTED'',
     ''WorkflowCompleted'', ''WorkflowFailed'']"

definition last_decision_seq :: "stored_event list \<Rightarrow> nat" where
  "last_decision_seq events = foldl (\<lambda>m e. if event_type (event e) \<in> set DECISION_TYPES then max m (seq e) else m) 0 events"

definition replayedStepSeqs :: "stored_event list \<Rightarrow> nat set" where
  "replayedStepSeqs events = set (map seq (filter (\<lambda>e. event_type (event e) \<in> {''LLM_COMPLETED'', ''TOOL_COMPLETED''}
     \<and> seq e < last_decision_seq events) events))"

subsection \<open>Details of an event\<close>

record step_detail =
  sd_title :: string
  sd_badges :: "string list"
  sd_rows :: "(string \<times> string) list"
  sd_blocks :: "(string \<times> string) list"

fun storage_text :: "llm_request_storage \<Rightarrow> string" where
  "storage_text StFull = ''full''"
| "storage_text StRedacted = ''redacted''"
| "storage_text StTruncated = ''truncated''"
| "storage_text StNone = ''none''"

definition prompt_text :: "llm_request option \<Rightarrow> string" where
  "prompt_text request = (case request of
     Some rq \<Rightarrow> js_join (newline @ newline) (map (\<lambda>m. m_role m @ '': '' @ m_content m) (rq_messages rq))
   | None \<Rightarrow> ''(prompt not stored '' @ em_dash @ '' hash only)'')"

definition retry_badge :: "bool \<Rightarrow> string list" where
  "retry_badge retryable = [if retryable then ''retryable'' else ''non-retryable'']"

definition describeStepEvent :: "stored_event \<Rightarrow> bool \<Rightarrow> step_detail option" where
  "describeStepEvent e replayed = (case event e of
     LLM_REQUESTED stepId requestHash storage request maxAttempts \<Rightarrow> Some
       \<lparr>sd_title = ''LLM request '' @ stepId, sd_badges = (if storage = StFull then [] else [storage_text storage]),
        sd_rows = [(''model'', case request of Some rq \<Rightarrow> rq_model rq | None \<Rightarrow> ''(not stored)''),
          (''request hash'', take 12 requestHash), (''storage'', storage_text storage), (''max attempts'', show_nat maxAttempts)],
        sd_blocks = [(''prompt'', prompt_text request)]\<rparr>
   | LLM_COMPLETED stepId n h txt calls truncated model tin tout latency cost attempt \<Rightarrow> Some
       \<lparr>sd_title = ''LLM response '' @ stepId,
        sd_badges = (if replayed then [''replayed''] else []) @ (if truncated then [''truncated''] else []),
        sd_rows = [(''model'', model), (''tokens in / out'', show_nat tin @ '' / '' @ show_nat tout),
          (''latency'', show_int latency @ '' ms''),
          (''est. cost'', case cost of None \<Rightarrow> ''unknown price'' | Some c \<Rightarrow> ''$'' @ to_fixed6 c), (''attempt'', show_nat attempt)],
        sd_blocks = (''response'', txt)
          # (if 0 < length calls then [(''tool calls'', json_text (JArr (map tool_call_js calls)))] else [])\<rparr>
   | LLM_FAILED stepId n error code retryable attempts \<Rightarrow> Some
       \<lparr>sd_title = ''LLM failed '' @ stepId, sd_badges = retry_badge retryable,
        sd_rows = [(''code'', code), (''attempts'', show_nat attempts)], sd_blocks = [(''error'', error)]\<rparr>
   | TOOL_REQUESTED stepId tool args argsHash maxAttempts \<Rightarrow> Some
       \<lparr>sd_title = ''Tool request '' @ stepId, sd_badges = [],
        sd_rows = [(''tool'', tool), (''args hash'', take 12 argsHash), (''max attempts'', show_nat maxAttempts)],
        sd_blocks = [(''arguments'', json_text args)]\<rparr>
   | TOOL_COMPLETED stepId n tool result latency attempt \<Rightarrow> Some
       \<lparr>sd_title = ''Tool result '' @ stepId, sd_badges = (if replayed then [''replayed''] else []),
        sd_rows = [(''tool'', tool), (''latency'', show_int latency @ '' ms''), (''attempt'', show_nat attempt)],
        sd_blocks = [(''result'', json_text result)]\<rparr>
   | TOOL_FAILED stepId n tool error code retryable attempts \<Rightarrow> Some
       \<lparr>sd_title = ''Tool failed '' @ stepId, sd_badges = retry_badge retryable,
        sd_rows = [(''tool'', tool), (''code'', code), (''attempts'', show_nat attempts)], sd_blocks = [(''error'', error)]\<rparr>
   | _ \<Rightarrow> None)"

subsection \<open>The DAG\<close>

fun act_status_text :: "activity_status \<Rightarrow> string" where
  "act_status_text ActSCHEDULED = ''SCHEDULED''"
| "act_status_text ActCOMPLETED = ''COMPLETED''"
| "act_status_text ActFAILED = ''FAILED''"

fun timer_status_text :: "timer_status \<Rightarrow> string" where
  "timer_status_text TmSCHEDULED = ''SCHEDULED''"
| "timer_status_text TmFIRED = ''FIRED''"

fun call_status_text :: "call_status \<Rightarrow> string" where
  "call_status_text CallREQUESTED = ''REQUESTED''"
| "call_status_text CallCOMPLETED = ''COMPLETED''"
| "call_status_text CallFAILED = ''FAILED''"

definition statusColor :: "string option \<Rightarrow> string" where
  "statusColor status = (case status of None \<Rightarrow> ''#e5e7eb'' | Some s \<Rightarrow>
     if s \<in> {''COMPLETED'', ''FIRED''} then ''#bbf7d0'' else if s = ''FAILED'' then ''#fecaca''
     else if s \<in> {''SCHEDULED'', ''REQUESTED''} then ''#fef08a'' else ''#e5e7eb'')"

definition node_status :: "dag_step \<Rightarrow> wf_state \<Rightarrow> string option" where
  "node_status step state = (case dg_kind step of
     KindActivity \<Rightarrow> map_option (\<lambda>a. act_status_text (as_status a)) (st_activities state (dg_seq step))
   | KindTimer \<Rightarrow> map_option (\<lambda>t. timer_status_text (tm_status t)) (st_timers state (dg_seq step))
   | KindLlm \<Rightarrow> map_option (\<lambda>c. call_status_text (ls_status c)) (st_llmCalls state (dg_seq step))
   | KindTool \<Rightarrow> map_option (\<lambda>c. call_status_text (ts_status c)) (st_toolCalls state (dg_seq step)))"

record dag_node =
  nd_id :: string
  nd_y :: nat
  nd_label :: string
  nd_background :: string

definition dag_nodes :: "dag_step list \<Rightarrow> wf_state \<Rightarrow> dag_node list" where
  "dag_nodes steps state = map (\<lambda>(i, step). \<lparr>nd_id = show_nat (dg_seq step), nd_y = i * 90,
     nd_label = dg_label step @ '' ('' @ or_default (node_status step state) ''not yet reached'' @ '')'',
     nd_background = statusColor (node_status step state)\<rparr>) (zip [0..<length steps] steps)"

definition dag_edges :: "dag_step list \<Rightarrow> (string \<times> string \<times> string) list" where
  "dag_edges steps = map (\<lambda>(source, target). (''e'' @ show_nat (dg_seq source) @ ''-'' @ show_nat (dg_seq target),
     show_nat (dg_seq source), show_nat (dg_seq target))) (zip steps (tl steps))"

subsection \<open>The page of a workflow\<close>

record detail_page =
  dp_position :: nat
  dp_state :: wf_state
  dp_nodes :: "dag_node list"
  dp_edges :: "(string \<times> string \<times> string) list"
  dp_details :: "step_detail option list"

text \<open>\<open>scrubberPos\<close> is \<open>None\<close> while the page follows the log; the fold may throw while rendering.\<close>

definition workflow_detail :: "stored_event list \<Rightarrow> nat option \<Rightarrow> js_error + detail_page" where
  "workflow_detail events scrubberPos =
     (let pos = or_default scrubberPos (length events); visible = take pos events in
      case foldEvents visible of
        Inl e \<Rightarrow> Inl e
      | Inr state \<Rightarrow> (let steps = List.map_filter toDagStep events; replayed = replayedStepSeqs visible in
          Inr \<lparr>dp_position = pos, dp_state = state, dp_nodes = dag_nodes steps state, dp_edges = dag_edges steps,
               dp_details = map (\<lambda>e. describeStepEvent e (seq e \<in> replayed)) events\<rparr>))"
end
