(* ===== verification/DebugProps.thy ===== *)
theory DebugProps
  imports DebugView SystemProps
begin

section \<open>What the debugger shows\<close>

subsection \<open>The status of a step from the events alone\<close>

text \<open>The kind of task of a node, its status before and after outcomes.\<close>

fun kind_task :: "step_kind \<Rightarrow> task_type" where
  "kind_task KindActivity = TActivity"
| "kind_task KindTimer = TTimer"
| "kind_task KindLlm = TLlm"
| "kind_task KindTool = TTool"

fun asked_text :: "step_kind \<Rightarrow> string" where
  "asked_text KindActivity = ''SCHEDULED''"
| "asked_text KindTimer = ''SCHEDULED''"
| "asked_text KindLlm = ''REQUESTED''"
| "asked_text KindTool = ''REQUESTED''"

fun outcome_text :: "wf_event \<Rightarrow> string" where
  "outcome_text (TimerFired n) = ''FIRED''"
| "outcome_text (ActivityFailed n e) = ''FAILED''"
| "outcome_text (LLM_FAILED a n b c d e) = ''FAILED''"
| "outcome_text (TOOL_FAILED a n b c d e f) = ''FAILED''"
| "outcome_text _ = ''COMPLETED''"

definition answers_step :: "step_kind \<Rightarrow> nat \<Rightarrow> stored_event \<Rightarrow> bool" where
  "answers_step k n e \<longleftrightarrow> answers (event e) = Some (kind_task k) \<and> event_ref (event e) = Some n"

definition log_step_status :: "dag_step \<Rightarrow> stored_event list \<Rightarrow> string option" where
  "log_step_status step visible =
     (if list_ex (\<lambda>e. seq e = dg_seq step) visible then
        (case filter (answers_step (dg_kind step) (dg_seq step)) visible of
           [] \<Rightarrow> Some (asked_text (dg_kind step)) | es \<Rightarrow> Some (outcome_text (event (last es))))
      else None)"

lemma fold_status:
  assumes "\<And>e x. g (u e x) = (if P e then v e else g x)"
  shows "g (fold u es a) = (case filter P es of [] \<Rightarrow> g a | xs \<Rightarrow> v (last xs))"
  by (induction es arbitrary: a) (auto simp: assms split: list.splits)

lemma status_steps:
  "act_status_text (as_status (act.updates n e a)) = (if answers_step KindActivity n e then outcome_text (event e) else act_status_text (as_status a))"
  "timer_status_text (tm_status (tim.updates n e t)) = (if answers_step KindTimer n e then outcome_text (event e) else timer_status_text (tm_status t))"
  "call_status_text (ls_status (llm.updates n e c)) = (if answers_step KindLlm n e then outcome_text (event e) else call_status_text (ls_status c))"
  "call_status_text (ts_status (tool.updates n e s)) = (if answers_step KindTool n e then outcome_text (event e) else call_status_text (ts_status s))"
  unfolding act.updates_def tim.updates_def llm.updates_def tool.updates_def answers_step_def
  by (cases "event e"; simp)+

lemma node_of_log:
  assumes fold: "foldEvents (pre @ e # post) = Inr s" and step: "toDagStep e = Some st"
    and once: "\<forall>e' \<in> set post. seq e' \<noteq> seq e"
  shows "node_status st s = (case filter (answers_step (dg_kind st) (seq e)) post of
     [] \<Rightarrow> Some (asked_text (dg_kind st)) | es \<Rightarrow> Some (outcome_text (event (last es))))"
proof -
  note entry = act.entry_of_log [OF fold] tim.entry_of_log [OF fold] llm.entry_of_log [OF fold] tool.entry_of_log [OF fold]
  note opens = act.opens_at_def tim.opens_at_def llm.opens_at_def tool.opens_at_def
  note fs = fold_status [of "\<lambda>a. act_status_text (as_status a)", OF status_steps(1)]
    fold_status [of "\<lambda>a. timer_status_text (tm_status a)", OF status_steps(2)]
    fold_status [of "\<lambda>a. call_status_text (ls_status a)", OF status_steps(3)]
    fold_status [of "\<lambda>a. call_status_text (ts_status a)", OF status_steps(4)]
  show ?thesis
    using step once by (cases "event e") (auto simp: toDagStep_def node_status_def entry fs opens list_all_iff split: list.splits)
qed

lemma node_not_reached:
  assumes "foldEvents es = Inr s" "\<forall>e \<in> set es. seq e \<noteq> dg_seq st"
  shows "node_status st s = None"
  using assms(2) act.no_entry [OF assms(1)] tim.no_entry [OF assms(1)] llm.no_entry [OF assms(1)] tool.no_entry [OF assms(1)]
  by (auto simp: node_status_def act.opens_at_def tim.opens_at_def llm.opens_at_def tool.opens_at_def list_all_iff split: step_kind.splits)

lemma log_split:
  assumes "db_inv d" "e \<in> set (getEvents w d)"
  obtains pre post where "getEvents w d = pre @ e # post"
    "\<forall>e' \<in> set pre. seq e' < seq e" "\<forall>e' \<in> set post. seq e < seq e'" "length pre < seq e"
    "seq e = Suc (length pre)"
proof -
  from assms(2) obtain pre post where h: "getEvents w d = pre @ e # post" by (auto simp: in_set_conv_decomp)
  have m: "map seq (getEvents w d) = [1..<Suc (length (getEvents w d))]"
    using db_invD(2) [OF assms(1), of w] by (simp add: getEvents_log log_ok_def)
  then have s: "sorted_wrt (<) (map seq (getEvents w d))" by (simp add: sorted_wrt_upt del: upt_Suc)
  have "map seq (getEvents w d) ! length pre = [1..<Suc (length (getEvents w d))] ! length pre" by (simp only: m)
  then have "seq e = Suc (length pre)" by (simp add: h nth_append del: upt_Suc)
  with that [OF h] s show thesis by (auto simp: h sorted_wrt_append)
qed

lemma fold_prefix_total:
  assumes "db_inv d"
  shows "\<exists>s. foldEvents (take n (getEvents w d)) = Inr s"
proof -
  have "\<exists>s. foldEvents (log_of w d) = Inr s"
  proof (cases "w \<in> set (execution_ids d)")
    case True
    then obtain x where "x \<in> set (db_executions d)" "ex_id x = w" by (auto simp: execution_ids_def)
    with db_invD(6) [OF assms this(1)] show ?thesis by auto
  next
    case False
    with db_invD(4) [OF assms] have "log_of w d = []" by (auto simp: log_of_def filter_empty_conv)
    then show ?thesis by (simp add: foldEvents_def)
  qed
  then obtain s where "foldEvents (take n (getEvents w d) @ drop n (getEvents w d)) = Inr s"
    using getEvents_log [OF db_invD(2) [OF assms]] by auto
  then show ?thesis unfolding foldEvents_def fold_from_append by (auto split: sum.splits)
qed

lemma node_of_prefix:
  assumes inv: "sys_inv d" and e: "e \<in> set (getEvents w d)" "toDagStep e = Some st"
    and fold: "foldEvents (take n (getEvents w d)) = Inr s"
  shows "node_status st s = log_step_status st (take n (getEvents w d))"
proof -
  let ?h = "getEvents w d"
  have st: "dg_seq st = seq e" using e(2) by (auto simp: toDagStep_def split: wf_event.splits)
  obtain pre post where h: "?h = pre @ e # post" "\<forall>e' \<in> set pre. seq e' < seq e" "\<forall>e' \<in> set post. seq e < seq e'"
    "seq e = Suc (length pre)" by (rule log_split [OF sys_invD(1) [OF inv] e(1)])
  show ?thesis
  proof (cases "n < seq e")
    case True
    then have "\<forall>e' \<in> set (take n ?h). seq e' \<noteq> seq e" using h by (fastforce dest: in_set_takeD)
    with node_not_reached [OF fold, of st] st show ?thesis by (auto simp: log_step_status_def list_ex_iff)
  next
    case False
    then have t: "take n ?h = pre @ e # take (n - seq e) post" using h by (simp add: take_Cons')
    have "\<not> answers_step k (seq e) e'" if "e' \<in> set (pre @ [e])" for e' k
    proof
      assume "answers_step k (seq e) e'"
      then have a: "answers (event e') = Some (kind_task k)" "event_ref (event e') = Some (seq e)" by (simp_all add: answers_step_def)
      from that h have "e' \<in> set ?h" by auto
      with sys_invD(2) [OF inv, of w] a have "seq e < seq e'" unfolding answers_requests_def by fastforce
      with that h(2) show False by auto
    qed
    then have none: "filter (answers_step k (seq e)) pre = []" "\<not> answers_step k (seq e) e" for k
      by (auto simp: filter_empty_conv)
    have "\<forall>e' \<in> set (take (n - seq e) post). seq e' \<noteq> seq e" using h(3) by (fastforce dest: in_set_takeD)
    from node_of_log [OF fold [unfolded t] e(2) this] show ?thesis by (simp add: log_step_status_def t st none)
  qed
qed

text \<open>
  The page of a workflow never fails to render a reachable history, and at every position of the
  scrubber the status of every step of its DAG is that of the last outcome of the step among the events
  up to there, pending if there is none, and not yet reached before the step's request.
\<close>

theorem debugger_shows_log:
  assumes "reachable d"
  shows "\<exists>page. workflow_detail (getEvents w d) pos = Inr page
    \<and> list_all (\<lambda>st. node_status st (dp_state page) = log_step_status st (take (dp_position page) (getEvents w d)))
        (List.map_filter toDagStep (getEvents w d))"
proof -
  note inv = reachable_inv [OF assms]
  obtain s where s: "foldEvents (take (or_default pos (length (getEvents w d))) (getEvents w d)) = Inr s"
    using fold_prefix_total [OF sys_invD(1) [OF inv]] by blast
  from node_of_prefix [OF inv _ _ s] s show ?thesis
    by (auto simp: workflow_detail_def Let_def list_all_iff map_filter_def)
qed

theorem debugger_shows_log_witness:
  "\<exists>page. workflow_detail (getEvents ''w1'' demo6) (Some 2) = Inr page
    \<and> list_all (\<lambda>st. node_status st (dp_state page) = Some ''REQUESTED'') (List.map_filter toDagStep (getEvents ''w1'' demo6))"
proof -
  have "map (\<lambda>st. log_step_status st (take 2 (getEvents ''w1'' demo6))) (List.map_filter toDagStep (getEvents ''w1'' demo6)) = [Some ''REQUESTED'']"
    by code_simp
  then show ?thesis using debugger_shows_log [OF demo_done(2), of "''w1''" "Some 2"]
    by (auto simp: workflow_detail_def Let_def or_default_def map_eq_Cons_conv split: sum.splits)
qed

subsection \<open>The badge of a completion that was reused\<close>

lemma last_decision_ge: "foldl (\<lambda>m e. if event_type (event e) \<in> set DECISION_TYPES then max m (seq e) else m) m es \<ge> m"
  by (induction es arbitrary: m) (auto intro: order_trans [OF max.cobounded1])

lemma last_decision_less:
  "x < last_decision_seq es \<longleftrightarrow> (\<exists>e \<in> set es. event_type (event e) \<in> set DECISION_TYPES \<and> x < seq e)"
proof -
  have "x < foldl (\<lambda>m e. if event_type (event e) \<in> set DECISION_TYPES then max m (seq e) else m) m es
    \<longleftrightarrow> x < m \<or> (\<exists>e \<in> set es. event_type (event e) \<in> set DECISION_TYPES \<and> x < seq e)" for m
    by (induction es arbitrary: m) auto
  then show ?thesis by (simp add: last_decision_seq_def)
qed

text \<open>
  The badge "replayed" is not evidence of a replay: a completion that others commit after the replay
  handler read the history is behind the decision the handler then appends, so the page shows it as
  reused, although the run that made the decision did not have it.
\<close>

theorem replayed_badge_without_replay:
  assumes inv: "db_inv (between d)"
    and read: "prefix (getEvents (t_workflowId t) d) (getEvents (t_workflowId t) (between d))"
    and late: "c \<in> set (getEvents (t_workflowId t) (between d))" "c \<notin> set (getEvents (t_workflowId t) d)"
      "event_type (event c) \<in> {''LLM_COMPLETED'', ''TOOL_COMPLETED''}"
    and run: "workflowReplayHandler ck between wfs cfg sha t d = (d', Inr ())"
    and decided: "e \<in> set (getEvents (t_workflowId t) d')" "e \<notin> set (getEvents (t_workflowId t) (between d))"
      "event_type (event e) \<in> set DECISION_TYPES"
  shows "seq c \<in> replayedStepSeqs (getEvents (t_workflowId t) d')"
proof -
  let ?w = "t_workflowId t"
  obtain evs where "append_tx ck ?w evs (between d) = (d', Inr ())"
    using run by (cases rule: handler_runs) (use decided(1,2) set_mono_prefix [OF read] in blast)+
  note log = appendedD(1,4) [OF append_tx_done(1) [OF inv this]]
  then have e: "e \<in> set (map trip_stored (number_events (Suc (length (getEvents ?w (between d)))) evs))"
    using decided(1,2) by auto
  then have "seq e \<in> set (map seq (number_events (Suc (length (getEvents ?w (between d)))) evs))" by auto
  then have "length (getEvents ?w (between d)) < seq e" by (auto simp: number_events_seq)
  moreover have "seq c \<le> length (getEvents ?w (between d))" by (rule log_split [OF inv late(1)]) simp
  ultimately have "seq c < last_decision_seq (getEvents ?w d')" using decided(1,3) by (auto simp: last_decision_less)
  with late(1,3) log(2) show ?thesis by (auto simp: replayedStepSeqs_def)
qed

text \<open>A workflow that starts a tool without waiting for it, then an activity once it is signalled.\<close>

definition impatient :: workflow_fn where
  "impatient inp = Issue (ToolCall ''lookup_customer'' JNull)
     (\<lambda>r. await_call (WaitForSignalCall ''go'') (\<lambda>v. await_call (ScheduleActivityCall ''reserve'' v) Ret))"

definition impatient_db :: db where
  "impatient_db = sample_db [WorkflowStarted ''impatient'' JNull, TOOL_REQUESTED ''tool-0'' ''lookup_customer'' JNull ''h'' 3,
     SignalReceived ''go'' JNull] TWorkflow 0"

definition tool_finishes :: "db \<Rightarrow> db" where
  "tool_finishes d = fst (append_tx clock0 ''w1'' [TOOL_COMPLETED ''tool-0'' 2 ''lookup_customer'' JNull 5 1] d)"

definition impatient_run :: "unit outcome_db" where
  "impatient_run = workflowReplayHandler clock0 tool_finishes [(''impatient'', impatient)] hash_only one_hash (sample_task TWorkflow 0) impatient_db"

lemma impatient_logs:
  "map (\<lambda>e. event_type (event e)) (getEvents ''w1'' (fst impatient_run))
     = [''WorkflowStarted'', ''TOOL_REQUESTED'', ''SignalReceived'', ''TOOL_COMPLETED'', ''ActivityScheduled'']"
  "map (\<lambda>e. event_type (event e)) (getEvents ''w1'' (tool_finishes impatient_db))
     = [''WorkflowStarted'', ''TOOL_REQUESTED'', ''SignalReceived'', ''TOOL_COMPLETED'']"
  "snd impatient_run = Inr ()" "snd (append_tx clock0 ''w1'' [TOOL_COMPLETED ''tool-0'' 2 ''lookup_customer'' JNull 5 1] impatient_db) = Inr ()"
  by code_simp+

theorem replayed_badge_without_replay_witness:
  "4 \<in> replayedStepSeqs (getEvents ''w1'' (fst impatient_run))"
proof -
  let ?d = impatient_db and ?b = "tool_finishes impatient_db"
  have inv: "db_inv ?d" "getEvents ''w1'' ?d = log_from [WorkflowStarted ''impatient'' JNull,
      TOOL_REQUESTED ''tool-0'' ''lookup_customer'' JNull ''h'' 3, SignalReceived ''go'' JNull]"
    unfolding impatient_db_def by (rule sample_db(1), simp add: no_proto_events_def object_prototype_names_def, rule sample_db(2))
  have "append_tx clock0 ''w1'' [TOOL_COMPLETED ''tool-0'' 2 ''lookup_customer'' JNull 5 1] ?d = (?b, Inr ())"
    using impatient_logs(4) by (simp add: tool_finishes_def prod_eq_iff)
  note b = appendedD(1) [OF append_tx_done(1) [OF inv(1) this]] appended_one [OF append_tx_done(1) [OF inv(1) this]]
  from b(2) obtain c where c: "getEvents ''w1'' ?b = getEvents ''w1'' ?d @ [c]" "seq c = 4" "event_type (event c) = ''TOOL_COMPLETED''"
    by (simp add: inv(2) log_from_def)
  then have new: "c \<notin> set (getEvents ''w1'' ?d)" by (auto simp: inv(2) log_from_def)
  have run: "workflowReplayHandler clock0 tool_finishes [(''impatient'', impatient)] hash_only one_hash (sample_task TWorkflow 0) ?d
      = (fst impatient_run, Inr ())"
    using impatient_logs(3) by (simp add: impatient_run_def prod_eq_iff)
  obtain e where e: "e \<in> set (getEvents ''w1'' (fst impatient_run))" "event_type (event e) = ''ActivityScheduled''"
    using arg_cong [OF impatient_logs(1), of "\<lambda>ts. ''ActivityScheduled'' \<in> set ts"] by auto
  have "e \<notin> set (getEvents ''w1'' ?b)"
  proof
    assume "e \<in> set (getEvents ''w1'' ?b)"
    then have "event_type (event e) \<in> set (map (\<lambda>e. event_type (event e)) (getEvents ''w1'' ?b))" by auto
    with e(2) show False by (simp add: impatient_logs(2))
  qed
  with replayed_badge_without_replay [of tool_finishes ?d "sample_task TWorkflow 0" c, OF b(1) _ _ _ _ run] e c new
  show ?thesis by (simp add: DECISION_TYPES_def)
qed

end
