(* ===== verification/Shell.thy ===== *)
theory Shell
  imports EventStream Chaos
begin

section \<open>The shell of the debugger (packages/web/src: App.tsx, WorkflowList.tsx, api.ts)\<close>

text \<open>
  Which page is shown, the list of workflows with its two requests, and the button that starts one. An
  answer of the API is applied when it arrives, in any order. Markup and styles are left out; what renders
  is \<open>shell_page\<close>.
\<close>

subsection \<open>Answers of the API\<close>

text \<open>
  \<open>fetch\<close> does not look at the status of an answer: the body of an error has none of the properties the
  code reads, so they are \<open>undefined\<close>. It throws only when there is no answer.
\<close>

datatype 'a reply = Served 'a | Refused | Unreachable

text \<open>The property read from the body, \<open>None\<close> for \<open>undefined\<close>, or the error.\<close>

fun read_body :: "'a reply \<Rightarrow> js_error + 'a option" where
  "read_body (Served v) = Inr (Some v)"
| "read_body Refused = Inr None"
| "read_body Unreachable = Inl (TypeErr ''fetch failed'')"

definition listWorkflows :: "execution_summary list reply \<Rightarrow> js_error + execution_summary list option" where
  "listWorkflows r = read_body r"

definition startWorkflow_reply :: "string reply \<Rightarrow> js_error + string option" where
  "startWorkflow_reply r = read_body r"

subsection \<open>State\<close>

text \<open>
  The list is mounted anew each time the page goes back to it: \<open>sh_mount\<close> is the number of its current
  life, and updates for an earlier one are ignored. \<open>sh_gets\<close> are answers on their way to \<open>refresh\<close>,
  \<open>sh_starts\<close> the runs of \<open>handleStart\<close>, with the id once they have one. A component that throws while
  rendering takes the whole page with it (\<open>sh_crashed\<close>).
\<close>

datatype start_stage = Posting | Listing "string option"

record shell =
  sh_selectedId :: "string option"
  sh_mount :: nat
  sh_workflows :: "execution_summary list option"
  sh_starting :: bool
  sh_gets :: "(nat \<times> execution_summary list reply) list"
  sh_starts :: "(nat \<times> start_stage) list"
  sh_crashed :: bool

definition new_shell :: shell where
  "new_shell = \<lparr>sh_selectedId = None, sh_mount = 0, sh_workflows = Some [], sh_starting = False, sh_gets = [], sh_starts = [],
     sh_crashed = False\<rparr>"

text \<open>\<open>selectedId ? ... : ...\<close>: \<open>null\<close>, \<open>undefined\<close> and the empty string show the list.\<close>

definition list_shown :: "shell \<Rightarrow> bool" where
  "list_shown s \<longleftrightarrow> (case sh_selectedId s of Some (c # cs) \<Rightarrow> False | _ \<Rightarrow> True)"

subsection \<open>What renders\<close>

record list_row =
  lw_id :: string
  lw_workflowType :: string
  lw_status :: string
  lw_statusClass :: string

fun status_class :: "workflow_status \<Rightarrow> string" where
  "status_class RUNNING = ''status status-running''"
| "status_class COMPLETED = ''status status-completed''"
| "status_class FAILED = ''status status-failed''"
| "status_class CANCELED = ''status status-canceled''"

definition list_row :: "execution_summary \<Rightarrow> list_row" where
  "list_row w = \<lparr>lw_id = es_id w, lw_workflowType = es_workflowType w, lw_status = status_name (es_status w),
     lw_statusClass = status_class (es_status w)\<rparr>"

datatype page = ListPage "list_row list" (buttonDisabled: bool) | DetailPage string

definition shell_page :: "shell \<Rightarrow> js_error + page" where
  "shell_page s = (if \<not> list_shown s then Inr (DetailPage (or_default (sh_selectedId s) ''''))
     else case sh_workflows s of
       None \<Rightarrow> Inl (TypeErr (cannot_read ''undefined'' ''map''))
     | Some ws \<Rightarrow> Inr (ListPage (map list_row ws) (sh_starting s)))"

text \<open>A render after the updates of one turn.\<close>

definition rendered :: "shell \<Rightarrow> shell" where
  "rendered s = (case shell_page s of Inl e \<Rightarrow> s\<lparr>sh_crashed := True\<rparr> | Inr p \<Rightarrow> s)"

subsection \<open>Updates\<close>

definition setSelectedId :: "string option \<Rightarrow> shell \<Rightarrow> shell" where
  "setSelectedId v s = (let s' = s\<lparr>sh_selectedId := v\<rparr> in
     if list_shown s' \<and> \<not> list_shown s
     then s'\<lparr>sh_mount := Suc (sh_mount s), sh_workflows := Some [], sh_starting := False\<rparr> else s')"

text \<open>Whether updates of the list's life \<open>m\<close> have an effect.\<close>

definition mounted :: "nat \<Rightarrow> shell \<Rightarrow> bool" where
  "mounted m s \<longleftrightarrow> m = sh_mount s \<and> list_shown s"

definition setWorkflows :: "nat \<Rightarrow> execution_summary list option \<Rightarrow> shell \<Rightarrow> shell" where
  "setWorkflows m ws s = (if mounted m s then s\<lparr>sh_workflows := ws\<rparr> else s)"

definition setStarting :: "nat \<Rightarrow> bool \<Rightarrow> shell \<Rightarrow> shell" where
  "setStarting m b s = (if mounted m s then s\<lparr>sh_starting := b\<rparr> else s)"

text \<open>\<open>refresh\<close>: its request is answered (\<open>refresh_sent\<close>), and the answer arrives.\<close>

definition refresh_sent :: "execution_summary list reply \<Rightarrow> shell \<Rightarrow> shell" where
  "refresh_sent r s = s\<lparr>sh_gets := sh_gets s @ [(sh_mount s, r)]\<rparr>"

definition refresh_done :: "nat \<Rightarrow> execution_summary list reply \<Rightarrow> shell \<Rightarrow> shell" where
  "refresh_done m r s = (case listWorkflows r of Inl e \<Rightarrow> s | Inr ws \<Rightarrow> rendered (setWorkflows m ws s))"

text \<open>\<open>handleStart\<close>: up to the first \<open>await\<close>, after it, and from the second one on. The updates of one turn render once.\<close>

definition start_clicked :: "shell \<Rightarrow> shell" where
  "start_clicked s = (if sh_starting s then s
     else s\<lparr>sh_starting := True, sh_starts := sh_starts s @ [(sh_mount s, Posting)]\<rparr>)"

definition start_posted :: "nat \<Rightarrow> string reply \<Rightarrow> shell \<Rightarrow> shell" where
  "start_posted m r s = (case startWorkflow_reply r of
     Inl e \<Rightarrow> setStarting m False s
   | Inr i \<Rightarrow> s\<lparr>sh_starts := sh_starts s @ [(m, Listing i)]\<rparr>)"

definition start_listed :: "nat \<Rightarrow> string option \<Rightarrow> execution_summary list reply \<Rightarrow> shell \<Rightarrow> shell" where
  "start_listed m i r s = (case listWorkflows r of
     Inl e \<Rightarrow> setStarting m False s
   | Inr ws \<Rightarrow> rendered (setStarting m False (setSelectedId i (setWorkflows m ws s))))"

definition row_clicked :: "string \<Rightarrow> shell \<Rightarrow> shell" where
  "row_clicked w s = setSelectedId (Some w) s"

definition back_clicked :: "shell \<Rightarrow> shell" where
  "back_clicked s = setSelectedId None s"

subsection \<open>Steps\<close>

text \<open>What the API answers: what the route gives, or an error, or nothing.\<close>

definition answers_list :: "execution_summary list reply \<Rightarrow> db \<Rightarrow> bool" where
  "answers_list r d \<longleftrightarrow> r \<in> {Served (get_workflows d), Refused, Unreachable}"

definition keeps_executions :: "db \<Rightarrow> db \<Rightarrow> bool" where
  "keeps_executions d d' \<longleftrightarrow> set (execution_ids d) \<subseteq> set (execution_ids d')"

inductive shell_step :: "shell \<times> db \<Rightarrow> shell \<times> db \<Rightarrow> bool" where
  sh_refresh: "list_shown s \<Longrightarrow> \<not> sh_crashed s \<Longrightarrow> answers_list r d \<Longrightarrow> shell_step (s, d) (refresh_sent r s, d)"
| sh_arrives: "sh_gets s = as @ (m, r) # bs \<Longrightarrow> shell_step (s, d) (refresh_done m r (s\<lparr>sh_gets := as @ bs\<rparr>), d)"
| sh_click: "list_shown s \<Longrightarrow> \<not> sh_crashed s \<Longrightarrow> shell_step (s, d) (start_clicked s, d)"
| sh_posted: "sh_starts s = as @ (m, Posting) # bs \<Longrightarrow> \<forall>e. keeps_executions e (between e) \<Longrightarrow>
     post_workflows ck between w None date d = (d', Inr i) \<Longrightarrow>
     shell_step (s, d) (start_posted m (Served i) (s\<lparr>sh_starts := as @ bs\<rparr>), d')"
| sh_post_fails: "sh_starts s = as @ (m, Posting) # bs \<Longrightarrow> r \<in> {Refused, Unreachable} \<Longrightarrow> keeps_executions d d' \<Longrightarrow>
     shell_step (s, d) (start_posted m r (s\<lparr>sh_starts := as @ bs\<rparr>), d')"
| sh_listed: "sh_starts s = as @ (m, Listing i) # bs \<Longrightarrow> answers_list r d \<Longrightarrow>
     shell_step (s, d) (start_listed m i r (s\<lparr>sh_starts := as @ bs\<rparr>), d)"
| sh_row: "list_shown s \<Longrightarrow> \<not> sh_crashed s \<Longrightarrow> sh_workflows s = Some ws \<Longrightarrow> w \<in> set ws \<Longrightarrow>
     shell_step (s, d) (row_clicked (es_id w) s, d)"
| sh_back: "\<not> list_shown s \<Longrightarrow> \<not> sh_crashed s \<Longrightarrow> shell_step (s, d) (back_clicked s, d)"
| sh_others: "keeps_executions d d' \<Longrightarrow> shell_step (s, d) (s, d')"

subsection \<open>Executions are kept\<close>

lemma keeps_refl [simp]: "keeps_executions d d"
  by (simp add: keeps_executions_def)

lemma keeps_trans: "keeps_executions d e \<Longrightarrow> keeps_executions e f \<Longrightarrow> keeps_executions d f"
  unfolding keeps_executions_def by blast

lemma enqueue_db_executions: "enqueue_db ck i d = (d', r) \<Longrightarrow> db_executions d' = db_executions d"
  by (auto simp: enqueue_db_def split: prod.splits)

lemma enqueue_all_executions: "enqueue_all ck is d = (d', r) \<Longrightarrow> db_executions d' = db_executions d"
proof (induction "is" arbitrary: d)
  case (Cons i "is")
  obtain e x where e: "enqueue_db ck i d = (e, x)" by fastforce
  with Cons.prems Cons.IH [of e] enqueue_db_executions [OF e] show ?case by (cases x) auto
qed simp

lemma set_status_executions: "execution_ids (set_status now w st d) = execution_ids d"
  by (auto simp: set_status_def execution_ids_def)

lemma append_events_executions: "appendEvents ck w events d = (d', r) \<Longrightarrow> execution_ids d' = execution_ids d"
proof -
  assume app: "appendEvents ck w events d = (d', r)"
  show ?thesis
  proof (cases "events = [] \<or> w \<notin> set (execution_ids d)")
    case False
    let ?d1 = "insert_events w (number_events (start_seq w d) events) d"
    let ?is = "List.map_filter (task_for w (ck_trace ck)) (number_events (start_seq w d) events) @ [base_input TWorkflow w (ck_trace ck)]"
    obtain e x where e: "enqueue_all ck ?is ?d1 = (e, x)" by fastforce
    have "execution_ids e = execution_ids d"
      using execution_ids_cong [OF enqueue_all_executions [OF e]] by (simp add: insert_events_def execution_ids_def)
    with app False e show ?thesis
      by (cases x; cases "foldEvents (getEvents w e)") (auto simp: appendEvents_def Let_def set_status_executions simp del: task_for.simps)
  qed (use app in \<open>auto simp: appendEvents_def split: if_splits\<close>)
qed

lemma append_tx_executions:
  assumes "append_tx ck w events d = (d', r)"
  shows "execution_ids d' = execution_ids d"
proof -
  obtain e x where e: "appendEvents ck w events d = (e, x)" by fastforce
  show ?thesis using append_events_executions [OF e] e assms
    by (cases x) (auto simp: append_tx_def withTransaction_def rollback_def execution_ids_def)
qed

lemma start_workflow_executions:
  assumes "startWorkflow ck between w ty inp d = (d', Inr i)" "\<forall>e. keeps_executions e (between e)"
  shows "keeps_executions d d'" "i \<in> set (execution_ids d')"
proof -
  obtain d1 x where d1: "insert_execution ck w ty inp d = (d1, x)" by fastforce
  obtain d2 y where d2: "append_tx ck w [WorkflowStarted ty inp] (between d1) = (d2, y)" by fastforce
  from assms(1) d1 d2 have "x = Inr ()" "d' = d2" "i = w" unfolding startWorkflow_def by (cases x; cases y; simp)+
  have "set (execution_ids d1) = insert w (set (execution_ids d))"
    using d1 \<open>x = Inr ()\<close> by (auto simp: insert_execution_def execution_ids_def split: option.splits if_splits)
  moreover have "set (execution_ids d1) \<subseteq> set (execution_ids d')"
    using assms(2) append_tx_executions [OF d2] unfolding keeps_executions_def \<open>d' = d2\<close> by metis
  ultimately show "keeps_executions d d'" "i \<in> set (execution_ids d')" by (auto simp: keeps_executions_def \<open>i = w\<close>)
qed


subsection \<open>The shell shows what exists\<close>

definition known_rows :: "execution_summary list \<Rightarrow> db \<Rightarrow> bool" where
  "known_rows ws d \<longleftrightarrow> es_id ` set ws \<subseteq> set (execution_ids d)"

definition shell_ok :: "shell \<Rightarrow> db \<Rightarrow> bool" where
  "shell_ok s d \<longleftrightarrow> (\<forall>m ws. (m, Served ws) \<in> set (sh_gets s) \<longrightarrow> known_rows ws d)
     \<and> (\<forall>ws. sh_workflows s = Some ws \<longrightarrow> known_rows ws d)
     \<and> (\<forall>m i. (m, Listing (Some i)) \<in> set (sh_starts s) \<longrightarrow> i \<in> set (execution_ids d))
     \<and> (\<forall>i. sh_selectedId s = Some i \<longrightarrow> i \<in> set (execution_ids d))"

lemma known_rows_keeps: "known_rows ws d \<Longrightarrow> keeps_executions d d' \<Longrightarrow> known_rows ws d'"
  unfolding known_rows_def keeps_executions_def by blast

lemma shell_ok_keeps: "shell_ok s d \<Longrightarrow> keeps_executions d d' \<Longrightarrow> shell_ok s d'"
  using known_rows_keeps unfolding shell_ok_def keeps_executions_def by blast

lemma listed_known: "answers_list (Served ws) d \<Longrightarrow> known_rows ws d"
  by (auto simp: answers_list_def known_rows_def get_workflows_def listWorkflowExecutions_def mapRow_def execution_ids_def
    dest!: in_set_takeD)

lemma rendered_ok [simp]: "shell_ok (rendered s) d = shell_ok s d"
  by (simp add: rendered_def shell_ok_def split: sum.split)

lemma set_ok:
  "shell_ok s d \<Longrightarrow> (\<forall>i. v = Some i \<longrightarrow> i \<in> set (execution_ids d)) \<Longrightarrow> shell_ok (setSelectedId v s) d"
  "shell_ok s d \<Longrightarrow> (\<forall>rows. ws = Some rows \<longrightarrow> known_rows rows d) \<Longrightarrow> shell_ok (setWorkflows m ws s) d"
  "shell_ok s d \<Longrightarrow> shell_ok (setStarting m b s) d"
  by (auto simp: shell_ok_def setSelectedId_def setWorkflows_def setStarting_def Let_def known_rows_def)

lemma read_known: "listWorkflows r = Inr (Some ws) \<Longrightarrow> r = Served ws"
  by (cases r) (auto simp: listWorkflows_def)

lemma refresh_ok: "shell_ok s d \<Longrightarrow> (\<forall>ws. r = Served ws \<longrightarrow> known_rows ws d) \<Longrightarrow> shell_ok (refresh_done m r s) d"
  by (auto simp: refresh_done_def intro!: set_ok dest: read_known split: sum.split)

lemma listed_ok:
  "shell_ok s d \<Longrightarrow> (\<forall>ws. r = Served ws \<longrightarrow> known_rows ws d) \<Longrightarrow> (\<forall>w. i = Some w \<longrightarrow> w \<in> set (execution_ids d))
     \<Longrightarrow> shell_ok (start_listed m i r s) d"
  by (auto simp: start_listed_def intro!: set_ok dest: read_known split: sum.split)

lemma listing_none_ok: "shell_ok s d \<Longrightarrow> shell_ok (s\<lparr>sh_starts := sh_starts s @ [(m, Listing None)]\<rparr>) d"
  by (auto simp: shell_ok_def)

lemma dropped_ok:
  "shell_ok s d \<Longrightarrow> sh_gets s = as @ x # bs \<Longrightarrow> shell_ok (s\<lparr>sh_gets := as @ bs\<rparr>) d"
  "shell_ok s d \<Longrightarrow> sh_starts s = cs @ y # ds \<Longrightarrow> shell_ok (s\<lparr>sh_starts := cs @ ds\<rparr>) d"
  by (auto simp: shell_ok_def)

lemma shell_step_ok: "shell_step x y \<Longrightarrow> shell_ok (fst x) (snd x) \<Longrightarrow> shell_ok (fst y) (snd y)"
proof (induction rule: shell_step.induct)
  case (sh_refresh s r d)
  then show ?case by (auto simp: shell_ok_def refresh_sent_def dest: listed_known)
next
  case (sh_arrives s as m r bs d)
  then have "shell_ok (s\<lparr>sh_gets := as @ bs\<rparr>) d" "\<forall>ws. r = Served ws \<longrightarrow> known_rows ws d"
    using dropped_ok(1) by (auto simp: shell_ok_def)
  then show ?case by (simp add: refresh_ok)
next
  case (sh_click s d)
  then show ?case by (auto simp: shell_ok_def start_clicked_def)
next
  case (sh_posted s as m bs between ck w date d d' i)
  note p = start_workflow_executions [OF sh_posted(3) [unfolded post_workflows_def] sh_posted(2)]
  have "shell_ok (s\<lparr>sh_starts := as @ bs\<rparr>) d'"
    using sh_posted(1,4) shell_ok_keeps [OF _ p(1)] by (intro dropped_ok(2)) auto
  with p(2) show ?case by (auto simp: start_posted_def startWorkflow_reply_def shell_ok_def)
next
  case (sh_post_fails s as m bs r d d')
  then have "shell_ok (s\<lparr>sh_starts := as @ bs\<rparr>) d'" using shell_ok_keeps by (intro dropped_ok(2)) auto
  from set_ok(3) [OF this, of m False] listing_none_ok [OF this, of m] sh_post_fails(2) show ?case
    by (auto simp: start_posted_def startWorkflow_reply_def)
next
  case (sh_listed s as m i bs r d)
  then have "shell_ok (s\<lparr>sh_starts := as @ bs\<rparr>) d" "\<forall>w. i = Some w \<longrightarrow> w \<in> set (execution_ids d)"
    using dropped_ok(2) by (auto simp: shell_ok_def)
  with sh_listed(2) show ?case by (auto intro!: listed_ok dest: listed_known)
next
  case (sh_row s ws w d)
  then have "shell_ok s d" "es_id w \<in> set (execution_ids d)" by (auto simp: shell_ok_def known_rows_def)
  then show ?case by (simp add: row_clicked_def set_ok(1))
next
  case (sh_back s d)
  then show ?case by (simp add: back_clicked_def set_ok(1))
next
  case (sh_others d d' s)
  then show ?case using shell_ok_keeps by simp
qed

theorem shell_shows_existing_workflows:
  assumes "shell_step\<^sup>*\<^sup>* (new_shell, d0) (s, d)"
  shows "(shell_page s = Inr (DetailPage w) \<longrightarrow> w \<in> set (execution_ids d))
    \<and> (shell_page s = Inr (ListPage rows b) \<longrightarrow> lw_id ` set rows \<subseteq> set (execution_ids d))"
proof -
  have start: "shell_ok new_shell d0" by (simp add: shell_ok_def new_shell_def known_rows_def)
  from assms have "shell_ok s d"
    by (induction rule: rtranclp_induct2) (use start shell_step_ok in \<open>force\<close>)+
  then show ?thesis
    by (auto simp: shell_page_def shell_ok_def list_shown_def known_rows_def list_row_def or_default_def image_subset_iff
      split: option.splits if_splits list.splits)
qed

subsection \<open>Answers that are not lists, answers in the wrong order\<close>

text \<open>
  One answer of the API that is an error ends the page: the list is \<open>undefined\<close>, the component throws, and
  nothing but a reload brings the page back.
\<close>

lemma crashed_step: "shell_step x y \<Longrightarrow> sh_crashed (fst x) \<Longrightarrow> sh_crashed (fst y)"
  by (induction rule: shell_step.induct)
    (auto simp: refresh_sent_def refresh_done_def rendered_def setWorkflows_def start_clicked_def start_posted_def setStarting_def
      start_listed_def setSelectedId_def row_clicked_def back_clicked_def Let_def split: sum.splits)

theorem error_answer_ends_page:
  shows "\<exists>s. shell_step\<^sup>*\<^sup>* (new_shell, d) (s, d) \<and> sh_crashed s \<and> (\<forall>s' d'. shell_step\<^sup>*\<^sup>* (s, d) (s', d') \<longrightarrow> sh_crashed s')"
proof -
  let ?s1 = "refresh_sent Refused new_shell" and ?s2 = "refresh_done 0 Refused new_shell"
  have "shell_step (new_shell, d) (?s1, d)"
    by (rule sh_refresh) (simp_all add: new_shell_def list_shown_def answers_list_def)
  moreover have "shell_step (?s1, d) (refresh_done 0 Refused (?s1\<lparr>sh_gets := [] @ []\<rparr>), d)"
    by (rule sh_arrives) (simp add: refresh_sent_def new_shell_def)
  moreover have "?s1\<lparr>sh_gets := [] @ []\<rparr> = new_shell" by (simp add: refresh_sent_def new_shell_def)
  ultimately have steps: "shell_step\<^sup>*\<^sup>* (new_shell, d) (?s2, d)" by (simp add: rtranclp.rtrancl_into_rtrancl)
  have crash: "sh_crashed ?s2"
    by (simp add: refresh_done_def listWorkflows_def rendered_def setWorkflows_def mounted_def new_shell_def list_shown_def shell_page_def)
  have stay: "shell_step\<^sup>*\<^sup>* x y \<Longrightarrow> sh_crashed (fst x) \<Longrightarrow> sh_crashed (fst y)" for x y
    by (induction rule: rtranclp_induct) (auto dest: crashed_step)
  have "sh_crashed s'" if "shell_step\<^sup>*\<^sup>* (?s2, d) (s', d')" for s' d' using stay [OF that] crash by simp
  with steps crash show ?thesis by blast
qed

text \<open>Two refreshes whose answers arrive in the other order: the list goes back to the older state of the database.\<close>

theorem older_list_replaces_newer:
  assumes "list_shown s" "r1 = Served ws1" "r2 = Served ws2"
  shows "sh_workflows (refresh_done (sh_mount s) r2 s) = Some ws2
    \<and> sh_workflows (refresh_done (sh_mount s) r1 (refresh_done (sh_mount s) r2 s)) = Some ws1"
  using assms by (auto simp: refresh_done_def listWorkflows_def rendered_def setWorkflows_def mounted_def list_shown_def shell_page_def
    split: option.splits list.splits)

text \<open>A run of \<open>handleStart\<close> ends on the page of its workflow, wherever the user has gone in the meantime.\<close>

lemma start_navigates:
  assumes "w \<noteq> ''''"
  shows "shell_page (start_listed m (Some w) (Served ws) s) = Inr (DetailPage w)"
proof -
  obtain c cs where w: "w = c # cs" using assms by (cases w) auto
  have "sh_selectedId (setStarting m False (setSelectedId (Some w) (setWorkflows m (Some ws) s))) = Some w"
    by (simp add: setStarting_def setSelectedId_def Let_def)
  then show ?thesis by (simp add: start_listed_def listWorkflows_def rendered_def shell_page_def list_shown_def w or_default_def)
qed

end
