(* ===== verification/Apps.thy ===== *)
theory Apps
  imports Worker Examples
begin

section \<open>The processes (packages/worker-sdk/src/bin, pool.ts and notify.ts of packages/db)\<close>

text \<open>
  What the entry points make of the environment: the connection, the numbers, and for each worker of a
  process its configuration and its handler. \<open>process.env\<close> is a map; \<open>num\<close> gives the text of a number
  in an error message. What \<open>main\<close> throws ends the process. Tracing and metrics, which an entry point
  may add, are left out.
\<close>

subsection \<open>Steps that may throw\<close>

definition and_then :: "js_error + 'a \<Rightarrow> ('a \<Rightarrow> js_error + 'b) \<Rightarrow> js_error + 'b" where
  "and_then x f = (case x of Inl e \<Rightarrow> Inl e | Inr v \<Rightarrow> f v)"

lemma and_then_Inr: "and_then x f = Inr y \<longleftrightarrow> (\<exists>v. x = Inr v \<and> f v = Inr y)"
  by (cases x) (simp_all add: and_then_def)

lemma and_then_simps [simp]: "and_then (Inl e) f = Inl e" "and_then (Inr v) f = f v"
  by (simp_all add: and_then_def)

subsection \<open>The database connection\<close>

record pool_config =
  pl_connectionString :: string
  pl_max :: nat
  pl_statementTimeoutMs :: nat

definition createPool :: "string \<Rightarrow> nat option \<Rightarrow> nat option \<Rightarrow> pool_config" where
  "createPool connectionString limit timeout = \<lparr>pl_connectionString = connectionString,
     pl_max = or_default limit 10, pl_statementTimeoutMs = or_default timeout 30000\<rparr>"

definition requireDatabaseUrl :: "(string \<rightharpoonup> string) \<Rightarrow> js_error + string" where
  "requireDatabaseUrl env = (case env ''DATABASE_URL'' of
     Some (c # cs) \<Rightarrow> Inr (c # cs)
   | _ \<Rightarrow> Inl (Err ''DATABASE_URL is not set. Copy .env.example to .env and fill it in.''))"

definition createPoolFromEnv :: "(string \<rightharpoonup> string) \<Rightarrow> js_error + pool_config" where
  "createPoolFromEnv env = and_then (requireDatabaseUrl env) (\<lambda>url. Inr (createPool url None None))"

text \<open>The statement of \<open>listenForTasks\<close>, and the messages its callback is called for.\<close>

definition quote_char :: char where
  "quote_char = CHR 0x22"

fun double_quotes :: "string \<Rightarrow> string" where
  "double_quotes [] = []"
| "double_quotes (c # cs) = (if c = quote_char then [quote_char, quote_char] else [c]) @ double_quotes cs"

definition listen_statement :: "string \<Rightarrow> string" where
  "listen_statement channel = ''LISTEN '' @ [quote_char] @ double_quotes channel @ [quote_char]"

definition heard_messages :: "string \<Rightarrow> string list \<Rightarrow> string list" where
  "heard_messages channel channels = filter (\<lambda>c. c = channel) channels"

subsection \<open>Numbers from the environment\<close>

definition envInt :: "(string \<rightharpoonup> string) \<Rightarrow> string \<Rightarrow> int \<Rightarrow> js_error + rat" where
  "envInt env name fallback = (case env name of
     None \<Rightarrow> Inr (of_int fallback)
   | Some raw \<Rightarrow> (case parse_int raw of
       None \<Rightarrow> Inl (Err (name @ '' must be an integer, got '' @ raw))
     | Some n \<Rightarrow> Inr (of_int n)))"

subsection \<open>The workers of a process\<close>

datatype task_handler =
    WorkflowReplay "(string \<times> workflow_fn) list"
  | ActivityRuns "(string \<times> activity_fn) list"
  | TimerFires
  | LlmCalls chosen_provider "(string \<times> workflow_fn) list"
  | ToolCalls tool_registry

record app_worker =
  aw_worker :: worker
  aw_handler :: task_handler

definition app_worker :: "(rat \<Rightarrow> string) \<Rightarrow> worker_config_input \<Rightarrow> task_handler \<Rightarrow> js_error + app_worker" where
  "app_worker num input h = and_then (new_Worker num '''' input) (\<lambda>w. Inr \<lparr>aw_worker = w, aw_handler = h\<rparr>)"

definition plain_worker_input :: "rat \<Rightarrow> worker_config_input" where
  "plain_worker_input maxConcurrency = \<lparr>wi_workerId = None, wi_queue = None, wi_taskType = None, wi_pollIntervalMs = None,
     wi_maxPollIntervalMs = None, wi_leaseSeconds = None, wi_heartbeatIntervalMs = None, wi_maxConcurrency = maxConcurrency,
     wi_drainTimeoutMs = None, wi_notifyConnectionString = None\<rparr>"

text \<open>
  llm-agent-app.ts: \<open>config\<close> is what \<open>loadLlmStepConfig()\<close> gives or throws, \<open>registry\<close> the same of
  \<open>createSupportToolRegistry()\<close>. An empty \<open>NOTIFY_CONNECTION_STRING\<close> counts as none.
\<close>

definition llm_agent_app :: "(rat \<Rightarrow> string) \<Rightarrow> js_error + llm_step_config \<Rightarrow> js_error + tool_registry
    \<Rightarrow> (string \<rightharpoonup> string) \<Rightarrow> js_error + app_worker list" where
  "llm_agent_app num config registry env =
     and_then (createPoolFromEnv env) (\<lambda>pool.
     and_then (createProviderFromEnv env) (\<lambda>provider.
     and_then config (\<lambda>cfg.
     let workflows = [(''support-ticket-triage'', supportTicketTriage)];
         prefix = or_default (env ''WORKER_ID'') ''llm-app'' in
     and_then (envInt env ''MAX_CONCURRENCY'' 5) (\<lambda>maxConcurrency.
     and_then (envInt env ''LEASE_SECONDS'' 10) (\<lambda>leaseSeconds.
     and_then (envInt env ''HEARTBEAT_INTERVAL_MS'' 2000) (\<lambda>heartbeatIntervalMs.
     and_then (envInt env ''POLL_INTERVAL_MS'' 20) (\<lambda>pollIntervalMs.
     let common = (plain_worker_input maxConcurrency)\<lparr>wi_leaseSeconds := Some leaseSeconds,
           wi_heartbeatIntervalMs := Some heartbeatIntervalMs, wi_pollIntervalMs := Some pollIntervalMs,
           wi_notifyConnectionString := non_empty (env ''NOTIFY_CONNECTION_STRING'')\<rparr> in
     and_then (app_worker num (common\<lparr>wi_workerId := Some (prefix @ ''-workflow''), wi_taskType := Some TWorkflow\<rparr>)
         (WorkflowReplay workflows)) (\<lambda>w1.
     and_then (app_worker num (common\<lparr>wi_workerId := Some (prefix @ ''-llm''), wi_taskType := Some TLlm\<rparr>)
         (LlmCalls provider workflows)) (\<lambda>w2.
     and_then registry (\<lambda>tools.
     and_then (app_worker num (common\<lparr>wi_workerId := Some (prefix @ ''-tool''), wi_taskType := Some TTool\<rparr>)
         (ToolCalls tools)) (\<lambda>w3. Inr [w1, w2, w3])))))))))))"

text \<open>reserve-charge-ship-app.ts; the table its activities count their runs in is in \<open>Demos\<close>.\<close>

definition reserve_charge_ship_app :: "(rat \<Rightarrow> string) \<Rightarrow> (string \<rightharpoonup> string) \<Rightarrow> js_error + app_worker list" where
  "reserve_charge_ship_app num env =
     and_then (createPoolFromEnv env) (\<lambda>pool.
     let prefix = or_default (env ''WORKER_ID'') ''app'' in
     and_then (envInt env ''LEASE_SECONDS'' 10) (\<lambda>leaseSeconds.
     and_then (envInt env ''HEARTBEAT_INTERVAL_MS'' 2000) (\<lambda>heartbeatIntervalMs.
     and_then (envInt env ''POLL_INTERVAL_MS'' 50) (\<lambda>pollIntervalMs.
     let common = (plain_worker_input 5)\<lparr>wi_leaseSeconds := Some leaseSeconds,
           wi_heartbeatIntervalMs := Some heartbeatIntervalMs, wi_pollIntervalMs := Some pollIntervalMs,
           wi_notifyConnectionString := env ''NOTIFY_CONNECTION_STRING''\<rparr> in
     and_then (app_worker num (common\<lparr>wi_workerId := Some (prefix @ ''-activity''), wi_taskType := Some TActivity\<rparr>)
         (ActivityRuns reserve_charge_ship_activities)) (\<lambda>w1.
     and_then (app_worker num (common\<lparr>wi_workerId := Some (prefix @ ''-workflow''), wi_taskType := Some TWorkflow\<rparr>)
         (WorkflowReplay [(''reserve-charge-ship'', reserveChargeShip)])) (\<lambda>w2. Inr [w1, w2]))))))"

text \<open>timer-workflow-app.ts; \<open>ms\<close> as for \<open>timerWorkflow\<close>.\<close>

definition timer_workflow_app :: "(rat \<Rightarrow> string) \<Rightarrow> (jsval \<Rightarrow> js_num) \<Rightarrow> (string \<rightharpoonup> string) \<Rightarrow> js_error + app_worker list" where
  "timer_workflow_app num ms env =
     and_then (createPoolFromEnv env) (\<lambda>pool.
     let prefix = or_default (env ''WORKER_ID'') ''app'' in
     and_then (envInt env ''LEASE_SECONDS'' 10) (\<lambda>leaseSeconds.
     and_then (envInt env ''HEARTBEAT_INTERVAL_MS'' 2000) (\<lambda>heartbeatIntervalMs.
     and_then (envInt env ''POLL_INTERVAL_MS'' 50) (\<lambda>pollIntervalMs.
     let common = (plain_worker_input 5)\<lparr>wi_leaseSeconds := Some leaseSeconds,
           wi_heartbeatIntervalMs := Some heartbeatIntervalMs, wi_pollIntervalMs := Some pollIntervalMs\<rparr> in
     and_then (app_worker num (common\<lparr>wi_workerId := Some (prefix @ ''-activity''), wi_taskType := Some TActivity\<rparr>)
         (ActivityRuns timer_workflow_activities)) (\<lambda>w1.
     and_then (app_worker num (common\<lparr>wi_workerId := Some (prefix @ ''-workflow''), wi_taskType := Some TWorkflow\<rparr>)
         (WorkflowReplay [(''timer-workflow'', timerWorkflow ms)])) (\<lambda>w2.
     and_then (app_worker num (common\<lparr>wi_workerId := Some (prefix @ ''-timer''), wi_taskType := Some TTimer\<rparr>)
         TimerFires) (\<lambda>w3. Inr [w1, w2, w3])))))))"

subsection \<open>The task runner and the reaper process\<close>

text \<open>
  task-runner.ts: \<open>makeHandler\<close> picks a mode by its name. The modes write to a table that whoever starts
  the process has made, with or without a unique key (\<open>key\<close>) on the task.
\<close>

datatype runner_mode = Noop | Record | RecordInterval

definition makeHandler :: "string \<Rightarrow> js_error + runner_mode" where
  "makeHandler handlerMode =
     (if handlerMode = ''noop'' then Inr Noop
      else if handlerMode = ''record'' then Inr Record
      else if handlerMode = ''record-interval'' then Inr RecordInterval
      else Inl (Err (''Unknown HANDLER_MODE: '' @ handlerMode)))"

record result_row =
  rs_taskId :: nat
  rs_workerId :: string
  rs_times :: "(time \<times> time) option"

definition insert_result :: "bool \<Rightarrow> result_row \<Rightarrow> result_row list \<Rightarrow> result_row list \<times> (js_error + unit)" where
  "insert_result key r rows =
     (if key \<and> rs_taskId r \<in> set (map rs_taskId rows) then (rows, Inl (PgErr ''duplicate key value violates unique constraint''))
      else (rows @ [r], Inr ()))"

fun run_mode :: "runner_mode \<Rightarrow> bool \<Rightarrow> string \<Rightarrow> time \<Rightarrow> time \<Rightarrow> task \<Rightarrow> result_row list \<Rightarrow> result_row list \<times> (js_error + unit)" where
  "run_mode Noop key workerId startedAt finishedAt t rows = (rows, Inr ())"
| "run_mode Record key workerId startedAt finishedAt t rows =
     insert_result key \<lparr>rs_taskId = t_id t, rs_workerId = workerId, rs_times = None\<rparr> rows"
| "run_mode RecordInterval key workerId startedAt finishedAt t rows =
     insert_result key \<lparr>rs_taskId = t_id t, rs_workerId = workerId, rs_times = Some (startedAt, finishedAt)\<rparr> rows"

definition task_runner :: "(rat \<Rightarrow> string) \<Rightarrow> string \<Rightarrow> (string \<rightharpoonup> string) \<Rightarrow> js_error + worker \<times> runner_mode" where
  "task_runner num generated env =
     (let handlerMode = or_default (env ''HANDLER_MODE'') ''noop'' in
     and_then (envInt env ''HANDLER_SLEEP_MS'' 0) (\<lambda>handlerSleepMs.
     let workerId = or_default (env ''WORKER_ID'') generated in
     and_then (createPoolFromEnv env) (\<lambda>pool.
     and_then (envInt env ''MAX_CONCURRENCY'' 4) (\<lambda>maxConcurrency.
     and_then (envInt env ''LEASE_SECONDS'' 30) (\<lambda>leaseSeconds.
     and_then (envInt env ''HEARTBEAT_INTERVAL_MS'' 10000) (\<lambda>heartbeatIntervalMs.
     and_then (envInt env ''POLL_INTERVAL_MS'' 100) (\<lambda>pollIntervalMs.
     and_then (envInt env ''MAX_POLL_INTERVAL_MS'' 2000) (\<lambda>maxPollIntervalMs.
     and_then (envInt env ''DRAIN_TIMEOUT_MS'' 30000) (\<lambda>drainTimeoutMs.
     and_then (makeHandler handlerMode) (\<lambda>handler.
     and_then (new_Worker num generated ((plain_worker_input maxConcurrency)\<lparr>wi_workerId := Some workerId,
         wi_queue := env ''QUEUE'', wi_leaseSeconds := Some leaseSeconds, wi_heartbeatIntervalMs := Some heartbeatIntervalMs,
         wi_pollIntervalMs := Some pollIntervalMs, wi_maxPollIntervalMs := Some maxPollIntervalMs,
         wi_drainTimeoutMs := Some drainTimeoutMs, wi_notifyConnectionString := env ''NOTIFY_CONNECTION_STRING''\<rparr>))
       (\<lambda>w. Inr (w, handler))))))))))))"

text \<open>run-reaper.ts: the interval is not checked. A timer takes what is not a number, or out of range, as 1 ms.\<close>

definition reaper_interval :: "(string \<rightharpoonup> string) \<Rightarrow> js_num option" where
  "reaper_interval env = map_option (\<lambda>s. case parse_int s of None \<Rightarrow> JNaN | Some n \<Rightarrow> JFin (of_int n))
     (non_empty (env ''REAPER_INTERVAL_MS''))"

fun timer_delay :: "js_num \<Rightarrow> rat" where
  "timer_delay JNaN = 1"
| "timer_delay (JFin x) = (if 1 \<le> x \<and> x \<le> 2147483647 then x else 1)"

subsection \<open>Signals\<close>

text \<open>
  A call of \<open>stop\<close> and whether its promise is settled at once: on a stopped worker it returns, otherwise
  it goes on to drain.
\<close>

definition call_stop :: "worker \<Rightarrow> worker \<times> bool" where
  "call_stop w = (worker_stop w, wk_stopped w)"

text \<open>\<open>installGracefulShutdown\<close>: a signal calls \<open>stop\<close>, and the process exits when that call has returned.\<close>

definition graceful_signal :: "worker \<Rightarrow> worker \<times> bool" where
  "graceful_signal w = call_stop w"

text \<open>\<open>shutdown\<close> of the app processes: the flag \<open>shuttingDown\<close>, the workers, and whether the process may exit at once.\<close>

definition app_signal :: "bool \<times> worker list \<Rightarrow> (bool \<times> worker list) \<times> bool" where
  "app_signal s = (case s of (shuttingDown, ws) \<Rightarrow> if shuttingDown then (s, False)
     else ((True, map (fst \<circ> call_stop) ws), list_all (snd \<circ> call_stop) ws))"

end
