(* ===== verification/AppProps.thy ===== *)
theory AppProps
  imports Apps WorkerProps ReplayProps HandlerProps
begin

section \<open>The processes fit their workflows\<close>

subsection \<open>The calls a function can make\<close>

primrec only_calls :: "(wf_call \<Rightarrow> bool) \<Rightarrow> prog \<Rightarrow> bool" where
  "only_calls P (Ret v) = True"
| "only_calls P (Throw m) = True"
| "only_calls P (Issue c k) = (P c \<and> (\<forall>r. only_calls P (k r)))"
| "only_calls P (Await q k) = (\<forall>r. only_calls P (k r))"
| "only_calls P (Yield p) = only_calls P p"

lemma calls_only: "only_calls P p \<Longrightarrow> list_all P (calls_of p ix n s)"
proof (induction p arbitrary: n s)
  case (Issue c k)
  obtain t r where t: "issue ix c s = (t, r)" by fastforce
  with Issue.IH [OF rangeI, of r n t] Issue.prems show ?case by (auto split: sum.split)
next
  case (Await q k)
  then show ?case by (auto split: option.split promise.split nat.split)
next
  case (Yield p)
  then show ?case by (auto split: nat.split)
qed simp_all

lemma only_await: "only_calls P (await_call c k) \<longleftrightarrow> P c \<and> (\<forall>v. only_calls P (k v))"
  by (auto simp: await_call_def split: sum.splits)

lemma only_read: "(\<And>x. only_calls P (c x)) \<Longrightarrow> only_calls P (read_prop v k c)"
  by (simp add: read_prop_def split: sum.split)

lemmas only_simps = only_await only_read

text \<open>The commands of a pass are calls it made.\<close>

fun asked_by :: "wf_command \<Rightarrow> wf_call \<Rightarrow> bool" where
  "asked_by (ScheduleActivity t i) c = (c = ScheduleActivityCall t i)"
| "asked_by (ScheduleTimer d) c = (c = SleepCall d)"
| "asked_by (RequestLlmCall i q h) c = (c = LlmCall q)"
| "asked_by (RequestToolCall i t a h) c = (c = ToolCall t a)"
| "asked_by _ c = False"

lemma issue_commands:
  "set (ps_commands (fst (issue ix c s))) \<subseteq> set (ps_commands s) \<union> {x. asked_by x c}"
  by (cases c) (auto simp: issue_def Let_def push_command_def split: option.splits wf_event.splits prod.splits sum.splits)

lemma issue_all_commands:
  "set (ps_commands (issue_all ix cs s)) \<subseteq> set (ps_commands s) \<union> {x. \<exists>c \<in> set cs. asked_by x c}"
proof (induction cs arbitrary: s)
  case (Cons c cs)
  from Cons [of "fst (issue ix c s)"] issue_commands [of ix c s] show ?case by fastforce
qed simp

lemma command_call:
  assumes "only_calls P (f inp)" "replay f inp h hash = Inr r" "x \<in> set (rr_commands r)" "\<not> is_ending x"
  shows "\<exists>c. asked_by x c \<and> P c"
proof -
  have run: "rr_status r = RpRUNNING" using finished_commands [OF assms(2)] assms(3,4) by fastforce
  have "list_all P (pass_calls f inp h hash)" unfolding pass_calls_def by (rule calls_only [OF assms(1)])
  with replay_Inr(3) [OF assms(2) run] assms(3) issue_all_commands [of "index_history hash h" "pass_calls f inp h hash" initial_pass]
  show ?thesis by (auto simp: pass_end_state list_all_iff)
qed

subsection \<open>Workers that can do what a workflow asks for\<close>

fun knows :: "task_handler \<Rightarrow> wf_event \<Rightarrow> bool" where
  "knows (ActivityRuns acts) (ActivityScheduled t i) = (registry_get acts t \<noteq> None)"
| "knows TimerFires (TimerScheduled f) = True"
| "knows (LlmCalls p wfs) (LLM_REQUESTED a b c d e) = True"
| "knows (ToolCalls reg) (TOOL_REQUESTED a t b c d) = (get_tool reg t \<noteq> None)"
| "knows _ _ = False"

definition role :: "app_worker \<Rightarrow> task_type option \<times> string \<times> task_handler" where
  "role aw = (wc_taskType (wk_config (aw_worker aw)), wc_queue (wk_config (aw_worker aw)), aw_handler aw)"

abbreviation dequeues :: "app_worker list \<Rightarrow> task_type \<Rightarrow> task_handler \<Rightarrow> bool" where
  "dequeues ws t h \<equiv> (Some t, ''default'', h) \<in> set (map role ws)"

text \<open>A worker that dequeues the task of an event and has the activity or the tool it names.\<close>

definition served :: "app_worker list \<Rightarrow> wf_event \<Rightarrow> enqueue_input \<Rightarrow> bool" where
  "served ws ev i \<longleftrightarrow> (\<exists>h. (Some (ei_taskType i), or_default (ei_queue i) ''default'', h) \<in> set (map role ws) \<and> knows h ev)"

definition fits_app :: "app_worker list \<Rightarrow> wf_call \<Rightarrow> bool" where
  "fits_app ws c \<longleftrightarrow> (\<forall>x ck cfg ev w tr n i. asked_by x c \<and> commandToEvent ck cfg x = Inr ev
     \<and> task_for w tr \<lparr>seq = n, event = ev\<rparr> = Some i \<longrightarrow> served ws ev i)"

lemma resolved_fields:
  "resolveWorkerConfig num gen input = Inr c \<Longrightarrow> wc_taskType c = wi_taskType input \<and> wc_queue c = or_default (wi_queue input) ''default''"
  by (auto simp: resolveWorkerConfig_def Let_def split: if_splits)

lemma app_worker_Inr:
  assumes "app_worker num input h = Inr aw"
  shows "aw_handler aw = h" "wc_taskType (wk_config (aw_worker aw)) = wi_taskType input"
    "wc_queue (wk_config (aw_worker aw)) = or_default (wi_queue input) ''default''"
    "resolveWorkerConfig num '''' input = Inr (wk_config (aw_worker aw))"
  using assms by (auto simp: app_worker_def and_then_Inr new_Worker_def dest!: resolved_fields split: sum.splits)

lemma asked_by_call:
  "asked_by x (ScheduleActivityCall t v) \<longleftrightarrow> x = ScheduleActivity t v"
  "asked_by x (SleepCall d) \<longleftrightarrow> x = ScheduleTimer d"
  "asked_by x (LlmCall q) \<longleftrightarrow> (\<exists>i h. x = RequestLlmCall i q h)"
  "asked_by x (ToolCall t a) \<longleftrightarrow> (\<exists>i h. x = RequestToolCall i t a h)"
  by (cases x; auto)+

lemma app_worker_role:
  "app_worker num input h = Inr aw \<Longrightarrow> role aw = (wi_taskType input, or_default (wi_queue input) ''default'', h)"
  by (simp add: role_def app_worker_Inr)

lemma served_I:
  "\<lbrakk>(Some (ei_taskType i), or_default (ei_queue i) ''default'', h) \<in> set (map role ws); knows h ev\<rbrakk> \<Longrightarrow> served ws ev i"
  unfolding served_def by blast

lemma fits_activity: "\<lbrakk>dequeues ws TActivity (ActivityRuns acts); registry_get acts t \<noteq> None\<rbrakk> \<Longrightarrow> fits_app ws (ScheduleActivityCall t v)"
  by (auto simp: fits_app_def asked_by_call base_input_def or_default_def simp del: set_map intro!: served_I [where h = "ActivityRuns acts"])

lemma fits_timer: "dequeues ws TTimer TimerFires \<Longrightarrow> fits_app ws (SleepCall d)"
  by (auto simp: fits_app_def asked_by_call base_input_def or_default_def simp del: set_map intro!: served_I [where h = TimerFires]
    split: sum.splits)

lemma fits_llm: "dequeues ws TLlm (LlmCalls p wfs) \<Longrightarrow> fits_app ws (LlmCall q)"
  by (auto simp: fits_app_def asked_by_call base_input_def or_default_def Let_def simp del: set_map
    intro!: served_I [where h = "LlmCalls p wfs"])

lemma fits_tool: "\<lbrakk>dequeues ws TTool (ToolCalls reg); get_tool reg t \<noteq> None\<rbrakk> \<Longrightarrow> fits_app ws (ToolCall t a)"
  by (auto simp: fits_app_def asked_by_call base_input_def or_default_def simp del: set_map intro!: served_I [where h = "ToolCalls reg"])

lemma fits_served:
  assumes "only_calls (fits_app ws) (f inp)" "replay f inp h hash = Inr r" "commands_events ck cfg (rr_commands r) = Inr evs"
    and "ev \<in> set evs" "task_for w tr \<lparr>seq = n, event = ev\<rparr> = Some i"
  shows "served ws ev i"
proof -
  from list_all2_in_right [OF commands_events_all2 [OF assms(3)] assms(4)] obtain x where
    x: "x \<in> set (rr_commands r)" "commandToEvent ck cfg x = Inr ev" by blast
  have "\<not> is_ending x" using x(2) assms(5) by (auto simp: is_ending_def)
  from command_call [OF assms(1,2) x(1) this] obtain c where "asked_by x c" "fits_app ws c" by blast
  then show ?thesis using x(2) assms(5) unfolding fits_app_def by blast
qed

subsection \<open>The processes\<close>

definition app_processes :: "(rat \<Rightarrow> string) \<Rightarrow> js_error + llm_step_config \<Rightarrow> ((string \<times> jsval) list \<Rightarrow> js_error + validator)
    \<Rightarrow> (string \<Rightarrow> string) \<Rightarrow> (jsval \<Rightarrow> js_num) \<Rightarrow> (string \<rightharpoonup> string) \<Rightarrow> ((js_error + app_worker list) \<times> workflow_fn) list" where
  "app_processes num config compile sha256Hex ms env =
     [(llm_agent_app num config (createSupportToolRegistry compile sha256Hex) env, supportTicketTriage),
      (reserve_charge_ship_app num env, reserveChargeShip), (timer_workflow_app num ms env, timerWorkflow ms)]"

lemma support_tools:
  assumes "createSupportToolRegistry compile sha256Hex = Inr reg"
  shows "get_tool reg ''lookup_customer'' \<noteq> None" "get_tool reg ''send_reply'' \<noteq> None"
  using assms by (auto simp: createSupportToolRegistry_def register_def get_tool_def empty_registry_def split: sum.splits if_splits)

lemma llm_agent_roles:
  "llm_agent_app num config registry env = Inr ws \<Longrightarrow> \<exists>p reg. registry = Inr reg \<and> map role ws =
     [(Some TWorkflow, ''default'', WorkflowReplay [(''support-ticket-triage'', supportTicketTriage)]),
      (Some TLlm, ''default'', LlmCalls p [(''support-ticket-triage'', supportTicketTriage)]),
      (Some TTool, ''default'', ToolCalls reg)]"
  by (auto simp: llm_agent_app_def and_then_Inr Let_def plain_worker_input_def or_default_def dest!: app_worker_role)

lemma reserve_charge_ship_roles:
  "reserve_charge_ship_app num env = Inr ws \<Longrightarrow> map role ws =
     [(Some TActivity, ''default'', ActivityRuns reserve_charge_ship_activities),
      (Some TWorkflow, ''default'', WorkflowReplay [(''reserve-charge-ship'', reserveChargeShip)])]"
  by (auto simp: reserve_charge_ship_app_def and_then_Inr Let_def plain_worker_input_def or_default_def dest!: app_worker_role)

lemma timer_workflow_roles:
  "timer_workflow_app num ms env = Inr ws \<Longrightarrow> map role ws =
     [(Some TActivity, ''default'', ActivityRuns timer_workflow_activities),
      (Some TWorkflow, ''default'', WorkflowReplay [(''timer-workflow'', timerWorkflow ms)]), (Some TTimer, ''default'', TimerFires)]"
  by (auto simp: timer_workflow_app_def and_then_Inr Let_def plain_worker_input_def or_default_def dest!: app_worker_role)

lemma app_replays:
  "llm_agent_app num config registry env = Inr ws \<Longrightarrow> \<exists>name. dequeues ws TWorkflow (WorkflowReplay [(name, supportTicketTriage)])"
  "reserve_charge_ship_app num env = Inr ws \<Longrightarrow> \<exists>name. dequeues ws TWorkflow (WorkflowReplay [(name, reserveChargeShip)])"
  "timer_workflow_app num ms env = Inr ws \<Longrightarrow> \<exists>name. dequeues ws TWorkflow (WorkflowReplay [(name, timerWorkflow ms)])"
  by (auto simp del: set_map dest!: llm_agent_roles reserve_charge_ship_roles timer_workflow_roles)

lemma triage_fits:
  assumes "llm_agent_app num config (createSupportToolRegistry compile sha256Hex) env = Inr ws"
  shows "only_calls (fits_app ws) (supportTicketTriage inp)"
proof -
  from llm_agent_roles [OF assms] obtain p wfs reg where
    "dequeues ws TLlm (LlmCalls p wfs)" "dequeues ws TTool (ToolCalls reg)" "createSupportToolRegistry compile sha256Hex = Inr reg"
    by (force simp del: set_map)
  note fits = fits_llm [OF this(1)] fits_tool [OF this(2)] support_tools [OF this(3)]
  show ?thesis by (simp add: supportTicketTriage_def only_simps fits)
qed

lemma reserve_fits:
  assumes "reserve_charge_ship_app num env = Inr ws"
  shows "only_calls (fits_app ws) (reserveChargeShip inp)"
proof -
  from reserve_charge_ship_roles [OF assms] have "dequeues ws TActivity (ActivityRuns reserve_charge_ship_activities)"
    by (simp del: set_map)
  note fits = fits_activity [OF this]
  show ?thesis by (simp add: reserveChargeShip_def only_simps fits reserve_charge_ship_activities_def registry_get_def)
qed

lemma timer_fits:
  assumes "timer_workflow_app num ms env = Inr ws"
  shows "only_calls (fits_app ws) (timerWorkflow ms inp)"
proof -
  from timer_workflow_roles [OF assms] have "dequeues ws TActivity (ActivityRuns timer_workflow_activities)"
    "dequeues ws TTimer TimerFires" by (simp_all del: set_map)
  note fits = fits_activity [OF this(1)] fits_timer [OF this(2)]
  show ?thesis by (simp add: timerWorkflow_def only_simps fits timer_workflow_activities_def registry_get_def)
qed

text \<open>
  C37: In every application process each step its workflow asks for is served: whatever history a replay of
  the workflow reads, the task of each event it records is dequeued by a worker of the process that has
  the activity or tool named by the event; and a worker of the process replays the workflow.
\<close>

theorem apps_serve_their_steps:
  assumes "(Inr ws, fn) \<in> set (app_processes num config compile sha256Hex ms env)"
    and "replay fn inp h hash = Inr r" "commands_events ck cfg (rr_commands r) = Inr evs"
    and "ev \<in> set evs" "task_for w tr \<lparr>seq = n, event = ev\<rparr> = Some i"
  shows "served ws ev i \<and> (\<exists>name. dequeues ws TWorkflow (WorkflowReplay [(name, fn)]))"
proof -
  have "only_calls (fits_app ws) (fn inp)" "\<exists>name. dequeues ws TWorkflow (WorkflowReplay [(name, fn)])"
    using assms(1) by (auto simp: app_processes_def simp del: set_map dest!: sym [of "Inr ws"]
      intro: triage_fits reserve_fits timer_fits app_replays)
  with fits_served [OF _ assms(2-5)] show ?thesis by blast
qed

definition only_database :: "string \<Rightarrow> string option" where
  "only_database = [''DATABASE_URL'' \<mapsto> ''postgres'']"

definition order_input :: jsval where
  "order_input = JObj [(''orderId'', JStr ''o-1'')]"

lemma only_database_env [simp]:
  "only_database ''DATABASE_URL'' = Some ''postgres''" "only_database ''WORKER_ID'' = None" "only_database ''LEASE_SECONDS'' = None"
  "only_database ''HEARTBEAT_INTERVAL_MS'' = None" "only_database ''POLL_INTERVAL_MS'' = None"
  "only_database ''NOTIFY_CONNECTION_STRING'' = None"
  by (simp_all add: only_database_def)

definition default_input :: "string \<Rightarrow> task_type \<Rightarrow> worker_config_input" where
  "default_input workerId t = \<lparr>wi_workerId = Some workerId, wi_queue = None, wi_taskType = Some t, wi_pollIntervalMs = Some 50,
     wi_maxPollIntervalMs = None, wi_leaseSeconds = Some 10, wi_heartbeatIntervalMs = Some 2000, wi_maxConcurrency = 5,
     wi_drainTimeoutMs = None, wi_notifyConnectionString = None\<rparr>"

lemma default_resolved: "\<exists>c. resolveWorkerConfig num gen (default_input workerId t) = Inr c \<and> 0 < wc_pollIntervalMs c"
  by (simp add: resolveWorkerConfig_def default_input_def or_default_def is_integer_def)

lemma default_worker: "\<exists>aw. app_worker num (default_input workerId t) h = Inr aw"
  using default_resolved [of num "''''" workerId t] new_worker_plain by (fastforce simp: app_worker_def)

lemma default_app: "\<exists>ws. reserve_charge_ship_app num only_database = Inr ws"
proof -
  obtain a b where
    "app_worker num (default_input ''app-activity'' TActivity) (ActivityRuns reserve_charge_ship_activities) = Inr a"
    "app_worker num (default_input ''app-workflow'' TWorkflow) (WorkflowReplay [(''reserve-charge-ship'', reserveChargeShip)]) = Inr b"
    using default_worker by meson
  then show ?thesis
    by (simp add: reserve_charge_ship_app_def createPoolFromEnv_def requireDatabaseUrl_def envInt_def plain_worker_input_def
      or_default_def default_input_def)
qed

definition first_pass :: "wf_command list option" where
  "first_pass = (case replay reserveChargeShip order_input [] None of Inl e \<Rightarrow> None | Inr r \<Rightarrow> Some (rr_commands r))"

lemma first_pass_asks: "first_pass = Some [ScheduleActivity ''reserve'' order_input]"
  by code_simp

theorem apps_serve_their_steps_witness:
  "\<exists>ws. reserve_charge_ship_app (\<lambda>_. ''n'') only_database = Inr ws
     \<and> served ws (ActivityScheduled ''reserve'' order_input) ((base_input TActivity ''wf'' None)\<lparr>ei_scheduledEventSeq := Some 1\<rparr>)"
proof -
  obtain ws where ws: "reserve_charge_ship_app (\<lambda>_. ''n'') only_database = Inr ws" using default_app by blast
  obtain r where r: "replay reserveChargeShip order_input [] None = Inr r" "rr_commands r = [ScheduleActivity ''reserve'' order_input]"
    using first_pass_asks by (auto simp: first_pass_def split: sum.splits)
  have "(Inr ws, reserveChargeShip) \<in> set (app_processes (\<lambda>_. ''n'') (Inl (Err '''')) (\<lambda>_. Inl (Err '''')) (\<lambda>_. '''') (\<lambda>_. JNaN) only_database)"
    by (simp add: app_processes_def ws)
  from apps_serve_their_steps [OF this r(1), of _ _ "[ActivityScheduled ''reserve'' order_input]" _ "''wf''" None 1] ws
  show ?thesis by (auto simp: r(2))
qed

subsection \<open>The quoted channel\<close>

text \<open>
  How the server reads a quoted identifier: up to the closing quote, two quotes standing for one. It
  gives the identifier and what follows it.
\<close>

fun read_quoted :: "string \<Rightarrow> (string \<times> string) option" where
  "read_quoted [] = None"
| "read_quoted (c # cs) = (if c \<noteq> quote_char then map_option (\<lambda>(i, rest). (c # i, rest)) (read_quoted cs)
     else case cs of d # ds \<Rightarrow> if d = quote_char then map_option (\<lambda>(i, rest). (quote_char # i, rest)) (read_quoted ds)
         else Some ([], cs)
       | [] \<Rightarrow> Some ([], []))"

lemma read_double_quotes: "read_quoted (double_quotes s @ [quote_char]) = Some (s, [])"
  by (induction s) simp_all

text \<open>The channel of the statement is the one the messages are compared with, whatever characters it has.\<close>

lemma listen_channel:
  "\<exists>stmt. listen_statement channel = ''LISTEN '' @ quote_char # stmt \<and> read_quoted stmt = Some (channel, [])"
  by (simp add: listen_statement_def read_double_quotes)

subsection \<open>Numbers that are not checked\<close>

text \<open>Text after the digits is dropped, so a value with a unit is taken as the bare number.\<close>

lemma envInt_drops_unit: "envInt [''HEARTBEAT_INTERVAL_MS'' \<mapsto> ''2s''] ''HEARTBEAT_INTERVAL_MS'' 2000 = Inr 2"
proof -
  have "parse_int ''2s'' = Some 2" by code_simp
  then show ?thesis by (simp add: envInt_def)
qed

text \<open>An interval of the reaper that is no number makes it sweep every millisecond.\<close>

lemma reaper_interval_unchecked:
  "\<lbrakk>env ''REAPER_INTERVAL_MS'' = Some s; s \<noteq> ''''; parse_int s = None\<rbrakk>
     \<Longrightarrow> timer_delay (or_default (reaper_interval env) (JFin 5000)) = 1"
  by (cases s) (simp_all add: reaper_interval_def non_empty_def or_default_def)

subsection \<open>Signals\<close>

text \<open>
  A second signal to a worker that drains: the worker process exits at once, with its runs in flight,
  where an application process goes on to drain.
\<close>

lemma second_signal:
  "graceful_signal (fst (graceful_signal w)) = (fst (graceful_signal w), True)"
  "app_signal (fst (app_signal (False, ws))) = (fst (app_signal (False, ws)), False)"
  by (simp_all add: graceful_signal_def call_stop_def worker_stop_def clear_poll_timer_def app_signal_def split: option.split)

lemma signal_keeps_runs: "wk_runs (fst (graceful_signal w)) = wk_runs w"
  by (simp add: graceful_signal_def call_stop_def worker_stop_def clear_poll_timer_def split: option.split)

subsection \<open>The modes of the task runner\<close>

text \<open>A table with a key never holds a task twice: a second run of a task fails.\<close>

lemma run_mode_once:
  assumes "distinct (map rs_taskId rows)" "run_mode m True w a b t rows = (rows', r)"
  shows "distinct (map rs_taskId rows') \<and> (m \<noteq> Noop \<and> t_id t \<in> set (map rs_taskId rows) \<longrightarrow> (\<exists>e. r = Inl e) \<and> rows' = rows)"
  using assms by (cases m) (auto simp: insert_result_def split: if_splits)

end
