(* ===== verification/Bench.thy ===== *)
theory Bench
  imports Chaos ReplayBound Examples
begin

section \<open>The benchmark of LLM steps (bench/src/llmBench.ts)\<close>

text \<open>
  The statistics, the workflow of section B and the history it is replayed over, built by driving
  \<open>replay\<close> as the code does. What the sections measure (time) and print is left out.
\<close>

subsection \<open>Statistics\<close>

record bench_stats =
  st_n :: nat
  st_minMs :: js_num
  st_p50Ms :: js_num
  st_p95Ms :: js_num
  st_p99Ms :: js_num
  st_maxMs :: js_num
  st_meanMs :: rat

text \<open>\<open>s[...] ?? NaN\<close>: an index below 0 or past the end gives \<open>NaN\<close>.\<close>

definition pick :: "rat list \<Rightarrow> nat \<Rightarrow> js_num" where
  "pick s p = (let i = min (int (length s) - 1) (max 0 (\<lceil>(of_nat p / 100) * of_nat (length s) :: rat\<rceil> - 1)) in
     if i < 0 then JNaN else num_at s (nat i))"

definition stats :: "rat list \<Rightarrow> bench_stats" where
  "stats samples = (let s = sort samples in
     \<lparr>st_n = length s, st_minMs = num_at s 0, st_p50Ms = pick s 50, st_p95Ms = pick s 95, st_p99Ms = pick s 99,
      st_maxMs = (if s = [] then JNaN else num_at s (length s - 1)),
      st_meanMs = foldl (+) 0 s / (if s = [] then 1 else of_nat (length s))\<rparr>)"

subsection \<open>The workflow and its history\<close>

definition chain_request :: "nat \<Rightarrow> jsval \<Rightarrow> llm_request" where
  "chain_request k txt = \<lparr>rq_model = ''default'',
     rq_messages = [\<lparr>m_role = ''user'', m_content = ''step '' @ show_nat k @ '' after '' @ template_text txt\<rparr>],
     rq_params = None, rq_tools = None\<rparr>"

text \<open>The loop of \<open>chain\<close> from step \<open>k\<close> on, with the steps left and the text so far.\<close>

fun llm_chain_loop :: "nat \<Rightarrow> nat \<Rightarrow> jsval \<Rightarrow> prog" where
  "llm_chain_loop k 0 txt = Ret txt"
| "llm_chain_loop k (Suc n) txt =
     await_call (LlmCall (chain_request k txt)) (\<lambda>r. read_prop r ''text'' (\<lambda>t. llm_chain_loop (Suc k) n t))"

definition llm_chain :: "nat \<Rightarrow> workflow_fn" where
  "llm_chain steps inp = llm_chain_loop 0 steps (JStr ''start'')"

definition chain_started :: stored_event where
  "chain_started = \<lparr>seq = 1, event = WorkflowStarted ''chain'' (JObj [])\<rparr>"

definition out_text :: "nat \<Rightarrow> string" where
  "out_text step = ''out-'' @ show_nat step"

definition requested_event :: "nat \<Rightarrow> string \<Rightarrow> llm_request \<Rightarrow> string \<Rightarrow> stored_event" where
  "requested_event reqSeq stepId request requestHash =
     \<lparr>seq = reqSeq, event = LLM_REQUESTED stepId requestHash StFull (Some request) 5\<rparr>"

definition completed_event :: "nat \<Rightarrow> string \<Rightarrow> string \<Rightarrow> nat \<Rightarrow> stored_event" where
  "completed_event reqSeq stepId requestHash step =
     \<lparr>seq = reqSeq + 1, event = LLM_COMPLETED stepId reqSeq requestHash (out_text step) [] False ''mock-1'' 20 5 10
        (Some (JFin (3 / 100000))) 1\<rparr>"

text \<open>The loop of \<open>buildHistory\<close> over the steps that are left.\<close>

fun build_steps :: "(string \<Rightarrow> string) \<Rightarrow> nat \<Rightarrow> nat list \<Rightarrow> stored_event list \<Rightarrow> js_error + stored_event list" where
  "build_steps sha256Hex k [] history = Inr history"
| "build_steps sha256Hex k (step # steps) history = (case replay (llm_chain (k + 1)) (JObj []) history (Some sha256Hex) of
     Inl e \<Rightarrow> Inl e
   | Inr r \<Rightarrow> (case js_at (rr_commands r) 0 of
       Some (RequestLlmCall stepId request requestHash) \<Rightarrow>
         let reqSeq = length history + 1 in
         build_steps sha256Hex k steps (history @ requested_event reqSeq stepId request requestHash
           # (if step < k then [completed_event reqSeq stepId requestHash step] else []))
     | _ \<Rightarrow> Inl (Err ''expected a request command'')))"

definition buildHistory :: "(string \<Rightarrow> string) \<Rightarrow> nat \<Rightarrow> js_error + stored_event list" where
  "buildHistory sha256Hex k = build_steps sha256Hex k [0..<k + 1] [chain_started]"

subsection \<open>The statistics are those of the chaos harness\<close>

lemma pick_percentile: "pick s p = percentile s p"
proof -
  have "min n (max 0 x) = max 0 (min n x)" if "0 \<le> n" for n x :: int using that by simp
  from this [of "int (length s) - 1"] show ?thesis by (cases s) (simp_all add: pick_def percentile_def num_at_def Let_def)
qed

lemma stats_of_none: "stats [] = \<lparr>st_n = 0, st_minMs = JNaN, st_p50Ms = JNaN, st_p95Ms = JNaN, st_p99Ms = JNaN,
    st_maxMs = JNaN, st_meanMs = 0\<rparr>"
  by (simp add: stats_def pick_def num_at_def js_at_conv)

lemma sorted_ends:
  assumes "sorted xs" "xs \<noteq> []"
  shows "xs ! 0 = Min (set xs)" "xs ! (length xs - 1) = Max (set xs)"
  using assms by (auto intro!: Min_eqI [symmetric] Max_eqI [symmetric] nth_mem dest!: in_set_conv_nth [THEN iffD1] simp: sorted_iff_nth_mono)

lemma stats_bounds:
  assumes "samples \<noteq> []"
  shows "st_minMs (stats samples) = JFin (Min (set samples))" "st_maxMs (stats samples) = JFin (Max (set samples))"
proof -
  have "sort samples \<noteq> []" using assms by (metis set_empty set_sort)
  with sorted_ends [of "sort samples"] assms
  show "st_minMs (stats samples) = JFin (Min (set samples))" "st_maxMs (stats samples) = JFin (Max (set samples))"
    by (simp_all add: stats_def num_at_def js_at_conv Let_def)
qed

subsection \<open>What a replay of the recorded steps does\<close>

definition before_text :: "nat \<Rightarrow> jsval" where
  "before_text i = JStr (if i = 0 then ''start'' else out_text (i - 1))"

abbreviation nth_request :: "nat \<Rightarrow> llm_request" where
  "nth_request i \<equiv> chain_request i (before_text i)"

definition chain_hash :: "(string \<Rightarrow> string) \<Rightarrow> nat \<Rightarrow> string" where
  "chain_hash hash i = hash (canonicalLlmRequest (nth_request i))"

definition nth_requested :: "(string \<Rightarrow> string) \<Rightarrow> nat \<Rightarrow> stored_event" where
  "nth_requested hash i = requested_event (2 * i + 2) (llm_step_id i) (nth_request i) (chain_hash hash i)"

definition nth_completed :: "(string \<Rightarrow> string) \<Rightarrow> nat \<Rightarrow> stored_event" where
  "nth_completed hash i = completed_event (2 * i + 2) (llm_step_id i) (chain_hash hash i) i"

primrec llm_chain_log :: "(string \<Rightarrow> string) \<Rightarrow> nat \<Rightarrow> stored_event list" where
  "llm_chain_log hash 0 = [chain_started]"
| "llm_chain_log hash (Suc n) = llm_chain_log hash n @ [nth_requested hash n, nth_completed hash n]"

lemma llm_chain_log_length: "length (llm_chain_log hash n) = 2 * n + 1"
  by (induction n) simp_all

lemmas chain_events = chain_started_def nth_requested_def nth_completed_def requested_event_def completed_event_def

lemma llm_chain_requested:
  "filter isLlmRequested (llm_chain_log hash n) = map (nth_requested hash) [0..<n]"
  by (induction n) (simp_all add: chain_events)

abbreviation chain_result :: "nat \<Rightarrow> jsval" where
  "chain_result i \<equiv> call_result_js \<lparr>cr_text = out_text i, cr_toolCalls = [], cr_model = ''mock-1'', cr_tokensIn = 20,
     cr_tokensOut = 5, cr_truncated = False\<rparr>"

lemma llm_chain_outcomes:
  "foldl llm_outcome_step Map.empty (llm_chain_log hash n) (2 * i + 2) = (if i < n then Some (Inr (chain_result i)) else None)"
  by (induction n) (auto simp: chain_events llm_outcome_step_def less_Suc_eq)

text \<open>The first \<open>N\<close> steps are recorded and settled.\<close>

definition chain_recorded :: "(string \<Rightarrow> string) \<Rightarrow> nat \<Rightarrow> replay_index \<Rightarrow> bool" where
  "chain_recorded hash N ix \<longleftrightarrow> ri_hash ix = Some hash \<and> (\<forall>i < N. js_at (ri_llmRequestedEvents ix) i = Some (nth_requested hash i)
     \<and> ri_llmOutcomeBySeq ix (2 * i + 2) = Some (Inr (chain_result i)))"

lemma chain_recorded_step:
  assumes "chain_recorded hash N ix" "i < N" "ps_llmCallIndex s = i"
  shows "issue ix (LlmCall (nth_request i)) s = (s\<lparr>ps_llmCallIndex := Suc i, ps_promises := ps_promises s @ [PSettled (Inr (chain_result i))]\<rparr>,
    Inr (length (ps_promises s)))"
  using assms by (auto simp: chain_recorded_def issue_eq Let_def chain_events chain_hash_def)

lemma drain_llm_chain:
  assumes "chain_recorded hash N ix" "ps_llmCallIndex s + j = N" "ps_nonDeterminismError s = None"
  shows "\<exists>t. drain (llm_chain_loop (ps_llmCallIndex s) (j + m) (before_text (ps_llmCallIndex s))) ix ticks s
       = (if j \<le> ticks then drain (llm_chain_loop N m (before_text N)) ix (ticks - j) t else (t, None))
     \<and> (j \<le> ticks \<longrightarrow> ps_llmCallIndex t = N) \<and> ps_nonDeterminismError t = None
     \<and> ps_commands t = ps_commands s \<and> ps_pendingLlmRequests t = ps_pendingLlmRequests s"
  using assms(2,3)
proof (induction j arbitrary: ticks s)
  case (Suc j)
  let ?i = "ps_llmCallIndex s"
  let ?u = "s\<lparr>ps_llmCallIndex := Suc ?i, ps_promises := ps_promises s @ [PSettled (Inr (chain_result ?i))]\<rparr>"
  have u: "issue ix (LlmCall (nth_request ?i)) s = (?u, Inr (length (ps_promises s)))"
    using chain_recorded_step [OF assms(1) _ refl] Suc.prems(1) by simp
  have t: "get_prop (chain_result ?i) ''text'' = Inr (before_text (Suc ?i))"
    by (simp add: call_result_js_def before_text_def or_default_def)
  show ?case
  proof (cases ticks)
    case 0
    then show ?thesis using u Suc.prems(2) by (intro exI [of _ ?u]) (simp add: drain_await_call js_at_snoc)
  next
    case (Suc n)
    with Suc.IH [of ?u n] Suc.prems u t show ?thesis
      by (cases "j \<le> n") (simp_all add: drain_await_call js_at_snoc read_prop_def)
  qed
qed auto

text \<open>A replay over \<open>n\<close> recorded steps: it asks for the next one, unless the ticks are used up.\<close>

lemma chain_recorded_log:
  assumes "list_all (\<lambda>e. seq e = 2 * n + 2 \<and> isLlmRequested e) tail"
  shows "chain_recorded hash n (index_history (Some hash) (llm_chain_log hash n @ tail))"
proof -
  have "foldl llm_outcome_step m tail = m" for m
    using assms by (induction tail arbitrary: m) (auto simp: llm_outcome_step_def split: wf_event.splits)
  then show ?thesis
    by (auto simp: chain_recorded_def index_history_def llm_chain_requested llm_chain_outcomes [simplified] js_at_conv nth_append)
qed

text \<open>The first call beyond the settled ones: it becomes a command, or it is in flight.\<close>

lemma drain_asks:
  assumes "ri_hash ix = Some hash" "ps_llmCallIndex t = n" "js_at (ri_llmRequestedEvents ix) n = None"
  shows "drain (await_call (LlmCall r) k) ix ticks t = (t\<lparr>ps_llmCallIndex := Suc n,
    ps_commands := ps_commands t @ [RequestLlmCall (llm_step_id n) r (hash (canonicalLlmRequest r))],
    ps_promises := ps_promises t @ [PPending]\<rparr>, None)"
  using assms by (simp add: drain_await_call issue_eq Let_def push_command_def js_at_snoc)

lemma drain_waits:
  assumes "ri_hash ix = Some hash" "ps_llmCallIndex t = n" "js_at (ri_llmRequestedEvents ix) n = Some (nth_requested hash n)"
    and "ri_llmOutcomeBySeq ix (2 * n + 2) = None"
  shows "drain (await_call (LlmCall (nth_request n)) k) ix ticks t = (t\<lparr>ps_llmCallIndex := Suc n,
    ps_pendingLlmRequests := ps_pendingLlmRequests t @ [(llm_step_id n, nth_request n)], ps_promises := ps_promises t @ [PPending]\<rparr>, None)"
  using assms by (simp add: drain_await_call issue_eq Let_def js_at_snoc nth_requested_def requested_event_def chain_hash_def)

text \<open>A replay up to the first call that is not settled.\<close>

lemma replay_llm_chain:
  assumes "n < k" "chain_recorded hash n (index_history (Some hash) h)"
  obtains t m where "replay (llm_chain k) inp h (Some hash) = finish_pass (if n \<le> 1000
      then drain (await_call (LlmCall (nth_request n)) (\<lambda>r. read_prop r ''text'' (llm_chain_loop (Suc n) m)))
             (index_history (Some hash) h) (1000 - n) t
      else (t, None))"
    "n \<le> 1000 \<longrightarrow> ps_llmCallIndex t = n" "ps_nonDeterminismError t = None" "ps_commands t = []" "ps_pendingLlmRequests t = []"
proof -
  obtain m where "k = n + Suc m" using less_imp_Suc_add [OF assms(1)] by (metis add_Suc_right)
  then have "replay (llm_chain k) inp h (Some hash)
      = finish_pass (drain (llm_chain_loop 0 (n + Suc m) (before_text 0)) (index_history (Some hash) h) 1000 initial_pass)"
    by (simp add: replay_def MAX_DRAIN_TICKS_def llm_chain_def before_text_def del: llm_chain_loop.simps)
  moreover have "\<exists>t. drain (llm_chain_loop 0 (n + Suc m) (before_text 0)) (index_history (Some hash) h) 1000 initial_pass
      = (if n \<le> 1000 then drain (llm_chain_loop n (Suc m) (before_text n)) (index_history (Some hash) h) (1000 - n) t else (t, None))
    \<and> (n \<le> 1000 \<longrightarrow> ps_llmCallIndex t = n) \<and> ps_nonDeterminismError t = None \<and> ps_commands t = [] \<and> ps_pendingLlmRequests t = []"
    using drain_llm_chain [where s = initial_pass and j = n and m = "Suc m" and ticks = 1000, OF assms(2)]
    by (simp only: initial_counters add_0 simp_thms)
  ultimately show thesis using that by (elim exE conjE) (simp only: llm_chain_loop.simps)
qed

lemma replay_next_step:
  assumes "n < k"
  shows "replay (llm_chain k) inp (llm_chain_log hash n) (Some hash) = Inr \<lparr>rr_status = RpRUNNING, rr_result = JUndef,
    rr_error = None, rr_commands = (if n \<le> 1000 then [RequestLlmCall (llm_step_id n) (nth_request n) (chain_hash hash n)] else []),
    rr_pendingLlmRequests = []\<rparr>"
proof -
  let ?ix = "index_history (Some hash) (llm_chain_log hash n)"
  have rec: "chain_recorded hash n ?ix" using chain_recorded_log [of n "[]"] by simp
  have "js_at (ri_llmRequestedEvents ?ix) n = None" "ri_hash ?ix = Some hash"
    by (simp_all add: index_history_def llm_chain_requested js_at_conv)
  note ask = drain_asks [OF this(2) _ this(1)]
  show ?thesis
    by (rule replay_llm_chain [OF assms rec, of inp], cases "n \<le> 1000") (simp_all add: ask finish_pass_def chain_hash_def)
qed

lemma replay_in_flight:
  assumes "n < k"
  shows "replay (llm_chain k) inp (llm_chain_log hash n @ [nth_requested hash n]) (Some hash) = Inr \<lparr>rr_status = RpRUNNING,
    rr_result = JUndef, rr_error = None, rr_commands = [],
    rr_pendingLlmRequests = (if n \<le> 1000 then [(llm_step_id n, nth_request n)] else [])\<rparr>"
proof -
  let ?ix = "index_history (Some hash) (llm_chain_log hash n @ [nth_requested hash n])"
  have rec: "chain_recorded hash n ?ix" by (rule chain_recorded_log) (simp add: chain_events)
  have "js_at (ri_llmRequestedEvents ?ix) n = Some (nth_requested hash n)" "ri_llmOutcomeBySeq ?ix (2 * n + 2) = None"
    "ri_hash ?ix = Some hash"
    using llm_chain_outcomes [of hash n n]
    by (simp_all add: index_history_def llm_chain_requested js_at_conv nth_append chain_events llm_outcome_step_def)
  note wait = drain_waits [OF this(3) _ this(1,2)]
  show ?thesis
    by (rule replay_llm_chain [OF assms rec, of inp], cases "n \<le> 1000") (simp_all add: wait finish_pass_def)
qed

lemma build_from:
  assumes "m \<le> k" "m \<le> 1001"
  shows "build_steps hash k [m..<Suc k] (llm_chain_log hash m) = (if k \<le> 1000 then Inr (llm_chain_log hash k @ [nth_requested hash k])
    else Inl (Err ''expected a request command''))"
  using assms
proof (induction "k - m" arbitrary: m)
  case 0
  then have "m = k" by simp
  with replay_next_step [of k "Suc k" "JObj []" hash] show ?case
    by (simp add: llm_chain_log_length nth_requested_def js_at_conv)
next
  case (Suc d)
  then have "[m..<Suc k] = m # [Suc m..<Suc k]" "m < k" by (simp_all add: upt_conv_Cons)
  with Suc.hyps(1) [of "Suc m"] Suc.hyps(2) Suc.prems replay_next_step [of m "Suc k" "JObj []" hash] show ?case
    by (auto simp: llm_chain_log_length nth_requested_def nth_completed_def js_at_conv simp del: upt_Suc)
qed

text \<open>
  Section B measures what it says. \<open>buildHistory k\<close> records \<open>k\<close> completed steps and one that is in
  flight, as long as the bound of the drain loop is not reached (with more than 1000 steps it throws);
  a replay over that history asks for nothing and only hands out the pending request, so the runs that
  are timed call no provider.
\<close>

theorem benchmark_replays:
  "buildHistory hash k = (if k \<le> 1000 then Inr (llm_chain_log hash k @ [nth_requested hash k])
      else Inl (Err ''expected a request command''))
   \<and> replay (llm_chain (k + 1)) (JObj []) (llm_chain_log hash k @ [nth_requested hash k]) (Some hash)
      = Inr \<lparr>rr_status = RpRUNNING, rr_result = JUndef, rr_error = None, rr_commands = [],
             rr_pendingLlmRequests = (if k \<le> 1000 then [(llm_step_id k, nth_request k)] else [])\<rparr>"
  using build_from [of 0 k hash] replay_in_flight [of k "k + 1" "JObj []" hash] by (simp add: buildHistory_def del: upt_Suc)

text \<open>The handler that is timed with the database leaves it as it was.\<close>

lemma find_started: "find_map started_of (llm_chain_log hash n @ es) = Some (''chain'', JObj [])"
  by (induction n arbitrary: es) (simp_all add: chain_started_def)

lemma chain_not_ended:
  "alreadyTerminal (llm_chain_log hash n @ [nth_requested hash n]) = False"
  "find_map cancellation_of (llm_chain_log hash n @ nth_requested hash n # es) = find_map cancellation_of es"
  by (induction n arbitrary: es) (simp_all add: alreadyTerminal_def chain_events)

lemma benchmark_handler:
  assumes "getEvents (t_workflowId t) d = llm_chain_log hash k @ [nth_requested hash k]"
  shows "workflowReplayHandler ck between [(''chain'', llm_chain (k + 1))] cfg hash t d = (d, Inr ())"
  using replay_in_flight [of k "k + 1" "JObj []" hash]
  by (simp add: workflowReplayHandler_def assms find_started registry_get_def chain_not_ended Let_def)

end
