(* ===== verification/Demos.thy ===== *)
theory Demos
  imports AppProps Bench SystemProps SchedulerProps
begin

section \<open>The demo programs and the queue benchmark (worker-sdk/src/bin, scheduler/src/bin, bench/src/queueThroughput.ts)\<close>

text \<open>
  What demo.ts, demo-m3.ts, demo-m4.ts, demo-m6.ts, demo-m8.ts and queueThroughput.ts do with the database
  and with what they read: their seeds, the loops they wait in, the readiness of the processes they start,
  and the verdicts and numbers they print. Starting and killing processes is left out; what a loop sees,
  with the time it sees it at, is an argument.
\<close>

subsection \<open>Waiting\<close>

text \<open>
  A loop that ends when its condition holds, and otherwise once the deadline is over, checked in this
  order: \<open>Some True\<close> and \<open>Some False\<close>, or \<open>None\<close> while it still waits. An observation is the condition and
  the clock.
\<close>

fun poll_until :: "time \<Rightarrow> (bool \<times> time) list \<Rightarrow> bool option" where
  "poll_until deadline [] = None"
| "poll_until deadline ((holds, t) # obs) =
     (if holds then Some True else if deadline < t then Some False else poll_until deadline obs)"

definition pollUntil :: "time \<Rightarrow> time \<Rightarrow> (bool \<times> time) list \<Rightarrow> (js_error + unit) option" where
  "pollUntil start timeoutMs obs = map_option (\<lambda>ok. if ok then Inr ()
     else Inl (Err ''pollUntil: condition never became true in time'')) (poll_until (start + timeoutMs) obs)"

definition waitForReady :: "string \<Rightarrow> nat \<Rightarrow> time \<Rightarrow> (nat \<times> time) list \<Rightarrow> (js_error + unit) option" where
  "waitForReady name expected start counts = map_option (\<lambda>ok. if ok then Inr ()
     else Inl (Err (name @ '' did not become ready in time'')))
     (poll_until (start + 15000) (map (\<lambda>(readyCount, t). (expected \<le> readyCount, t)) counts))"

definition task_status_is :: "nat \<Rightarrow> task_status \<Rightarrow> task_table \<Rightarrow> bool" where
  "task_status_is taskId s tbl = (case find (\<lambda>t. t_id t = taskId) (tt_rows tbl) of None \<Rightarrow> False | Some t \<Rightarrow> t_status t = s)"

definition waitForReclaim :: "nat \<Rightarrow> time \<Rightarrow> time \<Rightarrow> (task_table \<times> time) list \<Rightarrow> bool option" where
  "waitForReclaim taskId start timeoutMs obs =
     poll_until (start + timeoutMs) (map (\<lambda>(tbl, t). (task_status_is taskId TPending tbl, t)) obs)"

text \<open>Every wait ends: once the clock has passed the deadline, the loop is over.\<close>

lemma poll_until_ends: "\<exists>x \<in> set obs. deadline < snd x \<Longrightarrow> \<exists>ok. poll_until deadline obs = Some ok"
  by (induction deadline obs rule: poll_until.induct) auto

lemma poll_until_True:
  "poll_until deadline obs = Some True \<longleftrightarrow>
     (\<exists>before t rest. obs = before @ (True, t) # rest \<and> (\<forall>x \<in> set before. \<not> fst x \<and> snd x \<le> deadline))"
proof (induction deadline obs rule: poll_until.induct)
  case (2 deadline holds t obs)
  have here: "poll_until deadline ((holds, t) # obs) = Some True \<longleftrightarrow> holds \<or> t \<le> deadline \<and> poll_until deadline obs = Some True" by auto
  have there: "(\<exists>before u rest. (holds, t) # obs = before @ (True, u) # rest \<and> (\<forall>x \<in> set before. \<not> fst x \<and> snd x \<le> deadline))
      \<longleftrightarrow> holds \<or> t \<le> deadline \<and> (\<exists>before u rest. obs = before @ (True, u) # rest \<and> (\<forall>x \<in> set before. \<not> fst x \<and> snd x \<le> deadline))"
    (is "?l \<longleftrightarrow> ?r")
  proof
    assume ?r
    then show ?l
    proof (elim disjE conjE exE)
      assume holds
      then show ?l by (intro exI [of _ "[]"]) simp
    next
      fix before u rest assume "t \<le> deadline" "obs = before @ (True, u) # rest" "\<forall>x \<in> set before. \<not> fst x \<and> snd x \<le> deadline"
      then have "(holds, t) # obs = ((False, t) # before) @ (True, u) # rest \<and> (\<forall>x \<in> set ((False, t) # before). \<not> fst x \<and> snd x \<le> deadline)
          \<or> (holds, t) # obs = [] @ (True, t) # obs \<and> (\<forall>x \<in> set []. \<not> fst x \<and> snd x \<le> deadline)"
        by (cases holds) simp_all
      then show ?l by blast
    qed
  next
    assume ?l
    then obtain before u rest where b: "(holds, t) # obs = before @ (True, u) # rest" "\<forall>x \<in> set before. \<not> fst x \<and> snd x \<le> deadline" by blast
    show ?r
    proof (cases before)
      case (Cons x xs)
      then have "obs = xs @ (True, u) # rest" "\<forall>x \<in> set xs. \<not> fst x \<and> snd x \<le> deadline" "t \<le> deadline" using b by auto
      then show ?thesis by blast
    qed (use b in simp)
  qed
  show ?case
  proof (cases "holds \<or> deadline < t")
    case True
    then show ?thesis unfolding here there by auto
  next
    case False
    then have "\<not> holds" "\<not> deadline < t" by auto
    from 2 [OF this] show ?thesis unfolding here there by (rule arg_cong)
  qed
qed simp

subsection \<open>Readiness\<close>

text \<open>
  The output of a process arrives in chunks; each chunk is split into lines on its own, and a line that
  does not parse is dropped. \<open>parse\<close> is \<open>JSON.parse\<close> with the properties \<open>level\<close> and \<open>msg\<close>.
\<close>

record log_line =
  ll_level :: int
  ll_msg :: "string option"

fun split_lines :: "string \<Rightarrow> string list" where
  "split_lines [] = [[]]"
| "split_lines (c # cs) = (case split_lines cs of
     [] \<Rightarrow> [[c]] | l # ls \<Rightarrow> if [c] = newline then [] # l # ls else (c # l) # ls)"

definition chunk_lines :: "(string \<Rightarrow> log_line option) \<Rightarrow> string \<Rightarrow> log_line list" where
  "chunk_lines parse chunk = List.map_filter parse (filter (\<lambda>l. l \<noteq> []) (split_lines chunk))"

record proc =
  pc_name :: string
  pc_readyCount :: nat
  pc_acquiredLeadership :: bool
  pc_printed :: "string list"

definition new_proc :: "string \<Rightarrow> proc" where
  "new_proc name = \<lparr>pc_name = name, pc_readyCount = 0, pc_acquiredLeadership = False, pc_printed = []\<rparr>"

definition on_line :: "string list \<Rightarrow> log_line \<Rightarrow> proc \<Rightarrow> proc" where
  "on_line ready l p = p\<lparr>
     pc_readyCount := (if ll_msg l \<in> Some ` set ready then Suc (pc_readyCount p) else pc_readyCount p),
     pc_acquiredLeadership := pc_acquiredLeadership p \<or> ll_msg l = Some ''acquired leadership'',
     pc_printed := (if 40 \<le> ll_level l
       then pc_printed p @ [''  ['' @ pc_name p @ ''] '' @ (case ll_msg l of Some m \<Rightarrow> m | None \<Rightarrow> ''undefined'')] else pc_printed p)\<rparr>"

definition on_stdout :: "(string \<Rightarrow> log_line option) \<Rightarrow> string list \<Rightarrow> string \<Rightarrow> proc \<Rightarrow> proc" where
  "on_stdout parse ready chunk p = fold (on_line ready) (chunk_lines parse chunk) p"

definition starting_messages :: "string list" where
  "starting_messages = [''worker starting'', ''reaper starting'']"

lemma split_lines_nonempty [simp]: "split_lines s \<noteq> []"
  by (cases s) (auto split: list.split)

lemma split_lines_append: "split_lines (a @ newline @ b) = split_lines a @ split_lines b"
proof (induction a)
  case Nil
  then show ?case by (auto simp: newline_def split: list.split)
next
  case (Cons c a)
  obtain l ls where "split_lines a = l # ls" by (meson neq_Nil_conv split_lines_nonempty)
  with Cons show ?case by (auto split: list.split)
qed

lemma split_line: "set s \<inter> set newline = {} \<Longrightarrow> split_lines s = [s]"
  by (induction s) (auto simp: newline_def)

text \<open>Chunks that end with a line are read as one; a line that arrives in two chunks is lost.\<close>

lemma whole_lines_kept:
  "on_stdout parse ready (a @ newline @ b) p = on_stdout parse ready b (on_stdout parse ready a p)"
  by (simp add: on_stdout_def chunk_lines_def split_lines_append map_filter_append)

theorem split_line_is_lost:
  assumes "set a \<inter> set newline = {}" "set b \<inter> set newline = {}" "parse a = None" "parse b = None"
  shows "on_stdout parse ready b (on_stdout parse ready a p) = p"
  using assms by (simp add: on_stdout_def chunk_lines_def split_line map_filter_simps)

subsection \<open>The processes come up\<close>

text \<open>The environments of demo-m3.ts, demo-m4.ts, demo.ts and of the benchmark's workers.\<close>

definition m3_env :: "string \<Rightarrow> (string \<rightharpoonup> string) \<Rightarrow> string \<rightharpoonup> string" where
  "m3_env workerId env = env(''WORKER_ID'' \<mapsto> workerId, ''LEASE_SECONDS'' \<mapsto> ''2'', ''HEARTBEAT_INTERVAL_MS'' \<mapsto> ''500'',
     ''POLL_INTERVAL_MS'' \<mapsto> ''20'')"

definition m4_env :: "string \<Rightarrow> (string \<rightharpoonup> string) \<Rightarrow> string \<rightharpoonup> string" where
  "m4_env workerId env = env(''WORKER_ID'' \<mapsto> workerId, ''LEASE_SECONDS'' \<mapsto> ''3'', ''HEARTBEAT_INTERVAL_MS'' \<mapsto> ''500'',
     ''POLL_INTERVAL_MS'' \<mapsto> ''20'')"

definition m1_env :: "nat \<Rightarrow> (string \<rightharpoonup> string) \<Rightarrow> string \<rightharpoonup> string" where
  "m1_env i env = env(''WORKER_ID'' \<mapsto> ''worker-'' @ show_nat i, ''HANDLER_MODE'' \<mapsto> ''record'', ''RESULTS_TABLE'' \<mapsto> ''demo_results'',
     ''MAX_CONCURRENCY'' \<mapsto> ''25'', ''LEASE_SECONDS'' \<mapsto> ''3'', ''HEARTBEAT_INTERVAL_MS'' \<mapsto> ''1000'',
     ''POLL_INTERVAL_MS'' \<mapsto> ''20'', ''HANDLER_SLEEP_MS'' \<mapsto> ''400'')"

definition bench_env :: "string \<Rightarrow> bool \<Rightarrow> string \<Rightarrow> (string \<rightharpoonup> string) \<Rightarrow> string \<rightharpoonup> string" where
  "bench_env workerId notify connectionString env =
     (let env' = env(''DATABASE_URL'' \<mapsto> connectionString, ''WORKER_ID'' \<mapsto> workerId, ''HANDLER_MODE'' \<mapsto> ''record-interval'',
        ''RESULTS_TABLE'' \<mapsto> ''bench_results'', ''MAX_CONCURRENCY'' \<mapsto> ''10'', ''LEASE_SECONDS'' \<mapsto> ''30'',
        ''HEARTBEAT_INTERVAL_MS'' \<mapsto> ''10000'', ''POLL_INTERVAL_MS'' \<mapsto> ''100'', ''MAX_POLL_INTERVAL_MS'' \<mapsto> ''2000'') in
      if notify then env'(''NOTIFY_CONNECTION_STRING'' \<mapsto> connectionString) else env')"

text \<open>How many lines \<open>worker starting\<close> the two demos wait for.\<close>

definition m3_expected :: nat where
  "m3_expected = 2"

definition m4_expected :: nat where
  "m4_expected = 3"

lemma small_numbers:
  "parse_int ''2'' = Some 2" "parse_int ''3'' = Some 3" "parse_int ''500'' = Some 500" "parse_int ''20'' = Some 20"
  "parse_int ''25'' = Some 25" "parse_int ''1000'' = Some 1000" "parse_int ''400'' = Some 400" "parse_int ''10'' = Some 10"
  "parse_int ''30'' = Some 30" "parse_int ''10000'' = Some 10000" "parse_int ''100'' = Some 100" "parse_int ''2000'' = Some 2000"
  by code_simp+

lemma database_env: "env ''DATABASE_URL'' = Some url \<Longrightarrow> url \<noteq> '''' \<Longrightarrow> createPoolFromEnv env = Inr (createPool url None None)"
  by (cases url) (simp_all add: createPoolFromEnv_def requireDatabaseUrl_def)

lemmas process_starts = envInt_def small_numbers plain_worker_input_def makeHandler_def new_Worker_def resolveWorkerConfig_def
  or_default_def is_integer_def Let_def new_PollBackoff_def app_worker_def

text \<open>
  The process of demo-m3.ts starts as many workers as the demo waits for, and so does that of demo-m4.ts:
  the wait ends, and not before all of them run.
\<close>

lemma m3_app_ready:
  assumes "env ''DATABASE_URL'' = Some url" "url \<noteq> ''''"
  shows "\<exists>ws. reserve_charge_ship_app num (m3_env workerId env) = Inr ws \<and> length ws = m3_expected"
  using assms database_env [of "m3_env workerId env" url]
  by (simp add: reserve_charge_ship_app_def m3_env_def process_starts m3_expected_def)

lemma m4_app_ready:
  assumes "env ''DATABASE_URL'' = Some url" "url \<noteq> ''''"
  shows "\<exists>ws. timer_workflow_app num ms (m4_env workerId env) = Inr ws \<and> length ws = m4_expected"
  using assms database_env [of "m4_env workerId env" url]
  by (simp add: timer_workflow_app_def m4_env_def process_starts m4_expected_def)

lemma m1_worker_ready:
  assumes "env ''DATABASE_URL'' = Some url" "url \<noteq> ''''" "env ''MAX_POLL_INTERVAL_MS'' = None" "env ''DRAIN_TIMEOUT_MS'' = None"
  shows "\<exists>w. task_runner num gen (m1_env i env) = Inr (w, Record) \<and> wc_maxConcurrency (wk_config w) = 25"
  using assms database_env [of "m1_env i env" url]
  by (simp add: task_runner_def m1_env_def process_starts)

lemma bench_worker_ready:
  assumes "url \<noteq> ''''" "env ''HANDLER_SLEEP_MS'' = None" "env ''DRAIN_TIMEOUT_MS'' = None"
  shows "\<exists>w. task_runner num gen (bench_env workerId notify url env) = Inr (w, RecordInterval)
    \<and> wk_backoff w = \<lparr>pb_config = \<lparr>pc_minMs = 100, pc_maxMs = 2000, pc_multiplier = 2\<rparr>, pb_currentMs = 100\<rparr>"
  using assms database_env [of "bench_env workerId notify url env" url]
  by (cases notify) (simp_all add: task_runner_def bench_env_def process_starts)

text \<open>
  run-scheduler.ts. \<open>number\<close> is \<open>Number\<close> of a text; the intervals only go to timers, which take what is not
  a number, or out of range, as 1 ms.
\<close>

definition requireEnv :: "(string \<rightharpoonup> string) \<Rightarrow> string \<Rightarrow> js_error + string" where
  "requireEnv env name = (case non_empty (env name) of
     None \<Rightarrow> Inl (Err (name @ '' is not set. Copy .env.example to .env and fill it in.'')) | Some v \<Rightarrow> Inr v)"

definition optionalNumber :: "(string \<Rightarrow> js_num) \<Rightarrow> (string \<rightharpoonup> string) \<Rightarrow> string \<Rightarrow> js_num option" where
  "optionalNumber number env name = map_option number (env name)"

definition run_scheduler :: "(string \<Rightarrow> js_num) \<Rightarrow> nat \<Rightarrow> (string \<rightharpoonup> string) \<Rightarrow> js_error + scheduler" where
  "run_scheduler number pid env =
     and_then (createPoolFromEnv env) (\<lambda>pool.
     and_then (requireEnv env ''DATABASE_URL'') (\<lambda>connectionString.
     let leaderId = or_default (env ''SCHEDULER_ID'') (''scheduler-'' @ show_nat pid);
         metrics = non_empty (env ''METRICS_PORT'') \<noteq> None;
         interval = (\<lambda>name. map_option timer_delay (optionalNumber number env name)) in
     Inr (new_Scheduler leaderId (interval ''ELECTION_POLL_MS'') (interval ''ELECTION_RECONNECT_MS'')
       (interval ''REAPER_INTERVAL_MS'') None metrics)))"

definition m6_env :: "string \<Rightarrow> (string \<rightharpoonup> string) \<Rightarrow> string \<rightharpoonup> string" where
  "m6_env name env = env(''SCHEDULER_ID'' \<mapsto> name, ''ELECTION_POLL_MS'' \<mapsto> ''200'', ''ELECTION_RECONNECT_MS'' \<mapsto> ''200'',
     ''REAPER_INTERVAL_MS'' \<mapsto> ''200'')"

lemma m6_scheduler_ready:
  assumes "env ''DATABASE_URL'' = Some url" "url \<noteq> ''''" "number ''200'' = JFin 200"
  shows "run_scheduler number pid (m6_env name env)
    = Inr (new_Scheduler name (Some 200) (Some 200) (Some 200) None (non_empty (env ''METRICS_PORT'') \<noteq> None))"
proof -
  have "non_empty (Some url) = Some url" using assms(2) by (cases url) (simp_all add: non_empty_def)
  with assms database_env [of "m6_env name env" url] show ?thesis
    by (simp add: run_scheduler_def requireEnv_def optionalNumber_def m6_env_def or_default_def Let_def)
qed

text \<open>An interval that is no number makes the replica ask for the lock every millisecond.\<close>

lemma scheduler_interval_unchecked:
  assumes "run_scheduler number pid env = Inr s" "env ''ELECTION_POLL_MS'' = Some txt" "number txt = JNaN"
  shows "el_electionPollMs (sc_election s) = 1"
  using assms by (auto simp: run_scheduler_def and_then_Inr Let_def optionalNumber_def new_Scheduler_def new_LeaderElection_def or_default_def)

subsection \<open>Seeds\<close>

text \<open>\<open>TRUNCATE tasks, workflow_events, workflow_executions RESTART IDENTITY CASCADE\<close>; no other table refers to these.\<close>

definition truncate_tables :: "db \<Rightarrow> db" where
  "truncate_tables d = d\<lparr>db_executions := [], db_events := [], db_tasks := \<lparr>tt_rows = [], tt_nextId = 1\<rparr>\<rparr>"

definition seed_execution :: "time \<Rightarrow> string \<Rightarrow> string \<Rightarrow> db \<Rightarrow> db" where
  "seed_execution now workflowType workflowId d = d\<lparr>db_executions := db_executions d @
     [\<lparr>ex_id = workflowId, ex_workflowType = workflowType, ex_input = JObj [], ex_status = RUNNING, ex_createdAt = now, ex_updatedAt = now\<rparr>]\<rparr>"

definition seed_row :: "time \<Rightarrow> string \<Rightarrow> nat \<Rightarrow> task" where
  "seed_row now workflowId i = \<lparr>t_id = i, t_taskType = TActivity, t_workflowId = workflowId, t_queue = ''default'',
     t_scheduledEventSeq = None, t_status = TPending, t_runAfter = now, t_attempt = 0, t_maxAttempts = 3, t_lastError = None,
     t_leasedBy = None, t_leaseExpiresAt = None, t_createdAt = now, t_traceContext = None\<rparr>"

text \<open>\<open>INSERT INTO tasks ... SELECT ... FROM generate_series(1, n)\<close>\<close>

definition seed_tasks :: "time \<Rightarrow> string \<Rightarrow> nat \<Rightarrow> task_table \<Rightarrow> task_table" where
  "seed_tasks now workflowId n tbl = \<lparr>tt_rows = tt_rows tbl @ map (seed_row now workflowId) [tt_nextId tbl..<tt_nextId tbl + n],
     tt_nextId = tt_nextId tbl + n\<rparr>"

text \<open>\<open>seedExpiredLease\<close> of demo-m6.ts: a lease that ran out a minute ago, and the id of its task.\<close>

definition seedExpiredLease :: "time \<Rightarrow> string \<Rightarrow> db \<Rightarrow> db \<times> nat" where
  "seedExpiredLease now workflowId d =
     (let d' = seed_execution now ''demo'' workflowId d; i = tt_nextId (db_tasks d') in
      (d'\<lparr>db_tasks := \<lparr>tt_rows = tt_rows (db_tasks d') @ [(seed_row now workflowId i)\<lparr>t_status := TLeased,
           t_leasedBy := Some ''stale-worker'', t_leaseExpiresAt := Some (now - 60000)\<rparr>], tt_nextId = Suc i\<rparr>\<rparr>, i))"

text \<open>The seeded table is one the queue can be in, so what is proved of the queue holds for the demo.\<close>

lemma seed_tasks_inv:
  assumes "task_inv tbl"
  shows "task_inv (seed_tasks now workflowId n tbl)"
proof (rule task_invI)
  let ?new = "[tt_nextId tbl..<tt_nextId tbl + n]"
  have old: "t_id t < tt_nextId tbl" if "t \<in> set (tt_rows tbl)" for t using inv_nextId [OF assms that] .
  have "map t_id (map (seed_row now workflowId) ?new) = ?new" by (simp add: seed_row_def map_idI)
  then show "distinct (map t_id (tt_rows (seed_tasks now workflowId n tbl)))"
    using inv_distinct [OF assms] old by (force simp: seed_tasks_def)
  show "t_id t < tt_nextId (seed_tasks now workflowId n tbl)" if "t \<in> set (tt_rows (seed_tasks now workflowId n tbl))" for t
    using that old by (fastforce simp: seed_tasks_def seed_row_def)
  show "row_ok t" if "t \<in> set (tt_rows (seed_tasks now workflowId n tbl))" for t
    using that inv_row_ok [OF assms] by (auto simp: seed_tasks_def seed_row_def row_ok_def)
  have "t \<in> set (tt_rows tbl)" if "t \<in> set (tt_rows (seed_tasks now workflowId n tbl))" "live_workflow_task t" for t
    using that by (auto simp: seed_tasks_def seed_row_def live_workflow_task_def)
  then show "t_id t = t_id u" if "t \<in> set (tt_rows (seed_tasks now workflowId n tbl))"
      "u \<in> set (tt_rows (seed_tasks now workflowId n tbl))" "live_workflow_task t" "live_workflow_task u"
      "t_workflowId t = t_workflowId u" for t u
    using that assms unfolding task_inv_def by blast
qed

text \<open>No \<open>dequeue\<close> leaves a lease with attempt 0: the task of demo-m6.ts is not one a worker leased.\<close>

lemma seeded_lease_not_dequeued: "\<not> task_inv (db_tasks (fst (seedExpiredLease now workflowId d)))"
  by (simp add: seedExpiredLease_def Let_def task_inv_def row_ok_def seed_row_def)

text \<open>
  Still the reaper takes it back: the next \<open>reclaimExpired\<close> that does not find the row locked returns it
  to the queue, if no more leases have run out than its limit, and the demo's wait for it ends well.
\<close>

lemma reclaim_all_expired:
  assumes "length (filter (\<lambda>t. expired now t \<and> t_id t \<notin> set locked) (tt_rows tbl)) \<le> limit"
    and "t \<in> set (tt_rows tbl)" "expired now t" "t_id t \<notin> set locked"
  shows "t_id t \<in> set (snd (reclaimExpired now locked limit tbl))"
  using assms by (simp add: reclaimExpired_def Let_def)

theorem seeded_lease_reclaimed:
  assumes inv: "task_inv (db_tasks d)" and "seedExpiredLease now workflowId d = (d', i)" and "now \<le> later" "i \<notin> set locked"
    and "length (filter (\<lambda>t. expired later t \<and> t_id t \<notin> set locked) (tt_rows (db_tasks d'))) \<le> limit"
  shows "task_status_is i TPending (fst (reclaimExpired later locked limit (db_tasks d')))"
proof -
  let ?row = "(seed_row now workflowId i)\<lparr>t_status := TLeased, t_leasedBy := Some ''stale-worker'', t_leaseExpiresAt := Some (now - 60000)\<rparr>"
  have i: "i = tt_nextId (db_tasks d)" and rows: "tt_rows (db_tasks d') = tt_rows (db_tasks d) @ [?row]"
    using assms(2) by (auto simp: seedExpiredLease_def Let_def seed_execution_def)
  have "expired later ?row" using assms(3) by (simp add: expired_def seed_row_def)
  then have hit: "i \<in> set (snd (reclaimExpired later locked limit (db_tasks d')))"
    using reclaim_all_expired [OF assms(5), of ?row] assms(4) rows by (simp add: seed_row_def)
  define ids where "ids = snd (reclaimExpired later locked limit (db_tasks d'))"
  have upd: "tt_rows (fst (reclaimExpired later locked limit (db_tasks d')))
      = map (\<lambda>t. if t_id t \<in> set ids then release_task t else t) (tt_rows (db_tasks d) @ [?row])"
    by (simp add: ids_def reclaimExpired_def Let_def rows_update rows)
  have "find (\<lambda>t. t_id t = i) (map (\<lambda>t. if t_id t \<in> set ids then release_task t else t) (tt_rows (db_tasks d))) = None"
    using inv_nextId [OF inv] i by (fastforce simp: find_None_iff release_task_def)
  moreover have "i \<in> set ids" using hit by (simp add: ids_def)
  ultimately show ?thesis unfolding task_status_is_def upd by (simp add: find_append seed_row_def release_task_def)
qed

subsection \<open>The verdict of demo.ts\<close>

definition TASK_COUNT :: nat where
  "TASK_COUNT = 10000"

definition WORKER_COUNT :: nat where
  "WORKER_COUNT = 8"

definition WORKERS_TO_KILL :: nat where
  "WORKERS_TO_KILL = 2"

record m1_summary =
  ms_total :: nat
  ms_distinct :: nat
  ms_duplicates :: int
  ms_perWorker :: "string \<Rightarrow> nat"
  ms_retried :: nat
  ms_byStatus :: "task_status \<Rightarrow> nat"

definition m1_summary :: "result_row list \<Rightarrow> task_table \<Rightarrow> m1_summary" where
  "m1_summary rows tbl =
     (let total = length rows; distinctRows = length (remdups (map rs_taskId rows)) in
      \<lparr>ms_total = total, ms_distinct = distinctRows, ms_duplicates = int total - int distinctRows,
       ms_perWorker = (\<lambda>w. length (filter (\<lambda>r. rs_workerId r = w) rows)),
       ms_retried = row_count (\<lambda>t. 1 < t_attempt t) tbl,
       ms_byStatus = getQueueDepth tbl\<rparr>)"

definition m1_ok :: "nat \<Rightarrow> m1_summary \<Rightarrow> bool" where
  "m1_ok n s \<longleftrightarrow> ms_distinct s = n \<and> ms_duplicates s = 0"

text \<open>The condition its drain loop waits for.\<close>

definition m1_drained :: "nat \<Rightarrow> result_row list \<Rightarrow> bool" where
  "m1_drained n rows \<longleftrightarrow> n \<le> length rows"

text \<open>What runs of the workers leave in the table \<open>demo_results\<close>, whose key is the task.\<close>

definition record_runs :: "(string \<times> task) list \<Rightarrow> result_row list \<Rightarrow> result_row list" where
  "record_runs runs rows = fold (\<lambda>(w, t) rows. fst (run_mode Record True w 0 0 t rows)) runs rows"

lemma record_run_ids:
  "map rs_taskId (fst (run_mode Record True w s f t rows))
     = (if t_id t \<in> set (map rs_taskId rows) then map rs_taskId rows else map rs_taskId rows @ [t_id t])"
  by (simp add: insert_result_def)

lemma record_runs_ids:
  "distinct (map rs_taskId rows) \<Longrightarrow> distinct (map rs_taskId (record_runs runs rows))
     \<and> set (map rs_taskId (record_runs runs rows)) = set (map rs_taskId rows) \<union> t_id ` snd ` set runs"
proof (induction runs arbitrary: rows)
  case (Cons run runs)
  obtain w t where run: "run = (w, t)" by fastforce
  let ?rows = "fst (run_mode Record True w 0 0 t rows)"
  have "distinct (map rs_taskId ?rows)" "set (map rs_taskId ?rows) = insert (t_id t) (set (map rs_taskId rows))"
    using Cons.prems unfolding record_run_ids by auto
  with Cons.IH [of ?rows] show ?case by (simp add: run record_runs_def del: run_mode.simps set_map)
qed (simp add: record_runs_def)

text \<open>
  The verdict says that every seeded task was run, and nothing else: there are never duplicates to find,
  since the key of the table refuses them.
\<close>

theorem m1_verdict_is_completeness:
  shows "ms_duplicates (m1_summary (record_runs runs []) tbl) = 0"
    and "m1_ok n (m1_summary (record_runs runs []) tbl) \<longleftrightarrow> card (t_id ` snd ` set runs) = n"
    and "m1_drained n (record_runs runs []) \<longleftrightarrow> n \<le> card (t_id ` snd ` set runs)"
proof -
  have d: "distinct (map rs_taskId (record_runs runs []))" and s: "set (map rs_taskId (record_runs runs [])) = t_id ` snd ` set runs"
    using record_runs_ids [of "[]" runs] by simp_all
  have r: "length (remdups (map rs_taskId (record_runs runs []))) = card (t_id ` snd ` set runs)"
    unfolding length_remdups_card_conv s ..
  moreover have "length (record_runs runs []) = card (t_id ` snd ` set runs)" using distinct_card [OF d] s by simp
  ultimately show "ms_duplicates (m1_summary (record_runs runs []) tbl) = 0"
    "m1_ok n (m1_summary (record_runs runs []) tbl) \<longleftrightarrow> card (t_id ` snd ` set runs) = n"
    "m1_drained n (record_runs runs []) \<longleftrightarrow> n \<le> card (t_id ` snd ` set runs)"
    by (simp_all add: m1_summary_def m1_ok_def m1_drained_def Let_def)
qed

text \<open>
  One round of a worker of the demo: it leases a task, records the run, and completes or fails the task;
  a worker that is killed does not come that far.
\<close>

definition record_round :: "string \<Rightarrow> time \<Rightarrow> bool \<Rightarrow> task_table \<times> result_row list \<Rightarrow> task_table \<times> result_row list" where
  "record_round w now killed s = (case s of (tbl, rows) \<Rightarrow>
     (case dequeue now [] \<lparr>di_workerId = w, di_queue = Some ''default'', di_taskType = None, di_limit = 1, di_leaseSeconds = 3\<rparr> tbl of
        (tbl', []) \<Rightarrow> (tbl', rows)
      | (tbl', t # ts) \<Rightarrow> (case run_mode Record True w now now t rows of
          (rows', Inr u) \<Rightarrow> (if killed then tbl' else fst (complete (t_id t) w tbl'), rows')
        | (rows', Inl e) \<Rightarrow> (if killed then tbl' else fst (fail now 0 \<lparr>fi_taskId = t_id t, fi_workerId = w,
             fi_error = error_message e, fi_attempt = t_attempt t, fi_minDelaySeconds = 0\<rparr> tbl'), rows'))))"

definition m1_rerun :: "task_table \<times> result_row list" where
  "m1_rerun =
     (let start = (seed_tasks 0 ''wf'' 1 \<lparr>tt_rows = [], tt_nextId = 1\<rparr>, []);
          killed = record_round ''worker-0'' 0 True start;
          reclaimed = apfst (\<lambda>tbl. fst (reclaimExpired 4000 [] 100 tbl)) killed in
      record_round ''worker-3'' 9000 False (record_round ''worker-2'' 4000 False reclaimed))"

text \<open>
  A worker is killed after its handler ran and before it completed the task: the task is run twice more,
  each run throws in the worker, the task ends in the dead-letter queue, and the verdict is still that there
  was no double execution.
\<close>

theorem m1_verdict_misses_rerun:
  "m1_ok 1 (m1_summary (snd m1_rerun) (fst m1_rerun))
     \<and> map (\<lambda>t. (t_status t, t_attempt t, t_lastError t)) (tt_rows (fst m1_rerun))
         = [(TDead, 3, Some ''duplicate key value violates unique constraint'')]"
  by code_simp

subsection \<open>The verdicts of demo-m3.ts and demo-m4.ts\<close>

text \<open>
  The tables \<open>activity_executions\<close> and \<open>timer_workflow_executions\<close> hold a row for every call of an
  activity's function: its \<open>activity_type\<close>.
\<close>

type_synonym execution_rows = "string list"

definition trackedActivity :: "string \<Rightarrow> activity_fn \<Rightarrow> jsval \<Rightarrow> string \<Rightarrow> execution_rows \<Rightarrow> execution_rows \<times> (string + jsval)" where
  "trackedActivity activityType fn inp key rows = (rows @ [activityType], fn inp key)"

definition getActivityExecutionCount :: "execution_rows \<Rightarrow> string \<Rightarrow> nat" where
  "getActivityExecutionCount rows activityType = length (filter (\<lambda>a. a = activityType) rows)"

definition getTimerWorkflowExecutionCount :: "execution_rows \<Rightarrow> string \<Rightarrow> nat" where
  "getTimerWorkflowExecutionCount rows activityType = length (filter (\<lambda>a. a = activityType) rows)"

text \<open>\<open>Object.values(state.activities)\<close> and \<open>state.timers\<close>: their keys are numbers of events of the log, in order.\<close>

definition activity_values :: "stored_event list \<Rightarrow> wf_state \<Rightarrow> activity_state list" where
  "activity_values h state = List.map_filter (\<lambda>e. st_activities state (seq e)) h"

definition timer_values :: "stored_event list \<Rightarrow> wf_state \<Rightarrow> timer_state list" where
  "timer_values h state = List.map_filter (\<lambda>e. st_timers state (seq e)) h"

definition activity_seen :: "string \<Rightarrow> stored_event list \<Rightarrow> js_error + bool" where
  "activity_seen activityType events = (case foldEvents events of Inl e \<Rightarrow> Inl e
   | Inr state \<Rightarrow> Inr (list_ex (\<lambda>a. as_activityType a = activityType \<and> as_status a = ActCOMPLETED) (activity_values events state)))"

definition execution_status :: "string \<Rightarrow> db \<Rightarrow> workflow_status" where
  "execution_status workflowId d = or_default (map_option ex_status (find (\<lambda>x. ex_id x = workflowId) (db_executions d))) RUNNING"

definition m3_ok :: "string \<Rightarrow> db \<Rightarrow> execution_rows \<Rightarrow> js_error + bool" where
  "m3_ok workflowId d rows =
     (let events = getEvents workflowId d in case foldEvents events of Inl e \<Rightarrow> Inl e
      | Inr state \<Rightarrow> Inr (execution_status workflowId d = COMPLETED \<and> length (activity_values events state) = 3
          \<and> list_all (\<lambda>a. as_status a = ActCOMPLETED) (activity_values events state)
          \<and> getActivityExecutionCount rows ''reserve'' = 1))"

definition m4_ok :: "string \<Rightarrow> db \<Rightarrow> execution_rows \<Rightarrow> js_error + bool" where
  "m4_ok workflowId d rows =
     (let events = getEvents workflowId d in case foldEvents events of Inl e \<Rightarrow> Inl e
      | Inr state \<Rightarrow> Inr (execution_status workflowId d = COMPLETED \<and> length (timer_values events state) = 1
          \<and> list_all (\<lambda>t. tm_status t = TmFIRED) (timer_values events state)
          \<and> list_all (\<lambda>a. as_status a = ActCOMPLETED) (activity_values events state)
          \<and> getTimerWorkflowExecutionCount rows ''before-timer'' = 1 \<and> getTimerWorkflowExecutionCount rows ''after-timer'' = 1))"

text \<open>The function a run of the activity handler calls, with its input, by the guards of the handler.\<close>

definition activity_called :: "(string \<times> activity_fn) list \<Rightarrow> task \<Rightarrow> db \<Rightarrow> (string \<times> jsval) option" where
  "activity_called activities t d = (case t_scheduledEventSeq t of None \<Rightarrow> None
   | Some scheduledSeq \<Rightarrow> (let history = getEvents (t_workflowId t) d in
       case Option.bind (find (\<lambda>e. seq e = scheduledSeq) history) activity_of of None \<Rightarrow> None
       | Some (activityType, inp) \<Rightarrow> if has_outcome activity_outcome_types scheduledSeq history then None
           else map_option (\<lambda>fn. (activityType, inp)) (registry_get activities activityType)))"

text \<open>A run that calls none does not depend on what the functions are.\<close>

lemma not_called:
  assumes "activity_called activities t d = None"
  shows "activityHandler ck between (map (\<lambda>(ty, fn). (ty, g ty)) activities) t d = activityHandler ck between activities t d"
proof -
  have get: "registry_get (map (\<lambda>(ty, fn). (ty, g ty)) activities) ty = map_option (\<lambda>fn. g ty) (registry_get activities ty)" for ty
    by (induction activities) (auto simp: registry_get_def map_add_def split: option.splits)
  show ?thesis
  proof (cases "t_scheduledEventSeq t")
    case (Some s)
    then show ?thesis
      using assms by (cases "Option.bind (find (\<lambda>e. seq e = s) (getEvents (t_workflowId t) d)) activity_of")
        (auto simp: activity_called_def activityHandler_def Let_def get split: if_splits simp del: activity_of.simps)
  qed (simp add: activityHandler_def)
qed

lemma activity_done_step:
  assumes "applyEvent s e = Inr u" "st_activities u n = Some a" "as_status a \<noteq> ActSCHEDULED"
  shows "(\<exists>b. st_activities s n = Some b \<and> as_status b \<noteq> ActSCHEDULED) \<or> has_outcome activity_outcome_types n [e]"
  using assms by (cases "event e") (auto simp: applyEvent.simps update_entry_def has_outcome_def activity_outcome_types_def
    split: if_splits option.splits sum.splits)

lemma activity_done:
  "\<lbrakk>fold_from s es = Inr u; st_activities u n = Some a; as_status a \<noteq> ActSCHEDULED\<rbrakk>
     \<Longrightarrow> (\<exists>b. st_activities s n = Some b \<and> as_status b \<noteq> ActSCHEDULED) \<or> has_outcome activity_outcome_types n es"
proof (induction es arbitrary: s)
  case (Cons e es)
  then obtain v where v: "applyEvent s e = Inr v" "fold_from v es = Inr u" by (auto split: sum.splits)
  from Cons.IH [OF v(2) Cons.prems(2,3)] activity_done_step [OF v(1)] show ?case by (auto simp: has_outcome_def)
qed simp

text \<open>
  C5: What demo-m3.ts and demo-m4.ts show by killing processes, for every run of the system: once the log of
  a workflow shows an activity as completed or failed, no later run of its task calls the function of the
  activity again, whatever is killed, reclaimed and run again in between.
\<close>

theorem settled_activity_never_reruns:
  assumes "reachable d" "sys_step\<^sup>*\<^sup>* d d'"
    and "foldEvents (getEvents (t_workflowId t) d) = Inr state" "t_scheduledEventSeq t = Some n"
    and "st_activities state n = Some a" "as_status a \<noteq> ActSCHEDULED"
  shows "activity_called activities t d' = None"
proof -
  have "has_outcome activity_outcome_types n (getEvents (t_workflowId t) d)"
    using activity_done [OF assms(3) [unfolded foldEvents_def] assms(5,6)] by (simp add: initialState_def)
  moreover have "extends d d'" by (rule soundD(2) [OF sys_steps_sound [OF assms(2)] reachable_inv [OF assms(1)]])
  ultimately have "has_outcome activity_outcome_types n (getEvents (t_workflowId t) d')"
    unfolding has_outcome_def list_ex_iff using extendsD(2) by blast
  then show ?thesis by (auto simp: activity_called_def assms(4) Let_def split: option.split)
qed

text \<open>A run of demo-m3.ts: started, replayed, \<open>reserve\<close> run and its worker killed, the lease reclaimed.\<close>

definition order1 :: db where
  "order1 = leased_db TWorkflow (fst (startWorkflow clock0 id ''w1'' ''reserve-charge-ship'' order_input empty_db))"

definition order2 :: db where
  "order2 = leased_db TActivity (fst (workflowReplayHandler clock0 id [(''reserve-charge-ship'', reserveChargeShip)] hash_only one_hash
     (tt_rows (db_tasks order1) ! 0) order1))"

definition order3 :: db where
  "order3 = fst (activityHandler clock0 id reserve_charge_ship_activities (tt_rows (db_tasks order2) ! 1) order2)"

definition order4 :: db where
  "order4 = order3\<lparr>db_tasks := fst (reclaimExpired 9000000 [] 100 (db_tasks order3))\<rparr>"

definition reserve_entry :: "db \<Rightarrow> activity_status option" where
  "reserve_entry d = (case foldEvents (getEvents ''w1'' d) of Inl e \<Rightarrow> None | Inr s \<Rightarrow> map_option as_status (st_activities s 2))"

lemma order_rows:
  "length (tt_rows (db_tasks order1)) = 1" "t_taskType (tt_rows (db_tasks order1) ! 0) = TWorkflow"
  "length (tt_rows (db_tasks order2)) = 2" "t_taskType (tt_rows (db_tasks order2) ! 1) = TActivity"
  "t_workflowId (tt_rows (db_tasks order2) ! 1) = ''w1''" "t_scheduledEventSeq (tt_rows (db_tasks order2) ! 1) = Some 2"
  "map t_status (tt_rows (db_tasks order4)) = [TPending, TPending]" "reserve_entry order3 = Some ActCOMPLETED"
  "activity_called reserve_charge_ship_activities (tt_rows (db_tasks order2) ! 1) order2 = Some (''reserve'', order_input)"
  by code_simp+

lemma order_reachable: "reachable order3"
proof -
  have "reachable (fst (startWorkflow clock0 id ''w1'' ''reserve-charge-ship'' order_input empty_db))"
    unfolding reachable_def
    by (rule r_into_rtranclp, rule sys_start [where between = id and d' = "fst x" and r = "snd x" for x]) (simp, simp)
  then have 1: "reachable order1" unfolding order1_def by (rule lease_reachable)
  have "run_of sys_step\<^sup>*\<^sup>* (tt_rows (db_tasks order1) ! 0) order1
     (workflowReplayHandler clock0 id [(''reserve-charge-ship'', reserveChargeShip)] hash_only one_hash (tt_rows (db_tasks order1) ! 0) order1)"
    by (rule run_workflow) (simp_all add: order_rows)
  then have "sys_step order1 (fst (workflowReplayHandler clock0 id [(''reserve-charge-ship'', reserveChargeShip)] hash_only one_hash
      (tt_rows (db_tasks order1) ! 0) order1))"
    by (intro sys_killed [OF handed_row, where r = "snd x" and d' = "fst x" for x]) (simp_all add: order_rows)
  with 1 have 2: "reachable order2" unfolding order2_def by (intro lease_reachable) (auto simp: reachable_def intro: rtranclp.rtrancl_into_rtrancl)
  have "run_of sys_step\<^sup>*\<^sup>* (tt_rows (db_tasks order2) ! 1) order2
     (activityHandler clock0 id reserve_charge_ship_activities (tt_rows (db_tasks order2) ! 1) order2)"
    by (rule run_activity) (simp_all add: order_rows del: One_nat_def)
  then have "sys_step order2 order3" unfolding order3_def
    by (intro sys_killed [OF handed_row, where r = "snd x" and d' = "fst x" for x]) (simp_all add: order_rows del: One_nat_def)
  with 2 show ?thesis unfolding reachable_def by (rule rtranclp.rtrancl_into_rtrancl)
qed

theorem settled_activity_never_reruns_witness:
  "activity_called reserve_charge_ship_activities (tt_rows (db_tasks order2) ! 1) order4 = None"
proof -
  obtain s a where s: "foldEvents (getEvents ''w1'' order3) = Inr s" "st_activities s 2 = Some a" "as_status a = ActCOMPLETED"
    using order_rows(8) by (auto simp: reserve_entry_def split: sum.splits)
  have "sys_step\<^sup>*\<^sup>* order3 order4" unfolding order4_def
    by (rule r_into_rtranclp, rule sys_queue) (rule lease_step.intros)
  from settled_activity_never_reruns [OF order_reachable this, of "tt_rows (db_tasks order2) ! 1" s 2 a] s
  show ?thesis by (simp add: order_rows del: One_nat_def)
qed

subsection \<open>Failover: demo-m6.ts and demo-m8.ts\<close>

definition m6_leader :: "proc list \<Rightarrow> proc option" where
  "m6_leader replicas = find pc_acquiredLeadership replicas"

text \<open>
  Who is taken for the new leader: the survivor the table names, when the row is newer than the kill, and
  otherwise one that said so. \<open>current\<close> is what \<open>getCurrentLeader\<close> returned.
\<close>

definition m6_new_leader :: "proc list \<Rightarrow> string \<Rightarrow> time \<Rightarrow> (string \<times> time) option \<Rightarrow> proc option" where
  "m6_new_leader replicas leader killedAt current =
     (let survivors = filter (\<lambda>r. pc_name r \<noteq> leader) replicas; said = find pc_acquiredLeadership survivors in
      case current of None \<Rightarrow> said
      | Some (leaderId, acquiredAt) \<Rightarrow> if leaderId \<noteq> leader \<and> killedAt < acquiredAt
          then find (\<lambda>r. pc_name r = leaderId) survivors else said)"

definition m6_ok :: "bool \<Rightarrow> rat \<Rightarrow> bool \<Rightarrow> bool" where
  "m6_ok reclaimedBefore failoverMs reclaimedAfter \<longleftrightarrow> reclaimedBefore \<and> failoverMs < 5000 \<and> reclaimedAfter"

text \<open>\<open>run\<close>: the exit code (none when the command could not be started or was killed) and the output, if any.\<close>

definition run_command :: "string \<Rightarrow> string list \<Rightarrow> bool \<Rightarrow> bool \<Rightarrow> nat option \<times> string option \<Rightarrow> js_error + string option" where
  "run_command cmd args allowFailure quietly result = (case result of (status, stdout) \<Rightarrow>
     if \<not> quietly \<and> stdout = None then Inl (TypeErr (cannot_read ''null'' ''trim''))
     else if status \<noteq> Some 0 \<and> \<not> allowFailure
     then Inl (Err (cmd @ '' '' @ js_join '' '' args @ '' exited with code '' @ (case status of Some n \<Rightarrow> show_nat n | None \<Rightarrow> ''null'')))
     else Inr stdout)"

definition kubectl :: "string list \<Rightarrow> bool \<Rightarrow> nat option \<times> string option \<Rightarrow> js_error + string option" where
  "kubectl args quietly result = run_command ''kubectl'' ([''--context'', ''kind-karyakram-demo''] @ args) False quietly result"

definition m8_leader_pod :: "string list \<Rightarrow> string \<Rightarrow> js_error + string" where
  "m8_leader_pod pods leaderId = (case find (\<lambda>n. n = leaderId) pods of
     None \<Rightarrow> Inl (Err (''could not find pod for leader '' @ leaderId)) | Some n \<Rightarrow> Inr n)"

definition m8_new_leader :: "string \<Rightarrow> time \<Rightarrow> (string \<times> time) option \<Rightarrow> string option" where
  "m8_new_leader leaderId killedAt current = (case current of None \<Rightarrow> None
     | Some (l, acquiredAt) \<Rightarrow> if l \<noteq> leaderId \<and> killedAt < acquiredAt then Some l else None)"

definition m8_chaos1 :: "execution_rows \<Rightarrow> bool" where
  "m8_chaos1 rows \<longleftrightarrow> getTimerWorkflowExecutionCount rows ''before-timer'' = 1 \<and> getTimerWorkflowExecutionCount rows ''after-timer'' = 1"

definition m8_chaos2 :: "string \<Rightarrow> string option \<Rightarrow> bool" where
  "m8_chaos2 leaderId newLeaderId \<longleftrightarrow> newLeaderId \<noteq> None \<and> newLeaderId \<noteq> Some leaderId"

definition m8_exitCode :: "bool \<Rightarrow> bool \<Rightarrow> nat" where
  "m8_exitCode chaos1Pass chaos2Pass = (if chaos1Pass \<and> chaos2Pass then 0 else 1)"

text \<open>
  The second verdict is decided by the wait before it; and the wait compares the clock of the database with
  that of the demo, so a database that is behind hides a failover.
\<close>

lemma m8_chaos2_after_wait: "m8_new_leader leaderId killedAt current = Some l \<Longrightarrow> m8_chaos2 leaderId (Some l)"
  by (auto simp: m8_new_leader_def m8_chaos2_def split: option.splits if_splits)

lemma failover_seen_iff:
  assumes "l \<noteq> leaderId"
  shows "m8_new_leader leaderId killedAt (getCurrentLeader (recordLeadership ck l d)) = Some l \<longleftrightarrow> killedAt < ck_now ck"
  using assms by (simp add: m8_new_leader_def getCurrentLeader_def recordLeadership_def)

lemma m6_finds_recorded:
  assumes "r \<in> set replicas" "distinct (map pc_name replicas)" "pc_name r \<noteq> leader" "killedAt < ck_now ck"
  shows "m6_new_leader replicas leader killedAt (getCurrentLeader (recordLeadership ck (pc_name r) d)) = Some r"
proof -
  have "find (\<lambda>q. pc_name q = pc_name r) (filter (\<lambda>q. pc_name q \<noteq> leader) replicas) = Some r"
    using assms(1-3) by (induction replicas) (auto simp: image_iff)
  then show ?thesis using assms by (simp add: m6_new_leader_def getCurrentLeader_def recordLeadership_def Let_def)
qed

text \<open>A command that is not installed makes \<open>run\<close> fail even where a failure is allowed, as in the teardown.\<close>

lemma missing_command_fails: "\<exists>m. run_command cmd args True False (None, None) = Inl (TypeErr m)"
  by (simp add: run_command_def)

subsection \<open>demo-triage.ts and the exit code of llmChaos.ts\<close>

text \<open>
  The wait for one ticket: each round reads the log, whether the worker process is gone, and the clock.
\<close>

fun triage_wait :: "time \<Rightarrow> string \<Rightarrow> (stored_event list \<times> bool \<times> time) list \<Rightarrow> (js_error + unit) option" where
  "triage_wait deadline workflowId [] = None"
| "triage_wait deadline workflowId ((events, workerExited, t) # obs) = (case foldEvents events of
     Inl e \<Rightarrow> Some (Inl e)
   | Inr state \<Rightarrow>
       if st_status state \<noteq> RUNNING then Some (Inr ())
       else if workerExited then Some (Inl (Err ''worker exited before the workflows finished''))
       else if deadline < t then Some (Inl (Err (''timed out waiting for workflow '' @ workflowId)))
       else triage_wait deadline workflowId obs)"

record triage_report =
  tp_status :: workflow_status
  tp_result :: jsval
  tp_calls :: "string \<rightharpoonup> nat"
  tp_effects :: "string list"
  tp_events :: "string list"

definition triage_report :: "string \<Rightarrow> db \<Rightarrow> js_error + triage_report" where
  "triage_report workflowId d = (let events = getEvents workflowId d in case foldEvents events of
     Inl e \<Rightarrow> Inl e
   | Inr state \<Rightarrow> Inr \<lparr>tp_status = st_status state, tp_result = st_result state,
       tp_calls = countProviderCallsByStep workflowId d,
       tp_effects = map (\<lambda>(w, stepId, kind). stepId @ '':'' @ kind) (listSideEffects workflowId d),
       tp_events = map (\<lambda>e. event_type (event e)) events\<rparr>)"

definition triage_env :: "(string \<rightharpoonup> string) \<Rightarrow> string \<rightharpoonup> string" where
  "triage_env env = env(''LOG_LEVEL'' \<mapsto> ''warn'',
     ''NOTIFY_CONNECTION_STRING'' \<mapsto> or_default (env ''NOTIFY_CONNECTION_STRING'') (or_default (env ''DATABASE_URL'') ''''))"

definition chaos_exitCode :: "chaos_summary \<Rightarrow> nat" where
  "chaos_exitCode summary = (if cs_violations summary = 0 then 0 else 1)"

text \<open>A worker that is gone ends the wait in its first round, unless the ticket is done.\<close>

lemma triage_wait_exited:
  "foldEvents events = Inr state \<Longrightarrow> triage_wait deadline w ((events, True, t) # obs)
     = Some (if st_status state \<noteq> RUNNING then Inr () else Inl (Err ''worker exited before the workflows finished''))"
  by simp

lemma triage_wait_ends:
  "\<exists>x \<in> set obs. deadline < snd (snd x) \<Longrightarrow> triage_wait deadline w obs \<noteq> None"
  by (induction deadline w obs rule: triage_wait.induct) (auto split: sum.splits)

text \<open>The harness reports success when it made no run, for instance for a \<open>CHAOS_RUNS\<close> that is no number.\<close>

lemma no_runs_pass: "chaos_exitCode (summarize [] seed) = 0"
  by (simp add: chaos_exitCode_def summarize_def Let_def)

end
