(* ===== verification/QueueBench.thy ===== *)
theory QueueBench
  imports Demos
begin

section \<open>The benchmark of the queue (bench/src/queueThroughput.ts)\<close>

text \<open>
  The numbers the benchmark prints, from the tables its runs leave, and the times at which the worker of its
  latency phase polls. Its seeds and the environment of its workers are in \<open>Demos\<close>.
\<close>

subsection \<open>The numbers\<close>

definition THROUGHPUT_TASK_COUNT :: nat where
  "THROUGHPUT_TASK_COUNT = 2000"

definition LATENCY_TASK_COUNT :: nat where
  "LATENCY_TASK_COUNT = 15"

definition LATENCY_SATURATION_MS :: rat where
  "LATENCY_SATURATION_MS = 3200"

definition LATENCY_RANDOM_WINDOW_MS :: rat where
  "LATENCY_RANDOM_WINDOW_MS = 4000"

definition bench_percentile :: "rat list \<Rightarrow> nat \<Rightarrow> js_num" where
  "bench_percentile sortedMs p =
     (if length sortedMs = 0 then JNaN
      else let idx = min (int (length sortedMs) - 1) (\<lceil>(of_nat p / 100) * of_nat (length sortedMs) :: rat\<rceil> - 1) in
        num_at sortedMs (nat (max 0 idx)))"

record throughput_result =
  tr_taskCount :: nat
  tr_seconds :: rat
  tr_tasksPerSecond :: "rat option"

text \<open>From when the workers are ready to when as many results are there as tasks; \<open>None\<close> is \<open>Infinity\<close>.\<close>

definition throughput :: "nat \<Rightarrow> time \<Rightarrow> time \<Rightarrow> throughput_result" where
  "throughput n start finish = (let secs = (finish - start) / 1000 in
     \<lparr>tr_taskCount = n, tr_seconds = secs, tr_tasksPerSecond = (if secs = 0 then None else Some (of_nat n / secs))\<rparr>)"

definition bench_done :: "nat \<Rightarrow> result_row list \<Rightarrow> bool" where
  "bench_done n rows \<longleftrightarrow> n \<le> length rows"

text \<open>\<open>bench_results r JOIN tasks t ON t.id = r.task_id ORDER BY wait_ms\<close>\<close>

definition wait_ms :: "task_table \<Rightarrow> result_row \<Rightarrow> rat list" where
  "wait_ms tbl r = (case rs_times r of None \<Rightarrow> []
     | Some (startedAt, finishedAt) \<Rightarrow> map (\<lambda>t. startedAt - t_createdAt t) (filter (\<lambda>t. t_id t = rs_taskId r) (tt_rows tbl)))"

definition bench_waits :: "result_row list \<Rightarrow> task_table \<Rightarrow> rat list" where
  "bench_waits rows tbl = sort (concat (map (wait_ms tbl) rows))"

record latency_result =
  lr_taskCount :: nat
  lr_p50Ms :: js_num
  lr_p95Ms :: js_num
  lr_p99Ms :: js_num

definition latency :: "nat \<Rightarrow> result_row list \<Rightarrow> task_table \<Rightarrow> latency_result" where
  "latency n rows tbl = (let waits = bench_waits rows tbl in
     \<lparr>lr_taskCount = n, lr_p50Ms = bench_percentile waits 50, lr_p95Ms = bench_percentile waits 95, lr_p99Ms = bench_percentile waits 99\<rparr>)"

lemma bench_percentile_same: "bench_percentile xs p = percentile xs p"
  by (simp add: bench_percentile_def percentile_def num_at_def Let_def)

lemma percentile_mono:
  assumes "xs \<noteq> []" "sorted xs" "p \<le> q" "q \<le> 100"
  shows "\<exists>a b. percentile xs p = JFin a \<and> percentile xs q = JFin b \<and> a \<le> b \<and> b \<in> set xs"
proof -
  define idx where "idx p = nat (max 0 (min (int (length xs) - 1) (\<lceil>(of_nat p / 100) * of_nat (length xs) :: rat\<rceil> - 1)))" for p :: nat
  have less: "idx p < length xs" for p using assms(1) by (cases xs) (auto simp: idx_def)
  have at: "percentile xs p = JFin (xs ! idx p)" for p
    using assms(1) less [of p] by (simp add: percentile_def Let_def idx_def js_at_conv)
  have "(of_nat p / 100) * of_nat (length xs) \<le> ((of_nat q / 100) * of_nat (length xs) :: rat)"
    using assms(3) by (intro mult_right_mono divide_right_mono) auto
  then have "\<lceil>(of_nat p / 100) * of_nat (length xs) :: rat\<rceil> \<le> \<lceil>(of_nat q / 100) * of_nat (length xs) :: rat\<rceil>" by (rule ceiling_mono)
  then have "idx p \<le> idx q" unfolding idx_def by (intro nat_mono) auto
  then have "xs ! idx p \<le> xs ! idx q" using assms(2) less by (simp add: sorted_nth_mono)
  then show ?thesis using at less by auto
qed

text \<open>The three numbers of the latency phase are waits of the run, in order.\<close>

lemma latency_ordered:
  assumes "bench_waits rows tbl \<noteq> []"
  shows "\<exists>a b c. lr_p50Ms (latency n rows tbl) = JFin a \<and> lr_p95Ms (latency n rows tbl) = JFin b \<and> lr_p99Ms (latency n rows tbl) = JFin c
    \<and> a \<le> b \<and> b \<le> c \<and> c \<in> set (bench_waits rows tbl)"
proof -
  have s: "sorted (bench_waits rows tbl)" by (simp add: bench_waits_def)
  from percentile_mono [OF assms s, of 50 95] percentile_mono [OF assms s, of 95 99]
  show ?thesis by (auto simp: latency_def Let_def bench_percentile_same)
qed

subsection \<open>The waits before the samples\<close>

text \<open>
  A poll that finds tasks resets the backoff, one that finds none backs off, and the next poll is set after
  the delay this leaves. So the \<open>n\<close>-th poll after work at time \<open>T\<close>, all of them empty, is at \<open>poll_time b T n\<close>.
\<close>

definition poll_time :: "poll_backoff \<Rightarrow> time \<Rightarrow> nat \<Rightarrow> time" where
  "poll_time b T n = T + sum_list (map (\<lambda>k. delayMs ((onEmpty ^^ k) b)) [0..<n])"

lemma poll_time_Suc: "poll_time b T (Suc n) = poll_time b T n + delayMs ((onEmpty ^^ n) b)"
  by (simp add: poll_time_def)

lemma fold_dispatch_fields:
  "wk_backoff (fold dispatch ts w) = wk_backoff w \<and> wk_stopped (fold dispatch ts w) = wk_stopped w
     \<and> wk_timers (fold dispatch ts w) = wk_timers w"
  by (induction ts arbitrary: w) (simp_all add: dispatch_def)

lemma poll_end_delay:
  assumes "\<not> wk_stopped w"
  shows "wk_backoff (poll_end ts w) = (if ts = [] then onEmpty (wk_backoff w) else onWork (wk_backoff w))"
    and "snd (last (wk_timers (poll_end ts w))) = delayMs (wk_backoff (poll_end ts w))"
  using assms by (simp_all add: poll_end_def Let_def scheduleNextPoll_def fold_dispatch_fields)

text \<open>\<open>setTimeout\<close> and \<open>enqueue\<close> taken as instantaneous.\<close>

definition next_enqueue :: "time \<Rightarrow> rat \<Rightarrow> time" where
  "next_enqueue enqueued random = enqueued + (LATENCY_SATURATION_MS + random * LATENCY_RANDOM_WINDOW_MS)"

definition bench_backoff :: poll_backoff where
  "bench_backoff = \<lparr>pb_config = \<lparr>pc_minMs = 100, pc_maxMs = 2000, pc_multiplier = 2\<rparr>, pb_currentMs = 100\<rparr>"

lemma bench_backoff_new: "new_PollBackoff num \<lparr>pc_minMs = 100, pc_maxMs = 2000, pc_multiplier = 2\<rparr> = Inr bench_backoff"
  by (simp add: new_PollBackoff_def bench_backoff_def)

lemma bench_delay: "delayMs ((onEmpty ^^ n) bench_backoff) = min (100 * 2 ^ n) 2000"
  using onEmpty_times [OF bench_backoff_new, of n] by (simp add: delayMs_def)

lemma bench_delay_saturated: "delayMs ((onEmpty ^^ n) bench_backoff) = 2000 \<longleftrightarrow> 5 \<le> n"
proof -
  have "(2000 :: rat) \<le> 100 * 2 ^ n" if "5 \<le> n"
    using power_increasing [OF that, of "2 :: rat"] by simp
  moreover have "(100 :: rat) * 2 ^ n < 2000" if "n < 5"
    using power_increasing [of n 4 "2 :: rat"] that by simp
  ultimately show ?thesis unfolding bench_delay by (cases "5 \<le> n") auto
qed

text \<open>The 3100 ms of the comment: from then on the worker polls every 2000 ms.\<close>

lemma saturation_time:
  "poll_time bench_backoff T 5 = T + 3100" "poll_time bench_backoff T (5 + n) = T + 3100 + 2000 * of_nat n"
proof -
  show five: "poll_time bench_backoff T 5 = T + 3100"
    by (simp add: poll_time_def bench_delay eval_nat_numeral)
  show "poll_time bench_backoff T (5 + n) = T + 3100 + 2000 * of_nat n"
  proof (induction n)
    case (Suc n)
    have "poll_time bench_backoff T (5 + Suc n) = poll_time bench_backoff T (5 + n) + delayMs ((onEmpty ^^ (5 + n)) bench_backoff)"
      unfolding add_Suc_right by (rule poll_time_Suc)
    also have "delayMs ((onEmpty ^^ (5 + n)) bench_backoff) = 2000" using bench_delay_saturated [of "5 + n"] by simp
    finally show ?case using Suc by (simp add: algebra_simps)
  qed (use five in simp)
qed

text \<open>
  The wait before a sample starts when the task before it was enqueued, not when it was leased: only if that
  task waited at most 100 ms and what chance added has the backoff reached its ceiling by the next sample.
\<close>

theorem latency_saturated_iff:
  "poll_time bench_backoff (enqueued + waited) 5 \<le> next_enqueue enqueued random \<longleftrightarrow> waited \<le> 100 + 4000 * random"
  unfolding saturation_time next_enqueue_def LATENCY_SATURATION_MS_def LATENCY_RANDOM_WINDOW_MS_def by auto

text \<open>
  The first two samples of a worker whose first poll is at 0, without chance: the first task waits 1800 ms
  and is leased at 5000 ms; the second comes while the worker still polls every 800 ms and waits 100 ms.
\<close>

theorem second_sample_not_saturated:
  "let e1 = next_enqueue 0 0; e2 = next_enqueue e1 0 in
     poll_time (onEmpty bench_backoff) 0 4 < e1 \<and> e1 + 1800 = poll_time (onEmpty bench_backoff) 0 5
   \<and> poll_time bench_backoff 5000 3 < e2 \<and> e2 + 100 = poll_time bench_backoff 5000 4
   \<and> delayMs ((onEmpty ^^ 3) bench_backoff) = 800"
  by code_simp

end
