(* ===== verification/Spec2Isabelle.thy ===== *)
theory Spec2Isabelle
  imports ReplayBound Spans Metrics Cluster LlmConfigProps EventStreamProps Requests DebugProps Shell QueueBench
begin

text \<open>
  KaryaKram is a durable workflow engine on Postgres: a workflow is an ordinary function whose calls
  (activities, timers, signals, LLM and tool steps) are recorded in an append-only log, and which is
  run again from the top over that log whenever something happened. This library models the engine's
  core from the TypeScript sources and proves what makes it correct. All names of definitions are those
  of the code where Isabelle allows them.

  \<^bold>\<open>The program.\<close> Processes share nothing but the database. A client starts, signals and cancels workflows
  (packages/worker-sdk/src/startWorkflow.ts, sendSignal.ts, cancelWorkflow.ts); every append of an event
  (packages/db/src/eventStore.ts) enqueues, in the same transaction, the tasks the event asks for and a
  workflow task. Workers (worker.ts) lease tasks (packages/db/src/queue.ts), run the handler of their
  type and complete or fail the task. The workflow handler replays the function
  (packages/core/src/replay.ts) and appends its commands as events; the other handlers run an activity,
  fire a timer, call an LLM provider or execute a tool, and append the outcome. A scheduler elects a
  leader (packages/scheduler) whose reaper puts expired leases back. The API streams a log to the
  debugger (packages/api, packages/web), which folds it to a state (packages/core/src/workflow.ts).

  \<^bold>\<open>Which theory models what.\<close>
    \<^item> \<open>Prelude\<close>, \<open>Unicode\<close>, \<open>JsValue\<close>: strings as UTF-8 bytes, reads past the end of an array, thrown
      exceptions as values of a sum, JavaScript values and \<open>JSON.stringify\<close>. \<open>Canonical\<close>, \<open>Llm\<close>:
      core/src/llm.ts, the canonical text that request hashes are computed over.
    \<^item> \<open>Workflow\<close>: core/src/workflow.ts, the events, \<open>applyEvent\<close> and \<open>foldEvents\<close>; its four tables are
      instances of one locale (\<open>keyed_table\<close>).
    \<^item> \<open>Replay\<close>: core/src/replay.ts. A workflow function is a tree of calls, awaits and ticks; a pass is
      \<open>drain\<close>. Its four kinds of recorded calls are instances of the locale \<open>call_stream\<close>
      (\<open>ReplayProps\<close>); divergence is in \<open>ReplayDiverge\<close>, recording in \<open>ReplayRecord\<close>, the tick bound in
      \<open>ReplayBound\<close>, growing histories in \<open>ReplayStable\<close> and \<open>ReplayOrder\<close>. \<open>Direct\<close>: the reference
      for it, a function run once, from the top, in a world that answers every call.
    \<^item> \<open>Backoff\<close>, \<open>Tasks\<close>: db/src/backoff.ts, queue.ts, dlq.ts and worker-sdk/src/backoff.ts, one
      definition per SQL statement; \<open>TaskInv\<close>, \<open>TaskProps\<close> (locale \<open>fencing\<close>).
    \<^item> \<open>Store\<close>: the tables as one record, transaction.ts, eventStore.ts, workflowExecutions.ts,
      toolStore.ts, providerAudit.ts, leadership.ts; \<open>StoreInv\<close>, \<open>StoreProps\<close> (locale \<open>event_log\<close>).
    \<^item> \<open>LlmConfig\<close>, \<open>LlmConfigProps\<close>: worker-sdk/src/llmConfig.ts, what is stored of prompts and answers.
      \<open>Providers\<close>: packages/llm, the providers, hashes, prices and error mapping.
    \<^item> \<open>Handlers\<close> (workflow, activity and timer handlers, fencing.ts) with \<open>HandlerProps\<close> and
      \<open>HandlerRaces\<close>; \<open>StepHandlers\<close> (tools.ts, toolHandler.ts, llmHandler.ts) with \<open>ToolProps\<close>,
      \<open>ToolSteps\<close>, \<open>LlmHandlerProps\<close>, \<open>StepRetry\<close>; \<open>Examples\<close>: the workflows and tools of
      worker-sdk/src/examples.
    \<^item> \<open>Worker\<close>, \<open>WorkerProps\<close>: config.ts and worker.ts as a step relation on (worker, queue).
      \<open>Scheduler\<close>, \<open>SchedulerProps\<close>: reaper.ts, leaderElection.ts, scheduler.ts. \<open>Cluster\<close>: several
      replicas of the scheduler and the advisory lock of db/src/leadership.ts.
    \<^item> \<open>Metrics\<close>: observability/src/metrics.ts and the calls worker, reaper and scheduler make on it.
      \<open>Spans\<close>: observability/src/tracing.ts, stepSpans.ts and the spans of the handlers.
    \<^item> \<open>EventStream\<close>, \<open>EventStreamProps\<close>: the routes and the stream of api/src/server.ts and the hook
      web/src/useWorkflowEvents.ts. \<open>DebugView\<close>, \<open>DebugProps\<close>: web/src/llmView.ts, DagView.tsx and the
      page of a workflow. \<open>Shell\<close>: web/src/App.tsx, WorkflowList.tsx and api.ts.
    \<^item> \<open>System\<close>, \<open>SystemInv\<close>, \<open>SystemProps\<close>: all processes on one database. \<open>sys_step\<close> is a client's
      operation, a run of any handler (settled, or killed at a commit), a statement on the queue; inside
      a run any sequence of other steps may be committed. \<open>CalmSystem\<close>: the same steps where replays of
      one workflow do not overlap. \<open>Progress\<close>: what a workflow can wait for in them, and that its
      requests come to an end. \<open>Requests\<close>: what the LLM worker derives for an open step at any later time. (Theorems about \<open>calm_step\<close> hold under that condition and for one version
      of the code of a workflow; without it they fail, see \<open>overlapping_replays_break_log\<close>.)
    \<^item> \<open>Chaos\<close>, \<open>ChaosProps\<close>: worker-sdk/src/faults.ts and the plan, the verdict and the summary of
      chaos/chaosRunner.ts. \<open>Bench\<close>: the statistics and the histories of bench/src/llmBench.ts.
    \<^item> \<open>Demos\<close>: the seeds, waits and verdicts of the demo programs in worker-sdk/src/bin and
      scheduler/src/bin, and the process of run-scheduler.ts. \<open>QueueBench\<close>: the numbers of
      bench/src/queueThroughput.ts.
    \<^item> \<open>Apps\<close>, \<open>AppProps\<close>: the processes of worker-sdk/src/bin, what they make of the environment and of
      signals, db/src/pool.ts and notify.ts.

  \<^bold>\<open>State and effects.\<close> A statement on the database is a function of the record \<open>db\<close>; a function that may
  throw returns the database and a sum. \<open>withTransaction\<close> undoes all but the id sequence. A handler reads
  the history first and writes in a later transaction: what others commit between is an argument
  (\<open>between\<close>, \<open>gap\<close>). \<open>clock\<close> holds the clocks; times are rationals in milliseconds.

  \<^bold>\<open>What the theorems show.\<close>
    \<^item> Requests: logically equal requests have one hashed text, unchanged by the store.
    \<^item> Replay: exactly the calls beyond the record become commands; recorded calls get their recorded
      outcomes; divergence is detected exactly; a pass over its own recorded commands asks for nothing; a
      replay ends as the direct execution does in the world its history describes.
    \<^item> Queue: the table stays well formed, due tasks are leased in order, a lost fence is never regained,
      failures are retried within the bounds or dead-lettered.
    \<^item> Store and handlers: an append adds exactly its events and tasks or nothing; outcomes of durable
      steps are written by the owner of the lease once; tools take effect exactly once; an LLM worker
      sends only the recorded request and reaches an outcome within the attempts that run to their end.
    \<^item> System: an invariant of every reachable state, from which no step is lost, completed tools have one
      effect, outcomes are final, the debugger shows the log, and a quiet queue means settled steps. While
      replays of one workflow and runs of one activity do not overlap, unchanged code never diverges, later replays repeat the calls
      and the results of earlier ones, the recorded requests are the calls of the code and come to an end,
      and a workflow with nothing open waits only for signals (a lost wake-up and the drain limit aside).
    \<^item> Processes: every step a workflow of an application asks for has a worker in its process. Of several
      schedulers at most one is leader with a live session.
    \<^item> Demos: an activity whose outcome is in the log is never run again, which two demos show for one run;
      what the verdict of demo.ts and the samples of the queue benchmark do and do not say.
    \<^item> Observability: the counters of a worker add up to the tasks it leased; the spans of replayed steps
      are exactly the calls served from the record.
    \<^item> Where the code does not keep such a promise, the failure is a theorem too (unfenced activities and
      replays, lost wake-ups, revived fences, a reaper that does not restart, polls that pile up, one entry for two runs of a task, two
      leaders when a connection is lost while the leadership row is written, a stale depth gauge, a list
      of workflows that one failed request takes down).

  \<^bold>\<open>Bounds and fuel.\<close> No definition has fuel of its own: \<open>drain\<close> counts the 1000 ticks of the code
  (\<open>MAX_DRAIN_TICKS\<close>), and \<open>drain_bound\<close> shows what they are enough for. All other recursions are
  structural or have a measure. Bit operations of the chaos generator are on \<open>32 word\<close>.

  \<^bold>\<open>Parameters.\<close> sha256, the JSON-Schema compiler, the Anthropic SDK, \<open>JSON.parse\<close> of its answers and the
  redaction expressions are not under src/ or are host functions: they are arguments. Workflow functions,
  activities and tools are the user's: any function of the model's type.

  \<^bold>\<open>Not modelled.\<close> Concurrent branches inside one workflow function (\<open>Promise.all\<close>); the row locks of
  Postgres other than as an argument of the statements; log lines, prom-client and the tracer and
  exporter of OpenTelemetry, which feed nothing back; pg_notify, which only shortens a poll;
  HTTP, markup and React; migrations; the spawning and killing of processes in demos, benchmarks and the
  chaos harness, and what they print; \<open>defineWorkflow\<close> and
  \<open>defineActivity\<close>, which return their arguments. Lone surrogates and NUL characters in strings; \<open>NaN\<close> as a number of a configuration. An error that
  \<open>fail\<close> itself throws in the \<open>catch\<close> of a run (an unhandled rejection).
\<close>

end
